(* ===== verification/Prelude.thy ===== *)
theory Prelude
  imports Main "HOL-Library.Word" "HOL-Library.Char_ord" "HOL-Library.List_Lexorder"
    "HOL-Library.Code_Target_Nat"
begin

text \<open>
  Shared vocabulary of the development: result and command combinators that model C++ exceptions
  and mutable state, the fixed-width integer conversions of the code, decimal and hexadecimal
  printing (\<open>std::to_string\<close>, \<open>%d\<close>, \<open>%04x\<close>), \<open>atoi\<close>, and the association lists that stand for
  \<open>std::map\<close> and \<open>std::unordered_map\<close>.

  Byte strings are \<open>string\<close> (a \<open>char\<close> is one byte).
\<close>

section \<open>Collections of simplification facts\<close>

named_theorems result_simps \<open>evaluation of the result and command combinators\<close>
named_theorems cint_simps \<open>fixed-width integer conversions\<close>

section \<open>Results: a value or a C++ exception\<close>

definition bindR :: "'e + 'a \<Rightarrow> ('a \<Rightarrow> 'e + 'b) \<Rightarrow> 'e + 'b" where
  "bindR r f = (case r of Inl e \<Rightarrow> Inl e | Inr x \<Rightarrow> f x)"

lemma bindR_simps [simp, result_simps]:
  "bindR (Inl e) f = Inl e"
  "bindR (Inr x) f = f x"
  by (simp_all add: bindR_def)

lemma bindR_cong [fundef_cong]:
  assumes "r = r'" and "\<And>x. r' = Inr x \<Longrightarrow> f x = f' x"
  shows "bindR r f = bindR r' f'"
  using assms by (cases r') (simp_all)

lemma bindR_eq_Inr: "bindR r f = Inr y \<longleftrightarrow> (\<exists>x. r = Inr x \<and> f x = Inr y)"
  by (cases r) auto

lemma bindR_eq_Inl: "bindR r f = Inl e \<longleftrightarrow> r = Inl e \<or> (\<exists>x. r = Inr x \<and> f x = Inl e)"
  by (cases r) auto

lemma bindR_assoc: "bindR (bindR r f) g = bindR r (\<lambda>x. bindR (f x) g)"
  by (cases r) auto

definition mapR :: "('a \<Rightarrow> 'b) \<Rightarrow> 'e + 'a \<Rightarrow> 'e + 'b" where
  "mapR f r = (case r of Inl e \<Rightarrow> Inl e | Inr x \<Rightarrow> Inr (f x))"

lemma mapR_simps [simp, result_simps]:
  "mapR f (Inl e) = Inl e"
  "mapR f (Inr x) = Inr (f x)"
  by (simp_all add: mapR_def)

lemma mapR_eq_Inr: "mapR f r = Inr y \<longleftrightarrow> (\<exists>x. r = Inr x \<and> y = f x)"
  by (cases r) auto

text \<open>A loop over a list whose body may throw (\<open>std::transform\<close> with a throwing conversion).\<close>

fun traverseR :: "('a \<Rightarrow> 'e + 'b) \<Rightarrow> 'a list \<Rightarrow> 'e + 'b list" where
  "traverseR f [] = Inr []"
| "traverseR f (x # xs) = bindR (f x) (\<lambda>y. mapR (\<lambda>ys. y # ys) (traverseR f xs))"

lemma traverseR_all:
  "(\<And>x. x \<in> set xs \<Longrightarrow> f x = Inr (g x)) \<Longrightarrow> traverseR f xs = Inr (map g xs)"
  by (induction xs) auto

section \<open>Commands: mutable state and exceptions\<close>

text \<open>
  A C++ statement that updates state and may throw. State changes made before the throw stay, as
  they do in the program.
\<close>

type_synonym ('s, 'e, 'a) cmd = "'s \<Rightarrow> ('e + 'a) \<times> 's"

definition returnC :: "'a \<Rightarrow> ('s, 'e, 'a) cmd" where
  "returnC x = (\<lambda>s. (Inr x, s))"

definition throwC :: "'e \<Rightarrow> ('s, 'e, 'a) cmd" where
  "throwC e = (\<lambda>s. (Inl e, s))"

definition bindC :: "('s, 'e, 'a) cmd \<Rightarrow> ('a \<Rightarrow> ('s, 'e, 'b) cmd) \<Rightarrow> ('s, 'e, 'b) cmd" where
  "bindC m f = (\<lambda>s. case m s of (Inl e, s') \<Rightarrow> (Inl e, s') | (Inr x, s') \<Rightarrow> f x s')"

definition seqC :: "('s, 'e, 'a) cmd \<Rightarrow> ('s, 'e, 'b) cmd \<Rightarrow> ('s, 'e, 'b) cmd" where
  "seqC m n = bindC m (\<lambda>_. n)"

definition liftR :: "'e + 'a \<Rightarrow> ('s, 'e, 'a) cmd" where
  "liftR r = (\<lambda>s. (r, s))"

definition getC :: "('s \<Rightarrow> 'a) \<Rightarrow> ('s, 'e, 'a) cmd" where
  "getC f = (\<lambda>s. (Inr (f s), s))"

definition modifyC :: "('s \<Rightarrow> 's) \<Rightarrow> ('s, 'e, unit) cmd" where
  "modifyC f = (\<lambda>s. (Inr (), f s))"

definition whenC :: "bool \<Rightarrow> ('s, 'e, unit) cmd \<Rightarrow> ('s, 'e, unit) cmd" where
  "whenC b m = (if b then m else returnC ())"

fun forC :: "'a list \<Rightarrow> ('a \<Rightarrow> ('s, 'e, unit) cmd) \<Rightarrow> ('s, 'e, unit) cmd" where
  "forC [] body = returnC ()"
| "forC (x # xs) body = seqC (body x) (forC xs body)"

text \<open>A destructor that runs at the end of a scope, also when an exception leaves it.\<close>

definition finallyC :: "('s, 'e, 'a) cmd \<Rightarrow> ('s \<Rightarrow> 's) \<Rightarrow> ('s, 'e, 'a) cmd" where
  "finallyC m f = (\<lambda>s. (fst (m s), f (snd (m s))))"

lemma cmd_run [simp, result_simps]:
  "returnC x s = (Inr x, s)"
  "throwC e s = (Inl e, s)"
  "liftR r s = (r, s)"
  "getC f s = (Inr (f s), s)"
  "modifyC g s = (Inr (), g s)"
  by (simp_all add: returnC_def throwC_def liftR_def getC_def modifyC_def)

lemma bindC_run [result_simps]:
  "bindC m f s = (case fst (m s) of Inl e \<Rightarrow> (Inl e, snd (m s)) | Inr x \<Rightarrow> f x (snd (m s)))"
  by (auto simp: bindC_def split: prod.splits sum.splits)

lemma bindC_Inr: "m s = (Inr x, s') \<Longrightarrow> bindC m f s = f x s'"
  by (simp add: bindC_def)

lemma bindC_Inl: "m s = (Inl e, s') \<Longrightarrow> bindC m f s = (Inl e, s')"
  by (simp add: bindC_def)

lemma bindC_prim [simp]:
  "bindC (returnC x) f = f x"
  "bindC (throwC e) f = throwC e"
  "bindC (getC g) f s = f (g s) s"
  "bindC (modifyC h) f' s = f' () (h s)"
  "bindC (liftR (Inr x)) f = f x"
  "bindC (liftR (Inl e)) f = throwC e"
  by (auto simp: bindC_def)

lemma seqC_run [result_simps]:
  "seqC m n s = (case fst (m s) of Inl e \<Rightarrow> (Inl e, snd (m s)) | Inr x \<Rightarrow> n (snd (m s)))"
  by (simp add: seqC_def bindC_run)

lemma seqC_Inr: "m s = (Inr x, s') \<Longrightarrow> seqC m n s = n s'"
  by (simp add: seqC_def bindC_def)

lemma seqC_Inl: "m s = (Inl e, s') \<Longrightarrow> seqC m n s = (Inl e, s')"
  by (simp add: seqC_def bindC_def)

lemma whenC_simps [simp, result_simps]:
  "whenC True m = m"
  "whenC False m = returnC ()"
  by (simp_all add: whenC_def)

text \<open>
  A predicate on states that a command keeps on every path, including the paths that throw.
\<close>

definition preserves :: "('s \<Rightarrow> bool) \<Rightarrow> ('s, 'e, 'a) cmd \<Rightarrow> bool" where
  "preserves P m \<longleftrightarrow> (\<forall>s. P s \<longrightarrow> P (snd (m s)))"

lemma preservesI: "(\<And>s. P s \<Longrightarrow> P (snd (m s))) \<Longrightarrow> preserves P m"
  by (simp add: preserves_def)

lemma preservesD: "preserves P m \<Longrightarrow> P s \<Longrightarrow> P (snd (m s))"
  by (simp add: preserves_def)

named_theorems preserves_intros \<open>invariant preservation of commands\<close>

lemma preserves_basic [preserves_intros]:
  "preserves P (returnC x)"
  "preserves P (throwC e)"
  "preserves P (liftR r)"
  "preserves P (getC f)"
  by (simp_all add: preserves_def)

lemma preserves_bindC [preserves_intros]:
  "preserves P m \<Longrightarrow> (\<And>x. preserves P (f x)) \<Longrightarrow> preserves P (bindC m f)"
  by (auto simp: preserves_def bindC_run split: sum.splits)

lemma preserves_seqC [preserves_intros]:
  "preserves P m \<Longrightarrow> preserves P n \<Longrightarrow> preserves P (seqC m n)"
  by (simp add: seqC_def preserves_bindC)

lemma preserves_whenC [preserves_intros]:
  "(b \<Longrightarrow> preserves P m) \<Longrightarrow> preserves P (whenC b m)"
  by (cases b) (simp_all add: preserves_def)

lemma preserves_if [preserves_intros]:
  "(b \<Longrightarrow> preserves P m) \<Longrightarrow> (\<not> b \<Longrightarrow> preserves P n) \<Longrightarrow> preserves P (if b then m else n)"
  by simp

lemma preserves_case_option [preserves_intros]:
  "(x = None \<Longrightarrow> preserves P m) \<Longrightarrow> (\<And>y. x = Some y \<Longrightarrow> preserves P (f y))
   \<Longrightarrow> preserves P (case x of None \<Rightarrow> m | Some y \<Rightarrow> f y)"
  by (cases x) simp_all

lemma preserves_case_prod [preserves_intros]:
  "(\<And>a b. x = (a, b) \<Longrightarrow> preserves P (f a b)) \<Longrightarrow> preserves P (case x of (a, b) \<Rightarrow> f a b)"
  by (cases x) simp

lemma preserves_forC [preserves_intros]:
  "(\<And>x. x \<in> set xs \<Longrightarrow> preserves P (body x)) \<Longrightarrow> preserves P (forC xs body)"
  by (induction xs) (auto intro: preserves_intros)

lemma preserves_finallyC:
  "preserves P m \<Longrightarrow> (\<And>s. P s \<Longrightarrow> P (f s)) \<Longrightarrow> preserves P (finallyC m f)"
  by (simp add: preserves_def finallyC_def)

lemma preserves_modifyC: "(\<And>s. P s \<Longrightarrow> P (f s)) \<Longrightarrow> preserves P (modifyC f)"
  by (simp add: preserves_def)

section \<open>Fixed-width integers\<close>

text \<open>
  \<open>int\<close> is 32 bits and two's complement, \<open>std::int64_t\<close>/\<open>std::uint64_t\<close> are the JSON number types.
  A conversion to a narrower or differently signed type is reduction modulo \<open>2^w\<close>.
\<close>

definition to_int32 :: "int \<Rightarrow> int" where
  "to_int32 x = (x + 2 ^ 31) mod 2 ^ 32 - 2 ^ 31"

definition to_int64 :: "int \<Rightarrow> int" where
  "to_int64 x = (x + 2 ^ 63) mod 2 ^ 64 - 2 ^ 63"

definition to_uint64 :: "int \<Rightarrow> int" where
  "to_uint64 x = x mod 2 ^ 64"

definition is_int32 :: "int \<Rightarrow> bool" where
  "is_int32 x \<longleftrightarrow> - (2 ^ 31) \<le> x \<and> x < 2 ^ 31"

definition is_int64 :: "int \<Rightarrow> bool" where
  "is_int64 x \<longleftrightarrow> - (2 ^ 63) \<le> x \<and> x < 2 ^ 63"

definition is_uint64 :: "int \<Rightarrow> bool" where
  "is_uint64 x \<longleftrightarrow> 0 \<le> x \<and> x < 2 ^ 64"

lemma to_int32_id [cint_simps]: "is_int32 x \<Longrightarrow> to_int32 x = x"
  by (simp add: to_int32_def is_int32_def)

lemma to_int64_id [cint_simps]: "is_int64 x \<Longrightarrow> to_int64 x = x"
  by (simp add: to_int64_def is_int64_def)

lemma is_int32_to_int32 [simp]: "is_int32 (to_int32 x)"
proof -
  have "0 \<le> (x + 2 ^ 31) mod 2 ^ 32" and "(x + 2 ^ 31) mod 2 ^ 32 < 2 ^ 32"
    by simp_all
  then show ?thesis by (simp add: is_int32_def to_int32_def)
qed

lemma is_int64_to_int64 [simp]: "is_int64 (to_int64 x)"
proof -
  have "0 \<le> (x + 2 ^ 63) mod 2 ^ 64" and "(x + 2 ^ 63) mod 2 ^ 64 < 2 ^ 64"
    by simp_all
  then show ?thesis by (simp add: is_int64_def to_int64_def)
qed

lemma is_int32_is_int64: "is_int32 x \<Longrightarrow> is_int64 x"
  by (simp add: is_int32_def is_int64_def)

section \<open>Bytes\<close>

text \<open>A literal with characters outside ASCII is given by its UTF-8 bytes.\<close>

definition bytes :: "nat list \<Rightarrow> string" where
  "bytes bs = map char_of bs"

text \<open>The single quote.\<close>

definition squote :: string where
  "squote = [CHR 0x27]"

section \<open>Digits\<close>

definition digit_char :: "nat \<Rightarrow> char" where
  "digit_char d = char_of (48 + d)"

definition is_digit :: "char \<Rightarrow> bool" where
  "is_digit c \<longleftrightarrow> 48 \<le> (of_char c :: nat) \<and> (of_char c :: nat) \<le> 57"

definition digit_val :: "char \<Rightarrow> nat" where
  "digit_val c = of_char c - 48"

lemma of_char_digit_char: "d < 10 \<Longrightarrow> (of_char (digit_char d) :: nat) = 48 + d"
  by (simp add: digit_char_def)

lemma is_digit_digit_char [simp]: "d < 10 \<Longrightarrow> is_digit (digit_char d)"
  by (simp add: is_digit_def of_char_digit_char)

lemma digit_val_digit_char [simp]: "d < 10 \<Longrightarrow> digit_val (digit_char d) = d"
  by (simp add: digit_val_def of_char_digit_char)

lemma digit_char_digit_val: "is_digit c \<Longrightarrow> digit_char (digit_val c) = c"
  by (simp add: is_digit_def digit_val_def digit_char_def)

lemma digit_val_less: "is_digit c \<Longrightarrow> digit_val c < 10"
  by (auto simp: is_digit_def digit_val_def)

text \<open>Decimal printing: \<open>std::to_string\<close> and the \<open>%d\<close> conversion.\<close>

fun show_nat :: "nat \<Rightarrow> string" where
  "show_nat n = (if n < 10 then [digit_char n] else show_nat (n div 10) @ [digit_char (n mod 10)])"

declare show_nat.simps [simp del]

definition show_int :: "int \<Rightarrow> string" where
  "show_int i = (if i < 0 then CHR ''-'' # show_nat (nat (- i)) else show_nat (nat i))"

definition read_digits :: "nat \<Rightarrow> string \<Rightarrow> nat" where
  "read_digits acc cs = foldl (\<lambda>a c. 10 * a + digit_val c) acc cs"

lemma read_digits_Nil [simp]: "read_digits a [] = a"
  by (simp add: read_digits_def)

lemma read_digits_Cons [simp]: "read_digits a (c # cs) = read_digits (10 * a + digit_val c) cs"
  by (simp add: read_digits_def)

lemma read_digits_append: "read_digits a (xs @ ys) = read_digits (read_digits a xs) ys"
  by (simp add: read_digits_def)

lemma show_nat_digits: "\<forall>c \<in> set (show_nat n). is_digit c"
proof (induction n rule: show_nat.induct)
  case (1 n)
  then show ?case by (cases "n < 10") (auto simp: show_nat.simps [of n])
qed

lemma takeWhile_show_nat [simp]: "takeWhile is_digit (show_nat n) = show_nat n"
  using show_nat_digits by (simp only: takeWhile_eq_all_conv)

lemma show_nat_nonempty [simp]: "show_nat n \<noteq> []"
  by (subst show_nat.simps) simp

lemma read_digits_show_nat: "read_digits 0 (show_nat n) = n"
proof (induction n rule: show_nat.induct)
  case (1 n)
  show ?case
  proof (cases "n < 10")
    case True
    then show ?thesis by (simp add: show_nat.simps [of n])
  next
    case False
    with "1.IH" have "read_digits 0 (show_nat (n div 10)) = n div 10" by simp
    with False show ?thesis
      by (simp add: show_nat.simps [of n] read_digits_append mult.commute)
  qed
qed

lemma show_nat_inject: "show_nat m = show_nat n \<Longrightarrow> m = n"
  by (metis read_digits_show_nat)

lemma hd_show_nat_nonzero: "0 < n \<Longrightarrow> hd (show_nat n) \<noteq> CHR ''0''"
proof (induction n rule: show_nat.induct)
  case (1 n)
  show ?case
  proof (cases "n < 10")
    case True
    with "1.prems" have "(of_char (digit_char n) :: nat) \<noteq> of_char (CHR ''0'')"
      by (simp add: of_char_digit_char)
    with True show ?thesis by (auto simp: show_nat.simps [of n])
  next
    case False
    then show ?thesis using "1.IH" by (simp add: show_nat.simps [of n])
  qed
qed

lemma show_nat_0: "show_nat 0 = ''0''"
  by code_simp

lemma length_show_nat_small: "x < 10 \<Longrightarrow> length (show_nat x) = 1"
  by (simp add: show_nat.simps)

lemma length_show_nat_step: "10 \<le> x \<Longrightarrow> length (show_nat x) = Suc (length (show_nat (x div 10)))"
  by (simp add: show_nat.simps [of x])

lemma length_show_nat_le: "x < 10 ^ n \<Longrightarrow> 0 < n \<Longrightarrow> length (show_nat x) \<le> n"
proof (induction n arbitrary: x)
  case (Suc n)
  show ?case
  proof (cases "x < 10")
    case False
    with Suc.prems have "0 < n" by (cases n) auto
    moreover have "x div 10 < 10 ^ n" using Suc.prems by (simp add: less_mult_imp_div_less mult.commute)
    ultimately show ?thesis using Suc.IH [of "x div 10"] False by (simp add: length_show_nat_step)
  qed (simp add: length_show_nat_small)
qed simp

lemma length_show_int_32: "is_int32 i \<Longrightarrow> length (show_int i) \<le> 11"
proof (cases "i < 0")
  case True
  assume "is_int32 i"
  with True have "nat (- i) < 10 ^ 10" by (simp add: is_int32_def)
  then have "length (show_nat (nat (- i))) \<le> 10" by (rule length_show_nat_le) simp
  with True show ?thesis by (simp add: show_int_def)
next
  case False
  assume "is_int32 i"
  with False have "nat i < 10 ^ 10" by (simp add: is_int32_def)
  then have "length (show_nat (nat i)) \<le> 10" by (rule length_show_nat_le) simp
  with False show ?thesis by (simp add: show_int_def)
qed

lemma show_int_inject: "show_int a = show_int b \<Longrightarrow> a = b"
proof -
  assume eq: "show_int a = show_int b"
  have no_minus: "hd (show_nat n) \<noteq> CHR ''-''" for n
    using show_nat_digits [of n] by (cases "show_nat n") (auto simp: is_digit_def)
  have hd_cons: "x # xs = show_nat n \<Longrightarrow> hd (show_nat n) = x" for x xs n
    by (cases "show_nat n") auto
  have clash: "CHR ''-'' # xs \<noteq> show_nat n" for xs n
    using no_minus [of n] hd_cons by metis
  have "a < 0 \<longleftrightarrow> b < 0"
    using eq clash clash [symmetric] by (auto simp: show_int_def split: if_splits)
  with eq show "a = b"
    by (auto simp: show_int_def dest!: show_nat_inject split: if_splits)
qed

subsection \<open>\<open>atoi\<close>\<close>

text \<open>
  \<open>atoi\<close> is \<open>(int) strtol(s, NULL, 10)\<close>: leading white space and one sign are skipped, digits are
  read up to the first other character, the value saturates at the 64-bit \<open>long\<close> limits and is then
  truncated to 32 bits.
\<close>

definition is_space :: "char \<Rightarrow> bool" where
  "is_space c \<longleftrightarrow> (of_char c :: nat) = 32 \<or> 9 \<le> (of_char c :: nat) \<and> (of_char c :: nat) \<le> 13"

definition clamp_long :: "int \<Rightarrow> int" where
  "clamp_long x = max (- (2 ^ 63)) (min (2 ^ 63 - 1) x)"

definition strtol :: "string \<Rightarrow> int" where
  "strtol s =
     (let t = dropWhile is_space s in
      case t of
        [] \<Rightarrow> 0
      | c # cs \<Rightarrow>
          if c = CHR ''-'' then clamp_long (- int (read_digits 0 (takeWhile is_digit cs)))
          else if c = CHR ''+'' then clamp_long (int (read_digits 0 (takeWhile is_digit cs)))
          else clamp_long (int (read_digits 0 (takeWhile is_digit t))))"

definition atoi :: "string \<Rightarrow> int" where
  "atoi s = to_int32 (strtol s)"

lemma is_int32_atoi [simp]: "is_int32 (atoi s)"
  by (simp add: atoi_def)

lemma digit_not_space: "is_digit c \<Longrightarrow> \<not> is_space c"
  by (auto simp: is_digit_def is_space_def)

lemma strtol_show_int:
  assumes "is_int64 i"
  shows "strtol (show_int i) = i"
proof (cases "i < 0")
  case True
  then have "strtol (show_int i) = clamp_long (- int (nat (- i)))"
    by (simp add: strtol_def show_int_def is_space_def read_digits_show_nat)
  with True assms show ?thesis
    by (simp add: clamp_long_def is_int64_def)
next
  case False
  obtain c cs where cs: "show_nat (nat i) = c # cs"
    by (cases "show_nat (nat i)") auto
  then have dig: "is_digit c" "\<forall>x \<in> set cs. is_digit x"
    using show_nat_digits [of "nat i"] by auto
  have tw: "takeWhile is_digit (c # cs) = show_nat (nat i)"
    by (simp only: cs [symmetric] takeWhile_show_nat)
  have "c \<noteq> CHR ''-''" "c \<noteq> CHR ''+''" "\<not> is_space c"
    using dig(1) by (auto simp: is_digit_def is_space_def)
  then have "strtol (show_int i) = clamp_long (int (read_digits 0 (takeWhile is_digit (c # cs))))"
    using False cs by (simp add: strtol_def show_int_def)
  also have "\<dots> = clamp_long i"
    using False by (simp only: tw read_digits_show_nat) simp
  finally show ?thesis
    using assms by (simp add: clamp_long_def is_int64_def)
qed

lemma atoi_show_int: "is_int32 i \<Longrightarrow> atoi (show_int i) = i"
  by (simp add: atoi_def strtol_show_int is_int32_is_int64 to_int32_id)

section \<open>Hexadecimal formats\<close>

definition hex_digit_lower :: "nat \<Rightarrow> char" where
  "hex_digit_lower d = (if d < 10 then char_of (48 + d) else char_of (87 + d))"

definition hex_digit_upper :: "nat \<Rightarrow> char" where
  "hex_digit_upper d = (if d < 10 then char_of (48 + d) else char_of (55 + d))"

text \<open>\<open>%04x\<close> of a 16-bit value and \<open>%.2X\<close> of a byte.\<close>

definition hex4 :: "nat \<Rightarrow> string" where
  "hex4 n = [hex_digit_lower (n div 4096 mod 16), hex_digit_lower (n div 256 mod 16),
             hex_digit_lower (n div 16 mod 16), hex_digit_lower (n mod 16)]"

definition hex2_upper :: "nat \<Rightarrow> string" where
  "hex2_upper n = [hex_digit_upper (n div 16 mod 16), hex_digit_upper (n mod 16)]"

section \<open>Ordered maps\<close>

text \<open>
  \<open>std::map\<close> with string keys is the list of its entries in iteration order, that is sorted by key.
\<close>

fun omap_update :: "'k::linorder \<Rightarrow> 'v \<Rightarrow> ('k \<times> 'v) list \<Rightarrow> ('k \<times> 'v) list" where
  "omap_update k v [] = [(k, v)]"
| "omap_update k v ((k', v') # m) =
     (if k < k' then (k, v) # (k', v') # m
      else if k = k' then (k, v) # m
      else (k', v') # omap_update k v m)"

definition omap_ok :: "('k::linorder \<times> 'v) list \<Rightarrow> bool" where
  "omap_ok m \<longleftrightarrow> sorted_wrt (<) (map fst m)"

lemma omap_ok_Nil [simp]: "omap_ok []"
  by (simp add: omap_ok_def)

lemma omap_ok_Cons: "omap_ok (e # m) \<longleftrightarrow> (\<forall>k \<in> fst ` set m. fst e < k) \<and> omap_ok m"
  by (auto simp: omap_ok_def)

lemma map_of_omap_update [simp]: "map_of (omap_update k v m) = (map_of m)(k \<mapsto> v)"
  by (induction m) auto

lemma fst_set_omap_update [simp]: "fst ` set (omap_update k v m) = insert k (fst ` set m)"
proof -
  have "dom (map_of (omap_update k v m)) = insert k (dom (map_of m))"
    by simp
  then show ?thesis by (simp only: dom_map_of_conv_image_fst)
qed

lemma omap_ok_update: "omap_ok m \<Longrightarrow> omap_ok (omap_update k v m)"
proof (induction m)
  case (Cons e m)
  obtain k' v' where e: "e = (k', v')" by force
  have "omap_ok (omap_update k v m)" using Cons by (simp add: omap_ok_Cons)
  with Cons.prems e show ?case by (force simp: omap_ok_Cons)
qed (simp add: omap_ok_Cons)

lemma omap_ok_distinct: "omap_ok m \<Longrightarrow> distinct (map fst m)"
  by (simp add: omap_ok_def strict_sorted_iff)

lemma omap_update_notin_append:
  "\<forall>k' \<in> fst ` set m. k' < k \<Longrightarrow> omap_update k v m = m @ [(k, v)]"
  by (induction m) auto

lemma set_omap_update: "e \<in> set (omap_update k v m) \<Longrightarrow> e = (k, v) \<or> e \<in> set m"
  by (induction m) (auto split: if_splits)

text \<open>The map interface the JSON value model relies on.\<close>

locale ordered_map =
  fixes lookup :: "'m \<Rightarrow> 'k::linorder \<rightharpoonup> 'v"
    and update :: "'k \<Rightarrow> 'v \<Rightarrow> 'm \<Rightarrow> 'm"
    and keys :: "'m \<Rightarrow> 'k list"
    and invar :: "'m \<Rightarrow> bool"
  assumes lookup_update: "invar m \<Longrightarrow> lookup (update k v m) = (lookup m)(k \<mapsto> v)"
    and keys_lookup: "invar m \<Longrightarrow> set (keys m) = dom (lookup m)"
    and keys_sorted: "invar m \<Longrightarrow> sorted_wrt (<) (keys m)"
    and invar_update: "invar m \<Longrightarrow> invar (update k v m)"
begin

lemma lookup_update_same: "invar m \<Longrightarrow> lookup (update k v m) k = Some v"
  by (simp add: lookup_update)

lemma lookup_update_other: "invar m \<Longrightarrow> k' \<noteq> k \<Longrightarrow> lookup (update k v m) k' = lookup m k'"
  by (simp add: lookup_update)

lemma keys_update: "invar m \<Longrightarrow> set (keys (update k v m)) = insert k (set (keys m))"
  by (simp add: keys_lookup lookup_update invar_update)

lemma keys_distinct: "invar m \<Longrightarrow> distinct (keys m)"
  using keys_sorted by (simp add: strict_sorted_iff)

lemma keys_update_order:
  assumes "invar m"
  shows "keys (update k v m) = sorted_list_of_set (insert k (set (keys m)))"
proof -
  have "sorted_wrt (<) (keys (update k v m))" and "set (keys (update k v m)) = insert k (set (keys m))"
    using assms by (simp_all add: keys_sorted invar_update keys_update)
  then show ?thesis
    by (metis sorted_list_of_set.idem_if_sorted_distinct strict_sorted_iff)
qed

end

interpretation omap: ordered_map map_of omap_update "map fst" omap_ok
proof unfold_locales
  show "set (map fst m) = dom (map_of m)" for m :: "('a \<times> 'b) list"
    by (simp add: dom_map_of_conv_image_fst)
  show "omap_ok m \<Longrightarrow> sorted_wrt (<) (map fst m)" for m :: "('a \<times> 'b) list"
    by (simp add: omap_ok_def)
qed (simp_all add: omap_ok_update)

section \<open>Unordered maps\<close>

text \<open>
  \<open>std::unordered_map\<close> is a list of entries with distinct keys, in some iteration order. \<open>insert\<close>
  does not overwrite an entry that is already there.
\<close>

definition umap_insert :: "'k \<Rightarrow> 'v \<Rightarrow> ('k \<times> 'v) list \<Rightarrow> ('k \<times> 'v) list" where
  "umap_insert k v m = (case map_of m k of None \<Rightarrow> (k, v) # m | Some _ \<Rightarrow> m)"

definition umap_erase :: "'k \<Rightarrow> ('k \<times> 'v) list \<Rightarrow> ('k \<times> 'v) list" where
  "umap_erase k m = filter (\<lambda>e. fst e \<noteq> k) m"

definition umap_assign :: "'k \<Rightarrow> 'v \<Rightarrow> ('k \<times> 'v) list \<Rightarrow> ('k \<times> 'v) list" where
  "umap_assign k v m = (k, v) # umap_erase k m"

lemma map_of_umap_insert:
  "map_of (umap_insert k v m) = (if k \<in> dom (map_of m) then map_of m else (map_of m)(k \<mapsto> v))"
  by (auto simp: umap_insert_def split: option.splits)

lemma map_of_umap_erase [simp]: "map_of (umap_erase k m) = (map_of m)(k := None)"
  by (induction m) (auto simp: umap_erase_def)

lemma map_of_umap_assign [simp]: "map_of (umap_assign k v m) = (map_of m)(k \<mapsto> v)"
  by (simp add: umap_assign_def)

lemma distinct_umap_insert:
  "distinct (map fst m) \<Longrightarrow> distinct (map fst (umap_insert k v m))"
  by (auto simp: umap_insert_def map_of_eq_None_iff split: option.splits)

lemma distinct_umap_erase: "distinct (map fst m) \<Longrightarrow> distinct (map fst (umap_erase k m))"
  by (simp add: umap_erase_def distinct_map_filter)

lemma set_umap_erase: "set (umap_erase k m) = {e \<in> set m. fst e \<noteq> k}"
  by (auto simp: umap_erase_def)

end
