(* ===== verification/Cxx_Double.thy ===== *)
theory Cxx_Double
  imports Prelude
begin

text \<open>
  The C++ type \<open>double\<close> as the program uses it: an IEEE-754 binary64 value is its 64-bit pattern.
  The theory gives the operations of the language and of the C library that the JSON code relies on:
  the classification functions, comparison, conversion from and to integers, and \<open>strtod\<close> with
  round-to-nearest-even.
\<close>

unbundle bit_operations_syntax

section \<open>Fields of the bit pattern\<close>

type_synonym double = "64 word"

definition double_sign :: "double \<Rightarrow> bool" where
  "double_sign d \<longleftrightarrow> 2 ^ 63 \<le> unat d"

definition double_exponent :: "double \<Rightarrow> nat" where
  "double_exponent d = unat d div 2 ^ 52 mod 2 ^ 11"

definition double_fraction :: "double \<Rightarrow> nat" where
  "double_fraction d = unat d mod 2 ^ 52"

definition is_finite :: "double \<Rightarrow> bool" where
  "is_finite d \<longleftrightarrow> double_exponent d \<noteq> 2047"

definition is_nan :: "double \<Rightarrow> bool" where
  "is_nan d \<longleftrightarrow> double_exponent d = 2047 \<and> double_fraction d \<noteq> 0"

definition is_zero :: "double \<Rightarrow> bool" where
  "is_zero d \<longleftrightarrow> double_exponent d = 0 \<and> double_fraction d = 0"

text \<open>A finite double is \<open>significand * 2 ^ exponent\<close>.\<close>

definition double_significand :: "double \<Rightarrow> int" where
  "double_significand d =
     (let f = int (double_fraction d) + (if double_exponent d = 0 then 0 else 2 ^ 52)
      in if double_sign d then - f else f)"

definition double_scale :: "double \<Rightarrow> int" where
  "double_scale d = (if double_exponent d = 0 then 1 else int (double_exponent d)) - 1075"

definition make_double :: "bool \<Rightarrow> nat \<Rightarrow> double" where
  "make_double neg magnitude = of_nat ((if neg then 2 ^ 63 else 0) + magnitude)"

definition double_inf :: "bool \<Rightarrow> double" where
  "double_inf neg = make_double neg (2047 * 2 ^ 52)"

definition double_neg :: "double \<Rightarrow> double" where
  "double_neg d = d XOR (2 ^ 63)"

section \<open>Comparison\<close>

definition double_lt :: "double \<Rightarrow> double \<Rightarrow> bool" where
  "double_lt a b \<longleftrightarrow>
     \<not> is_nan a \<and> \<not> is_nan b \<and>
     (let m = min (double_scale a) (double_scale b) in
      double_significand a * 2 ^ nat (double_scale a - m)
        < double_significand b * 2 ^ nat (double_scale b - m))"

definition double_eq :: "double \<Rightarrow> double \<Rightarrow> bool" where
  "double_eq a b \<longleftrightarrow> \<not> is_nan a \<and> \<not> is_nan b \<and> (a = b \<or> is_zero a \<and> is_zero b)"

section \<open>Conversion to integers\<close>

text \<open>Truncation towards zero of a finite double.\<close>

definition double_trunc :: "double \<Rightarrow> int" where
  "double_trunc d =
     (let s = double_significand d; e = double_scale d in
      if 0 \<le> e then s * 2 ^ nat e else sgn s * (\<bar>s\<bar> div 2 ^ nat (- e)))"

section \<open>Rounding to nearest even\<close>

fun bitlen :: "nat \<Rightarrow> nat" where
  "bitlen n = (if n = 0 then 0 else Suc (bitlen (n div 2)))"

declare bitlen.simps [simp del]

text \<open>\<open>num / (den * 2 ^ e)\<close> rounded to the nearest integer, ties to even.\<close>

definition round_div :: "nat \<Rightarrow> nat \<Rightarrow> int \<Rightarrow> nat" where
  "round_div num den e =
     (let n = num * 2 ^ nat (- e); d = den * 2 ^ nat e; q = n div d; r = n mod d in
      if 2 * r < d then q
      else if d < 2 * r then q + 1
      else if even q then q else q + 1)"

text \<open>The double nearest to \<open>num / den\<close> (\<open>den > 0\<close>).\<close>

definition round_double :: "bool \<Rightarrow> nat \<Rightarrow> nat \<Rightarrow> double" where
  "round_double neg num den =
     (if num = 0 then make_double neg 0
      else
        let l = int (bitlen num) - int (bitlen den);
            n = num * 2 ^ nat (53 - l); d = den * 2 ^ nat (l - 53);
            e0 = (if n div d < 2 ^ 53 then l - 53 else l - 52);
            e = max (- 1074) e0;
            q = round_div num den e;
            (q', e') = (if q = 2 ^ 53 then (2 ^ 52, e + 1) else (q, e))
        in if q' < 2 ^ 52 then make_double neg q'
           else if 971 < e' then double_inf neg
           else make_double neg (nat (e' + 1075) * 2 ^ 52 + (q' - 2 ^ 52)))"

definition int_to_double :: "int \<Rightarrow> double" where
  "int_to_double i = round_double (i < 0) (nat \<bar>i\<bar>) 1"

text \<open>
  A \<open>float\<close> is its IEEE-754 binary32 pattern. The conversion to \<open>double\<close> is exact; a signalling NaN becomes
  quiet.
\<close>

definition float_to_double :: "32 word \<Rightarrow> double" where
  "float_to_double f =
     (let n = unat f; neg = (2 ^ 31 \<le> n); e = n div 2 ^ 23 mod 2 ^ 8; m = n mod 2 ^ 23 in
      if e = 255
      then if m = 0 then double_inf neg
           else make_double neg (2047 * 2 ^ 52 + (if m < 2 ^ 22 then 2 ^ 51 else 0) + m * 2 ^ 29)
      else if e = 0 then round_double neg m (2 ^ 149)
      else make_double neg ((e + 896) * 2 ^ 52 + m * 2 ^ 29))"

section \<open>\<open>strtod\<close>\<close>

text \<open>
  The input is a JSON number token: an optional minus sign, digits, an optional fraction and an
  optional exponent. The program never calls \<open>setlocale\<close>, so the decimal point is \<open>.\<close>.
\<close>

definition strtod :: "string \<Rightarrow> double" where
  "strtod s =
     (let neg = (case s of [] \<Rightarrow> False | c # _ \<Rightarrow> c = CHR ''-'');
          t = (if neg then tl s else s);
          ip = takeWhile is_digit t; r1 = dropWhile is_digit t;
          has_point = (case r1 of [] \<Rightarrow> False | c # _ \<Rightarrow> c = CHR ''.'');
          fp = (if has_point then takeWhile is_digit (tl r1) else []);
          r2 = (if has_point then dropWhile is_digit (tl r1) else r1);
          ex = (case r2 of
                  [] \<Rightarrow> 0
                | c # cs \<Rightarrow> if c = CHR ''e'' \<or> c = CHR ''E'' then strtol cs else 0);
          m = read_digits 0 (ip @ fp);
          e10 = ex - int (length fp)
      in round_double neg (m * 10 ^ nat e10) (10 ^ nat (- e10)))"

section \<open>Facts\<close>

lemma unat_double_less: "unat (d :: double) < 2 ^ 64"
  using unsigned_less [of d, where ?'a = nat] by simp

lemma double_trunc_bounded:
  assumes "is_finite d"
  shows "\<bar>double_significand d\<bar> < 2 ^ 53"
proof -
  have "double_fraction d < 2 ^ 52" by (simp add: double_fraction_def)
  then show ?thesis by (auto simp: double_significand_def Let_def)
qed

lemma double_eq_refl: "\<not> is_nan d \<Longrightarrow> double_eq d d"
  by (simp add: double_eq_def)

lemma double_eq_sym: "double_eq a b \<longleftrightarrow> double_eq b a"
  by (auto simp: double_eq_def)

lemma double_lt_irrefl: "\<not> double_lt d d"
  by (simp add: double_lt_def Let_def)

lemma double_lt_asym:
  assumes "double_lt a b"
  shows "\<not> double_lt b a"
  using assms by (auto simp: double_lt_def Let_def min.commute)

end
