(* ===== verification/Json_Value.thy ===== *)
theory Json_Value
  imports Cxx_Double
begin

text \<open>
  The JSON value type of \<open>include/common/json.hpp\<close> (\<open>nlohmann::json\<close>, version 3.6.1): the exception
  classes, the type enumeration, values, element access by key, and the conversions \<open>from_json\<close> /
  \<open>to_json\<close> that the chat program instantiates (\<open>int\<close>, \<open>std::string\<close>, \<open>std::vector<std::string>\<close>,
  enumerations).
\<close>

section \<open>Exceptions\<close>

text \<open>
  The first five constructors are the classes of \<open>nlohmann::detail\<close>; each carries its id and the
  string that \<open>what()\<close> returns (\<open>Parse_error\<close> also the byte position). The others are the remaining
  ways in which a C++ function of this program can fail to return a value.
\<close>

datatype exn =
    Parse_error nat nat string
  | Invalid_iterator nat string
  | Type_error nat string
  | Out_of_range nat string
  | Other_error nat string
  | Logic_error string          \<comment> \<open>\<open>std::string\<close> constructed from a null pointer\<close>
  | Undefined_behaviour string
  | Assertion_failed string
  | Process_exit int
  | Mutex_relocked              \<comment> \<open>a thread locks a \<open>std::mutex\<close> that it holds\<close>
  | Invalid_argument string     \<comment> \<open>\<open>std::invalid_argument\<close>\<close>
  | Std_out_of_range string     \<comment> \<open>\<open>std::out_of_range\<close>\<close>
  | Length_error string         \<comment> \<open>\<open>std::length_error\<close>\<close>

record position_t =
  chars_read_total :: nat
  chars_read_current_line :: nat
  lines_read :: nat

definition exception_name :: "string \<Rightarrow> nat \<Rightarrow> string" where
  "exception_name ename i = ''[json.exception.'' @ ename @ ''.'' @ show_nat i @ ''] ''"

definition position_string :: "position_t \<Rightarrow> string" where
  "position_string pos =
     '' at line '' @ show_nat (lines_read pos + 1) @
     '', column '' @ show_nat (chars_read_current_line pos)"

definition parse_error_create :: "nat \<Rightarrow> position_t \<Rightarrow> string \<Rightarrow> exn" where
  "parse_error_create i pos what_arg =
     Parse_error i (chars_read_total pos)
       (exception_name ''parse_error'' i @ ''parse error'' @ position_string pos @ '': '' @ what_arg)"

text \<open>The overload that takes the byte position alone.\<close>

definition parse_error_at :: "nat \<Rightarrow> nat \<Rightarrow> string \<Rightarrow> exn" where
  "parse_error_at i byte what_arg =
     Parse_error i byte
       (exception_name ''parse_error'' i @ ''parse error'' @
        (if byte \<noteq> 0 then '' at byte '' @ show_nat byte else []) @ '': '' @ what_arg)"

definition invalid_iterator_create :: "nat \<Rightarrow> string \<Rightarrow> exn" where
  "invalid_iterator_create i what_arg = Invalid_iterator i (exception_name ''invalid_iterator'' i @ what_arg)"

definition type_error_create :: "nat \<Rightarrow> string \<Rightarrow> exn" where
  "type_error_create i what_arg = Type_error i (exception_name ''type_error'' i @ what_arg)"

definition out_of_range_create :: "nat \<Rightarrow> string \<Rightarrow> exn" where
  "out_of_range_create i what_arg = Out_of_range i (exception_name ''out_of_range'' i @ what_arg)"

definition other_error_create :: "nat \<Rightarrow> string \<Rightarrow> exn" where
  "other_error_create i what_arg = Other_error i (exception_name ''other_error'' i @ what_arg)"

section \<open>Values\<close>

datatype value_t =
    null_t | object_t | array_t | string_t | boolean_t
  | number_integer_t | number_unsigned_t | number_float_t | discarded_t

datatype json =
    Null
  | Object "(string \<times> json) list"
  | Array "json list"
  | String string
  | Boolean bool
  | Number_integer int
  | Number_unsigned int
  | Number_float double
  | Discarded

fun json_type :: "json \<Rightarrow> value_t" where
  "json_type Null = null_t"
| "json_type (Object _) = object_t"
| "json_type (Array _) = array_t"
| "json_type (String _) = string_t"
| "json_type (Boolean _) = boolean_t"
| "json_type (Number_integer _) = number_integer_t"
| "json_type (Number_unsigned _) = number_unsigned_t"
| "json_type (Number_float _) = number_float_t"
| "json_type Discarded = discarded_t"

fun value_t_index :: "value_t \<Rightarrow> nat" where
  "value_t_index null_t = 0"
| "value_t_index object_t = 1"
| "value_t_index array_t = 2"
| "value_t_index string_t = 3"
| "value_t_index boolean_t = 4"
| "value_t_index number_integer_t = 5"
| "value_t_index number_unsigned_t = 6"
| "value_t_index number_float_t = 7"
| "value_t_index discarded_t = 8"

definition value_t_less :: "value_t \<Rightarrow> value_t \<Rightarrow> bool" where
  "value_t_less lhs rhs \<longleftrightarrow>
     (let order = [0, 3, 4, 5, 1, 2, 2, 2 :: nat];
          l_index = value_t_index lhs; r_index = value_t_index rhs
      in l_index < length order \<and> r_index < length order \<and> order ! l_index < order ! r_index)"

text \<open>\<open>json_value(value_t)\<close>: the empty value of a type.\<close>

fun json_of_type :: "value_t \<Rightarrow> json" where
  "json_of_type object_t = Object []"
| "json_of_type array_t = Array []"
| "json_of_type string_t = String []"
| "json_of_type boolean_t = Boolean False"
| "json_of_type number_integer_t = Number_integer 0"
| "json_of_type number_unsigned_t = Number_unsigned 0"
| "json_of_type number_float_t = Number_float 0"
| "json_of_type null_t = Null"
| "json_of_type discarded_t = Discarded"

fun type_name :: "json \<Rightarrow> string" where
  "type_name Null = ''null''"
| "type_name (Object _) = ''object''"
| "type_name (Array _) = ''array''"
| "type_name (String _) = ''string''"
| "type_name (Boolean _) = ''boolean''"
| "type_name Discarded = ''discarded''"
| "type_name _ = ''number''"

definition is_object :: "json \<Rightarrow> bool" where
  "is_object j \<longleftrightarrow> json_type j = object_t"

definition is_array :: "json \<Rightarrow> bool" where
  "is_array j \<longleftrightarrow> json_type j = array_t"

section \<open>Well-formed values\<close>

text \<open>
  \<open>json_ok\<close> is the data invariant: the entries of an object are in \<open>std::map\<close> order and the integers
  are in the range of their 64-bit type.
\<close>

fun json_ok :: "json \<Rightarrow> bool" and members_ok :: "(string \<times> json) list \<Rightarrow> bool"
  and elems_ok :: "json list \<Rightarrow> bool" where
  "json_ok (Object m) \<longleftrightarrow> omap_ok m \<and> members_ok m"
| "json_ok (Array a) \<longleftrightarrow> elems_ok a"
| "json_ok (Number_integer i) \<longleftrightarrow> is_int64 i"
| "json_ok (Number_unsigned i) \<longleftrightarrow> is_uint64 i"
| "json_ok _ \<longleftrightarrow> True"
| "members_ok [] \<longleftrightarrow> True"
| "members_ok ((k, v) # m) \<longleftrightarrow> json_ok v \<and> members_ok m"
| "elems_ok [] \<longleftrightarrow> True"
| "elems_ok (v # a) \<longleftrightarrow> json_ok v \<and> elems_ok a"

lemma members_ok_iff: "members_ok m \<longleftrightarrow> (\<forall>(k, v) \<in> set m. json_ok v)"
  by (induction m) auto

lemma elems_ok_iff: "elems_ok a \<longleftrightarrow> (\<forall>v \<in> set a. json_ok v)"
  by (induction a) auto

section \<open>Element access\<close>

text \<open>
  \<open>operator[](T* key)\<close> on a non-const value: a null value becomes an empty object, a missing key is
  inserted with value null, and a reference to the element is returned. The model returns the element
  together with the updated object; \<open>json_set\<close> is the assignment \<open>j[key] = v\<close> through that
  reference.
\<close>

definition json_index :: "string \<Rightarrow> json \<Rightarrow> exn + (json \<times> json)" where
  "json_index key j =
     (let j' = (if json_type j = null_t then json_of_type object_t else j) in
      case j' of
        Object m \<Rightarrow>
          (case map_of m key of
             Some v \<Rightarrow> Inr (v, Object m)
           | None \<Rightarrow> Inr (Null, Object (omap_update key Null m)))
      | _ \<Rightarrow> Inl (type_error_create 305
                (''cannot use operator[] with a string argument with '' @ type_name j')))"

definition json_set :: "string \<Rightarrow> json \<Rightarrow> json \<Rightarrow> exn + json" where
  "json_set key v j =
     bindR (json_index key j) (\<lambda>(_, j').
       case j' of Object m \<Rightarrow> Inr (Object (omap_update key v m)) | _ \<Rightarrow> Inr j')"

text \<open>\<open>json js; js[k] = v; ...\<close>\<close>

definition json_build :: "(string \<times> json) list \<Rightarrow> json \<Rightarrow> exn + json" where
  "json_build kvs j = foldl (\<lambda>r (k, v). bindR r (json_set k v)) (Inr j) kvs"

definition contains :: "string \<Rightarrow> json \<Rightarrow> bool" where
  "contains key j \<longleftrightarrow> is_object j \<and> (case j of Object m \<Rightarrow> map_of m key \<noteq> None | _ \<Rightarrow> False)"

section \<open>Conversions\<close>

text \<open>
  \<open>get<int>()\<close>: the overload of \<open>from_json\<close> for arithmetic types that are not one of the four JSON
  scalar types. A double whose truncation does not fit an \<open>int\<close> is undefined behaviour.
\<close>

definition get_int :: "json \<Rightarrow> exn + int" where
  "get_int j =
     (case j of
        Number_unsigned i \<Rightarrow> Inr (to_int32 i)
      | Number_integer i \<Rightarrow> Inr (to_int32 i)
      | Number_float d \<Rightarrow>
          if is_finite d \<and> is_int32 (double_trunc d) then Inr (double_trunc d)
          else Inl (Undefined_behaviour ''conversion of an out-of-range double to int'')
      | Boolean b \<Rightarrow> Inr (if b then 1 else 0)
      | _ \<Rightarrow> Inl (type_error_create 302 (''type must be number, but is '' @ type_name j)))"

definition get_string :: "json \<Rightarrow> exn + string" where
  "get_string j =
     (case j of
        String s \<Rightarrow> Inr s
      | _ \<Rightarrow> Inl (type_error_create 302 (''type must be string, but is '' @ type_name j)))"

definition get_string_vector :: "json \<Rightarrow> exn + string list" where
  "get_string_vector j =
     (case j of
        Array a \<Rightarrow> traverseR get_string a
      | _ \<Rightarrow> Inl (type_error_create 302 (''type must be array, but is '' @ type_name j)))"

text \<open>\<open>to_json\<close> for \<open>int\<close> and enumerations, for strings, and for \<open>std::vector<std::string>\<close>.\<close>

definition json_of_int :: "int \<Rightarrow> json" where
  "json_of_int i = Number_integer i"

definition json_of_string :: "string \<Rightarrow> json" where
  "json_of_string s = String s"

definition json_of_strings :: "string list \<Rightarrow> json" where
  "json_of_strings ss = Array (map json_of_string ss)"

text \<open>Reading a field: \<open>js[key].get<T>()\<close>, with the object updated as \<open>operator[]\<close> leaves it.\<close>

definition field_int :: "string \<Rightarrow> json \<Rightarrow> exn + (int \<times> json)" where
  "field_int key j = bindR (json_index key j) (\<lambda>(v, j'). mapR (\<lambda>i. (i, j')) (get_int v))"

definition field_string :: "string \<Rightarrow> json \<Rightarrow> exn + (string \<times> json)" where
  "field_string key j = bindR (json_index key j) (\<lambda>(v, j'). mapR (\<lambda>s. (s, j')) (get_string v))"

section \<open>Comparison\<close>

text \<open>\<open>operator==\<close>: numbers of different types compare after conversion.\<close>

fun json_eq :: "json \<Rightarrow> json \<Rightarrow> bool"
  and members_eq :: "(string \<times> json) list \<Rightarrow> (string \<times> json) list \<Rightarrow> bool"
  and elems_eq :: "json list \<Rightarrow> json list \<Rightarrow> bool" where
  "json_eq (Array a) y = (case y of Array b \<Rightarrow> elems_eq a b | _ \<Rightarrow> False)"
| "json_eq (Object a) y = (case y of Object b \<Rightarrow> members_eq a b | _ \<Rightarrow> False)"
| "json_eq Null y = (case y of Null \<Rightarrow> True | _ \<Rightarrow> False)"
| "json_eq (String a) y = (case y of String b \<Rightarrow> a = b | _ \<Rightarrow> False)"
| "json_eq (Boolean a) y = (case y of Boolean b \<Rightarrow> a = b | _ \<Rightarrow> False)"
| "json_eq (Number_integer a) y =
     (case y of
        Number_integer b \<Rightarrow> a = b
      | Number_float b \<Rightarrow> double_eq (int_to_double a) b
      | Number_unsigned b \<Rightarrow> a = to_int64 b
      | _ \<Rightarrow> False)"
| "json_eq (Number_unsigned a) y =
     (case y of
        Number_unsigned b \<Rightarrow> a = b
      | Number_float b \<Rightarrow> double_eq (int_to_double a) b
      | Number_integer b \<Rightarrow> to_int64 a = b
      | _ \<Rightarrow> False)"
| "json_eq (Number_float a) y =
     (case y of
        Number_float b \<Rightarrow> double_eq a b
      | Number_integer b \<Rightarrow> double_eq a (int_to_double b)
      | Number_unsigned b \<Rightarrow> double_eq a (int_to_double b)
      | _ \<Rightarrow> False)"
| "json_eq Discarded y = False"
| "members_eq [] ys = (ys = [])"
| "members_eq (x # xs) ys =
     (case ys of
        [] \<Rightarrow> False
      | y # ys' \<Rightarrow> fst x = fst y \<and> json_eq (snd x) (snd y) \<and> members_eq xs ys')"
| "elems_eq [] ys = (ys = [])"
| "elems_eq (x # xs) ys =
     (case ys of [] \<Rightarrow> False | y # ys' \<Rightarrow> json_eq x y \<and> elems_eq xs ys')"

section \<open>Behaviour of element access\<close>

lemma json_index_Object [simp]:
  "json_index key (Object m) =
     (case map_of m key of
        Some v \<Rightarrow> Inr (v, Object m)
      | None \<Rightarrow> Inr (Null, Object (omap_update key Null m)))"
  by (simp add: json_index_def)

lemma json_index_Null [simp]: "json_index key Null = Inr (Null, Object [(key, Null)])"
  by (simp add: json_index_def)

lemma json_index_error:
  "json_index key j = Inl e \<longleftrightarrow>
     json_type j \<notin> {null_t, object_t} \<and>
     e = type_error_create 305 (''cannot use operator[] with a string argument with '' @ type_name j)"
  by (cases j) (auto simp: json_index_def split: option.splits)

lemma json_index_cases:
  assumes "json_index key j = Inr (v, j')"
  obtains (found) m where "j = Object m" "map_of m key = Some v" "j' = Object m"
  | (missing) m where "j = Object m" "map_of m key = None" "v = Null"
      "j' = Object (omap_update key Null m)"
  | (null) "j = Null" "v = Null" "j' = Object [(key, Null)]"
  using assms by (cases j) (auto simp: json_index_def split: option.splits)

lemma json_set_simps [simp]:
  "json_set key v Null = Inr (Object [(key, v)])"
  "json_set key v (Object m) = Inr (Object (omap_update key v m))"
proof -
  have absorb: "omap_update key v (omap_update key w n) = omap_update key v n"
    for n :: "(string \<times> json) list" and w
    by (induction n) auto
  show "json_set key v Null = Inr (Object [(key, v)])"
    by (simp add: json_set_def)
  show "json_set key v (Object m) = Inr (Object (omap_update key v m))"
    by (auto simp: json_set_def absorb split: option.splits)
qed

lemma json_ok_index:
  assumes "json_index key j = Inr (v, j')" and "json_ok j"
  shows "json_ok v \<and> json_ok j'"
  using assms
  by (cases rule: json_index_cases)
     (auto simp: members_ok_iff omap_ok_update omap_ok_Cons dest!: map_of_SomeD set_omap_update)

lemma json_ok_set:
  assumes "json_set key v j = Inr j'" and "json_ok j" and "json_ok v"
  shows "json_ok j'"
  using assms
  by (cases j)
     (auto simp: json_set_def json_index_def members_ok_iff omap_ok_update omap_ok_Cons
       dest!: set_omap_update split: option.splits)

lemma is_int32_get_int: "get_int j = Inr i \<Longrightarrow> is_int32 i"
  by (auto simp: get_int_def is_int32_def split: json.splits if_splits)
     (use is_int32_to_int32 in \<open>auto simp: is_int32_def\<close>)

text \<open>
  After \<open>j[key] = v\<close> the same key reads back \<open>v\<close> and changes nothing, every other key reads as
  before.
\<close>

lemma json_index_set_same:
  assumes "json_set key v j = Inr j'"
  shows "json_index key j' = Inr (v, j')"
  using assms by (cases j) (auto simp: json_set_def json_index_def split: option.splits)

lemma get_string_vector_of_strings: "get_string_vector (json_of_strings ss) = Inr ss"
proof -
  have "traverseR get_string (map json_of_string ss) = Inr ss"
    by (induction ss) (simp_all add: get_string_def json_of_string_def)
  then show ?thesis by (simp add: get_string_vector_def json_of_strings_def)
qed

lemma field_int_found:
  "map_of m key = Some v \<Longrightarrow> field_int key (Object m) = mapR (\<lambda>i. (i, Object m)) (get_int v)"
  by (simp add: field_int_def)

lemma field_int_missing:
  "map_of m key = None \<Longrightarrow>
     field_int key (Object m) = Inl (type_error_create 302 ''type must be number, but is null'')"
  by (simp add: field_int_def get_int_def)

lemma field_string_found:
  "map_of m key = Some v \<Longrightarrow> field_string key (Object m) = mapR (\<lambda>s. (s, Object m)) (get_string v)"
  by (simp add: field_string_def)

lemma field_string_missing:
  "map_of m key = None \<Longrightarrow>
     field_string key (Object m) = Inl (type_error_create 302 ''type must be string, but is null'')"
  by (simp add: field_string_def get_string_def)

section \<open>Objects built field by field\<close>

lemma json_build_Object:
  "json_build kvs (Object m) = Inr (Object (fold (\<lambda>(k, v). omap_update k v) kvs m))"
  unfolding json_build_def
  by (induction kvs arbitrary: m) (auto simp: case_prod_beta)

lemma json_build_Null:
  "json_build ((k, v) # kvs) Null = Inr (Object (fold (\<lambda>(k, v). omap_update k v) kvs [(k, v)]))"
  using json_build_Object [of kvs "[(k, v)]"] by (simp add: json_build_def)

end
