(* ===== verification/Chat_Database.thy ===== *)
theory Chat_Database
  imports Json_Value
begin

text \<open>
  Entities and database access of the chat server: the message types of \<open>include/common/utils.hpp\<close>,
  the entity classes of \<open>include/server/model\<close>, and class \<open>MySQLConn\<close> of
  \<open>src/server/database/database.cpp\<close>.

  The MySQL client library is not part of the repository. It is the parameter \<open>mysql_api\<close>: one field
  per library function that the code calls, on a state \<open>'d\<close> that holds the database and the
  connection.
\<close>

section \<open>Message types\<close>

datatype MsgType =
    kMsgLog | kMsgLogACK | kMsgLogout | kMsgReg | kMsgRegACK | kMsgDirectChat | kMsgAddFriend
  | kMsgCreateGroup | kMsgJoinGroup | kMsgGroupChat

fun MsgType_code :: "MsgType \<Rightarrow> int" where
  "MsgType_code kMsgLog = 1"
| "MsgType_code kMsgLogACK = 2"
| "MsgType_code kMsgLogout = 3"
| "MsgType_code kMsgReg = 4"
| "MsgType_code kMsgRegACK = 5"
| "MsgType_code kMsgDirectChat = 6"
| "MsgType_code kMsgAddFriend = 7"
| "MsgType_code kMsgCreateGroup = 8"
| "MsgType_code kMsgJoinGroup = 9"
| "MsgType_code kMsgGroupChat = 10"

definition json_of_MsgType :: "MsgType \<Rightarrow> json" where
  "json_of_MsgType t = json_of_int (MsgType_code t)"

lemma MsgType_code_inject: "MsgType_code a = MsgType_code b \<longleftrightarrow> a = b"
  by (cases a; cases b) simp_all

section \<open>Entities\<close>

record UserEntity =
  user_id :: int
  user_name :: string
  user_password :: string
  user_state :: string

definition UserEntity_default :: UserEntity where
  "UserEntity_default =
     \<lparr>user_id = - 1, user_name = [], user_password = [], user_state = ''offline''\<rparr>"

record GroupUserEntity = UserEntity +
  user_role :: string

definition GroupUserEntity_default :: GroupUserEntity where
  "GroupUserEntity_default =
     \<lparr>user_id = - 1, user_name = [], user_password = [], user_state = ''offline'', user_role = []\<rparr>"

record GroupEntity =
  group_id :: int
  group_name :: string
  group_desc :: string
  group_users :: "GroupUserEntity list"

definition GroupEntity_make :: "int \<Rightarrow> string \<Rightarrow> string \<Rightarrow> GroupEntity" where
  "GroupEntity_make i name desc =
     \<lparr>group_id = i, group_name = name, group_desc = desc, group_users = []\<rparr>"

section \<open>C strings\<close>

text \<open>What a \<open>%s\<close> conversion of \<open>s.c_str()\<close> writes: the characters before the first NUL.\<close>

definition c_str :: "string \<Rightarrow> string" where
  "c_str s = takeWhile (\<lambda>c. c \<noteq> CHR 0x00) s"

text \<open>\<open>sprintf\<close> into \<open>char sql[1024]\<close>; the terminating NUL needs one byte.\<close>

definition sprintf_sql :: "string \<Rightarrow> exn + string" where
  "sprintf_sql s =
     (if length s < 1024 then Inr s else Inl (Undefined_behaviour ''sprintf past the end of sql''))"


section \<open>The MySQL client library\<close>

type_synonym row = "string option list"

record 'd mysql_api =
  mysql_init :: "'d \<Rightarrow> bool \<times> 'd"                \<comment> \<open>false: null\<close>
  mysql_real_connect :: "string \<Rightarrow> string \<Rightarrow> string \<Rightarrow> string \<Rightarrow> nat \<Rightarrow> 'd \<Rightarrow> bool \<times> 'd"
  mysql_set_character_set :: "string \<Rightarrow> 'd \<Rightarrow> 'd"
  mysql_query :: "string \<Rightarrow> 'd \<Rightarrow> bool \<times> 'd"   \<comment> \<open>true: error\<close>
  mysql_store_result :: "'d \<Rightarrow> row list option \<times> 'd"
  mysql_insert_id :: "'d \<Rightarrow> int"
  mysql_close :: "'d \<Rightarrow> 'd"

section \<open>Class \<open>MySQLConn\<close>\<close>

text \<open>The result of the constructor tells whether \<open>conn_\<close> is not null.\<close>

definition MySQLConn_ctor :: "'d mysql_api \<Rightarrow> ('d, exn, bool) cmd" where
  "MySQLConn_ctor api = (\<lambda>d. let (conn, d') = mysql_init api d in (Inr conn, d'))"

definition MySQLConn_dtor :: "'d mysql_api \<Rightarrow> bool \<Rightarrow> 'd \<Rightarrow> 'd" where
  "MySQLConn_dtor api conn d = (if conn then mysql_close api d else d)"

definition MySQLConn_Connect ::
    "'d mysql_api \<Rightarrow> bool \<Rightarrow> string \<Rightarrow> nat \<Rightarrow> string \<Rightarrow> string \<Rightarrow> string \<Rightarrow> ('d, exn, bool) cmd" where
  "MySQLConn_Connect api conn ip port usr password dbname =
     (if \<not> conn then throwC (Undefined_behaviour ''mysql_real_connect on a null connection'')
      else (\<lambda>d. let (p, d1) = mysql_real_connect api ip usr password dbname port d in
                if p then (Inr True, mysql_set_character_set api ''utf8'' d1) else (Inr False, d1)))"

definition MySQLConn_Update :: "'d mysql_api \<Rightarrow> string \<Rightarrow> ('d, exn, bool) cmd" where
  "MySQLConn_Update api sql = (\<lambda>d. let (err, d1) = mysql_query api sql d in (Inr (\<not> err), d1))"

definition MySQLConn_Query :: "'d mysql_api \<Rightarrow> string \<Rightarrow> ('d, exn, row list option) cmd" where
  "MySQLConn_Query api sql =
     (\<lambda>d. let (err, d1) = mysql_query api sql d in
          if err then (Inr None, d1)
          else let (res, d2) = mysql_store_result api d1 in (Inr res, d2))"

text \<open>
  A local \<open>MySQLConn mysql_conn\<close>, \<open>mysql_conn.Connect()\<close> with the default arguments, and the destructor
  at the end of the scope, also when an exception leaves it.
\<close>

definition with_conn :: "'d mysql_api \<Rightarrow> (bool \<Rightarrow> ('d, exn, 'a) cmd) \<Rightarrow> ('d, exn, 'a) cmd" where
  "with_conn api body =
     bindC (MySQLConn_ctor api) (\<lambda>conn.
       finallyC (bindC (MySQLConn_Connect api conn ''127.0.0.1'' 3306 ''root'' ''123456'' ''chat'') body)
         (MySQLConn_dtor api conn))"

section \<open>Columns\<close>

definition column :: "row \<Rightarrow> nat \<Rightarrow> exn + string option" where
  "column row i =
     (if i < length row then Inr (row ! i) else Inl (Undefined_behaviour ''column of a row''))"

definition column_string :: "row \<Rightarrow> nat \<Rightarrow> exn + string" where
  "column_string row i =
     bindR (column row i) (\<lambda>c. case c of
       Some s \<Rightarrow> Inr s
     | None \<Rightarrow> Inl (Logic_error ''basic_string: construction from null is not valid''))"

definition column_atoi :: "row \<Rightarrow> nat \<Rightarrow> exn + int" where
  "column_atoi row i =
     bindR (column row i) (\<lambda>c. case c of
       Some s \<Rightarrow> Inr (atoi s)
     | None \<Rightarrow> Inl (Undefined_behaviour ''atoi of a null pointer''))"

lemma column_simps [simp]:
  "column_string (Some s # cs) 0 = Inr s"
  "column_string (c # cs) (Suc i) = column_string cs i"
  "column_atoi (Some s # cs) 0 = Inr (atoi s)"
  "column_atoi (c # cs) (Suc i) = column_atoi cs i"
  by (simp_all add: column_string_def column_atoi_def column_def)

end
