(* ===== verification/Chat_Dao.thy ===== *)
theory Chat_Dao
  imports Chat_Database
begin

text \<open>
  The data access objects of \<open>src/server/model\<close>: \<open>UserDAO\<close>, \<open>FriendDAO\<close>, \<open>OfflineMessageDAO\<close> and
  \<open>GroupDAO\<close>. Each operation formats a statement, opens a connection, runs the statement and closes
  the connection.
\<close>

section \<open>Reading result sets\<close>

text \<open>\<open>while ((row = mysql_fetch_row(res)) != nullptr)\<close> with a body that converts a row.\<close>

definition fetch_all :: "(row \<Rightarrow> exn + 'a) \<Rightarrow> row list option \<Rightarrow> exn + 'a list" where
  "fetch_all f res = (case res of None \<Rightarrow> Inr [] | Some rows \<Rightarrow> traverseR f rows)"

definition user_of_row :: "row \<Rightarrow> exn + UserEntity" where
  "user_of_row row =
     bindR (column_atoi row 0) (\<lambda>i.
     bindR (column_string row 1) (\<lambda>name.
     bindR (column_string row 2) (\<lambda>password.
     bindR (column_string row 3) (\<lambda>state.
     Inr \<lparr>user_id = i, user_name = name, user_password = password, user_state = state\<rparr>))))"

definition friend_of_row :: "row \<Rightarrow> exn + UserEntity" where
  "friend_of_row row =
     bindR (column_atoi row 0) (\<lambda>i.
     bindR (column_string row 1) (\<lambda>name.
     bindR (column_string row 2) (\<lambda>state.
     Inr (UserEntity_default\<lparr>user_id := i, user_name := name, user_state := state\<rparr>))))"

definition group_of_row :: "row \<Rightarrow> exn + GroupEntity" where
  "group_of_row row =
     bindR (column_atoi row 0) (\<lambda>i.
     bindR (column_string row 1) (\<lambda>name.
     bindR (column_string row 2) (\<lambda>desc.
     Inr (GroupEntity_make i name desc))))"

definition member_of_row :: "row \<Rightarrow> exn + GroupUserEntity" where
  "member_of_row row =
     bindR (column_atoi row 0) (\<lambda>i.
     bindR (column_string row 1) (\<lambda>name.
     bindR (column_string row 2) (\<lambda>state.
     bindR (column_string row 3) (\<lambda>role.
     Inr (GroupUserEntity_default
       \<lparr>user_id := i, user_name := name, user_state := state, user_role := role\<rparr>)))))"

section \<open>\<open>UserDAO\<close>\<close>

definition UserDAO_Insert :: "'d mysql_api \<Rightarrow> UserEntity \<Rightarrow> ('d, exn, bool \<times> UserEntity) cmd" where
  "UserDAO_Insert api user =
     bindC (liftR (sprintf_sql (''insert into user(name, password, state) values('' @
         squote @ c_str (user_name user) @ squote @ '', '' @
         squote @ c_str (user_password user) @ squote @ '', '' @
         squote @ c_str (user_state user) @ squote @ '')''))) (\<lambda>sql.
     with_conn api (\<lambda>connected.
       if connected then
         bindC (MySQLConn_Update api sql) (\<lambda>ok.
           if ok then bindC (getC (mysql_insert_id api)) (\<lambda>i.
             returnC (True, user\<lparr>user_id := to_int32 i\<rparr>))
           else returnC (False, user))
       else returnC (False, user)))"

definition UserDAO_Query :: "'d mysql_api \<Rightarrow> int \<Rightarrow> ('d, exn, UserEntity) cmd" where
  "UserDAO_Query api i =
     bindC (liftR (sprintf_sql (''select * from user where id = '' @ show_int i))) (\<lambda>sql.
     with_conn api (\<lambda>connected.
       if connected then
         bindC (MySQLConn_Query api sql) (\<lambda>res.
           case res of
             Some (row # _) \<Rightarrow> liftR (user_of_row row)
           | _ \<Rightarrow> returnC UserEntity_default)
       else returnC UserEntity_default))"

definition UserDAO_UpdateState :: "'d mysql_api \<Rightarrow> UserEntity \<Rightarrow> ('d, exn, bool) cmd" where
  "UserDAO_UpdateState api user =
     bindC (liftR (sprintf_sql (''update user set state = '' @ squote @ c_str (user_state user) @
         squote @ '' where id = '' @ show_int (user_id user)))) (\<lambda>sql.
     with_conn api (\<lambda>connected. if connected then MySQLConn_Update api sql else returnC False))"

definition UserDAO_ResetState :: "'d mysql_api \<Rightarrow> ('d, exn, unit) cmd" where
  "UserDAO_ResetState api =
     with_conn api (\<lambda>connected.
       if connected
       then seqC (MySQLConn_Update api (''update user set state = '' @ squote @ ''offline'' @ squote @
                   '' where state = '' @ squote @ ''online'' @ squote)) (returnC ())
       else returnC ())"

section \<open>\<open>FriendDAO\<close>\<close>

definition FriendDAO_AddFriend :: "'d mysql_api \<Rightarrow> int \<Rightarrow> int \<Rightarrow> ('d, exn, unit) cmd" where
  "FriendDAO_AddFriend api uid friend_id =
     bindC (liftR (sprintf_sql (''insert into friend values('' @ show_int uid @ '', '' @
         show_int friend_id @ '')''))) (\<lambda>sql.
     with_conn api (\<lambda>connected.
       if connected then seqC (MySQLConn_Update api sql) (returnC ()) else returnC ()))"

definition FriendDAO_GetFriends :: "'d mysql_api \<Rightarrow> int \<Rightarrow> ('d, exn, UserEntity list) cmd" where
  "FriendDAO_GetFriends api uid =
     bindC (liftR (sprintf_sql (''select a.id, a.name, a.state from user a inner join friend b on '' @
         ''b.friendid = a.id where b.userid = '' @ show_int uid))) (\<lambda>sql.
     with_conn api (\<lambda>connected.
       if connected then
         bindC (MySQLConn_Query api sql) (\<lambda>res. liftR (fetch_all friend_of_row res))
       else returnC []))"

section \<open>\<open>OfflineMessageDAO\<close>\<close>

definition OfflineMessageDAO_Store :: "'d mysql_api \<Rightarrow> int \<Rightarrow> string \<Rightarrow> ('d, exn, unit) cmd" where
  "OfflineMessageDAO_Store api uid message =
     bindC (liftR (sprintf_sql (''insert into offline_message values('' @ show_int uid @ '', '' @
         squote @ c_str message @ squote @ '')''))) (\<lambda>sql.
     with_conn api (\<lambda>connected.
       if connected then seqC (MySQLConn_Update api sql) (returnC ()) else returnC ()))"

definition OfflineMessageDAO_Delete :: "'d mysql_api \<Rightarrow> int \<Rightarrow> ('d, exn, unit) cmd" where
  "OfflineMessageDAO_Delete api uid =
     bindC (liftR (sprintf_sql (''delete from offline_message where userid =  '' @ show_int uid))) (\<lambda>sql.
     with_conn api (\<lambda>connected.
       if connected then seqC (MySQLConn_Update api sql) (returnC ()) else returnC ()))"

definition OfflineMessageDAO_Query :: "'d mysql_api \<Rightarrow> int \<Rightarrow> ('d, exn, string list) cmd" where
  "OfflineMessageDAO_Query api uid =
     bindC (liftR (sprintf_sql (''select message from offline_message where userid = '' @ show_int uid)))
       (\<lambda>sql.
     with_conn api (\<lambda>connected.
       if connected then
         bindC (MySQLConn_Query api sql) (\<lambda>res. liftR (fetch_all (\<lambda>row. column_string row 0) res))
       else returnC []))"

section \<open>\<open>GroupDAO\<close>\<close>

definition GroupDAO_CreateGroup :: "'d mysql_api \<Rightarrow> GroupEntity \<Rightarrow> ('d, exn, bool \<times> GroupEntity) cmd" where
  "GroupDAO_CreateGroup api grp =
     bindC (liftR (sprintf_sql (''insert into chat_group(groupname, groupdesc) values('' @
         squote @ c_str (group_name grp) @ squote @ '','' @
         squote @ c_str (group_desc grp) @ squote @ '')''))) (\<lambda>sql.
     with_conn api (\<lambda>connected.
       if connected then
         bindC (MySQLConn_Update api sql) (\<lambda>ok.
           if ok then bindC (getC (mysql_insert_id api)) (\<lambda>i.
             returnC (True, grp\<lparr>group_id := to_int32 i\<rparr>))
           else returnC (False, grp))
       else returnC (False, grp)))"

definition GroupDAO_JoinGroup :: "'d mysql_api \<Rightarrow> int \<Rightarrow> int \<Rightarrow> string \<Rightarrow> ('d, exn, bool) cmd" where
  "GroupDAO_JoinGroup api uid gid role =
     bindC (liftR (sprintf_sql (''insert into group_member(userid, groupid, grouprole) values('' @
         show_int uid @ '', '' @ show_int gid @ '', '' @ squote @ c_str role @ squote @ '')''))) (\<lambda>sql.
     with_conn api (\<lambda>connected. if connected then MySQLConn_Update api sql else returnC False))"

text \<open>
  \<open>GetUserGroups\<close>: the second loop queries the members of each group over the same connection,
  whether or not \<open>Connect\<close> succeeded (the group list is empty if it did not).
\<close>

definition group_members_of :: "'d mysql_api \<Rightarrow> GroupEntity \<Rightarrow> ('d, exn, GroupEntity) cmd" where
  "group_members_of api grp =
     bindC (liftR (sprintf_sql (''selcet a.id, a.name, a.state, b.grouprole from user a inner join '' @
         ''group_member b on a.id = b.userid where b.groupid = '' @ show_int (group_id grp)))) (\<lambda>sql.
     bindC (MySQLConn_Query api sql) (\<lambda>res.
     bindC (liftR (fetch_all member_of_row res)) (\<lambda>users.
     returnC (grp\<lparr>group_users := group_users grp @ users\<rparr>))))"

fun traverseC :: "('a \<Rightarrow> ('s, 'e, 'b) cmd) \<Rightarrow> 'a list \<Rightarrow> ('s, 'e, 'b list) cmd" where
  "traverseC f [] = returnC []"
| "traverseC f (x # xs) = bindC (f x) (\<lambda>y. bindC (traverseC f xs) (\<lambda>ys. returnC (y # ys)))"

definition GroupDAO_GetUserGroups :: "'d mysql_api \<Rightarrow> int \<Rightarrow> ('d, exn, GroupEntity list) cmd" where
  "GroupDAO_GetUserGroups api uid =
     bindC (liftR (sprintf_sql (''select a.id, a.name, a.desc from chat_group a inner join '' @
         ''group_member b on a.id = b.groupid where b.userid = '' @ show_int uid))) (\<lambda>sql.
     with_conn api (\<lambda>connected.
       bindC (if connected
              then bindC (MySQLConn_Query api sql) (\<lambda>res. liftR (fetch_all group_of_row res))
              else returnC []) (\<lambda>group_vec.
       traverseC (group_members_of api) group_vec)))"

definition GroupDAO_GetOtherGroupMembers :: "'d mysql_api \<Rightarrow> int \<Rightarrow> int \<Rightarrow> ('d, exn, int list) cmd" where
  "GroupDAO_GetOtherGroupMembers api gid exclude_user_id =
     bindC (liftR (sprintf_sql (''selcet userid from group_member where groupid = '' @ show_int gid @
         '' and userid != '' @ show_int exclude_user_id))) (\<lambda>sql.
     with_conn api (\<lambda>connected.
       if connected then
         bindC (MySQLConn_Query api sql) (\<lambda>res. liftR (fetch_all (\<lambda>row. column_atoi row 0) res))
       else returnC []))"

end
