(* ===== verification/Chat_Sql.thy ===== *)
theory Chat_Sql
  imports Chat_Dao
begin

text \<open>
  What the data access objects rely on of the MySQL server: the meaning of the SQL statements they
  send, as functions on the tables of the chat database, and the contract of each data access object
  that follows. The contract is stated in the locale \<open>chat_database\<close>; an in-memory database that reads
  the statement texts shows that its assumptions can hold.
\<close>

section \<open>Tables and statements\<close>

record tables =
  t_user :: "(int \<times> string \<times> string \<times> string) list"   \<comment> \<open>id, name, password, state\<close>
  t_friend :: "(int \<times> int) list"
  t_offline :: "(int \<times> string) list"

datatype stmt =
    Select_user int
  | Update_state string int
  | Reset_state
  | Insert_friend int int
  | Select_friends int
  | Insert_offline int string
  | Delete_offline int
  | Select_offline int

fun stmt_text :: "stmt \<Rightarrow> string" where
  "stmt_text (Select_user i) = ''select * from user where id = '' @ show_int i"
| "stmt_text (Update_state st i) =
     ''update user set state = '' @ squote @ st @ squote @ '' where id = '' @ show_int i"
| "stmt_text Reset_state =
     ''update user set state = '' @ squote @ ''offline'' @ squote @ '' where state = '' @
     squote @ ''online'' @ squote"
| "stmt_text (Insert_friend u f) = ''insert into friend values('' @ show_int u @ '', '' @ show_int f @ '')''"
| "stmt_text (Select_friends u) =
     ''select a.id, a.name, a.state from user a inner join friend b on '' @
     ''b.friendid = a.id where b.userid = '' @ show_int u"
| "stmt_text (Insert_offline u m) =
     ''insert into offline_message values('' @ show_int u @ '', '' @ squote @ m @ squote @ '')''"
| "stmt_text (Delete_offline u) = ''delete from offline_message where userid =  '' @ show_int u"
| "stmt_text (Select_offline u) = ''select message from offline_message where userid = '' @ show_int u"

text \<open>
  Characters that stand for themselves inside a quoted SQL string. The code does not escape its
  arguments.
\<close>

definition sql_plain :: "string \<Rightarrow> bool" where
  "sql_plain s \<longleftrightarrow> (\<forall>c \<in> set s. c \<noteq> CHR 0x27 \<and> c \<noteq> CHR 0x5C \<and> c \<noteq> CHR 0x00)"

fun stmt_plain :: "stmt \<Rightarrow> bool" where
  "stmt_plain (Update_state st i) = sql_plain st"
| "stmt_plain (Insert_offline u m) = sql_plain m"
| "stmt_plain _ = True"

fun stmt_update :: "stmt \<Rightarrow> tables \<Rightarrow> tables" where
  "stmt_update (Update_state st i) t =
     t\<lparr>t_user := map (\<lambda>(j, n, p, s). if j = i then (j, n, p, st) else (j, n, p, s)) (t_user t)\<rparr>"
| "stmt_update Reset_state t =
     t\<lparr>t_user := map (\<lambda>(j, n, p, s). (j, n, p, if s = ''online'' then ''offline'' else s)) (t_user t)\<rparr>"
| "stmt_update (Insert_friend u f) t = t\<lparr>t_friend := t_friend t @ [(u, f)]\<rparr>"
| "stmt_update (Insert_offline u m) t = t\<lparr>t_offline := t_offline t @ [(u, m)]\<rparr>"
| "stmt_update (Delete_offline u) t = t\<lparr>t_offline := filter (\<lambda>e. fst e \<noteq> u) (t_offline t)\<rparr>"
| "stmt_update _ t = t"

fun stmt_rows :: "stmt \<Rightarrow> tables \<Rightarrow> row list option" where
  "stmt_rows (Select_user i) t =
     Some [[Some (show_int j), Some n, Some p, Some s]. (j, n, p, s) \<leftarrow> t_user t, j = i]"
| "stmt_rows (Select_friends u) t =
     Some [[Some (show_int j), Some n, Some s].
       (v, f) \<leftarrow> t_friend t, v = u, (j, n, p, s) \<leftarrow> t_user t, j = f]"
| "stmt_rows (Select_offline u) t = Some [[Some m]. (v, m) \<leftarrow> t_offline t, v = u]"
| "stmt_rows _ t = None"

section \<open>The assumptions on the server\<close>

text \<open>
  \<open>view\<close> reads the tables off the state. The server can be reached, connecting and closing leave the
  tables alone, a statement with plain arguments has the meaning above, and a statement that starts
  with \<open>selcet\<close> is a syntax error.
\<close>

definition sql_server :: "'d mysql_api \<Rightarrow> ('d \<Rightarrow> tables) \<Rightarrow> bool" where
  "sql_server api view \<longleftrightarrow>
     (\<forall>d. fst (mysql_init api d) \<and> view (snd (mysql_init api d)) = view d) \<and>
     (\<forall>d. fst (mysql_real_connect api ''127.0.0.1'' ''root'' ''123456'' ''chat'' 3306 d) \<and>
          view (snd (mysql_real_connect api ''127.0.0.1'' ''root'' ''123456'' ''chat'' 3306 d)) = view d) \<and>
     (\<forall>d. view (mysql_set_character_set api ''utf8'' d) = view d) \<and>
     (\<forall>d. view (mysql_close api d) = view d) \<and>
     (\<forall>d s. stmt_plain s \<longrightarrow>
        (let (err, d1) = mysql_query api (stmt_text s) d; (res, d2) = mysql_store_result api d1 in
         \<not> err \<and> view d1 = stmt_update s (view d) \<and> view d2 = view d1 \<and> res = stmt_rows s (view d))) \<and>
     (\<forall>d q. fst (mysql_query api (''selcet '' @ q) d) \<and>
            view (snd (mysql_query api (''selcet '' @ q) d)) = view d)"

text \<open>The rows of the \<open>user\<close> table have 32-bit ids that are unique.\<close>

definition tables_ok :: "tables \<Rightarrow> bool" where
  "tables_ok t \<longleftrightarrow> distinct (map fst (t_user t)) \<and> (\<forall>i \<in> fst ` set (t_user t). is_int32 i)"

definition find_user :: "int \<Rightarrow> tables \<Rightarrow> UserEntity" where
  "find_user i t =
     (case map_of (t_user t) i of
        Some (n, p, s) \<Rightarrow> \<lparr>user_id = i, user_name = n, user_password = p, user_state = s\<rparr>
      | None \<Rightarrow> UserEntity_default)"

definition friends_of :: "int \<Rightarrow> tables \<Rightarrow> UserEntity list" where
  "friends_of u t =
     [UserEntity_default\<lparr>user_id := j, user_name := n, user_state := s\<rparr>.
        (v, f) \<leftarrow> t_friend t, v = u, (j, n, p, s) \<leftarrow> t_user t, j = f]"

definition offline_of :: "int \<Rightarrow> tables \<Rightarrow> string list" where
  "offline_of u t = [m. (v, m) \<leftarrow> t_offline t, v = u]"

section \<open>Formatted statements\<close>

lemma c_str_plain: "sql_plain s \<Longrightarrow> c_str s = s"
  unfolding c_str_def by (auto simp: sql_plain_def takeWhile_eq_all_conv)

lemma sql_plain_literals [simp]: "sql_plain ''online''" "sql_plain ''offline''"
  by (simp_all add: sql_plain_def)

lemma sprintf_sql_short: "length s < 1024 \<Longrightarrow> sprintf_sql s = Inr s"
  by (simp add: sprintf_sql_def)

lemma short_statements:
  assumes "is_int32 i"
  shows "length (stmt_text (Select_user i)) < 1024"
    and "length st \<le> 100 \<Longrightarrow> length (stmt_text (Update_state st i)) < 1024"
    and "length (stmt_text (Select_friends i)) < 1024"
    and "length (stmt_text (Delete_offline i)) < 1024"
    and "length (stmt_text (Select_offline i)) < 1024"
  using length_show_int_32 [OF assms] by (simp_all add: squote_def)

lemma atoi_columns:
  assumes "is_int32 j"
  shows "user_of_row [Some (show_int j), Some n, Some p, Some s] =
      Inr \<lparr>user_id = j, user_name = n, user_password = p, user_state = s\<rparr>"
    and "friend_of_row [Some (show_int j), Some n, Some s] =
      Inr (UserEntity_default\<lparr>user_id := j, user_name := n, user_state := s\<rparr>)"
  using assms by (simp_all add: user_of_row_def friend_of_row_def atoi_show_int numeral_2_eq_2 numeral_3_eq_3)

lemma rows_of_user:
  assumes "distinct (map fst us)"
  shows "[[Some (show_int j), Some n, Some p, Some s]. (j, n, p, s) \<leftarrow> us, j = i] =
    (case map_of us i of Some (n, p, s) \<Rightarrow> [[Some (show_int i), Some n, Some p, Some s]] | None \<Rightarrow> [])"
  using assms
proof (induction us)
  case (Cons u us)
  obtain j n p s where u: "u = (j, n, p, s)" by (cases u)
  show ?case
  proof (cases "j = i")
    case True
    then have "map_of us i = None" using Cons.prems u by (simp add: map_of_eq_None_iff)
    with Cons True u show ?thesis by simp
  next
    case False
    with Cons u show ?thesis by simp
  qed
qed simp

lemma traverseR_append:
  "traverseR f xs = Inr a \<Longrightarrow> traverseR f ys = Inr b \<Longrightarrow> traverseR f (xs @ ys) = Inr (a @ b)"
  by (induction xs arbitrary: a) (auto simp: bindR_eq_Inr mapR_eq_Inr)

section \<open>The contract of the data access objects\<close>

locale chat_database =
  fixes api :: "'d mysql_api" and view :: "'d \<Rightarrow> tables"
  assumes server: "sql_server api view"
begin

lemma server_facts:
  "fst (mysql_init api d)"
  "view (snd (mysql_init api d)) = view d"
  "fst (mysql_real_connect api ''127.0.0.1'' ''root'' ''123456'' ''chat'' 3306 d)"
  "view (snd (mysql_real_connect api ''127.0.0.1'' ''root'' ''123456'' ''chat'' 3306 d)) = view d"
  "view (mysql_set_character_set api ''utf8'' d) = view d"
  "view (mysql_close api d) = view d"
  "fst (mysql_query api (''selcet '' @ q) d)"
  "view (snd (mysql_query api (''selcet '' @ q) d)) = view d"
  using server unfolding sql_server_def by blast+

text \<open>A connection is opened and closed around every statement without touching the tables.\<close>

lemma with_conn_db:
  assumes "\<And>d1. view d1 = view d \<Longrightarrow> fst (body True d1) = r \<and> view (snd (body True d1)) = t"
  shows "fst (with_conn api body d) = r \<and> view (snd (with_conn api body d)) = t"
proof -
  let ?d = "mysql_set_character_set api ''utf8''
    (snd (mysql_real_connect api ''127.0.0.1'' ''root'' ''123456'' ''chat'' 3306 (snd (mysql_init api d))))"
  have "with_conn api body d = (fst (body True ?d), mysql_close api (snd (body True ?d)))"
    by (simp add: with_conn_def MySQLConn_ctor_def MySQLConn_Connect_def MySQLConn_dtor_def bindC_run
        finallyC_def case_prod_beta server_facts)
  moreover have "view ?d = view d" by (simp add: server_facts)
  ultimately show ?thesis using assms [of ?d] by (simp add: server_facts)
qed

text \<open>An operation that formats a statement, connects, and goes on with the statement text.\<close>

lemma dao_run:
  assumes "length (stmt_text s) < 1024"
    and "\<And>d1. view d1 = view d \<Longrightarrow> fst (body (stmt_text s) True d1) = r \<and> view (snd (body (stmt_text s) True d1)) = t"
  shows "fst (bindC (liftR (sprintf_sql (stmt_text s))) (\<lambda>sql. with_conn api (body sql)) d) = r \<and>
    view (snd (bindC (liftR (sprintf_sql (stmt_text s))) (\<lambda>sql. with_conn api (body sql)) d)) = t"
  using with_conn_db [of d "body (stmt_text s)" r t] assms(2) by (simp add: sprintf_sql_short [OF assms(1)])

lemma statement_run:
  assumes "stmt_plain s"
  shows "fst (mysql_query api (stmt_text s) d) = False"
    and "view (snd (mysql_query api (stmt_text s) d)) = stmt_update s (view d)"
    and "fst (mysql_store_result api (snd (mysql_query api (stmt_text s) d))) = stmt_rows s (view d)"
    and "view (snd (mysql_store_result api (snd (mysql_query api (stmt_text s) d)))) = stmt_update s (view d)"
proof -
  have *: "let (err, d1) = mysql_query api (stmt_text s) d; (res, d2) = mysql_store_result api d1 in
      \<not> err \<and> view d1 = stmt_update s (view d) \<and> view d2 = view d1 \<and> res = stmt_rows s (view d)"
    using server assms unfolding sql_server_def by blast
  show "fst (mysql_query api (stmt_text s) d) = False"
    and "view (snd (mysql_query api (stmt_text s) d)) = stmt_update s (view d)"
    and "fst (mysql_store_result api (snd (mysql_query api (stmt_text s) d))) = stmt_rows s (view d)"
    and "view (snd (mysql_store_result api (snd (mysql_query api (stmt_text s) d)))) = stmt_update s (view d)"
    using * by (auto simp: case_prod_beta Let_def)
qed

lemma update_run:
  assumes "stmt_plain s"
  shows "fst (MySQLConn_Update api (stmt_text s) d) = Inr True"
    and "view (snd (MySQLConn_Update api (stmt_text s) d)) = stmt_update s (view d)"
  using statement_run [OF assms, of d] by (simp_all add: MySQLConn_Update_def case_prod_beta)

lemma query_run:
  assumes "stmt_plain s"
  shows "fst (MySQLConn_Query api (stmt_text s) d) = Inr (stmt_rows s (view d))"
    and "view (snd (MySQLConn_Query api (stmt_text s) d)) = stmt_update s (view d)"
  using statement_run [OF assms, of d] by (simp_all add: MySQLConn_Query_def case_prod_beta)

lemma UserDAO_Query_run:
  assumes i: "is_int32 i" and ok: "tables_ok (view d)"
  shows "fst (UserDAO_Query api i d) = Inr (find_user i (view d)) \<and> view (snd (UserDAO_Query api i d)) = view d"
proof -
  have rows: "stmt_rows (Select_user i) (view d) =
      Some (case map_of (t_user (view d)) i of Some (n, p, s) \<Rightarrow> [[Some (show_int i), Some n, Some p, Some s]] | None \<Rightarrow> [])"
    using ok rows_of_user [of "t_user (view d)" i] by (simp add: tables_ok_def)
  show ?thesis
    unfolding UserDAO_Query_def stmt_text.simps(1) [symmetric]
    by (rule dao_run [OF short_statements(1) [OF i]])
       (use query_run [of "Select_user i"] rows i in
         \<open>auto simp: bindC_run find_user_def atoi_columns split: option.splits\<close>)
qed

lemma UserDAO_UpdateState_run:
  assumes "is_int32 (user_id user)" and "sql_plain (user_state user)" and "length (user_state user) \<le> 100"
  shows "fst (UserDAO_UpdateState api user d) = Inr True \<and>
    view (snd (UserDAO_UpdateState api user d)) = stmt_update (Update_state (user_state user) (user_id user)) (view d)"
  unfolding UserDAO_UpdateState_def c_str_plain [OF assms(2)] stmt_text.simps(2) [symmetric]
  by (rule dao_run [OF short_statements(2) [OF assms(1,3)]])
     (use update_run [of "Update_state (user_state user) (user_id user)"] assms in simp)

lemma UserDAO_ResetState_run:
  "fst (UserDAO_ResetState api d) = Inr () \<and> view (snd (UserDAO_ResetState api d)) = stmt_update Reset_state (view d)"
  unfolding UserDAO_ResetState_def stmt_text.simps(3) [symmetric]
  by (rule with_conn_db) (use update_run [of Reset_state] in \<open>simp add: seqC_run\<close>)

lemma OfflineMessageDAO_Store_run:
  assumes "sql_plain m" and "length (stmt_text (Insert_offline u m)) < 1024"
  shows "fst (OfflineMessageDAO_Store api u m d) = Inr () \<and>
    view (snd (OfflineMessageDAO_Store api u m d)) = stmt_update (Insert_offline u m) (view d)"
  unfolding OfflineMessageDAO_Store_def c_str_plain [OF assms(1)] stmt_text.simps(6) [symmetric]
  by (rule dao_run [OF assms(2)]) (use update_run [of "Insert_offline u m"] assms in \<open>simp add: seqC_run\<close>)

lemma OfflineMessageDAO_Delete_run:
  assumes "is_int32 u"
  shows "fst (OfflineMessageDAO_Delete api u d) = Inr () \<and>
    view (snd (OfflineMessageDAO_Delete api u d)) = stmt_update (Delete_offline u) (view d)"
  unfolding OfflineMessageDAO_Delete_def stmt_text.simps(7) [symmetric]
  by (rule dao_run [OF short_statements(4) [OF assms]])
     (use update_run [of "Delete_offline u"] in \<open>simp add: seqC_run\<close>)

lemma fetch_messages: "traverseR (\<lambda>row. column_string row 0) [[Some m]. (v, m) \<leftarrow> ms, v = u] = Inr [m. (v, m) \<leftarrow> ms, v = u]"
  by (induction ms) auto

lemma OfflineMessageDAO_Query_run:
  assumes "is_int32 u"
  shows "fst (OfflineMessageDAO_Query api u d) = Inr (offline_of u (view d)) \<and>
    view (snd (OfflineMessageDAO_Query api u d)) = view d"
  unfolding OfflineMessageDAO_Query_def stmt_text.simps(8) [symmetric]
  by (rule dao_run [OF short_statements(5) [OF assms]])
     (use query_run [of "Select_offline u"] in
       \<open>simp add: bindC_run fetch_all_def fetch_messages offline_of_def\<close>)

lemma fetch_friends:
  assumes "\<forall>i \<in> fst ` set us. is_int32 i"
  shows "traverseR friend_of_row [[Some (show_int j), Some n, Some s]. (v, f) \<leftarrow> fs, v = u, (j, n, p, s) \<leftarrow> us, j = f] =
    Inr [UserEntity_default\<lparr>user_id := j, user_name := n, user_state := s\<rparr>. (v, f) \<leftarrow> fs, v = u, (j, n, p, s) \<leftarrow> us, j = f]"
proof (induction fs)
  case (Cons e fs)
  have one: "traverseR friend_of_row [[Some (show_int j), Some n, Some s]. (j, n, p, s) \<leftarrow> us, j = f] =
      Inr [UserEntity_default\<lparr>user_id := j, user_name := n, user_state := s\<rparr>. (j, n, p, s) \<leftarrow> us, j = f]" for f
    using assms by (induction us) (auto simp: atoi_columns)
  obtain v f where e: "e = (v, f)" by force
  show ?case
    using traverseR_append [OF one [of f] Cons.IH] Cons.IH by (cases "v = u") (simp_all add: e)
qed simp

lemma FriendDAO_GetFriends_run:
  assumes "is_int32 u" and "tables_ok (view d)"
  shows "fst (FriendDAO_GetFriends api u d) = Inr (friends_of u (view d)) \<and>
    view (snd (FriendDAO_GetFriends api u d)) = view d"
proof -
  have "fetch_all friend_of_row (stmt_rows (Select_friends u) (view d)) = Inr (friends_of u (view d))"
    using fetch_friends [of "t_user (view d)" u "t_friend (view d)"] assms(2)
    by (simp add: fetch_all_def friends_of_def tables_ok_def)
  then show ?thesis
    unfolding FriendDAO_GetFriends_def stmt_text.simps(5) [symmetric]
    by (intro dao_run [OF short_statements(3) [OF assms(1)]])
       (use query_run [of "Select_friends u"] in \<open>simp add: bindC_run del: stmt_rows.simps stmt_text.simps\<close>)
qed

lemma FriendDAO_AddFriend_run:
  assumes "is_int32 u" and "is_int32 f"
  shows "fst (FriendDAO_AddFriend api u f d) = Inr () \<and>
    view (snd (FriendDAO_AddFriend api u f d)) = stmt_update (Insert_friend u f) (view d)"
  unfolding FriendDAO_AddFriend_def stmt_text.simps(4) [symmetric]
  by (rule dao_run)
     (use length_show_int_32 [OF assms(1)] length_show_int_32 [OF assms(2)] update_run [of "Insert_friend u f"]
       in \<open>simp_all add: seqC_run\<close>)

text \<open>Both member queries of \<open>GroupDAO\<close> are syntax errors: the keyword is misspelt.\<close>

lemma GroupDAO_GetOtherGroupMembers_run:
  assumes "is_int32 g" and "is_int32 u"
  shows "fst (GroupDAO_GetOtherGroupMembers api g u d) = Inr [] \<and>
    view (snd (GroupDAO_GetOtherGroupMembers api g u d)) = view d"
proof -
  let ?q = "''userid from group_member where groupid = '' @ show_int g @ '' and userid != '' @ show_int u"
  have fmt: "sprintf_sql (''selcet userid from group_member where groupid = '' @ show_int g @
      '' and userid != '' @ show_int u) = Inr (''selcet '' @ ?q)"
    using length_show_int_32 [OF assms(1)] length_show_int_32 [OF assms(2)] by (simp add: sprintf_sql_def)
  show ?thesis
    unfolding GroupDAO_GetOtherGroupMembers_def fmt bindC_prim
    by (rule with_conn_db) (use server_facts(7,8) [of ?q] in
      \<open>simp add: bindC_run MySQLConn_Query_def case_prod_beta fetch_all_def\<close>)
qed

end

end
