(* ===== verification/Chat_Sql_Ref.thy ===== *)
theory Chat_Sql_Ref
  imports Chat_Sql
begin

text \<open>
  An in-memory database that reads the statement texts: an instance of the parameter \<open>mysql_api\<close> for
  which the assumptions on the server hold.
\<close>

section \<open>Reading statements\<close>

fun strip_prefix :: "string \<Rightarrow> string \<Rightarrow> string option" where
  "strip_prefix [] s = Some s"
| "strip_prefix (c # cs) s = (case s of [] \<Rightarrow> None | d # ds \<Rightarrow> if c = d then strip_prefix cs ds else None)"

lemma strip_prefix_append [simp]: "strip_prefix p (p @ s) = Some s"
  by (induction p) auto

definition read_int :: "string \<Rightarrow> int \<times> string" where
  "read_int s =
     (case s of
        c # cs \<Rightarrow>
          if c = CHR ''-'' then (- int (read_digits 0 (takeWhile is_digit cs)), dropWhile is_digit cs)
          else (int (read_digits 0 (takeWhile is_digit s)), dropWhile is_digit s)
      | [] \<Rightarrow> (0, []))"

lemma read_int_show_int:
  assumes "r = [] \<or> \<not> is_digit (hd r)"
  shows "read_int (show_int i @ r) = (i, r)"
proof -
  have d: "takeWhile is_digit (show_nat n @ r) = show_nat n" "dropWhile is_digit (show_nat n @ r) = r" for n
    using assms show_nat_digits [of n]
    by (cases r; auto simp: takeWhile_append2 dropWhile_append2)+
  show ?thesis
  proof (cases "i < 0")
    case True
    then show ?thesis by (simp add: read_int_def show_int_def d read_digits_show_nat)
  next
    case False
    obtain c cs where cs: "show_nat (nat i) = c # cs" by (cases "show_nat (nat i)") auto
    then have "is_digit c" using show_nat_digits [of "nat i"] by auto
    then have "c \<noteq> CHR ''-''" by (auto simp: is_digit_def)
    moreover have "read_digits (digit_val c) cs = nat i"
      using read_digits_show_nat [of "nat i"] by (simp add: cs)
    ultimately show ?thesis
      using False d [of "nat i"] by (simp add: read_int_def show_int_def cs)
  qed
qed

definition whole_int :: "(int \<Rightarrow> stmt) \<Rightarrow> string \<Rightarrow> stmt option" where
  "whole_int f s = (case read_int s of (i, []) \<Rightarrow> Some (f i) | _ \<Rightarrow> None)"

lemma whole_int_show [simp]: "whole_int f (show_int i) = Some (f i)"
  using read_int_show_int [of "[]" i] by (simp add: whole_int_def)

definition read_quoted :: "string \<Rightarrow> string \<times> string" where
  "read_quoted s = (takeWhile (\<lambda>c. c \<noteq> CHR 0x27) s, drop 1 (dropWhile (\<lambda>c. c \<noteq> CHR 0x27) s))"

lemma read_quoted_plain: "sql_plain s \<Longrightarrow> read_quoted (s @ squote @ r) = (s, r)"
proof -
  assume "sql_plain s"
  then have "\<forall>c \<in> set s. c \<noteq> CHR 0x27" by (simp add: sql_plain_def)
  then show ?thesis by (simp add: read_quoted_def squote_def takeWhile_append2 dropWhile_append2)
qed

definition read_pair :: "string \<Rightarrow> stmt option" where
  "read_pair s =
     (let (u, r) = read_int s in
      case strip_prefix '', '' r of
        Some r1 \<Rightarrow> (case read_int r1 of (f, rest) \<Rightarrow> if rest = '')'' then Some (Insert_friend u f) else None)
      | None \<Rightarrow> None)"

definition read_message :: "string \<Rightarrow> stmt option" where
  "read_message s =
     (let (u, r) = read_int s in
      case strip_prefix ('', '' @ squote) r of
        Some r1 \<Rightarrow> (case read_quoted r1 of (m, rest) \<Rightarrow> if rest = '')'' then Some (Insert_offline u m) else None)
      | None \<Rightarrow> None)"

definition read_update :: "string \<Rightarrow> stmt option" where
  "read_update s =
     (let (st, r) = read_quoted s in
      case strip_prefix '' where id = '' r of Some r1 \<Rightarrow> whole_int (Update_state st) r1 | None \<Rightarrow> None)"

fun first_match :: "(string \<times> (string \<Rightarrow> stmt option)) list \<Rightarrow> string \<Rightarrow> stmt option" where
  "first_match [] q = None"
| "first_match ((p, f) # ps) q =
     (case strip_prefix p q of Some r \<Rightarrow> f r | None \<Rightarrow> first_match ps q)"

definition parse_stmt :: "string \<Rightarrow> stmt option" where
  "parse_stmt q =
     (if q = stmt_text Reset_state then Some Reset_state
      else first_match
        [(''select * from user where id = '', whole_int Select_user),
         (''update user set state = '' @ squote, read_update),
         (''insert into friend values('', read_pair),
         (''select a.id, a.name, a.state from user a inner join friend b on b.friendid = a.id where b.userid = '',
            whole_int Select_friends),
         (''insert into offline_message values('', read_message),
         (''delete from offline_message where userid =  '', whole_int Delete_offline),
         (''select message from offline_message where userid = '', whole_int Select_offline)] q)"

lemma parse_stmt_text:
  assumes "stmt_plain s"
  shows "parse_stmt (stmt_text s) = Some s"
proof (cases s)
  case (Update_state st i)
  have "stmt_text s \<noteq> stmt_text Reset_state"
  proof
    assume "stmt_text s = stmt_text Reset_state"
    then have "st @ squote @ '' where id = '' @ show_int i =
        ''offline'' @ squote @ '' where state = '' @ squote @ ''online'' @ squote"
      by (simp add: Update_state)
    then have "read_quoted (st @ squote @ '' where id = '' @ show_int i) =
        read_quoted (''offline'' @ squote @ '' where state = '' @ squote @ ''online'' @ squote)" by simp
    then show False
      using assms by (simp only: Update_state stmt_plain.simps read_quoted_plain sql_plain_literals) simp
  qed
  with assms Update_state show ?thesis
    by (simp add: parse_stmt_def squote_def read_update_def)
       (simp add: read_quoted_plain [unfolded squote_def, simplified])
qed (use assms in \<open>simp_all add: parse_stmt_def squote_def read_pair_def read_message_def read_int_show_int
       is_digit_def read_quoted_plain [unfolded squote_def, simplified]\<close>)

section \<open>The database\<close>

record ref_db =
  rd_tables :: tables
  rd_result :: "row list option"

definition ref_query :: "string \<Rightarrow> ref_db \<Rightarrow> bool \<times> ref_db" where
  "ref_query q d =
     (case parse_stmt q of
        Some s \<Rightarrow> (False, d\<lparr>rd_tables := stmt_update s (rd_tables d), rd_result := stmt_rows s (rd_tables d)\<rparr>)
      | None \<Rightarrow> (True, d))"

definition ref_api :: "ref_db mysql_api" where
  "ref_api =
     \<lparr>mysql_init = (\<lambda>d. (True, d)), mysql_real_connect = (\<lambda>_ _ _ _ _ d. (True, d)),
      mysql_set_character_set = (\<lambda>_ d. d), mysql_query = ref_query,
      mysql_store_result = (\<lambda>d. (rd_result d, d)), mysql_insert_id = (\<lambda>d. 0), mysql_close = (\<lambda>d. d)\<rparr>"

lemma parse_selcet: "parse_stmt (''selcet '' @ q) = None"
  by (simp add: parse_stmt_def squote_def)

lemma ref_server: "sql_server ref_api rd_tables"
  unfolding sql_server_def ref_api_def
  using parse_selcet by (auto simp: ref_query_def parse_stmt_text simp del: stmt_text.simps)

interpretation refdb: chat_database ref_api rd_tables
  by unfold_locales (rule ref_server)

end
