(* ===== verification/Chat_Redis.thy ===== *)
theory Chat_Redis
  imports Json_Value
begin

text \<open>
  Class \<open>RedisConn\<close> of \<open>src/server/redis/redis.cpp\<close>. The hiredis library is not part of the repository:
  it is the parameter \<open>redis_api\<close>, one field per library function that the code calls, on a state \<open>'r\<close>.
\<close>

section \<open>The hiredis library\<close>

datatype redis_context = Publish_context | Subscribe_context

datatype fmt_arg = Fmt_d int | Fmt_s string

text \<open>A \<open>redisReply\<close>: the bytes of \<open>str\<close> (unless null) and the array \<open>element\<close>.\<close>

datatype redisReply = RedisReply (reply_str: "string option") (reply_element: "redisReply option list")

record 'r redis_api =
  redisConnect :: "string \<Rightarrow> nat \<Rightarrow> 'r \<Rightarrow> bool \<times> 'r"   \<comment> \<open>false: null\<close>
  redisCommand :: "redis_context \<Rightarrow> string \<Rightarrow> fmt_arg list \<Rightarrow> 'r \<Rightarrow> bool \<times> 'r"   \<comment> \<open>false: null reply\<close>
  redisAppendCommand :: "redis_context \<Rightarrow> string \<Rightarrow> fmt_arg list \<Rightarrow> 'r \<Rightarrow> bool \<times> 'r"   \<comment> \<open>\<open>REDIS_OK\<close>?\<close>
  redisBufferWrite :: "redis_context \<Rightarrow> 'r \<Rightarrow> bool \<times> 'r"   \<comment> \<open>\<open>REDIS_OK\<close>?\<close>
  redisGetReply :: "redis_context \<Rightarrow> 'r \<Rightarrow> bool \<times> redisReply option \<times> 'r"   \<comment> \<open>\<open>REDIS_OK\<close>?, the reply\<close>

section \<open>State\<close>

text \<open>Pointers are represented by whether they are set.\<close>

record 'r redis_conn =
  publish_context :: bool
  subscribe_context :: bool
  notify_message_handler :: bool
  should_stop_observing :: bool
  hiredis :: 'r

definition RedisConn_ctor :: "'r \<Rightarrow> 'r redis_conn" where
  "RedisConn_ctor r =
     \<lparr>publish_context = False, subscribe_context = False, notify_message_handler = False,
      should_stop_observing = True, hiredis = r\<rparr>"

section \<open>Operations\<close>

text \<open>\<open>Connect\<close>; the observing thread it starts runs \<open>StartObserving\<close>.\<close>

definition RedisConn_Connect :: "'r redis_api \<Rightarrow> ('r redis_conn, exn, bool) cmd" where
  "RedisConn_Connect api c =
     (let (p, r1) = redisConnect api ''127.0.0.1'' 6379 (hiredis c);
          (s, r2) = redisConnect api ''127.0.0.1'' 6379 r1
      in (Inr True, c\<lparr>publish_context := p, subscribe_context := s, hiredis := r2\<rparr>))"

definition until_nul :: "string \<Rightarrow> string" where
  "until_nul s = takeWhile (\<lambda>c. c \<noteq> CHR 0x00) s"

definition RedisConn_Publish :: "'r redis_api \<Rightarrow> int \<Rightarrow> string \<Rightarrow> ('r redis_conn, exn, bool) cmd" where
  "RedisConn_Publish api channel message c =
     (if \<not> publish_context c then (Inr False, c)
      else let (reply, r) = redisCommand api Publish_context ''PUBLISH %d %s''
                              [Fmt_d channel, Fmt_s (until_nul message)] (hiredis c)
           in (Inr reply, c\<lparr>hiredis := r\<rparr>))"

text \<open>Appending a command to the subscription context and flushing its buffer.\<close>

definition append_and_write :: "'r redis_api \<Rightarrow> string \<Rightarrow> int \<Rightarrow> ('r redis_conn, exn, bool) cmd" where
  "append_and_write api fmt channel c =
     (let (ok, r1) = redisAppendCommand api Subscribe_context fmt [Fmt_d channel] (hiredis c) in
      if \<not> ok then (Inr False, c\<lparr>hiredis := r1\<rparr>)
      else let (ok2, r2) = redisBufferWrite api Subscribe_context r1 in (Inr ok2, c\<lparr>hiredis := r2\<rparr>))"

definition RedisConn_Subscribe :: "'r redis_api \<Rightarrow> int \<Rightarrow> ('r redis_conn, exn, bool) cmd" where
  "RedisConn_Subscribe api channel c =
     (if \<not> subscribe_context c then (Inr False, c) else append_and_write api ''SUBSCRIBE %d'' channel c)"

text \<open>\<open>Unsubscribe\<close> does not test the context; the library reads through the null pointer.\<close>

definition RedisConn_Unsubscribe :: "'r redis_api \<Rightarrow> int \<Rightarrow> ('r redis_conn, exn, bool) cmd" where
  "RedisConn_Unsubscribe api channel c =
     (if \<not> subscribe_context c then (Inl (Undefined_behaviour ''redisAppendCommand on a null context''), c)
      else append_and_write api ''UNSUBSCRIBE %d'' channel c)"

definition RedisConn_InitNotifyHandler :: "('r redis_conn, exn, unit) cmd" where
  "RedisConn_InitNotifyHandler = modifyC (\<lambda>c. c\<lparr>notify_message_handler := True\<rparr>)"

section \<open>Observing\<close>

text \<open>
  What one reply means to \<open>StartObserving\<close>: nothing, a message for a channel, or undefined behaviour
  when the reply has fewer than three elements. A reply without arrays (\<open>element\<close> null) also counts as
  too short.
\<close>

definition reply_message :: "redisReply option \<Rightarrow> exn + (int \<times> string) option" where
  "reply_message reply =
     (case reply of
        None \<Rightarrow> Inr None
      | Some rep \<Rightarrow>
          if length (reply_element rep) < 3 then Inl (Undefined_behaviour ''element[2] of a short reply'')
          else
            (case reply_element rep ! 2 of
               None \<Rightarrow> Inr None
             | Some e2 \<Rightarrow>
                 (case reply_str e2 of
                    None \<Rightarrow> Inr None
                  | Some message \<Rightarrow>
                      (case reply_element rep ! 1 of
                         None \<Rightarrow> Inl (Undefined_behaviour ''element[1] is null'')
                       | Some e1 \<Rightarrow>
                           (case reply_str e1 of
                              None \<Rightarrow> Inl (Undefined_behaviour ''atoi of a null pointer'')
                            | Some channel \<Rightarrow> Inr (Some (atoi channel, message)))))))"

text \<open>
  One iteration of the loop: \<open>None\<close> if the loop ends, otherwise the notification to deliver, if any.
  Calling an empty \<open>std::function\<close> throws \<open>std::bad_function_call\<close>.
\<close>

definition observe_once :: "'r redis_api \<Rightarrow> ('r redis_conn, exn, (int \<times> string) option option) cmd" where
  "observe_once api c =
     (if \<not> subscribe_context c then (Inl (Undefined_behaviour ''redisGetReply on a null context''), c)
      else
        let (ok, reply, r) = redisGetReply api Subscribe_context (hiredis c); c1 = c\<lparr>hiredis := r\<rparr> in
        if \<not> ok then (Inr None, c1)
        else
          (case reply_message reply of
             Inl e \<Rightarrow> (Inl e, c1)
           | Inr None \<Rightarrow> (Inr (Some None), c1)
           | Inr (Some m) \<Rightarrow>
               if notify_message_handler c1 then (Inr (Some (Some m)), c1)
               else (Inl (Logic_error ''bad_function_call''), c1)))"

section \<open>Behaviour\<close>

text \<open>A \<open>message\<close> push carries the channel and the payload; a subscription confirmation carries a count.\<close>

definition push_message :: "string \<Rightarrow> string \<Rightarrow> redisReply" where
  "push_message channel payload =
     RedisReply None [Some (RedisReply (Some ''message'') []), Some (RedisReply (Some channel) []),
                      Some (RedisReply (Some payload) [])]"

lemma reply_message_push:
  "is_int32 i \<Longrightarrow> reply_message (Some (push_message (show_int i) payload)) = Inr (Some (i, payload))"
  by (simp add: reply_message_def push_message_def atoi_show_int numeral_2_eq_2)

text \<open>No operation but \<open>Connect\<close> and \<open>InitNotifyHandler\<close> changes the pointers.\<close>

definition redis_flags :: "'r redis_conn \<Rightarrow> bool \<times> bool \<times> bool" where
  "redis_flags c = (publish_context c, subscribe_context c, notify_message_handler c)"

lemma redis_flags_ops [simp]:
  "redis_flags (snd (RedisConn_Publish api channel message c)) = redis_flags c"
  "redis_flags (snd (RedisConn_Subscribe api channel c)) = redis_flags c"
  "redis_flags (snd (RedisConn_Unsubscribe api channel c)) = redis_flags c"
  by (simp_all add: redis_flags_def RedisConn_Publish_def RedisConn_Subscribe_def RedisConn_Unsubscribe_def
      append_and_write_def case_prod_beta Let_def)

lemma publish_no_throw: "\<exists>b. fst (RedisConn_Publish api channel message c) = Inr b"
  by (auto simp: RedisConn_Publish_def case_prod_beta Let_def)

lemma subscribe_no_throw: "\<exists>b. fst (RedisConn_Subscribe api channel c) = Inr b"
  by (auto simp: RedisConn_Subscribe_def append_and_write_def case_prod_beta Let_def)

lemma unsubscribe_no_throw:
  "subscribe_context c \<Longrightarrow> \<exists>b. fst (RedisConn_Unsubscribe api channel c) = Inr b"
  by (auto simp: RedisConn_Unsubscribe_def append_and_write_def case_prod_beta Let_def)

end
