(* ===== verification/Json_Lexer.thy ===== *)
theory Json_Lexer
  imports Json_Value
begin

text \<open>
  The lexical analysis of \<open>include/common/json.hpp\<close>: class \<open>lexer\<close> over an \<open>input_buffer_adapter\<close>.
  A member function is a function on the record \<open>lexer\<close>; \<open>current\<close> is \<open>None\<close> for \<open>eof()\<close>. The
  ranges of the number values and the encoding of the strings are proved in \<open>Json_Token_Inv\<close>.
\<close>

unbundle bit_operations_syntax

section \<open>Tokens\<close>

datatype token_type =
    uninitialized | literal_true | literal_false | literal_null | value_string_tok
  | value_unsigned_tok | value_integer_tok | value_float_tok | begin_array | begin_object
  | end_array | end_object | name_separator | value_separator | parse_error_tok
  | end_of_input | literal_or_value

fun token_type_name :: "token_type \<Rightarrow> string" where
  "token_type_name uninitialized = ''<uninitialized>''"
| "token_type_name literal_true = ''true literal''"
| "token_type_name literal_false = ''false literal''"
| "token_type_name literal_null = ''null literal''"
| "token_type_name value_string_tok = ''string literal''"
| "token_type_name value_unsigned_tok = ''number literal''"
| "token_type_name value_integer_tok = ''number literal''"
| "token_type_name value_float_tok = ''number literal''"
| "token_type_name begin_array = [CHR 0x27] @ ''['' @ [CHR 0x27]"
| "token_type_name begin_object = [CHR 0x27] @ ''{'' @ [CHR 0x27]"
| "token_type_name end_array = [CHR 0x27] @ '']'' @ [CHR 0x27]"
| "token_type_name end_object = [CHR 0x27] @ ''}'' @ [CHR 0x27]"
| "token_type_name name_separator = [CHR 0x27] @ '':'' @ [CHR 0x27]"
| "token_type_name value_separator = [CHR 0x27] @ '','' @ [CHR 0x27]"
| "token_type_name parse_error_tok = ''<parse error>''"
| "token_type_name end_of_input = ''end of input''"
| "token_type_name literal_or_value =
     [CHR 0x27] @ ''['' @ [CHR 0x27] @ '', '' @ [CHR 0x27] @ ''{'' @ [CHR 0x27] @ '', or a literal''"

section \<open>State\<close>

record lexer =
  ia :: string
  current :: "char option"
  next_unget :: bool
  position :: position_t
  token_string :: string
  token_buffer :: string
  error_message :: string
  value_integer :: int
  value_unsigned :: int
  value_float :: double

definition lexer_init :: "string \<Rightarrow> lexer" where
  "lexer_init adapter =
     \<lparr>ia = adapter, current = None, next_unget = False,
      position = \<lparr>chars_read_total = 0, chars_read_current_line = 0, lines_read = 0\<rparr>,
      token_string = [], token_buffer = [], error_message = [],
      value_integer = 0, value_unsigned = 0, value_float = 0\<rparr>"

text \<open>The locale of the program is the initial \<open>C\<close> locale.\<close>

definition decimal_point_char :: char where
  "decimal_point_char = CHR ''.''"

section \<open>Input management\<close>

definition get_character :: "string \<Rightarrow> char option \<times> string" where
  "get_character inp = (case inp of [] \<Rightarrow> (None, []) | c # cs \<Rightarrow> (Some c, cs))"

definition lex_reset :: "lexer \<Rightarrow> lexer" where
  "lex_reset lx =
     lx\<lparr>token_buffer := [],
        token_string := [case current lx of Some c \<Rightarrow> c | None \<Rightarrow> CHR 0xFF]\<rparr>"

definition count_char :: "char option \<Rightarrow> position_t \<Rightarrow> position_t" where
  "count_char c pos =
     (if c = Some (CHR 0x0A)
      then pos\<lparr>chars_read_total := chars_read_total pos + 1, lines_read := lines_read pos + 1,
               chars_read_current_line := 0\<rparr>
      else pos\<lparr>chars_read_total := chars_read_total pos + 1,
               chars_read_current_line := chars_read_current_line pos + 1\<rparr>)"

definition lex_get :: "lexer \<Rightarrow> lexer" where
  "lex_get lx =
     (let lx1 = (if next_unget lx then lx\<lparr>next_unget := False\<rparr>
                 else let (c, rest) = get_character (ia lx) in lx\<lparr>current := c, ia := rest\<rparr>)
      in lx1\<lparr>token_string := token_string lx1 @ (case current lx1 of Some c \<Rightarrow> [c] | None \<Rightarrow> []),
             position := count_char (current lx1) (position lx1)\<rparr>)"

definition uncount_char :: "position_t \<Rightarrow> position_t" where
  "uncount_char pos =
     (let pos1 = pos\<lparr>chars_read_total := chars_read_total pos - 1\<rparr> in
      if chars_read_current_line pos = 0 then pos1\<lparr>lines_read := lines_read pos - 1\<rparr>
      else pos1\<lparr>chars_read_current_line := chars_read_current_line pos - 1\<rparr>)"

definition lex_unget :: "lexer \<Rightarrow> lexer" where
  "lex_unget lx =
     lx\<lparr>next_unget := True, position := uncount_char (position lx),
        token_string := (if current lx \<noteq> None then butlast (token_string lx) else token_string lx)\<rparr>"

definition lex_add :: "char \<Rightarrow> lexer \<Rightarrow> lexer" where
  "lex_add c lx = lx\<lparr>token_buffer := token_buffer lx @ [c]\<rparr>"

definition lex_adds :: "string \<Rightarrow> lexer \<Rightarrow> lexer" where
  "lex_adds cs lx = fold lex_add cs lx"

definition lex_fail :: "string \<Rightarrow> lexer \<Rightarrow> token_type option \<times> lexer" where
  "lex_fail msg lx = (Some parse_error_tok, lx\<lparr>error_message := msg\<rparr>)"

text \<open>Characters that can still be read; the measure of every loop of the lexer.\<close>

definition avail :: "lexer \<Rightarrow> nat" where
  "avail lx = length (ia lx) + (if next_unget lx \<and> current lx \<noteq> None then 1 else 0)"

lemma avail_simps [simp]:
  "avail (lex_reset lx) = avail lx"
  "avail (lex_add c lx) = avail lx"
  "avail (lx\<lparr>error_message := m\<rparr>) = avail lx"
  "avail (lx\<lparr>token_buffer := b\<rparr>) = avail lx"
  by (simp_all add: avail_def lex_reset_def lex_add_def)

lemma avail_lex_adds [simp]: "avail (lex_adds cs lx) = avail lx"
  unfolding lex_adds_def by (induction cs arbitrary: lx) simp_all

lemma avail_lex_get: "current (lex_get lx) \<noteq> None \<Longrightarrow> Suc (avail (lex_get lx)) = avail lx"
  by (auto simp: lex_get_def avail_def Let_def get_character_def split: if_splits list.splits)

lemma avail_lex_get_le: "avail (lex_get lx) \<le> avail lx"
  by (auto simp: lex_get_def avail_def Let_def get_character_def split: list.splits)

section \<open>Strings\<close>

definition hex_digit_value :: "char option \<Rightarrow> nat option" where
  "hex_digit_value c =
     (case c of
        None \<Rightarrow> None
      | Some ch \<Rightarrow>
          let n = of_char ch :: nat in
          if 0x30 \<le> n \<and> n \<le> 0x39 then Some (n - 0x30)
          else if 0x41 \<le> n \<and> n \<le> 0x46 then Some (n - 0x37)
          else if 0x61 \<le> n \<and> n \<le> 0x66 then Some (n - 0x57)
          else None)"

text \<open>\<open>get_codepoint\<close>; \<open>None\<close> stands for the result \<open>-1\<close>.\<close>

fun get_codepoint_loop :: "nat list \<Rightarrow> nat \<Rightarrow> lexer \<Rightarrow> nat option \<times> lexer" where
  "get_codepoint_loop [] codepoint lx = (Some codepoint, lx)"
| "get_codepoint_loop (factor # factors) codepoint lx =
     (let lx1 = lex_get lx in
      case hex_digit_value (current lx1) of
        Some d \<Rightarrow> get_codepoint_loop factors (codepoint + d * 2 ^ factor) lx1
      | None \<Rightarrow> (None, lx1))"

definition get_codepoint :: "lexer \<Rightarrow> nat option \<times> lexer" where
  "get_codepoint lx = get_codepoint_loop [12, 8, 4, 0] 0 lx"

fun in_ranges_loop :: "(nat \<times> nat) list \<Rightarrow> lexer \<Rightarrow> bool \<times> lexer" where
  "in_ranges_loop [] lx = (True, lx)"
| "in_ranges_loop ((lo, hi) # ranges) lx =
     (let lx1 = lex_get lx in
      case current lx1 of
        Some c \<Rightarrow>
          if lo \<le> (of_char c :: nat) \<and> (of_char c :: nat) \<le> hi then in_ranges_loop ranges (lex_add c lx1)
          else (False, lx1\<lparr>error_message := ''invalid string: ill-formed UTF-8 byte''\<rparr>)
      | None \<Rightarrow> (False, lx1\<lparr>error_message := ''invalid string: ill-formed UTF-8 byte''\<rparr>))"

definition next_byte_in_range :: "char \<Rightarrow> (nat \<times> nat) list \<Rightarrow> lexer \<Rightarrow> token_type option \<times> lexer" where
  "next_byte_in_range c ranges lx =
     (let (ok, lx') = in_ranges_loop ranges (lex_add c lx)
      in (if ok then None else Some parse_error_tok, lx'))"

text \<open>The bytes that \<open>scan_string\<close> adds for a code point.\<close>

definition codepoint_bytes :: "nat \<Rightarrow> string" where
  "codepoint_bytes codepoint =
     (if codepoint < 0x80 then [char_of codepoint]
      else if codepoint \<le> 0x7FF then
        [char_of (0xC0 OR drop_bit 6 codepoint), char_of (0x80 OR (codepoint AND 0x3F))]
      else if codepoint \<le> 0xFFFF then
        [char_of (0xE0 OR drop_bit 12 codepoint), char_of (0x80 OR (drop_bit 6 codepoint AND 0x3F)),
         char_of (0x80 OR (codepoint AND 0x3F))]
      else
        [char_of (0xF0 OR drop_bit 18 codepoint), char_of (0x80 OR (drop_bit 12 codepoint AND 0x3F)),
         char_of (0x80 OR (drop_bit 6 codepoint AND 0x3F)), char_of (0x80 OR (codepoint AND 0x3F))])"

definition msg_four_hex :: string where
  "msg_four_hex = ''invalid string: '' @ [CHR 0x27, CHR 0x5C] @ ''u'' @ [CHR 0x27] @
     '' must be followed by 4 hex digits''"

definition msg_surrogate_pair :: string where
  "msg_surrogate_pair = ''invalid string: surrogate U+DC00..U+DFFF must be followed by U+DC00..U+DFFF''"

definition msg_surrogate_alone :: string where
  "msg_surrogate_alone = ''invalid string: surrogate U+DC00..U+DFFF must follow U+D800..U+DBFF''"

text \<open>The case \<open>'u'\<close> after a backslash. \<open>None\<close> means that the loop goes on.\<close>

definition scan_unicode_escape :: "lexer \<Rightarrow> token_type option \<times> lexer" where
  "scan_unicode_escape lx =
     (let (cp1, lx1) = get_codepoint lx in
      case cp1 of
        None \<Rightarrow> lex_fail msg_four_hex lx1
      | Some codepoint1 \<Rightarrow>
          if 0xD800 \<le> codepoint1 \<and> codepoint1 \<le> 0xDBFF then
            let lx2 = lex_get lx1 in
            if current lx2 = Some (CHR 0x5C) then
              let lx3 = lex_get lx2 in
              if current lx3 = Some (CHR ''u'') then
                let (cp2, lx4) = get_codepoint lx3 in
                case cp2 of
                  None \<Rightarrow> lex_fail msg_four_hex lx4
                | Some codepoint2 \<Rightarrow>
                    if 0xDC00 \<le> codepoint2 \<and> codepoint2 \<le> 0xDFFF
                    then (None, lex_adds (codepoint_bytes
                           (codepoint1 * 2 ^ 10 + codepoint2 - 0x35FDC00)) lx4)
                    else lex_fail msg_surrogate_pair lx4
              else lex_fail msg_surrogate_pair lx3
            else lex_fail msg_surrogate_pair lx2
          else if 0xDC00 \<le> codepoint1 \<and> codepoint1 \<le> 0xDFFF then lex_fail msg_surrogate_alone lx1
          else (None, lex_adds (codepoint_bytes codepoint1) lx1))"

definition scan_escape :: "lexer \<Rightarrow> token_type option \<times> lexer" where
  "scan_escape lx =
     (let lx1 = lex_get lx; c = current lx1 in
      if c = Some (CHR 0x22) then (None, lex_add (CHR 0x22) lx1)
      else if c = Some (CHR 0x5C) then (None, lex_add (CHR 0x5C) lx1)
      else if c = Some (CHR ''/'') then (None, lex_add (CHR ''/'') lx1)
      else if c = Some (CHR ''b'') then (None, lex_add (CHR 0x08) lx1)
      else if c = Some (CHR ''f'') then (None, lex_add (CHR 0x0C) lx1)
      else if c = Some (CHR ''n'') then (None, lex_add (CHR 0x0A) lx1)
      else if c = Some (CHR ''r'') then (None, lex_add (CHR 0x0D) lx1)
      else if c = Some (CHR ''t'') then (None, lex_add (CHR 0x09) lx1)
      else if c = Some (CHR ''u'') then scan_unicode_escape lx1
      else lex_fail ''invalid string: forbidden character after backslash'' lx1)"

definition control_names :: "string list" where
  "control_names =
     [''NUL'', ''SOH'', ''STX'', ''ETX'', ''EOT'', ''ENQ'', ''ACK'', ''BEL'', ''BS'', ''HT'', ''LF'',
      ''VT'', ''FF'', ''CR'', ''SO'', ''SI'', ''DLE'', ''DC1'', ''DC2'', ''DC3'', ''DC4'', ''NAK'',
      ''SYN'', ''ETB'', ''CAN'', ''EM'', ''SUB'', ''ESC'', ''FS'', ''GS'', ''RS'', ''US'']"

definition hex4_upper :: "nat \<Rightarrow> string" where
  "hex4_upper n =
     map (\<lambda>d. if d < 10 then char_of (48 + d) else char_of (55 + d))
       [n div 4096 mod 16, n div 256 mod 16, n div 16 mod 16, n mod 16]"

text \<open>The error messages of the cases \<open>0x00\<close> to \<open>0x1F\<close>.\<close>

definition control_message :: "nat \<Rightarrow> string" where
  "control_message n =
     ''invalid string: control character U+'' @ hex4_upper n @ '' ('' @ control_names ! n @
     '') must be escaped to '' @ [CHR 0x5C] @ ''u'' @ hex4_upper n @
     (if n = 8 then '' or '' @ [CHR 0x5C] @ ''b''
      else if n = 9 then '' or '' @ [CHR 0x5C] @ ''t''
      else if n = 10 then '' or '' @ [CHR 0x5C] @ ''n''
      else if n = 12 then '' or '' @ [CHR 0x5C] @ ''f''
      else if n = 13 then '' or '' @ [CHR 0x5C] @ ''r'' else [])"

text \<open>The cases of bytes that start a UTF-8 sequence of two to four bytes.\<close>

definition scan_multibyte :: "char \<Rightarrow> lexer \<Rightarrow> token_type option \<times> lexer" where
  "scan_multibyte c lx =
     (let n = of_char c :: nat in
      if 0xC2 \<le> n \<and> n \<le> 0xDF then next_byte_in_range c [(0x80, 0xBF)] lx
      else if n = 0xE0 then next_byte_in_range c [(0xA0, 0xBF), (0x80, 0xBF)] lx
      else if 0xE1 \<le> n \<and> n \<le> 0xEC \<or> n = 0xEE \<or> n = 0xEF then
        next_byte_in_range c [(0x80, 0xBF), (0x80, 0xBF)] lx
      else if n = 0xED then next_byte_in_range c [(0x80, 0x9F), (0x80, 0xBF)] lx
      else if n = 0xF0 then next_byte_in_range c [(0x90, 0xBF), (0x80, 0xBF), (0x80, 0xBF)] lx
      else if 0xF1 \<le> n \<and> n \<le> 0xF3 then
        next_byte_in_range c [(0x80, 0xBF), (0x80, 0xBF), (0x80, 0xBF)] lx
      else if n = 0xF4 then next_byte_in_range c [(0x80, 0x8F), (0x80, 0xBF), (0x80, 0xBF)] lx
      else lex_fail ''invalid string: ill-formed UTF-8 byte'' lx)"

text \<open>One iteration of the loop of \<open>scan_string\<close>.\<close>

definition string_step :: "lexer \<Rightarrow> token_type option \<times> lexer" where
  "string_step lx =
     (let lx1 = lex_get lx in
      case current lx1 of
        None \<Rightarrow> lex_fail ''invalid string: missing closing quote'' lx1
      | Some c \<Rightarrow>
          if c = CHR 0x22 then (Some value_string_tok, lx1)
          else if c = CHR 0x5C then scan_escape lx1
          else if (of_char c :: nat) < 0x20 then lex_fail (control_message (of_char c)) lx1
          else if (of_char c :: nat) < 0x80 then (None, lex_add c lx1)
          else scan_multibyte c lx1)"

lemma avail_get_codepoint_loop: "avail (snd (get_codepoint_loop fs cp lx)) \<le> avail lx"
proof (induction fs arbitrary: cp lx)
  case (Cons f fs)
  show ?case
    using Cons.IH [of _ "lex_get lx"] avail_lex_get_le [of lx]
    by (auto simp: Let_def split: option.splits intro: order_trans)
qed simp

lemma avail_in_ranges_loop: "avail (snd (in_ranges_loop rs lx)) \<le> avail lx"
proof (induction rs arbitrary: lx)
  case (Cons r rs)
  obtain lo hi where r: "r = (lo, hi)" by force
  show ?case
    using Cons.IH [of "lex_add _ (lex_get lx)"] avail_lex_get_le [of lx]
    by (auto simp: r Let_def split: option.splits intro: order_trans)
qed simp

lemma avail_lex_fail [simp]: "avail (snd (lex_fail m lx)) = avail lx"
  by (simp add: lex_fail_def)

lemma avail_next_byte_in_range: "avail (snd (next_byte_in_range c rs lx)) \<le> avail lx"
  using avail_in_ranges_loop [of rs "lex_add c lx"]
  by (auto simp: next_byte_in_range_def Let_def split: prod.splits)

lemma avail_scan_multibyte: "avail (snd (scan_multibyte c lx)) \<le> avail lx"
  by (simp add: scan_multibyte_def Let_def avail_next_byte_in_range)

lemma avail_get_codepoint: "get_codepoint lx = (r, lx') \<Longrightarrow> avail lx' \<le> avail lx"
  using avail_get_codepoint_loop by (metis get_codepoint_def snd_conv)

lemma avail_scan_unicode_escape: "avail (snd (scan_unicode_escape lx)) \<le> avail lx"
  unfolding scan_unicode_escape_def Let_def
  by (auto split: prod.splits option.splits dest!: avail_get_codepoint)
     (meson avail_lex_get_le order_trans)+

lemma avail_scan_escape: "avail (snd (scan_escape lx)) \<le> avail lx"
  using avail_lex_get_le [of lx] avail_scan_unicode_escape [of "lex_get lx"]
  by (simp add: scan_escape_def Let_def)

lemma avail_string_step: "string_step lx = (None, lx') \<Longrightarrow> avail lx' < avail lx"
proof -
  assume step: "string_step lx = (None, lx')"
  then have cur: "current (lex_get lx) \<noteq> None"
    by (auto simp: string_step_def Let_def lex_fail_def split: option.splits)
  have "avail lx' \<le> avail (lex_get lx)"
    using step avail_scan_escape [of "lex_get lx"] avail_scan_multibyte [of _ "lex_get lx"]
    by (auto simp: string_step_def Let_def lex_fail_def split: option.splits if_splits)
       (metis snd_conv)+
  with avail_lex_get [OF cur] show ?thesis by simp
qed

function scan_string_loop :: "lexer \<Rightarrow> token_type \<times> lexer" where
  "scan_string_loop lx =
     (case string_step lx of
        (Some t, lx') \<Rightarrow> (t, lx')
      | (None, lx') \<Rightarrow> scan_string_loop lx')"
  by pat_completeness auto
termination by (relation "measure avail") (auto dest: avail_string_step [OF sym])

declare scan_string_loop.simps [simp del]

definition scan_string :: "lexer \<Rightarrow> token_type \<times> lexer" where
  "scan_string lx = scan_string_loop (lex_reset lx)"

section \<open>Numbers\<close>

text \<open>The labels of \<open>scan_number\<close> and where a \<open>switch (get())\<close> goes.\<close>

datatype number_state = Minus | Zero | Any1 | Decimal1 | Decimal2 | Exponent | Sign | Any2

datatype number_goto = Goto number_state char | Done | Fail string

definition is_exp :: "char \<Rightarrow> bool" where
  "is_exp c \<longleftrightarrow> c = CHR ''e'' \<or> c = CHR ''E''"

definition is_sign :: "char \<Rightarrow> bool" where
  "is_sign c \<longleftrightarrow> c = CHR ''+'' \<or> c = CHR ''-''"

fun number_step :: "number_state \<Rightarrow> char option \<Rightarrow> number_goto" where
  "number_step Minus c =
     (case c of
        Some d \<Rightarrow>
          if d = CHR ''0'' then Goto Zero d else if is_digit d then Goto Any1 d
          else Fail (''invalid number; expected digit after '' @ [CHR 0x27] @ ''-'' @ [CHR 0x27])
      | None \<Rightarrow> Fail (''invalid number; expected digit after '' @ [CHR 0x27] @ ''-'' @ [CHR 0x27]))"
| "number_step Zero c =
     (case c of
        Some d \<Rightarrow>
          if d = CHR ''.'' then Goto Decimal1 decimal_point_char
          else if is_exp d then Goto Exponent d else Done
      | None \<Rightarrow> Done)"
| "number_step Any1 c =
     (case c of
        Some d \<Rightarrow>
          if is_digit d then Goto Any1 d
          else if d = CHR ''.'' then Goto Decimal1 decimal_point_char
          else if is_exp d then Goto Exponent d else Done
      | None \<Rightarrow> Done)"
| "number_step Decimal1 c =
     (case c of
        Some d \<Rightarrow>
          if is_digit d then Goto Decimal2 d
          else Fail (''invalid number; expected digit after '' @ [CHR 0x27] @ ''.'' @ [CHR 0x27])
      | None \<Rightarrow> Fail (''invalid number; expected digit after '' @ [CHR 0x27] @ ''.'' @ [CHR 0x27]))"
| "number_step Decimal2 c =
     (case c of
        Some d \<Rightarrow> if is_digit d then Goto Decimal2 d else if is_exp d then Goto Exponent d else Done
      | None \<Rightarrow> Done)"
| "number_step Exponent c =
     (case c of
        Some d \<Rightarrow>
          if is_sign d then Goto Sign d else if is_digit d then Goto Any2 d
          else Fail (''invalid number; expected '' @ [CHR 0x27] @ ''+'' @ [CHR 0x27] @ '', '' @
                 [CHR 0x27] @ ''-'' @ [CHR 0x27] @ '', or digit after exponent'')
      | None \<Rightarrow> Fail (''invalid number; expected '' @ [CHR 0x27] @ ''+'' @ [CHR 0x27] @ '', '' @
                 [CHR 0x27] @ ''-'' @ [CHR 0x27] @ '', or digit after exponent''))"
| "number_step Sign c =
     (case c of
        Some d \<Rightarrow> if is_digit d then Goto Any2 d else Fail ''invalid number; expected digit after exponent sign''
      | None \<Rightarrow> Fail ''invalid number; expected digit after exponent sign'')"
| "number_step Any2 c =
     (case c of
        Some d \<Rightarrow> if is_digit d then Goto Any2 d else Done
      | None \<Rightarrow> Done)"

lemma number_step_Goto: "number_step st c = Goto st' d \<Longrightarrow> c \<noteq> None"
  by (cases st; cases c) auto

text \<open>The assignment to \<open>number_type\<close> after a label.\<close>

definition label_type :: "number_state \<Rightarrow> token_type \<Rightarrow> token_type" where
  "label_type st number_type =
     (case st of
        Minus \<Rightarrow> value_integer_tok
      | Decimal1 \<Rightarrow> value_float_tok
      | Exponent \<Rightarrow> value_float_tok
      | _ \<Rightarrow> number_type)"

text \<open>
  \<open>strtoull\<close> and \<open>strtoll\<close> on the token buffer; \<open>None\<close> stands for \<open>errno = ERANGE\<close>. The buffer holds an
  optional minus sign and digits there.
\<close>

definition strtoull :: "string \<Rightarrow> int option" where
  "strtoull s = (let n = int (read_digits 0 (takeWhile is_digit s)) in if n < 2 ^ 64 then Some n else None)"

definition strtoll :: "string \<Rightarrow> int option" where
  "strtoll s =
     (let n = (case s of
                 c # cs \<Rightarrow> if c = CHR ''-'' then - int (read_digits 0 (takeWhile is_digit cs))
                           else int (read_digits 0 (takeWhile is_digit s))
               | [] \<Rightarrow> 0)
      in if is_int64 n then Some n else None)"

definition scan_number_float :: "lexer \<Rightarrow> token_type \<times> lexer" where
  "scan_number_float lx = (value_float_tok, lx\<lparr>value_float := strtod (token_buffer lx)\<rparr>)"

definition scan_number_done :: "token_type \<Rightarrow> lexer \<Rightarrow> token_type \<times> lexer" where
  "scan_number_done number_type lx =
     (let lx1 = lex_unget lx in
      if number_type = value_unsigned_tok then
        (case strtoull (token_buffer lx1) of
           Some x \<Rightarrow> (value_unsigned_tok, lx1\<lparr>value_unsigned := x\<rparr>)
         | None \<Rightarrow> scan_number_float lx1)
      else if number_type = value_integer_tok then
        (case strtoll (token_buffer lx1) of
           Some x \<Rightarrow> (value_integer_tok, lx1\<lparr>value_integer := x\<rparr>)
         | None \<Rightarrow> scan_number_float lx1)
      else scan_number_float lx1)"

function scan_number_loop :: "number_state \<Rightarrow> token_type \<Rightarrow> lexer \<Rightarrow> token_type \<times> lexer" where
  "scan_number_loop st number_type lx =
     (let number_type' = label_type st number_type; lx1 = lex_get lx in
      case number_step st (current lx1) of
        Goto st' c \<Rightarrow> scan_number_loop st' number_type' (lex_add c lx1)
      | Done \<Rightarrow> scan_number_done number_type' lx1
      | Fail msg \<Rightarrow> (parse_error_tok, lx1\<lparr>error_message := msg\<rparr>))"
  by pat_completeness auto
termination
proof (relation "measure (\<lambda>(st, ty, lx). avail lx)", goal_cases)
  case (2 st ty lx ty' lx1 st' c)
  then show ?case using avail_lex_get [of lx] number_step_Goto [of st "current lx1" st' c] by simp
qed simp

declare scan_number_loop.simps [simp del]

text \<open>State init. Other characters are rejected by \<open>scan\<close>.\<close>

definition scan_number :: "lexer \<Rightarrow> token_type \<times> lexer" where
  "scan_number lx0 =
     (let lx = lex_reset lx0 in
      case current lx of
        Some c \<Rightarrow>
          scan_number_loop (if c = CHR ''-'' then Minus else if c = CHR ''0'' then Zero else Any1)
            value_unsigned_tok (lex_add c lx)
      | None \<Rightarrow> (parse_error_tok, lx))"

section \<open>Literals\<close>

fun scan_literal_loop :: "string \<Rightarrow> token_type \<Rightarrow> lexer \<Rightarrow> token_type \<times> lexer" where
  "scan_literal_loop [] return_type lx = (return_type, lx)"
| "scan_literal_loop (c # cs) return_type lx =
     (let lx1 = lex_get lx in
      if current lx1 \<noteq> Some c then (parse_error_tok, lx1\<lparr>error_message := ''invalid literal''\<rparr>)
      else scan_literal_loop cs return_type lx1)"

definition scan_literal :: "string \<Rightarrow> token_type \<Rightarrow> lexer \<Rightarrow> token_type \<times> lexer" where
  "scan_literal literal_text return_type lx = scan_literal_loop (tl literal_text) return_type lx"

section \<open>The scanner\<close>

definition skip_bom :: "lexer \<Rightarrow> bool \<times> lexer" where
  "skip_bom lx =
     (let lx1 = lex_get lx in
      if current lx1 = Some (CHR 0xEF) then
        let lx2 = lex_get lx1 in
        if current lx2 = Some (CHR 0xBB) then
          let lx3 = lex_get lx2 in (current lx3 = Some (CHR 0xBF), lx3)
        else (False, lx2)
      else (True, lex_unget lx1))"

definition is_ws :: "char option \<Rightarrow> bool" where
  "is_ws c \<longleftrightarrow> c \<in> {Some (CHR '' ''), Some (CHR 0x09), Some (CHR 0x0A), Some (CHR 0x0D)}"

function skip_ws :: "lexer \<Rightarrow> lexer" where
  "skip_ws lx = (let lx1 = lex_get lx in if is_ws (current lx1) then skip_ws lx1 else lx1)"
  by pat_completeness auto
termination
proof (relation "measure avail", goal_cases)
  case (2 lx lx1)
  then show ?case using avail_lex_get [of lx] by (auto simp: is_ws_def)
qed simp

declare skip_ws.simps [simp del]

definition scan_token :: "lexer \<Rightarrow> token_type \<times> lexer" where
  "scan_token lx =
     (case current lx of
        None \<Rightarrow> (end_of_input, lx)
      | Some c \<Rightarrow>
          if c = CHR ''['' then (begin_array, lx)
          else if c = CHR '']'' then (end_array, lx)
          else if c = CHR ''{'' then (begin_object, lx)
          else if c = CHR ''}'' then (end_object, lx)
          else if c = CHR '':'' then (name_separator, lx)
          else if c = CHR '','' then (value_separator, lx)
          else if c = CHR ''t'' then scan_literal ''true'' literal_true lx
          else if c = CHR ''f'' then scan_literal ''false'' literal_false lx
          else if c = CHR ''n'' then scan_literal ''null'' literal_null lx
          else if c = CHR 0x22 then scan_string lx
          else if c = CHR ''-'' \<or> is_digit c then scan_number lx
          else if c = CHR 0x00 then (end_of_input, lx)
          else (parse_error_tok, lx\<lparr>error_message := ''invalid literal''\<rparr>))"

definition scan :: "lexer \<Rightarrow> token_type \<times> lexer" where
  "scan lx =
     (let (ok, lx1) = (if chars_read_total (position lx) = 0 then skip_bom lx else (True, lx)) in
      if ok then scan_token (skip_ws lx1)
      else (parse_error_tok, lx1\<lparr>error_message := ''invalid BOM; must be 0xEF 0xBB 0xBF if given''\<rparr>))"

section \<open>Diagnostics\<close>

text \<open>\<open>char\<close> is signed, so that bytes from 0x80 on are added as they are.\<close>

definition get_token_string :: "lexer \<Rightarrow> string" where
  "get_token_string lx =
     concat (map (\<lambda>c. if (of_char c :: nat) \<le> 0x1F then ''<U+'' @ hex4_upper (of_char c) @ ''>'' else [c])
       (token_string lx))"

end
