(* ===== verification/Json_Dom.thy ===== *)
theory Json_Dom
  imports Json_Value
begin

text \<open>
  Class \<open>json_sax_dom_parser\<close> of \<open>include/common/json.hpp\<close>: it receives the events of a reader and
  builds the value through pointers into the tree under construction. The text parser and the reader of
  the binary formats own one; their states extend the record \<open>sax_dom\<close>. The last part gives the effect of
  every event on the value under construction: a value with a hole is a function from the content of the
  hole to the whole.
\<close>

section \<open>Pointers into a value\<close>

text \<open>
  A pointer \<open>BasicJsonType*\<close> into the tree below \<open>root\<close> is the path to the element. Elements of a
  \<open>std::map\<close> do not move; an element of a \<open>std::vector\<close> moves when the vector grows, but \<open>ref_stack\<close>
  holds no pointer into a vector that grows.
\<close>

datatype ptr_step = Key string | Index nat

type_synonym pointer = "ptr_step list"

fun json_at :: "pointer \<Rightarrow> json \<Rightarrow> json option" where
  "json_at [] j = Some j"
| "json_at (Key k # p) j =
     (case j of Object m \<Rightarrow> (case map_of m k of Some v \<Rightarrow> json_at p v | None \<Rightarrow> None) | _ \<Rightarrow> None)"
| "json_at (Index i # p) j =
     (case j of Array a \<Rightarrow> (if i < length a then json_at p (a ! i) else None) | _ \<Rightarrow> None)"

text \<open>Storing \<open>v\<close> through a pointer.\<close>

fun json_put :: "pointer \<Rightarrow> json \<Rightarrow> json \<Rightarrow> json" where
  "json_put [] v j = v"
| "json_put (Key k # p) v j =
     (case j of
        Object m \<Rightarrow> (case map_of m k of Some w \<Rightarrow> Object (omap_update k (json_put p v w) m) | None \<Rightarrow> j)
      | _ \<Rightarrow> j)"
| "json_put (Index i # p) v j =
     (case j of
        Array a \<Rightarrow> if i < length a then Array (a[i := json_put p v (a ! i)]) else j
      | _ \<Rightarrow> j)"

section \<open>State\<close>

text \<open>The last element of the vector \<open>ref_stack\<close> is the head of the list.\<close>

record sax_dom =
  root :: json
  ref_stack :: "pointer list"
  object_element :: "pointer option"
  errored :: bool
  allow_exceptions :: bool

section \<open>The DOM builder\<close>

definition handle_value :: "json \<Rightarrow> 'a sax_dom_scheme \<Rightarrow> exn + (pointer \<times> 'a sax_dom_scheme)" where
  "handle_value v p =
     (case ref_stack p of
        [] \<Rightarrow> Inr ([], p\<lparr>root := v\<rparr>)
      | back # _ \<Rightarrow>
          (case json_at back (root p) of
             Some (Array a) \<Rightarrow>
               Inr (back @ [Index (length a)], p\<lparr>root := json_put back (Array (a @ [v])) (root p)\<rparr>)
           | Some (Object m) \<Rightarrow>
               (case object_element p of
                  Some e \<Rightarrow> Inr (e, p\<lparr>root := json_put e v (root p)\<rparr>)
                | None \<Rightarrow> Inl (Assertion_failed ''object_element''))
           | _ \<Rightarrow> Inl (Assertion_failed ''ref_stack.back()->is_array() or ref_stack.back()->is_object()'')))"

definition sax_value :: "json \<Rightarrow> 'a sax_dom_scheme \<Rightarrow> exn + 'a sax_dom_scheme" where
  "sax_value v p = mapR snd (handle_value v p)"

definition start_object :: "'a sax_dom_scheme \<Rightarrow> exn + 'a sax_dom_scheme" where
  "start_object p =
     mapR (\<lambda>(ptr, p'). p'\<lparr>ref_stack := ptr # ref_stack p'\<rparr>) (handle_value (json_of_type object_t) p)"

definition start_array :: "'a sax_dom_scheme \<Rightarrow> exn + 'a sax_dom_scheme" where
  "start_array p =
     mapR (\<lambda>(ptr, p'). p'\<lparr>ref_stack := ptr # ref_stack p'\<rparr>) (handle_value (json_of_type array_t) p)"

definition sax_key :: "string \<Rightarrow> 'a sax_dom_scheme \<Rightarrow> exn + 'a sax_dom_scheme" where
  "sax_key k p =
     (case ref_stack p of
        [] \<Rightarrow> Inl (Undefined_behaviour ''back() of an empty ref_stack'')
      | back # _ \<Rightarrow>
          (case json_at back (root p) of
             Some (Object m) \<Rightarrow>
               let m' = (case map_of m k of Some _ \<Rightarrow> m | None \<Rightarrow> omap_update k Null m) in
               Inr (p\<lparr>root := json_put back (Object m') (root p), object_element := Some (back @ [Key k])\<rparr>)
           | _ \<Rightarrow> Inl (Undefined_behaviour ''m_value.object of a value that is no object'')))"

text \<open>\<open>end_object\<close> and \<open>end_array\<close>.\<close>

definition sax_end :: "'a sax_dom_scheme \<Rightarrow> exn + 'a sax_dom_scheme" where
  "sax_end p =
     (case ref_stack p of
        [] \<Rightarrow> Inl (Undefined_behaviour ''pop_back() on an empty ref_stack'')
      | _ # rest \<Rightarrow> Inr (p\<lparr>ref_stack := rest\<rparr>))"

text \<open>\<open>parse_error\<close>: throws, or records the error and returns false.\<close>

definition sax_parse_error :: "exn \<Rightarrow> 'a sax_dom_scheme \<Rightarrow> exn + (bool \<times> 'a sax_dom_scheme)" where
  "sax_parse_error ex p = (if allow_exceptions p then Inl ex else Inr (False, p\<lparr>errored := True\<rparr>))"

section \<open>Element pointers\<close>

lemma json_at_append: "json_at (p @ q) j = (case json_at p j of Some v \<Rightarrow> json_at q v | None \<Rightarrow> None)"
proof (induction p arbitrary: j)
  case (Cons s p)
  then show ?case by (cases s) (auto split: json.splits option.splits)
qed simp

lemma json_put_append: "json_at p j = Some w \<Longrightarrow> json_put (p @ q) u j = json_put p (json_put q u w) j"
proof (induction p arbitrary: j)
  case (Cons s p)
  then show ?case by (cases s) (auto split: json.splits option.splits if_splits)
qed simp

text \<open>A value with a hole at \<open>ptr\<close>: reading and storing through the pointer are those of the hole.\<close>

definition hole :: "pointer \<Rightarrow> (json \<Rightarrow> json) \<Rightarrow> bool" where
  "hole ptr R \<longleftrightarrow> (\<forall>w. json_at ptr (R w) = Some w) \<and> (\<forall>u w. json_put ptr u (R w) = R u)"

lemma omap_update_twice: "omap_update k u (omap_update k w m) = omap_update k u m"
  by (induction m) auto

lemma hole_root: "hole [] (\<lambda>w. w)"
  by (simp add: hole_def)

lemma hole_index: "hole ptr R \<Longrightarrow> hole (ptr @ [Index (length a)]) (\<lambda>w. R (Array (a @ [w])))"
  by (simp add: hole_def json_at_append json_put_append)

lemma hole_key: "hole ptr R \<Longrightarrow> hole (ptr @ [Key k]) (\<lambda>w. R (Object (omap_update k w m)))"
  by (simp add: hole_def json_at_append json_put_append omap_update_twice map_of_omap_update)

section \<open>Where the next value goes\<close>

definition slot :: "'a sax_dom_scheme \<Rightarrow> pointer \<Rightarrow> (json \<Rightarrow> json) \<Rightarrow> bool" where
  "slot p ptr R \<longleftrightarrow> hole ptr R \<and> (\<forall>w. handle_value w p = Inr (ptr, p\<lparr>root := R w\<rparr>))"

lemma slot_root: "ref_stack p = [] \<Longrightarrow> slot p [] (\<lambda>w. w)"
  by (simp add: slot_def hole_root handle_value_def)

lemma slot_array:
  "ref_stack p = ptr # st \<Longrightarrow> hole ptr R \<Longrightarrow> root p = R (Array a) \<Longrightarrow>
     slot p (ptr @ [Index (length a)]) (\<lambda>w. R (Array (a @ [w])))"
  by (simp add: slot_def hole_index) (simp add: handle_value_def hole_def)

lemma slot_object:
  assumes "ref_stack p = ptr # st" and "hole ptr R" and "root p = R (Object m)"
    and "object_element p = Some (ptr @ [Key k])" and "map_of m k = Some v"
  shows "slot p (ptr @ [Key k]) (\<lambda>w. R (Object (omap_update k w m)))"
proof -
  have at: "json_at ptr (R (Object m)) = Some (Object m)" and put: "\<And>u. json_put ptr u (R (Object m)) = R u"
    using assms(2) by (simp_all add: hole_def)
  have "handle_value w p = Inr (ptr @ [Key k], p\<lparr>root := R (Object (omap_update k w m))\<rparr>)" for w
    using assms by (simp add: handle_value_def at json_put_append [OF at] put)
  then show ?thesis by (simp add: slot_def hole_key assms(2))
qed

lemma sax_key_run:
  assumes "ref_stack p = ptr # st" and "hole ptr R" and "root p = R (Object m)"
  obtains m' where "sax_key k p = Inr (p\<lparr>root := R (Object m'), object_element := Some (ptr @ [Key k])\<rparr>)"
    and "map_of m' k \<noteq> None" and "\<And>w. omap_update k w m' = omap_update k w m"
proof
  let ?m' = "case map_of m k of Some _ \<Rightarrow> m | None \<Rightarrow> omap_update k Null m"
  show "sax_key k p = Inr (p\<lparr>root := R (Object ?m'), object_element := Some (ptr @ [Key k])\<rparr>)"
    using assms by (simp add: sax_key_def hole_def Let_def)
  show "map_of ?m' k \<noteq> None" by (simp add: map_of_omap_update split: option.split)
  show "omap_update k w ?m' = omap_update k w m" for w
    by (simp add: omap_update_twice split: option.split)
qed

lemma slot_sax_value: "slot p ptr R \<Longrightarrow> sax_value v p = Inr (p\<lparr>root := R v\<rparr>)"
  by (simp add: sax_value_def slot_def)

lemma slot_start:
  "slot p ptr R \<Longrightarrow> start_object p = Inr (p\<lparr>root := R (Object []), ref_stack := ptr # ref_stack p\<rparr>)"
  "slot p ptr R \<Longrightarrow> start_array p = Inr (p\<lparr>root := R (Array []), ref_stack := ptr # ref_stack p\<rparr>)"
  by (simp_all add: start_object_def start_array_def slot_def)

end
