(* ===== verification/Json_Parser.thy ===== *)
theory Json_Parser
  imports Json_Lexer Json_Dom
begin

text \<open>
  The parser of \<open>include/common/json.hpp\<close>: class \<open>parser\<close> with its explicit stack, and
  \<open>basic_json::parse\<close>.
\<close>

section \<open>State\<close>

text \<open>The members of \<open>parser\<close>, with the \<open>json_sax_dom_parser\<close> it drives.\<close>

record parser = sax_dom +
  last_token :: token_type
  m_lexer :: lexer

section \<open>The parser\<close>

definition get_token :: "parser \<Rightarrow> parser" where
  "get_token p = (let (t, lx) = scan (m_lexer p) in p\<lparr>last_token := t, m_lexer := lx\<rparr>)"

text \<open>\<open>exception_message\<close> and the exceptions use the last token and the lexer.\<close>

definition exception_message :: "token_type \<Rightarrow> string \<Rightarrow> token_type \<Rightarrow> lexer \<Rightarrow> string" where
  "exception_message expected context last_tok lx =
     ''syntax error '' @
     (if context = [] then [] else ''while parsing '' @ context @ '' '') @ ''- '' @
     (if last_tok = parse_error_tok
      then error_message lx @ ''; last read: '' @ squote @ get_token_string lx @ squote
      else ''unexpected '' @ token_type_name last_tok) @
     (if expected = uninitialized then [] else ''; expected '' @ token_type_name expected)"

definition syntax_error :: "token_type \<Rightarrow> string \<Rightarrow> token_type \<Rightarrow> lexer \<Rightarrow> exn" where
  "syntax_error expected context last_tok lx =
     parse_error_create 101 (position lx) (exception_message expected context last_tok lx)"

definition overflow_error :: "lexer \<Rightarrow> exn" where
  "overflow_error lx =
     out_of_range_create 406 (''number overflow parsing '' @ squote @ get_token_string lx @ squote)"

definition parser_error_101 :: "token_type \<Rightarrow> string \<Rightarrow> parser \<Rightarrow> exn" where
  "parser_error_101 expected context p = syntax_error expected context (last_token p) (m_lexer p)"

text \<open>How a part of an iteration of \<open>sax_parse_internal\<close> ends.\<close>

datatype 'p outcome =
    Return bool 'p                  \<comment> \<open>\<open>return\<close>\<close>
  | Continue "bool list" 'p         \<comment> \<open>\<open>continue\<close>\<close>
  | Skip "bool list" 'p             \<comment> \<open>\<open>skip_to_state_evaluation = true; continue\<close>\<close>
  | Break "bool list" 'p            \<comment> \<open>\<open>break\<close>: go on with the state evaluation\<close>

definition fail_101 :: "token_type \<Rightarrow> string \<Rightarrow> parser \<Rightarrow> exn + parser outcome" where
  "fail_101 expected context p =
     mapR (\<lambda>(b, p'). Return b p') (sax_parse_error (parser_error_101 expected context p) p)"

text \<open>Key, separator and the first token of the value, after \<open>{\<close> and after a comma.\<close>

definition parse_member_head :: "bool list \<Rightarrow> parser \<Rightarrow> exn + parser outcome" where
  "parse_member_head states p =
     (if last_token p \<noteq> value_string_tok then fail_101 value_string_tok ''object key'' p
      else bindR (sax_key (token_buffer (m_lexer p)) p) (\<lambda>p1.
        let p2 = get_token p1 in
        if last_token p2 \<noteq> name_separator then fail_101 name_separator ''object separator'' p2
        else Inr (Continue states (get_token p2))))"

text \<open>The \<open>switch (last_token)\<close>. The head of \<open>states\<close> is the last element of the vector.\<close>

definition token_step :: "bool list \<Rightarrow> parser \<Rightarrow> exn + parser outcome" where
  "token_step states p =
     (case last_token p of
        begin_object \<Rightarrow>
          bindR (start_object p) (\<lambda>p1.
          let p2 = get_token p1 in
          if last_token p2 = end_object then mapR (Break states) (sax_end p2)
          else parse_member_head (False # states) p2)
      | begin_array \<Rightarrow>
          bindR (start_array p) (\<lambda>p1.
          let p2 = get_token p1 in
          if last_token p2 = end_array then mapR (Break states) (sax_end p2)
          else Inr (Continue (True # states) p2))
      | value_float_tok \<Rightarrow>
          let res = value_float (m_lexer p) in
          if \<not> is_finite res
          then mapR (\<lambda>(b, p'). Return b p') (sax_parse_error (overflow_error (m_lexer p)) p)
          else mapR (Break states) (sax_value (Number_float res) p)
      | literal_false \<Rightarrow> mapR (Break states) (sax_value (Boolean False) p)
      | literal_null \<Rightarrow> mapR (Break states) (sax_value Null p)
      | literal_true \<Rightarrow> mapR (Break states) (sax_value (Boolean True) p)
      | value_integer_tok \<Rightarrow> mapR (Break states) (sax_value (Number_integer (value_integer (m_lexer p))) p)
      | value_string_tok \<Rightarrow> mapR (Break states) (sax_value (String (token_buffer (m_lexer p))) p)
      | value_unsigned_tok \<Rightarrow>
          mapR (Break states) (sax_value (Number_unsigned (value_unsigned (m_lexer p))) p)
      | parse_error_tok \<Rightarrow> fail_101 uninitialized ''value'' p
      | _ \<Rightarrow> fail_101 literal_or_value ''value'' p)"

definition state_step :: "bool list \<Rightarrow> parser \<Rightarrow> exn + parser outcome" where
  "state_step states p =
     (case states of
        [] \<Rightarrow> Inr (Return True p)
      | True # rest \<Rightarrow>
          let p1 = get_token p in
          if last_token p1 = value_separator then Inr (Continue states (get_token p1))
          else if last_token p1 = end_array then mapR (Skip rest) (sax_end p1)
          else fail_101 end_array ''array'' p1
      | False # rest \<Rightarrow>
          let p1 = get_token p in
          if last_token p1 = value_separator then parse_member_head states (get_token p1)
          else if last_token p1 = end_object then mapR (Skip rest) (sax_end p1)
          else fail_101 end_object ''object'' p1)"

section \<open>Termination\<close>

text \<open>Every token but the end of input and an error consumes a character.\<close>

definition stuck :: "token_type \<Rightarrow> bool" where
  "stuck t \<longleftrightarrow> t = end_of_input \<or> t = parse_error_tok"

lemma avail_scan_string_loop: "avail (snd (scan_string_loop lx)) \<le> avail lx"
proof (induction lx rule: scan_string_loop.induct)
  case (1 lx)
  obtain t lx' where st: "string_step lx = (t, lx')" by force
  have "avail lx' \<le> avail lx"
    using st avail_lex_get_le [of lx] avail_scan_escape [of "lex_get lx"] avail_scan_multibyte [of _ "lex_get lx"]
    by (auto simp: string_step_def Let_def lex_fail_def split: option.splits if_splits) (metis order_trans snd_conv)+
  then show ?case
    using 1 [OF st [symmetric]] st by (cases t) (auto simp: scan_string_loop.simps [of lx])
qed

lemma avail_unget_get: "avail (lex_unget (lex_get lx)) \<le> avail lx"
proof (cases "current (lex_get lx) = None")
  case True
  then have "avail (lex_unget (lex_get lx)) \<le> avail (lex_get lx)"
    by (simp add: lex_unget_def avail_def)
  then show ?thesis using avail_lex_get_le [of lx] by simp
next
  case False
  have "avail (lex_unget (lex_get lx)) \<le> Suc (avail (lex_get lx))"
    by (simp add: lex_unget_def avail_def)
  then show ?thesis using avail_lex_get [OF False] by simp
qed

lemma avail_scan_number_done: "avail (snd (scan_number_done ty (lex_get lx))) \<le> avail lx"
proof -
  have "avail (snd (scan_number_done ty (lex_get lx))) = avail (lex_unget (lex_get lx))"
    by (simp add: scan_number_done_def scan_number_float_def Let_def avail_def split: option.splits)
  then show ?thesis using avail_unget_get [of lx] by simp
qed

lemma avail_scan_number_loop: "avail (snd (scan_number_loop st ty lx)) \<le> avail lx"
proof (induction st ty lx rule: scan_number_loop.induct)
  case (1 st ty lx)
  show ?case
  proof (cases "number_step st (current (lex_get lx))")
    case (Goto st' c)
    have "avail (snd (scan_number_loop st' (label_type st ty) (lex_add c (lex_get lx)))) \<le> avail (lex_get lx)"
      using 1 [OF refl refl Goto] by simp
    with Goto avail_lex_get_le [of lx] show ?thesis
      by (subst scan_number_loop.simps) (simp add: Let_def)
  qed (simp_all add: scan_number_loop.simps [of st] Let_def avail_lex_get_le avail_scan_number_done)
qed

lemma avail_scan_number: "avail (snd (scan_number lx)) \<le> avail lx"
  using avail_scan_number_loop
  by (auto simp: scan_number_def Let_def split: option.splits) (metis avail_simps(1,2))+

lemma avail_scan_literal_loop: "avail (snd (scan_literal_loop cs t lx)) \<le> avail lx"
proof (induction cs arbitrary: lx)
  case (Cons c cs)
  show ?case using Cons.IH [of "lex_get lx"] avail_lex_get_le [of lx] by (simp add: Let_def)
qed simp

lemma avail_ifI:
  "avail (snd a) \<le> n \<Longrightarrow> avail (snd b) \<le> n \<Longrightarrow> avail (snd (if c then a else b)) \<le> n"
  by simp

lemma avail_scan_token: "avail (snd (scan_token lx)) \<le> avail lx"
proof (cases "current lx")
  case (Some c)
  have str: "avail (snd (scan_string lx)) \<le> avail lx"
    using avail_scan_string_loop [of "lex_reset lx"] by (simp add: scan_string_def)
  show ?thesis
    unfolding scan_token_def Some option.case scan_literal_def
    by (intro avail_ifI avail_scan_literal_loop avail_scan_number str) simp_all
qed (simp add: scan_token_def)

lemma scan_token_eof: "current lx = None \<Longrightarrow> fst (scan_token lx) = end_of_input"
  by (simp add: scan_token_def)

lemma avail_skip_ws:
  "avail (skip_ws lx) \<le> avail lx \<and> (current (skip_ws lx) \<noteq> None \<longrightarrow> avail (skip_ws lx) < avail lx)"
proof (induction lx rule: skip_ws.induct)
  case (1 lx)
  show ?case
  proof (cases "is_ws (current (lex_get lx))")
    case True
    then have "skip_ws lx = skip_ws (lex_get lx)" by (simp add: skip_ws.simps [of lx] Let_def)
    then show ?thesis using 1 [OF refl True] avail_lex_get_le [of lx] by auto
  next
    case False
    then have "skip_ws lx = lex_get lx" by (simp add: skip_ws.simps [of lx] Let_def)
    then show ?thesis using avail_lex_get_le [of lx] avail_lex_get [of lx] by auto
  qed
qed

lemma avail_skip_bom: "avail (snd (skip_bom lx)) \<le> avail lx"
  using avail_unget_get [of lx] avail_lex_get_le [of lx] avail_lex_get_le [of "lex_get lx"]
    avail_lex_get_le [of "lex_get (lex_get lx)"]
  by (simp add: skip_bom_def Let_def)

lemma avail_scan:
  "avail (snd (scan lx)) \<le> avail lx \<and> (\<not> stuck (fst (scan lx)) \<longrightarrow> avail (snd (scan lx)) < avail lx)"
proof -
  obtain ok lx1 where b: "(if chars_read_total (position lx) = 0 then skip_bom lx else (True, lx)) = (ok, lx1)"
    by (cases "if chars_read_total (position lx) = 0 then skip_bom lx else (True, lx)")
  then have le: "avail lx1 \<le> avail lx"
    using avail_skip_bom [of lx] by (auto split: if_splits)
  show ?thesis
    using le avail_scan_token [of "skip_ws lx1"] avail_skip_ws [of lx1] scan_token_eof [of "skip_ws lx1"]
    by (cases "current (skip_ws lx1) = None"; cases ok) (auto simp: scan_def b stuck_def)
qed

lemma m_lexer_get_token [simp]: "m_lexer (get_token p) = snd (scan (m_lexer p))"
  "last_token (get_token p) = fst (scan (m_lexer p))"
  by (simp_all add: get_token_def Let_def split: prod.splits)

definition pavail :: "parser \<Rightarrow> nat" where
  "pavail p = 2 * avail (m_lexer p) + (if stuck (last_token p) then 0 else 1)"

lemma get_token_avail:
  "avail (m_lexer (get_token p)) \<le> avail (m_lexer p)"
  "\<not> stuck (last_token (get_token p)) \<Longrightarrow> avail (m_lexer (get_token p)) < avail (m_lexer p)"
  using avail_scan [of "m_lexer p"] by simp_all

lemma sax_lexer:
  "sax_value v p = Inr p' \<Longrightarrow> m_lexer p' = m_lexer p \<and> last_token p' = last_token p"
  "start_object p = Inr p' \<Longrightarrow> m_lexer p' = m_lexer p \<and> last_token p' = last_token p"
  "start_array p = Inr p' \<Longrightarrow> m_lexer p' = m_lexer p \<and> last_token p' = last_token p"
  "sax_key k p = Inr p' \<Longrightarrow> m_lexer p' = m_lexer p \<and> last_token p' = last_token p"
  "sax_end p = Inr p' \<Longrightarrow> m_lexer p' = m_lexer p \<and> last_token p' = last_token p"
  by (auto simp: sax_value_def start_object_def start_array_def sax_key_def sax_end_def handle_value_def
      mapR_eq_Inr Let_def split: list.splits option.splits json.splits)

lemma fail_101_Return: "fail_101 e c p = Inr r \<Longrightarrow> \<exists>b p'. r = Return b p'"
  by (auto simp: fail_101_def mapR_eq_Inr split: prod.splits)

lemma parse_member_head_avail:
  assumes "parse_member_head st p = Inr (Continue st' p')"
  shows "avail (m_lexer p') < avail (m_lexer p)"
proof -
  obtain p1 where p1: "sax_key (token_buffer (m_lexer p)) p = Inr p1"
    and sep: "last_token (get_token p1) = name_separator" and p': "p' = get_token (get_token p1)"
    using assms
    by (auto simp: parse_member_head_def bindR_eq_Inr Let_def dest: fail_101_Return split: if_splits)
  have "avail (m_lexer (get_token p1)) < avail (m_lexer p1)"
    by (rule get_token_avail) (simp add: sep stuck_def del: m_lexer_get_token)
  with get_token_avail(1) [of "get_token p1"] sax_lexer(4) [OF p1] show ?thesis
    unfolding p' by simp
qed

lemma parse_member_head_outcome:
  "parse_member_head st p = Inr r \<Longrightarrow> (\<exists>b p'. r = Return b p') \<or> (\<exists>p'. r = Continue st p')"
  by (auto simp: parse_member_head_def bindR_eq_Inr Let_def dest: fail_101_Return split: if_splits)

lemma state_step_avail:
  "state_step st p = Inr (Continue st' p') \<Longrightarrow> avail (m_lexer p') < avail (m_lexer p)"
  "state_step st p = Inr (Skip st' p') \<Longrightarrow> avail (m_lexer p') < avail (m_lexer p)"
  "state_step st p \<noteq> Inr (Break st' p')"
proof -
  have tok: "avail (m_lexer (get_token p)) < avail (m_lexer p)"
    if "last_token (get_token p) \<in> {value_separator, end_array, end_object}"
    using that get_token_avail(2) [of p] by (auto simp: stuck_def simp del: m_lexer_get_token)
  have two: "avail (m_lexer (get_token (get_token p))) \<le> avail (m_lexer (get_token p))"
    by (rule get_token_avail)
  show "state_step st p = Inr (Continue st' p') \<Longrightarrow> avail (m_lexer p') < avail (m_lexer p)"
    using tok two parse_member_head_avail [of st "get_token (get_token p)" st' p']
    by (auto simp: state_step_def Let_def mapR_eq_Inr simp del: m_lexer_get_token dest: fail_101_Return
        split: list.splits if_splits bool.splits)
  show "state_step st p = Inr (Skip st' p') \<Longrightarrow> avail (m_lexer p') < avail (m_lexer p)"
    using tok
    by (auto simp: state_step_def Let_def mapR_eq_Inr simp del: m_lexer_get_token
        dest: fail_101_Return sax_lexer parse_member_head_outcome split: list.splits if_splits bool.splits)
  show "state_step st p \<noteq> Inr (Break st' p')"
    by (auto simp: state_step_def Let_def mapR_eq_Inr simp del: m_lexer_get_token
        dest: fail_101_Return parse_member_head_outcome split: list.splits if_splits bool.splits)
qed

lemma pavail_less: "avail (m_lexer p') < avail (m_lexer p) \<Longrightarrow> pavail p' < pavail p"
  by (simp add: pavail_def)

lemma token_step_Continue:
  assumes "token_step st p = Inr (Continue st' p')"
  shows "pavail p' < pavail p"
proof -
  consider (obj) p1 where "start_object p = Inr p1" "parse_member_head (False # st) (get_token p1) = Inr (Continue st' p')"
    | (arr) p1 where "last_token p = begin_array" "start_array p = Inr p1" "p' = get_token p1"
    using assms
    by (auto simp: token_step_def bindR_eq_Inr mapR_eq_Inr Let_def split: token_type.splits if_splits
        dest: fail_101_Return)
  then show ?thesis
  proof cases
    case obj
    then show ?thesis
      using parse_member_head_avail [OF obj(2)] get_token_avail(1) [of p1] sax_lexer(2) [OF obj(1)]
      by (intro pavail_less) simp
  next
    case arr
    have eq: "m_lexer p1 = m_lexer p" using sax_lexer(3) [OF arr(2)] by simp
    show ?thesis
    proof (cases "stuck (last_token p')")
      case True
      have "avail (m_lexer p') \<le> avail (m_lexer p)" using arr(3) eq get_token_avail(1) [of p1] by simp
      with True arr(1) show ?thesis by (simp add: pavail_def stuck_def)
    next
      case False
      then show ?thesis using arr(3) eq get_token_avail(2) [of p1] by (intro pavail_less) simp
    qed
  qed
qed

lemma token_step_Break:
  assumes "token_step st p = Inr (Break st' p')"
  shows "st' = st \<and> avail (m_lexer p') \<le> avail (m_lexer p)"
proof -
  have get: "start_object p = Inr p1 \<or> start_array p = Inr p1 \<Longrightarrow> sax_end (get_token p1) = Inr p2
      \<Longrightarrow> avail (m_lexer p2) \<le> avail (m_lexer p)" for p1 p2
    using get_token_avail(1) [of p1] sax_lexer(2,3,5) by fastforce
  show ?thesis
    using assms get
    by (auto simp: token_step_def bindR_eq_Inr mapR_eq_Inr Let_def split: token_type.splits if_splits
        dest!: fail_101_Return parse_member_head_outcome dest: sax_lexer)
qed

lemma token_step_not_Skip: "token_step st p \<noteq> Inr (Skip st' p')"
  by (auto simp: token_step_def bindR_eq_Inr mapR_eq_Inr Let_def split: token_type.splits if_splits
      dest: fail_101_Return parse_member_head_outcome)

section \<open>The loop\<close>

function sax_parse_loop :: "bool \<Rightarrow> bool list \<Rightarrow> parser \<Rightarrow> exn + (bool \<times> parser)" where
  "sax_parse_loop skip states p =
     bindR (if skip then Inr (Break states p) else token_step states p) (\<lambda>r.
       case r of
         Return b p1 \<Rightarrow> Inr (b, p1)
       | Continue states1 p1 \<Rightarrow> sax_parse_loop False states1 p1
       | Skip states1 p1 \<Rightarrow> sax_parse_loop True states1 p1
       | Break states1 p1 \<Rightarrow>
           bindR (state_step states1 p1) (\<lambda>r'.
             case r' of
               Return b p2 \<Rightarrow> Inr (b, p2)
             | Continue states2 p2 \<Rightarrow> sax_parse_loop False states2 p2
             | Skip states2 p2 \<Rightarrow> sax_parse_loop True states2 p2
             | Break states2 p2 \<Rightarrow> Inr (True, p2)))"
  by pat_completeness auto
termination
proof (relation "measure (\<lambda>(skip, states, p). pavail p)", goal_cases)
  case (2 skip states p r states1 p1)
  then show ?case by (auto dest: token_step_Continue split: if_splits)
next
  case (3 skip states p r states1 p1)
  then show ?case by (auto simp: token_step_not_Skip split: if_splits)
next
  case (4 skip states p r states1 p1 r' states2 p2)
  then have "avail (m_lexer p1) \<le> avail (m_lexer p)"
    by (auto dest: token_step_Break split: if_splits)
  with 4 state_step_avail(1) [of states1 p1 states2 p2] show ?case by (auto intro: pavail_less)
next
  case (5 skip states p r states1 p1 r' states2 p2)
  then have "avail (m_lexer p1) \<le> avail (m_lexer p)"
    by (auto dest: token_step_Break split: if_splits)
  with 5 state_step_avail(2) [of states1 p1 states2 p2] show ?case by (auto intro: pavail_less)
qed simp

declare sax_parse_loop.simps [simp del]

definition sax_parse_internal :: "parser \<Rightarrow> exn + (bool \<times> parser)" where
  "sax_parse_internal p = sax_parse_loop False [] p"

text \<open>The constructor of \<open>parser\<close>, \<open>parser::parse\<close> without a callback, and \<open>basic_json::parse\<close>.\<close>

definition parser_init :: "bool \<Rightarrow> string \<Rightarrow> parser" where
  "parser_init allow adapter =
     get_token \<lparr>root = Null, ref_stack = [], object_element = None, errored = False, allow_exceptions = allow,
                last_token = uninitialized, m_lexer = lexer_init adapter\<rparr>"

definition parser_parse :: "bool \<Rightarrow> parser \<Rightarrow> exn + json" where
  "parser_parse strict p =
     bindR (sax_parse_internal p) (\<lambda>(_, p1).
       let p2 = (if strict then get_token p1 else p1) in
       bindR (if strict \<and> last_token p2 \<noteq> end_of_input
              then mapR snd (sax_parse_error (parser_error_101 end_of_input ''value'' p2) p2)
              else Inr p2) (\<lambda>p3.
       Inr (if errored p3 then Discarded else root p3)))"

definition json_parse :: "string \<Rightarrow> exn + json" where
  "json_parse s = parser_parse True (parser_init True s)"

text \<open>\<open>json::parse\<close> with \<open>allow_exceptions = false\<close>.\<close>

definition json_parse_noexcept :: "string \<Rightarrow> exn + json" where
  "json_parse_noexcept s = parser_parse True (parser_init False s)"

end
