(* ===== verification/Json_Dtoa.thy ===== *)
theory Json_Dtoa
  imports Json_Value
begin

text \<open>
  Printing of doubles: namespace \<open>dtoa_impl\<close> of \<open>include/common/json.hpp\<close> (the Grisu2 algorithm) and
  \<open>to_chars\<close>. All significands are 64-bit words with the wrap-around of \<open>std::uint64_t\<close>. The build is a
  debug build, so a failed \<open>assert\<close> aborts; it is the error \<open>Assertion_failed\<close>.
\<close>

unbundle bit_operations_syntax

section \<open>Assertions and C arithmetic\<close>

definition assertR :: "bool \<Rightarrow> string \<Rightarrow> exn + unit" where
  "assertR b msg = (if b then Inr () else Inl (Assertion_failed msg))"

lemma assertR_simps [simp]:
  "assertR True msg = Inr ()"
  "assertR False msg = Inl (Assertion_failed msg)"
  by (simp_all add: assertR_def)

lemma assertR_eq_Inr [simp]: "assertR b msg = Inr u \<longleftrightarrow> b"
  by (simp add: assertR_def)

text \<open>Division of C++ integers truncates towards zero.\<close>

definition c_div :: "int \<Rightarrow> int \<Rightarrow> int" where
  "c_div a b = sgn a * sgn b * (\<bar>a\<bar> div \<bar>b\<bar>)"

section \<open>\<open>diyfp\<close>\<close>

record diyfp =
  dfp_f :: "64 word"
  dfp_e :: int

definition mk_diyfp :: "64 word \<Rightarrow> int \<Rightarrow> diyfp" where
  "mk_diyfp f e = \<lparr>dfp_f = f, dfp_e = e\<rparr>"

definition diyfp_sub :: "diyfp \<Rightarrow> diyfp \<Rightarrow> exn + diyfp" where
  "diyfp_sub x y =
     bindR (assertR (dfp_e x = dfp_e y) ''x.e == y.e'') (\<lambda>_.
     bindR (assertR (dfp_f y \<le> dfp_f x) ''x.f >= y.f'') (\<lambda>_.
     Inr (mk_diyfp (dfp_f x - dfp_f y) (dfp_e x))))"

definition diyfp_mul :: "diyfp \<Rightarrow> diyfp \<Rightarrow> diyfp" where
  "diyfp_mul x y =
     (let u_lo = dfp_f x AND 0xFFFFFFFF; u_hi = drop_bit 32 (dfp_f x);
          v_lo = dfp_f y AND 0xFFFFFFFF; v_hi = drop_bit 32 (dfp_f y);
          p0 = u_lo * v_lo; p1 = u_lo * v_hi; p2 = u_hi * v_lo; p3 = u_hi * v_hi;
          p0_hi = drop_bit 32 p0;
          p1_lo = p1 AND 0xFFFFFFFF; p1_hi = drop_bit 32 p1;
          p2_lo = p2 AND 0xFFFFFFFF; p2_hi = drop_bit 32 p2;
          Q = p0_hi + p1_lo + p2_lo;
          Q' = Q + push_bit 31 1;
          h = p3 + p2_hi + p1_hi + drop_bit 32 Q'
      in mk_diyfp h (dfp_e x + dfp_e y + 64))"

text \<open>The loop of \<open>normalize\<close>; its caller asserts that the significand is not zero.\<close>

function normalize_loop :: "64 word \<Rightarrow> int \<Rightarrow> 64 word \<times> int" where
  "normalize_loop f e =
     (if f \<noteq> 0 \<and> drop_bit 63 f = 0 then normalize_loop (push_bit 1 f) (e - 1) else (f, e))"
  by pat_completeness auto
termination
proof (relation "measure (\<lambda>(f, e). 2 ^ 64 - unat f)", goal_cases)
  case (2 f e)
  then have nz: "f \<noteq> 0" and top: "drop_bit 63 f = 0" by auto
  have "unat (drop_bit 63 f) = unat f div 2 ^ 63"
    by (simp add: drop_bit_eq_div unat_div)
  with top have small: "unat f < 2 ^ 63"
    by (simp add: div_eq_0_iff)
  have "unat (push_bit 1 f) = 2 * unat f mod 2 ^ 64"
    by (simp add: push_bit_eq_mult unat_word_ariths mult.commute)
  with small have "unat (push_bit 1 f) = 2 * unat f" by simp
  with nz small show ?case by (simp add: unat_gt_0 [symmetric])
qed simp

definition normalize :: "diyfp \<Rightarrow> exn + diyfp" where
  "normalize x =
     bindR (assertR (dfp_f x \<noteq> 0) ''x.f != 0'') (\<lambda>_.
     let (f, e) = normalize_loop (dfp_f x) (dfp_e x) in Inr (mk_diyfp f e))"

definition normalize_to :: "diyfp \<Rightarrow> int \<Rightarrow> exn + diyfp" where
  "normalize_to x target_exponent =
     (let delta = dfp_e x - target_exponent in
      bindR (assertR (0 \<le> delta) ''delta >= 0'') (\<lambda>_.
      bindR (assertR (drop_bit (nat delta) (push_bit (nat delta) (dfp_f x)) = dfp_f x)
               ''((x.f << delta) >> delta) == x.f'') (\<lambda>_.
      Inr (mk_diyfp (push_bit (nat delta) (dfp_f x)) target_exponent))))"

section \<open>Boundaries\<close>

record boundaries =
  b_w :: diyfp
  b_minus :: diyfp
  b_plus :: diyfp

text \<open>
  For \<open>double\<close>: \<open>kPrecision = 53\<close>, \<open>kBias = 1075\<close>, \<open>kMinExp = -1074\<close>, \<open>kHiddenBit = 2^52\<close>.
\<close>

definition compute_boundaries :: "double \<Rightarrow> exn + boundaries" where
  "compute_boundaries value =
     bindR (assertR (is_finite value) ''std::isfinite(value)'') (\<lambda>_.
     bindR (assertR (\<not> double_sign value \<and> \<not> is_zero value) ''value > 0'') (\<lambda>_.
     let kHiddenBit = push_bit 52 1 :: 64 word;
         E = drop_bit 52 value;
         F = value AND (kHiddenBit - 1);
         is_denormal = (E = 0);
         v = (if is_denormal then mk_diyfp F (- 1074)
              else mk_diyfp (F + kHiddenBit) (uint E - 1075));
         lower_boundary_is_closer = (F = 0 \<and> 1 < E);
         m_plus = mk_diyfp (2 * dfp_f v + 1) (dfp_e v - 1);
         m_minus = (if lower_boundary_is_closer then mk_diyfp (4 * dfp_f v - 1) (dfp_e v - 2)
                    else mk_diyfp (2 * dfp_f v - 1) (dfp_e v - 1))
     in bindR (normalize m_plus) (\<lambda>w_plus.
        bindR (normalize_to m_minus (dfp_e w_plus)) (\<lambda>w_minus.
        bindR (normalize v) (\<lambda>w.
        Inr \<lparr>b_w = w, b_minus = w_minus, b_plus = w_plus\<rparr>)))))"

section \<open>Cached powers of ten\<close>

definition kAlpha :: int where "kAlpha = - 60"

definition kGamma :: int where "kGamma = - 32"

type_synonym cached_power = "64 word \<times> int \<times> int"

text \<open>Entries \<open>(f, e, k)\<close> with \<open>f * 2^e\<close> close to \<open>10^k\<close>.\<close>

definition kCachedPowers :: "cached_power list" where
  "kCachedPowers =
     [(12353653155963782858, - 1060, - 300),
      (18408377700990114895, - 1034, - 292),
      (13715310171984221708, - 1007, - 284),
      (10218702384817765436, - 980, - 276),
      (15227053142812498563, - 954, - 268),
      (11345038669416679861, - 927, - 260),
      (16905424996341287883, - 901, - 252),
      (12595523146049147757, - 874, - 244),
      (9384396036005875287, - 847, - 236),
      (13983839803942852151, - 821, - 228),
      (10418772551374772303, - 794, - 220),
      (15525180923007089351, - 768, - 212),
      (11567161174868858868, - 741, - 204),
      (17236413322193710309, - 715, - 196),
      (12842128665889583758, - 688, - 188),
      (9568131466127621947, - 661, - 180),
      (14257626930069360058, - 635, - 172),
      (10622759856335341974, - 608, - 164),
      (15829145694278690180, - 582, - 156),
      (11793632577567316726, - 555, - 148),
      (17573882009934360870, - 529, - 140),
      (13093562431584567480, - 502, - 132),
      (9755464219737475723, - 475, - 124),
      (14536774485912137811, - 449, - 116),
      (10830740992659433045, - 422, - 108),
      (16139061738043178685, - 396, - 100),
      (12024538023802026127, - 369, - 92),
      (17917957937422433684, - 343, - 84),
      (13349918974505688015, - 316, - 76),
      (9946464728195732843, - 289, - 68),
      (14821387422376473014, - 263, - 60),
      (11042794154864902060, - 236, - 52),
      (16455045573212060422, - 210, - 44),
      (12259964326927110867, - 183, - 36),
      (18268770466636286478, - 157, - 28),
      (13611294676837538539, - 130, - 20),
      (10141204801825835212, - 103, - 12),
      (15111572745182864684, - 77, - 4),
      (11258999068426240000, - 50, 4),
      (16777216000000000000, - 24, 12),
      (12500000000000000000, 3, 20),
      (9313225746154785156, 30, 28),
      (13877787807814456755, 56, 36),
      (10339757656912845936, 83, 44),
      (15407439555097886824, 109, 52),
      (11479437019748901445, 136, 60),
      (17105694144590052135, 162, 68),
      (12744735289059618216, 189, 76),
      (9495567745759798747, 216, 84),
      (14149498560666738074, 242, 92),
      (10542197943230523224, 269, 100),
      (15709099088952724970, 295, 108),
      (11704190886730495818, 322, 116),
      (17440603504673385349, 348, 124),
      (12994262207056124023, 375, 132),
      (9681479787123295682, 402, 140),
      (14426529090290212157, 428, 148),
      (10748601772107342003, 455, 156),
      (16016664761464807395, 481, 164),
      (11933345169920330789, 508, 172),
      (17782069995880619868, 534, 180),
      (13248674568444952270, 561, 188),
      (9871031767461413346, 588, 196),
      (14708983551653345445, 614, 204),
      (10959046745042015199, 641, 212),
      (16330252207878254650, 667, 220),
      (12166986024289022870, 694, 228),
      (18130221999122236476, 720, 236),
      (13508068024458167312, 747, 244),
      (10064294952495520794, 774, 252),
      (14996968138956309548, 800, 260),
      (11173611982879273257, 827, 268),
      (16649979327439178909, 853, 276),
      (12405201291620119593, 880, 284),
      (9242595204427927429, 907, 292),
      (13772540099066387757, 933, 300),
      (10261342003245940623, 960, 308),
      (15290591125556738113, 986, 316),
      (11392378155556871081, 1013, 324)]"

definition get_cached_power_for_binary_exponent :: "int \<Rightarrow> exn + cached_power" where
  "get_cached_power_for_binary_exponent e =
     bindR (assertR (- 1500 \<le> e) ''e >= -1500'') (\<lambda>_.
     bindR (assertR (e \<le> 1500) ''e <= 1500'') (\<lambda>_.
     let f = kAlpha - e - 1;
         k = c_div (f * 78913) (2 ^ 18) + (if f > 0 then 1 else 0);
         index = c_div (300 + k + 7) 8
     in bindR (assertR (0 \<le> index) ''index >= 0'') (\<lambda>_.
        bindR (assertR (index < int (length kCachedPowers)) ''index < kCachedPowers.size()'') (\<lambda>_.
        let cached = kCachedPowers ! nat index in
        bindR (assertR (kAlpha \<le> fst (snd cached) + e + 64) ''kAlpha <= cached.e + e + 64'') (\<lambda>_.
        bindR (assertR (fst (snd cached) + e + 64 \<le> kGamma) ''kGamma >= cached.e + e + 64'') (\<lambda>_.
        Inr cached))))))"

text \<open>Returns the number of decimal digits and the largest power of ten not above \<open>n\<close>.\<close>

definition find_largest_pow10 :: "32 word \<Rightarrow> nat \<times> 32 word" where
  "find_largest_pow10 n =
     (if 1000000000 \<le> n then (10, 1000000000)
      else if 100000000 \<le> n then (9, 100000000)
      else if 10000000 \<le> n then (8, 10000000)
      else if 1000000 \<le> n then (7, 1000000)
      else if 100000 \<le> n then (6, 100000)
      else if 10000 \<le> n then (5, 10000)
      else if 1000 \<le> n then (4, 1000)
      else if 100 \<le> n then (3, 100)
      else if 10 \<le> n then (2, 10)
      else (1, 1))"

section \<open>Digit generation\<close>

text \<open>
  The digits are collected in a list; \<open>buf[len - 1]--\<close> decrements its last character. The loop of
  \<open>grisu2_round\<close> runs under the asserted conditions \<open>dist <= delta\<close> and \<open>ten_k > 0\<close>.
\<close>

definition decr_last :: "string \<Rightarrow> string" where
  "decr_last buf = butlast buf @ [char_of (of_char (last buf) - 1 :: nat)]"

function grisu2_round_loop ::
    "string \<Rightarrow> 64 word \<Rightarrow> 64 word \<Rightarrow> 64 word \<Rightarrow> 64 word \<Rightarrow> exn + string" where
  "grisu2_round_loop buf dist delta rest ten_k =
     (if dist \<le> delta \<and> 0 < ten_k \<and> rest < dist \<and> ten_k \<le> delta - rest \<and>
         (rest + ten_k < dist \<or> rest + ten_k - dist < dist - rest)
      then if last buf = CHR ''0'' then Inl (Assertion_failed ''buf[len - 1] != 0'')
           else grisu2_round_loop (decr_last buf) dist delta (rest + ten_k) ten_k
      else Inr buf)"
  by pat_completeness auto
termination
proof (relation "measure (\<lambda>(buf, dist, delta, rest, ten_k). unat dist - unat rest)", goal_cases)
  case (2 buf dist delta rest ten_k)
  then have h: "dist \<le> delta" "0 < ten_k" "rest < dist" "ten_k \<le> delta - rest" by auto
  then have "unat (delta - rest) = unat delta - unat rest"
    by (intro unat_sub) simp
  with h have le: "unat rest + unat ten_k \<le> unat delta"
    by (auto simp: word_le_nat_alt word_less_nat_alt)
  then have "unat rest + unat ten_k < 2 ^ 64"
    using unat_double_less [of delta] by linarith
  then have "unat (rest + ten_k) = unat rest + unat ten_k"
    by (simp add: unat_word_ariths)
  with h show ?case by (auto simp: word_less_nat_alt)
qed simp

definition grisu2_round ::
    "string \<Rightarrow> 64 word \<Rightarrow> 64 word \<Rightarrow> 64 word \<Rightarrow> 64 word \<Rightarrow> exn + string" where
  "grisu2_round buf dist delta rest ten_k =
     bindR (assertR (1 \<le> length buf) ''len >= 1'') (\<lambda>_.
     bindR (assertR (dist \<le> delta) ''dist <= delta'') (\<lambda>_.
     bindR (assertR (rest \<le> delta) ''rest <= delta'') (\<lambda>_.
     bindR (assertR (0 < ten_k) ''ten_k > 0'') (\<lambda>_.
     grisu2_round_loop buf dist delta rest ten_k))))"

definition append_digit :: "string \<Rightarrow> nat \<Rightarrow> exn + string" where
  "append_digit buf d =
     bindR (assertR (d \<le> 9) ''d <= 9'') (\<lambda>_. Inr (buf @ [digit_char d]))"

text \<open>
  The first loop (the integral part), counting \<open>n\<close> down. \<open>Inl\<close> of the inner sum is the return from
  inside the loop, \<open>Inr\<close> the buffer after the loop.
\<close>

fun digit_gen_integral ::
    "nat \<Rightarrow> string \<Rightarrow> int \<Rightarrow> 32 word \<Rightarrow> 32 word \<Rightarrow> 64 word \<Rightarrow> nat \<Rightarrow> 64 word \<Rightarrow> 64 word
     \<Rightarrow> exn + ((string \<times> int) + string)" where
  "digit_gen_integral 0 buf decimal_exponent p1 pow10 p2 shift dist delta = Inr (Inr buf)"
| "digit_gen_integral (Suc n) buf decimal_exponent p1 pow10 p2 shift dist delta =
     (let d = p1 div pow10; r = p1 mod pow10 in
      bindR (append_digit buf (unat d)) (\<lambda>buf'.
      let rest = push_bit shift (ucast r) + p2 in
      if rest \<le> delta then
        bindR (grisu2_round buf' dist delta rest (push_bit shift (ucast pow10))) (\<lambda>buf''.
        Inr (Inl (buf'', decimal_exponent + int n)))
      else digit_gen_integral n buf' decimal_exponent r (pow10 div 10) p2 shift dist delta))"

text \<open>
  The second loop (the fractional part). Each round multiplies \<open>p2\<close> by ten modulo \<open>2^shift\<close>, so at
  most \<open>shift\<close> rounds are made; the fuel bounds them.
\<close>

fun digit_gen_fraction ::
    "nat \<Rightarrow> string \<Rightarrow> nat \<Rightarrow> 64 word \<Rightarrow> nat \<Rightarrow> 64 word \<Rightarrow> 64 word
     \<Rightarrow> exn + (string \<times> nat \<times> 64 word \<times> 64 word \<times> 64 word)" where
  "digit_gen_fraction 0 buf m p2 shift dist delta = Inl (Undefined_behaviour ''out of fuel'')"
| "digit_gen_fraction (Suc fuel) buf m p2 shift dist delta =
     bindR (assertR (p2 \<le> 1844674407370955161) ''p2 <= max / 10'') (\<lambda>_.
     let p2' = p2 * 10; d = drop_bit shift p2'; r = p2' AND (push_bit shift 1 - 1) in
     bindR (append_digit buf (unat d)) (\<lambda>buf'.
     let delta' = delta * 10; dist' = dist * 10 in
     if r \<le> delta' then Inr (buf', Suc m, r, dist', delta')
     else digit_gen_fraction fuel buf' (Suc m) r shift dist' delta'))"

definition grisu2_digit_gen :: "int \<Rightarrow> diyfp \<Rightarrow> diyfp \<Rightarrow> diyfp \<Rightarrow> exn + (string \<times> int)" where
  "grisu2_digit_gen decimal_exponent M_minus w M_plus =
     bindR (assertR (kAlpha \<le> dfp_e M_plus) ''M_plus.e >= kAlpha'') (\<lambda>_.
     bindR (assertR (dfp_e M_plus \<le> kGamma) ''M_plus.e <= kGamma'') (\<lambda>_.
     bindR (diyfp_sub M_plus M_minus) (\<lambda>d1.
     bindR (diyfp_sub M_plus w) (\<lambda>d2.
     let delta = dfp_f d1; dist = dfp_f d2;
         shift = nat (- dfp_e M_plus);
         one_f = push_bit shift 1 :: 64 word;
         p1 = ucast (drop_bit shift (dfp_f M_plus)) :: 32 word;
         p2 = dfp_f M_plus AND (one_f - 1)
     in bindR (assertR (0 < p1) ''p1 > 0'') (\<lambda>_.
        let (k, pow10) = find_largest_pow10 p1 in
        bindR (digit_gen_integral k [] decimal_exponent p1 pow10 p2 shift dist delta) (\<lambda>res.
        case res of
          Inl result \<Rightarrow> Inr result
        | Inr buf \<Rightarrow>
            bindR (assertR (delta < p2) ''p2 > delta'') (\<lambda>_.
            bindR (digit_gen_fraction 64 buf 0 p2 shift dist delta)
              (\<lambda>(buf', m, rest, dist', delta').
            bindR (grisu2_round buf' dist' delta' rest one_f) (\<lambda>buf''.
            Inr (buf'', decimal_exponent - int m))))))))))"

definition grisu2_boundaries :: "diyfp \<Rightarrow> diyfp \<Rightarrow> diyfp \<Rightarrow> exn + (string \<times> int)" where
  "grisu2_boundaries m_minus v m_plus =
     bindR (assertR (dfp_e m_plus = dfp_e m_minus) ''m_plus.e == m_minus.e'') (\<lambda>_.
     bindR (assertR (dfp_e m_plus = dfp_e v) ''m_plus.e == v.e'') (\<lambda>_.
     bindR (get_cached_power_for_binary_exponent (dfp_e m_plus)) (\<lambda>(cf, ce, ck).
     let c_minus_k = mk_diyfp cf ce;
         w = diyfp_mul v c_minus_k;
         w_minus = diyfp_mul m_minus c_minus_k;
         w_plus = diyfp_mul m_plus c_minus_k;
         M_minus = mk_diyfp (dfp_f w_minus + 1) (dfp_e w_minus);
         M_plus = mk_diyfp (dfp_f w_plus - 1) (dfp_e w_plus)
     in grisu2_digit_gen (- ck) M_minus w M_plus)))"

definition grisu2 :: "double \<Rightarrow> exn + (string \<times> int)" where
  "grisu2 value =
     bindR (assertR (is_finite value) ''std::isfinite(value)'') (\<lambda>_.
     bindR (assertR (\<not> double_sign value \<and> \<not> is_zero value) ''value > 0'') (\<lambda>_.
     bindR (compute_boundaries value) (\<lambda>b.
     grisu2_boundaries (b_minus b) (b_w b) (b_plus b))))"

section \<open>Formatting\<close>

definition append_exponent :: "int \<Rightarrow> exn + string" where
  "append_exponent e =
     bindR (assertR (- 1000 < e) ''e > -1000'') (\<lambda>_.
     bindR (assertR (e < 1000) ''e < 1000'') (\<lambda>_.
     let sgn_char = (if e < 0 then CHR ''-'' else CHR ''+''); k = nat \<bar>e\<bar> in
     Inr (sgn_char #
       (if k < 10 then [CHR ''0'', digit_char k]
        else if k < 100 then [digit_char (k div 10), digit_char (k mod 10)]
        else [digit_char (k div 100), digit_char (k mod 100 div 10), digit_char (k mod 100 mod 10)]))))"

definition format_buffer :: "string \<Rightarrow> int \<Rightarrow> int \<Rightarrow> int \<Rightarrow> exn + string" where
  "format_buffer buf decimal_exponent min_exp max_exp =
     bindR (assertR (min_exp < 0) ''min_exp < 0'') (\<lambda>_.
     bindR (assertR (0 < max_exp) ''max_exp > 0'') (\<lambda>_.
     let k = int (length buf); n = k + decimal_exponent in
     if k \<le> n \<and> n \<le> max_exp then Inr (buf @ replicate (nat (n - k)) CHR ''0'' @ ''.0'')
     else if 0 < n \<and> n \<le> max_exp then Inr (take (nat n) buf @ ''.'' @ drop (nat n) buf)
     else if min_exp < n \<and> n \<le> 0 then Inr (''0.'' @ replicate (nat (- n)) CHR ''0'' @ buf)
     else bindR (append_exponent (n - 1)) (\<lambda>ex.
       if k = 1 then Inr (buf @ ''e'' @ ex)
       else Inr (take 1 buf @ ''.'' @ drop 1 buf @ ''e'' @ ex))))"

text \<open>\<open>kMinExp = -4\<close>, \<open>kMaxExp = digits10 = 15\<close>, \<open>max_digits10 = 17\<close>; the buffer has 64 bytes.\<close>

definition to_chars :: "double \<Rightarrow> exn + string" where
  "to_chars value =
     bindR (assertR (is_finite value) ''std::isfinite(value)'') (\<lambda>_.
     let (v, prefix) = (if double_sign value then (double_neg value, ''-'') else (value, [])) in
     if is_zero v then Inr (prefix @ ''0.0'')
     else bindR (grisu2 v) (\<lambda>(buf, decimal_exponent).
       bindR (assertR (length buf \<le> 17) ''len <= max_digits10'') (\<lambda>_.
       mapR (\<lambda>s. prefix @ s) (format_buffer buf decimal_exponent (- 4) 15))))"

text \<open>\<open>serializer::dump_float\<close>.\<close>

definition dump_float :: "double \<Rightarrow> exn + string" where
  "dump_float x = (if \<not> is_finite x then Inr ''null'' else to_chars x)"

end
