(* ===== verification/Json_Serializer.thy ===== *)
theory Json_Serializer
  imports Json_Dtoa
begin

text \<open>
  Serialization: class \<open>serializer\<close> of \<open>include/common/json.hpp\<close> and \<open>basic_json::dump\<close>. The functions
  return the characters written to the output adapter. \<open>dump_escaped\<close> keeps the 512-byte
  \<open>string_buffer\<close> and \<open>dump_integer\<close> the 64-byte \<open>number_buffer\<close> of the code; a write outside them would
  be \<open>Undefined_behaviour\<close>.
\<close>

unbundle bit_operations_syntax

section \<open>The UTF-8 decoder\<close>

definition utf8d :: "nat list" where
  "utf8d =
     [0, 0, 0, 0, 0, 0, 0, 0, 0, 0, 0, 0, 0, 0, 0, 0, 0, 0, 0, 0, 0, 0, 0, 0, 0, 0, 0, 0, 0, 0, 0, 0,
      0, 0, 0, 0, 0, 0, 0, 0, 0, 0, 0, 0, 0, 0, 0, 0, 0, 0, 0, 0, 0, 0, 0, 0, 0, 0, 0, 0, 0, 0, 0, 0,
      0, 0, 0, 0, 0, 0, 0, 0, 0, 0, 0, 0, 0, 0, 0, 0, 0, 0, 0, 0, 0, 0, 0, 0, 0, 0, 0, 0, 0, 0, 0, 0,
      0, 0, 0, 0, 0, 0, 0, 0, 0, 0, 0, 0, 0, 0, 0, 0, 0, 0, 0, 0, 0, 0, 0, 0, 0, 0, 0, 0, 0, 0, 0, 0,
      1, 1, 1, 1, 1, 1, 1, 1, 1, 1, 1, 1, 1, 1, 1, 1, 9, 9, 9, 9, 9, 9, 9, 9, 9, 9, 9, 9, 9, 9, 9, 9,
      7, 7, 7, 7, 7, 7, 7, 7, 7, 7, 7, 7, 7, 7, 7, 7, 7, 7, 7, 7, 7, 7, 7, 7, 7, 7, 7, 7, 7, 7, 7, 7,
      8, 8, 2, 2, 2, 2, 2, 2, 2, 2, 2, 2, 2, 2, 2, 2, 2, 2, 2, 2, 2, 2, 2, 2, 2, 2, 2, 2, 2, 2, 2, 2,
      10, 3, 3, 3, 3, 3, 3, 3, 3, 3, 3, 3, 3, 4, 3, 3, 11, 6, 6, 6, 5, 8, 8, 8, 8, 8, 8, 8, 8, 8, 8, 8,
      0, 1, 2, 3, 5, 8, 7, 1, 1, 1, 4, 6, 1, 1, 1, 1, 1, 1, 1, 1, 1, 1, 1, 1, 1, 1, 1, 1, 1, 1, 1, 1,
      1, 0, 1, 1, 1, 1, 1, 0, 1, 0, 1, 1, 1, 1, 1, 1, 1, 2, 1, 1, 1, 1, 1, 2, 1, 2, 1, 1, 1, 1, 1, 1,
      1, 1, 1, 1, 1, 1, 1, 2, 1, 1, 1, 1, 1, 1, 1, 1, 1, 2, 1, 1, 1, 1, 1, 1, 1, 2, 1, 1, 1, 1, 1, 1,
      1, 1, 1, 1, 1, 1, 1, 3, 1, 3, 1, 1, 1, 1, 1, 1, 1, 3, 1, 1, 1, 1, 1, 3, 1, 3, 1, 1, 1, 1, 1, 1,
      1, 3, 1, 1, 1, 1, 1, 1, 1, 1, 1, 1, 1, 1, 1, 1]"

definition UTF8_ACCEPT :: nat where "UTF8_ACCEPT = 0"

definition UTF8_REJECT :: nat where "UTF8_REJECT = 1"

definition decode :: "nat \<Rightarrow> 32 word \<Rightarrow> nat \<Rightarrow> nat \<times> 32 word" where
  "decode state codep byte =
     (let type = utf8d ! byte;
          codep' = (if state \<noteq> UTF8_ACCEPT then (of_nat byte AND 0x3F) OR push_bit 6 codep
                    else drop_bit type 0xFF AND of_nat byte)
      in (utf8d ! (256 + state * 16 + type), codep'))"

section \<open>Escaping of strings\<close>

datatype error_handler_t = strict | replace | ignore

definition backslash :: char where "backslash = CHR 0x5C"

definition quote :: char where "quote = CHR 0x22"

record escape_state =
  es_out :: string          \<comment> \<open>characters already handed to the output adapter\<close>
  es_buffer :: string       \<comment> \<open>the first \<open>bytes\<close> characters of \<open>string_buffer\<close>\<close>
  es_accept :: nat          \<comment> \<open>\<open>bytes_after_last_accept\<close>\<close>
  es_undumped :: nat        \<comment> \<open>\<open>undumped_chars\<close>\<close>
  es_state :: nat
  es_codepoint :: "32 word"

definition string_buffer_size :: nat where "string_buffer_size = 512"

text \<open>
  Writing \<open>s\<close> at index \<open>bytes\<close>; \<open>extra\<close> counts the terminating NUL that \<open>snprintf\<close> also stores.
\<close>

definition sb_write :: "string \<Rightarrow> nat \<Rightarrow> escape_state \<Rightarrow> exn + escape_state" where
  "sb_write s extra st =
     (if length (es_buffer st) + length s + extra \<le> string_buffer_size
      then Inr (st\<lparr>es_buffer := es_buffer st @ s\<rparr>)
      else Inl (Undefined_behaviour ''write past string_buffer''))"

text \<open>\<open>if (string_buffer.size() - bytes < 13)\<close>: write the buffer and reset the index.\<close>

definition sb_flush :: "escape_state \<Rightarrow> escape_state" where
  "sb_flush st =
     (if string_buffer_size - length (es_buffer st) < 13
      then st\<lparr>es_out := es_out st @ es_buffer st, es_buffer := []\<rparr> else st)"

text \<open>The characters a complete code point adds to the buffer; \<open>c\<close> is its last byte.\<close>

definition escape_accept :: "bool \<Rightarrow> 32 word \<Rightarrow> char \<Rightarrow> string \<times> nat" where
  "escape_accept ensure_ascii cp c =
     (if cp = 0x08 then ([backslash, CHR ''b''], 0)
      else if cp = 0x09 then ([backslash, CHR ''t''], 0)
      else if cp = 0x0A then ([backslash, CHR ''n''], 0)
      else if cp = 0x0C then ([backslash, CHR ''f''], 0)
      else if cp = 0x0D then ([backslash, CHR ''r''], 0)
      else if cp = 0x22 then ([backslash, quote], 0)
      else if cp = 0x5C then ([backslash, backslash], 0)
      else if cp \<le> 0x1F \<or> ensure_ascii \<and> 0x7F \<le> cp then
        if cp \<le> 0xFFFF then ([backslash, CHR ''u''] @ hex4 (unat cp), 1)
        else ([backslash, CHR ''u''] @ hex4 (unat (0xD7C0 + drop_bit 10 cp)) @
              [backslash, CHR ''u''] @ hex4 (unat (0xDC00 + (cp AND 0x3FF))), 1)
      else ([c], 0))"

definition replacement :: "bool \<Rightarrow> string" where
  "replacement ensure_ascii =
     (if ensure_ascii then [backslash, CHR ''u'', CHR ''f'', CHR ''f'', CHR ''f'', CHR ''d'']
      else [CHR 0xEF, CHR 0xBF, CHR 0xBD])"

text \<open>
  One iteration of the loop of \<open>dump_escaped\<close> for the byte \<open>c\<close> at index \<open>i\<close>. The boolean tells
  whether the byte has to be read again (\<open>--i\<close>).
\<close>

definition escape_step ::
    "error_handler_t \<Rightarrow> bool \<Rightarrow> nat \<Rightarrow> char \<Rightarrow> escape_state \<Rightarrow> exn + (bool \<times> escape_state)" where
  "escape_step eh ensure_ascii i c st0 =
     (let (state, cp) = decode (es_state st0) (es_codepoint st0) (of_char c);
          st = st0\<lparr>es_state := state, es_codepoint := cp\<rparr> in
      if state = UTF8_ACCEPT then
        bindR (sb_write (fst (escape_accept ensure_ascii cp c)) (snd (escape_accept ensure_ascii cp c)) st)
          (\<lambda>st1. let st2 = sb_flush st1
                 in Inr (False, st2\<lparr>es_accept := length (es_buffer st2), es_undumped := 0\<rparr>))
      else if state = UTF8_REJECT then
        (case eh of
           strict \<Rightarrow> Inl (type_error_create 316
             (''invalid UTF-8 byte at index '' @ show_nat i @ '': 0x'' @ hex2_upper (of_char c)))
         | _ \<Rightarrow>
           let again = (0 < es_undumped st);
               st1 = st\<lparr>es_buffer := take (es_accept st) (es_buffer st)\<rparr> in
           bindR (if eh = replace
                  then bindR (sb_write (replacement ensure_ascii) 0 st1)
                         (\<lambda>st2. let st3 = sb_flush st2
                                in Inr (st3\<lparr>es_accept := length (es_buffer st3)\<rparr>))
                  else Inr st1)
             (\<lambda>st4. Inr (again, st4\<lparr>es_undumped := 0, es_state := UTF8_ACCEPT\<rparr>)))
      else
        bindR (if ensure_ascii then Inr st else sb_write [c] 0 st)
          (\<lambda>st1. Inr (False, st1\<lparr>es_undumped := es_undumped st1 + 1\<rparr>)))"

lemma escape_step_again:
  assumes "escape_step eh ea i c st = Inr (True, st')"
  shows "0 < es_undumped st \<and> es_undumped st' = 0"
  using assms
  by (auto simp: escape_step_def Let_def bindR_eq_Inr split: prod.splits if_splits error_handler_t.splits)

function escape_loop ::
    "error_handler_t \<Rightarrow> bool \<Rightarrow> nat \<Rightarrow> string \<Rightarrow> escape_state \<Rightarrow> exn + escape_state" where
  "escape_loop eh ensure_ascii i [] st = Inr st"
| "escape_loop eh ensure_ascii i (c # cs) st =
     bindR (escape_step eh ensure_ascii i c st) (\<lambda>r.
       if fst r then escape_loop eh ensure_ascii i (c # cs) (snd r)
       else escape_loop eh ensure_ascii (Suc i) cs (snd r))"
  by pat_completeness auto
termination
proof (relation "measure (\<lambda>(eh, ea, i, cs, st). 2 * length cs + (if 0 < es_undumped st then 1 else 0))",
    goal_cases)
  case (2 eh ea i c cs st r)
  then show ?case using escape_step_again [of eh ea i c st "snd r"] by (cases r) auto
qed auto

definition escape_init :: escape_state where
  "escape_init = \<lparr>es_out = [], es_buffer = [], es_accept = 0, es_undumped = 0,
                  es_state = UTF8_ACCEPT, es_codepoint = 0\<rparr>"

definition dump_escaped :: "error_handler_t \<Rightarrow> bool \<Rightarrow> string \<Rightarrow> exn + string" where
  "dump_escaped eh ensure_ascii s =
     bindR (escape_loop eh ensure_ascii 0 s escape_init) (\<lambda>st.
       if es_state st = UTF8_ACCEPT then Inr (es_out st @ es_buffer st)
       else case eh of
         strict \<Rightarrow> Inl (type_error_create 316
           (''incomplete UTF-8 string; last byte: 0x'' @ hex2_upper (of_char (last s))))
       | ignore \<Rightarrow> Inr (es_out st @ take (es_accept st) (es_buffer st))
       | replace \<Rightarrow>
           Inr (es_out st @ take (es_accept st) (es_buffer st) @ replacement ensure_ascii))"

section \<open>Integers\<close>

function count_digits_loop :: "nat \<Rightarrow> nat \<Rightarrow> nat" where
  "count_digits_loop x n_digits =
     (if x < 10 then n_digits
      else if x < 100 then n_digits + 1
      else if x < 1000 then n_digits + 2
      else if x < 10000 then n_digits + 3
      else count_digits_loop (x div 10000) (n_digits + 4))"
  by pat_completeness auto
termination by (relation "measure (\<lambda>(x, n). x)") auto

declare count_digits_loop.simps [simp del]

definition count_digits :: "nat \<Rightarrow> nat" where
  "count_digits x = count_digits_loop x 1"

definition digits_to_99 :: "string list" where
  "digits_to_99 =
     [''00'', ''01'', ''02'', ''03'', ''04'', ''05'', ''06'', ''07'', ''08'', ''09'',
      ''10'', ''11'', ''12'', ''13'', ''14'', ''15'', ''16'', ''17'', ''18'', ''19'',
      ''20'', ''21'', ''22'', ''23'', ''24'', ''25'', ''26'', ''27'', ''28'', ''29'',
      ''30'', ''31'', ''32'', ''33'', ''34'', ''35'', ''36'', ''37'', ''38'', ''39'',
      ''40'', ''41'', ''42'', ''43'', ''44'', ''45'', ''46'', ''47'', ''48'', ''49'',
      ''50'', ''51'', ''52'', ''53'', ''54'', ''55'', ''56'', ''57'', ''58'', ''59'',
      ''60'', ''61'', ''62'', ''63'', ''64'', ''65'', ''66'', ''67'', ''68'', ''69'',
      ''70'', ''71'', ''72'', ''73'', ''74'', ''75'', ''76'', ''77'', ''78'', ''79'',
      ''80'', ''81'', ''82'', ''83'', ''84'', ''85'', ''86'', ''87'', ''88'', ''89'',
      ''90'', ''91'', ''92'', ''93'', ''94'', ''95'', ''96'', ''97'', ''98'', ''99'']"

text \<open>
  The loop that fills \<open>number_buffer\<close> backwards from \<open>ptr\<close>. Moving the pointer below the start of
  the array is undefined behaviour.
\<close>

function fill_digits :: "nat \<Rightarrow> nat \<Rightarrow> string \<Rightarrow> exn + string" where
  "fill_digits abs_value ptr buffer =
     (if 100 \<le> abs_value then
        if ptr < 2 then Inl (Undefined_behaviour ''number_buffer underrun'')
        else let d = digits_to_99 ! (abs_value mod 100) in
             fill_digits (abs_value div 100) (ptr - 2) (buffer[ptr - 1 := d ! 1, ptr - 2 := d ! 0])
      else if 10 \<le> abs_value then
        if ptr < 2 then Inl (Undefined_behaviour ''number_buffer underrun'')
        else let d = digits_to_99 ! abs_value in
             Inr (buffer[ptr - 1 := d ! 1, ptr - 2 := d ! 0])
      else if ptr < 1 then Inl (Undefined_behaviour ''number_buffer underrun'')
      else Inr (buffer[ptr - 1 := digit_char abs_value]))"
  by pat_completeness auto
termination by (relation "measure (\<lambda>(a, p, b). a)") auto

declare fill_digits.simps [simp del]

text \<open>
  \<open>dump_integer\<close>. \<open>std::abs\<close> of the smallest \<open>std::intmax_t\<close> is undefined behaviour. \<open>buffer\<close> is the
  content of \<open>number_buffer\<close> left by earlier calls.
\<close>

definition dump_integer :: "string \<Rightarrow> int \<Rightarrow> exn + string" where
  "dump_integer buffer x =
     (if x = 0 then Inr ''0''
      else if x = - (2 ^ 63) then Inl (Undefined_behaviour ''std::abs of INT64_MIN'')
      else
        let is_negative = (x < 0);
            buffer1 = (if is_negative then buffer[0 := CHR ''-''] else buffer);
            abs_value = nat \<bar>x\<bar>;
            n_chars = (if is_negative then 1 + count_digits abs_value else count_digits abs_value)
        in bindR (assertR (n_chars < 64 - 1) ''n_chars < number_buffer.size() - 1'') (\<lambda>_.
           mapR (take n_chars) (fill_digits abs_value n_chars buffer1)))"

definition number_buffer :: string where
  "number_buffer = replicate 64 (CHR 0x00)"

section \<open>Values\<close>

definition write_indent :: "nat \<Rightarrow> string \<Rightarrow> exn + string" where
  "write_indent n indent_string =
     (if n \<le> length indent_string then Inr (take n indent_string)
      else if n = length indent_string + 1 then Inr (indent_string @ [CHR 0x00])
      else Inl (Undefined_behaviour ''read past indent_string''))"

definition grow_indent :: "nat \<Rightarrow> string \<Rightarrow> string" where
  "grow_indent new_indent indent_string =
     (if length indent_string < new_indent
      then indent_string @ replicate (length indent_string) CHR '' '' else indent_string)"

definition newline :: char where "newline = CHR 0x0A"

text \<open>The arguments of \<open>dump\<close> that every recursive call passes on, and the error handler.\<close>

record dump_opts =
  error_handler :: error_handler_t
  pretty_print :: bool
  ensure_ascii :: bool
  indent_step :: nat

text \<open>The scalar cases of \<open>dump\<close>.\<close>

definition dump_scalar :: "dump_opts \<Rightarrow> json \<Rightarrow> exn + string" where
  "dump_scalar opts val =
     (case val of
        String s \<Rightarrow>
          mapR (\<lambda>t. [quote] @ t @ [quote]) (dump_escaped (error_handler opts) (ensure_ascii opts) s)
      | Boolean b \<Rightarrow> Inr (if b then ''true'' else ''false'')
      | Number_integer x \<Rightarrow> dump_integer number_buffer x
      | Number_unsigned x \<Rightarrow> dump_integer number_buffer x
      | Number_float x \<Rightarrow> dump_float x
      | Discarded \<Rightarrow> Inr ''<discarded>''
      | _ \<Rightarrow> Inr ''null'')"

text \<open>
  \<open>dump\<close> with its loops over the members of an object and the elements of an array. The last argument
  and the second result are \<open>indent_string\<close>, which grows during pretty printing.
\<close>

function dump :: "dump_opts \<Rightarrow> nat \<Rightarrow> json \<Rightarrow> string \<Rightarrow> exn + (string \<times> string)"
  and dump_members :: "dump_opts \<Rightarrow> nat \<Rightarrow> (string \<times> json) list \<Rightarrow> string \<Rightarrow> exn + (string \<times> string)"
  and dump_elems :: "dump_opts \<Rightarrow> nat \<Rightarrow> json list \<Rightarrow> string \<Rightarrow> exn + (string \<times> string)" where
  "dump opts cur val ind =
     (case val of
        Object m \<Rightarrow>
          if m = [] then Inr (''{}'', ind)
          else if pretty_print opts then
            let new_indent = (cur + indent_step opts) mod 2 ^ 32; ind1 = grow_indent new_indent ind in
            bindR (dump_members opts new_indent m ind1) (\<lambda>r.
            bindR (write_indent cur (snd r)) (\<lambda>pad.
            Inr (''{'' @ [newline] @ fst r @ [newline] @ pad @ ''}'', snd r)))
          else
            bindR (dump_members opts cur m ind) (\<lambda>r. Inr (''{'' @ fst r @ ''}'', snd r))
      | Array a \<Rightarrow>
          if a = [] then Inr (''[]'', ind)
          else if pretty_print opts then
            let new_indent = (cur + indent_step opts) mod 2 ^ 32; ind1 = grow_indent new_indent ind in
            bindR (dump_elems opts new_indent a ind1) (\<lambda>r.
            bindR (write_indent cur (snd r)) (\<lambda>pad.
            Inr (''['' @ [newline] @ fst r @ [newline] @ pad @ '']'', snd r)))
          else
            bindR (dump_elems opts cur a ind) (\<lambda>r. Inr (''['' @ fst r @ '']'', snd r))
      | _ \<Rightarrow> mapR (\<lambda>t. (t, ind)) (dump_scalar opts val))"
| "dump_members opts cur kvs ind =
     (case kvs of
        [] \<Rightarrow> Inr ([], ind)
      | kv # m \<Rightarrow>
          bindR (if pretty_print opts then write_indent cur ind else Inr []) (\<lambda>pad.
          bindR (dump_escaped (error_handler opts) (ensure_ascii opts) (fst kv)) (\<lambda>key.
          bindR (dump opts cur (snd kv) ind) (\<lambda>r.
          let entry = pad @ [quote] @ key @ [quote] @
                (if pretty_print opts then '': '' else '':'') @ fst r in
          if m = [] then Inr (entry, snd r)
          else bindR (dump_members opts cur m (snd r)) (\<lambda>rest.
            Inr (entry @ (if pretty_print opts then '','' @ [newline] else '','') @ fst rest,
                 snd rest))))))"
| "dump_elems opts cur vs ind =
     (case vs of
        [] \<Rightarrow> Inr ([], ind)
      | v # a \<Rightarrow>
          bindR (if pretty_print opts then write_indent cur ind else Inr []) (\<lambda>pad.
          bindR (dump opts cur v ind) (\<lambda>r.
          if a = [] then Inr (pad @ fst r, snd r)
          else bindR (dump_elems opts cur a (snd r)) (\<lambda>rest.
            Inr (pad @ fst r @ (if pretty_print opts then '','' @ [newline] else '','') @ fst rest,
                 snd rest)))))"
  by pat_completeness auto
termination
proof (relation "measure (\<lambda>x. case x of
      Inl (opts, cur, val, ind) \<Rightarrow> size val
    | Inr (Inl (opts, cur, kvs, ind)) \<Rightarrow> size_list (size_prod (\<lambda>_. 0) size) kvs
    | Inr (Inr (opts, cur, vs, ind)) \<Rightarrow> size_list size vs)", goal_cases)
  case (6 opts cur kvs ind kv m pad key)
  then show ?case by (cases kv) auto
next
  case (7 opts cur kvs ind kv m pad key r e)
  then show ?case by (cases kv) auto
qed auto

declare dump.simps [simp del] dump_members.simps [simp del] dump_elems.simps [simp del]

text \<open>\<open>basic_json::dump\<close> and its default arguments.\<close>

definition json_dump :: "int \<Rightarrow> char \<Rightarrow> bool \<Rightarrow> error_handler_t \<Rightarrow> json \<Rightarrow> exn + string" where
  "json_dump indent indent_char ea eh j =
     (let indent_string = replicate 512 indent_char in
      if 0 \<le> indent
      then mapR fst (dump \<lparr>error_handler = eh, pretty_print = True, ensure_ascii = ea,
                          indent_step = nat indent\<rparr> 0 j indent_string)
      else mapR fst (dump \<lparr>error_handler = eh, pretty_print = False, ensure_ascii = ea,
                          indent_step = 0\<rparr> 0 j indent_string))"

definition dump_default :: "json \<Rightarrow> exn + string" where
  "dump_default j = json_dump (- 1) CHR '' '' False strict j"

end
