(* ===== verification/Chat_Handler.thy ===== *)
theory Chat_Handler
  imports Chat_Dao Chat_Redis Json_Parser Json_Serializer
begin

text \<open>
  Class \<open>MsgIDHandler\<close> of \<open>src/server/message_handler.cpp\<close>: the table of logged-in connections, the
  dispatch table and the handlers. A connection is a number; calls of \<open>TcpConnection::send\<close> are
  recorded in order. Log output is left out.
\<close>

section \<open>State\<close>

record ('d, 'r) server_state =
  user_conn_map :: "(int \<times> nat) list"
  conn_mtx :: bool                        \<comment> \<open>whether the mutex is held\<close>
  sends :: "(nat \<times> string) list"
  db :: 'd
  redis :: "'r redis_conn"

type_synonym ('d, 'r, 'a) server_cmd = "(('d, 'r) server_state, exn, 'a) cmd"

definition on_db :: "('d, exn, 'a) cmd \<Rightarrow> ('d, 'r, 'a) server_cmd" where
  "on_db m s = (let (r, d) = m (db s) in (r, s\<lparr>db := d\<rparr>))"

definition on_redis :: "('r redis_conn, exn, 'a) cmd \<Rightarrow> ('d, 'r, 'a) server_cmd" where
  "on_redis m s = (let (r, c) = m (redis s) in (r, s\<lparr>redis := c\<rparr>))"

definition send :: "nat \<Rightarrow> string \<Rightarrow> ('d, 'r, unit) server_cmd" where
  "send conn message = modifyC (\<lambda>s. s\<lparr>sends := sends s @ [(conn, message)]\<rparr>)"

text \<open>A scope with a \<open>std::lock_guard\<close> on \<open>conn_mtx_\<close>. Locking a mutex that the thread holds is undefined.\<close>

definition with_lock :: "('d, 'r, 'a) server_cmd \<Rightarrow> ('d, 'r, 'a) server_cmd" where
  "with_lock m s =
     (if conn_mtx s then (Inl Mutex_relocked, s)
      else finallyC m (\<lambda>s'. s'\<lparr>conn_mtx := False\<rparr>) (s\<lparr>conn_mtx := True\<rparr>))"

section \<open>Responses\<close>

definition send_json :: "nat \<Rightarrow> json \<Rightarrow> ('d, 'r, unit) server_cmd" where
  "send_json conn j = bindC (liftR (dump_default j)) (send conn)"

text \<open>The two error texts of \<open>HandlerLogin\<close> in UTF-8: account already logged in; wrong account or password.\<close>

definition errmsg_already_online :: string where
  "errmsg_already_online =
     [CHR 0xE8, CHR 0xAF, CHR 0xA5, CHR 0xE8, CHR 0xB4, CHR 0xA6, CHR 0xE5, CHR 0x8F, CHR 0xB7, CHR 0xE5,
      CHR 0xB7, CHR 0xB2, CHR 0xE7, CHR 0x99, CHR 0xBB, CHR 0xE5, CHR 0xBD, CHR 0x95]"

definition errmsg_wrong_password :: string where
  "errmsg_wrong_password =
     [CHR 0xE8, CHR 0xB4, CHR 0xA6, CHR 0xE5, CHR 0x8F, CHR 0xB7, CHR 0xE6, CHR 0x88, CHR 0x96, CHR 0xE5,
      CHR 0xAF, CHR 0x86, CHR 0xE7, CHR 0xA0, CHR 0x81, CHR 0xE9, CHR 0x94, CHR 0x99, CHR 0xE8, CHR 0xAF,
      CHR 0xAF]"

section \<open>Login\<close>

definition friend_info :: "UserEntity \<Rightarrow> exn + string" where
  "friend_info user =
     bindR (json_build [(''id'', json_of_int (user_id user)), (''name'', json_of_string (user_name user)),
                        (''state'', json_of_string (user_state user))] Null) dump_default"

text \<open>The branch of a successful login.\<close>

definition login_accept ::
    "'d mysql_api \<Rightarrow> 'r redis_api \<Rightarrow> nat \<Rightarrow> int \<Rightarrow> UserEntity \<Rightarrow> ('d, 'r, unit) server_cmd" where
  "login_accept api rapi conn i user0 =
     seqC (with_lock (modifyC (\<lambda>s. s\<lparr>user_conn_map := umap_insert i conn (user_conn_map s)\<rparr>)))
    (seqC (on_redis (RedisConn_Subscribe rapi i))
    (let user = user0\<lparr>user_state := ''online''\<rparr> in
     seqC (on_db (UserDAO_UpdateState api user))
    (bindC (liftR (json_build
        [(''msgid'', json_of_MsgType kMsgLogACK), (''errno'', json_of_int 0),
         (''id'', json_of_int (user_id user)), (''name'', json_of_string (user_name user))] Null)) (\<lambda>response.
     bindC (on_db (OfflineMessageDAO_Query api i)) (\<lambda>offline_message.
     bindC (if offline_message \<noteq> []
            then bindC (liftR (json_set ''offlinemsg'' (json_of_strings offline_message) response)) (\<lambda>r.
                   seqC (on_db (OfflineMessageDAO_Delete api i)) (returnC r))
            else returnC response) (\<lambda>response1.
     bindC (on_db (FriendDAO_GetFriends api i)) (\<lambda>friends.
     bindC (if friends \<noteq> []
            then bindC (liftR (traverseR friend_info friends)) (\<lambda>friends_info.
                   liftR (json_set ''friendinfo'' (json_of_strings friends_info) response1))
            else returnC response1) (\<lambda>response2.
     send_json conn response2))))))))"

definition HandlerLogin ::
    "'d mysql_api \<Rightarrow> 'r redis_api \<Rightarrow> nat \<Rightarrow> json \<Rightarrow> ('d, 'r, unit) server_cmd" where
  "HandlerLogin api rapi conn js =
     bindC (liftR (field_int ''id'' js)) (\<lambda>(i, js1).
     bindC (liftR (field_string ''password'' js1)) (\<lambda>(pwd, js2).
     bindC (on_db (UserDAO_Query api i)) (\<lambda>user.
     if user_id user = i \<and> user_password user = pwd then
       if user_state user = ''online'' then
         bindC (liftR (json_build
           [(''msgid'', json_of_MsgType kMsgLogACK), (''errno'', json_of_int 2),
            (''errmsg'', json_of_string errmsg_already_online)] Null)) (send_json conn)
       else login_accept api rapi conn i user
     else
       bindC (liftR (json_build
         [(''msgid'', json_of_MsgType kMsgLogACK), (''errno'', json_of_int 1),
          (''errmsg'', json_of_string errmsg_wrong_password)] Null)) (send_json conn))))"

section \<open>Registration and logout\<close>

definition HandlerRegister :: "'d mysql_api \<Rightarrow> nat \<Rightarrow> json \<Rightarrow> ('d, 'r, unit) server_cmd" where
  "HandlerRegister api conn js =
     bindC (liftR (field_string ''name'' js)) (\<lambda>(name, js1).
     bindC (liftR (field_string ''password'' js1)) (\<lambda>(pwd, js2).
     bindC (on_db (UserDAO_Insert api (UserEntity_default\<lparr>user_name := name, user_password := pwd\<rparr>)))
       (\<lambda>(state, user).
     bindC (liftR (json_build
         (if state
          then [(''msgid'', json_of_MsgType kMsgRegACK), (''errno'', json_of_int 0),
                (''id'', json_of_int (user_id user))]
          else [(''msgid'', json_of_MsgType kMsgRegACK), (''errno'', json_of_int 1)]) Null))
       (send_json conn))))"

definition HandlerLogout ::
    "'d mysql_api \<Rightarrow> 'r redis_api \<Rightarrow> nat \<Rightarrow> json \<Rightarrow> ('d, 'r, unit) server_cmd" where
  "HandlerLogout api rapi conn js =
     bindC (liftR (field_int ''id'' js)) (\<lambda>(userid, js1).
     seqC (with_lock (modifyC (\<lambda>s. s\<lparr>user_conn_map := umap_erase userid (user_conn_map s)\<rparr>)))
    (seqC (on_redis (RedisConn_Unsubscribe rapi userid))
    (seqC (on_db (UserDAO_UpdateState api
        \<lparr>user_id = userid, user_name = [], user_password = [], user_state = ''offline''\<rparr>))
     (returnC ()))))"

section \<open>Chat\<close>

text \<open>Delivery to a user who has no connection here: over redis if online, otherwise stored.\<close>

definition deliver_remote ::
    "'d mysql_api \<Rightarrow> 'r redis_api \<Rightarrow> int \<Rightarrow> json \<Rightarrow> ('d, 'r, unit) server_cmd" where
  "deliver_remote api rapi to_id js =
     bindC (on_db (UserDAO_Query api to_id)) (\<lambda>user.
     bindC (liftR (dump_default js)) (\<lambda>text.
     if user_state user = ''online''
     then seqC (on_redis (RedisConn_Publish rapi to_id text)) (returnC ())
     else on_db (OfflineMessageDAO_Store api to_id text)))"

text \<open>Looking the receiver up under the lock; the result tells whether the message was sent.\<close>

definition send_if_connected :: "int \<Rightarrow> json \<Rightarrow> ('d, 'r, bool) server_cmd" where
  "send_if_connected to_id js =
     bindC (getC (\<lambda>s. map_of (user_conn_map s) to_id)) (\<lambda>it.
     case it of
       Some to_conn \<Rightarrow> seqC (send_json to_conn js) (returnC True)
     | None \<Rightarrow> returnC False)"

definition HandlerDirectChat ::
    "'d mysql_api \<Rightarrow> 'r redis_api \<Rightarrow> nat \<Rightarrow> json \<Rightarrow> ('d, 'r, unit) server_cmd" where
  "HandlerDirectChat api rapi conn js =
     bindC (liftR (field_int ''toid'' js)) (\<lambda>(to_id, js1).
     bindC (with_lock (send_if_connected to_id js1)) (\<lambda>sent.
     if sent then returnC () else deliver_remote api rapi to_id js1))"

definition HandlerAddFriend :: "'d mysql_api \<Rightarrow> nat \<Rightarrow> json \<Rightarrow> ('d, 'r, unit) server_cmd" where
  "HandlerAddFriend api conn js =
     bindC (liftR (field_int ''userid'' js)) (\<lambda>(uid, js1).
     bindC (liftR (field_int ''friendid'' js1)) (\<lambda>(friend_id, js2).
     on_db (FriendDAO_AddFriend api uid friend_id)))"

definition HandlerCreateGroup :: "'d mysql_api \<Rightarrow> nat \<Rightarrow> json \<Rightarrow> ('d, 'r, unit) server_cmd" where
  "HandlerCreateGroup api conn js =
     bindC (liftR (field_int ''id'' js)) (\<lambda>(uid, js1).
     bindC (liftR (field_string ''groupname'' js1)) (\<lambda>(gname, js2).
     bindC (liftR (field_string ''groupdesc'' js2)) (\<lambda>(gdesc, js3).
     bindC (on_db (GroupDAO_CreateGroup api (GroupEntity_make (- 1) gname gdesc))) (\<lambda>(ok, grp).
     if ok then seqC (on_db (GroupDAO_JoinGroup api uid (group_id grp) ''creator'')) (returnC ())
     else returnC ()))))"

definition HandlerJoinGroup :: "'d mysql_api \<Rightarrow> nat \<Rightarrow> json \<Rightarrow> ('d, 'r, unit) server_cmd" where
  "HandlerJoinGroup api conn js =
     bindC (liftR (field_int ''id'' js)) (\<lambda>(uid, js1).
     bindC (liftR (field_int ''group_id'' js1)) (\<lambda>(gid, js2).
     seqC (on_db (GroupDAO_JoinGroup api uid gid ''normal'')) (returnC ())))"

text \<open>The parameters of \<open>GetOtherGroupMembers\<close> are \<open>group_id\<close> and \<open>exclude_user_id\<close>, in this order.\<close>

definition HandlerGroupChat ::
    "'d mysql_api \<Rightarrow> 'r redis_api \<Rightarrow> nat \<Rightarrow> json \<Rightarrow> ('d, 'r, unit) server_cmd" where
  "HandlerGroupChat api rapi conn js =
     bindC (liftR (field_int ''id'' js)) (\<lambda>(userid, js1).
     bindC (liftR (field_int ''groupid'' js1)) (\<lambda>(groupid, js2).
     bindC (on_db (GroupDAO_GetOtherGroupMembers api userid groupid)) (\<lambda>useridVec.
     with_lock (forC useridVec (\<lambda>i.
       bindC (send_if_connected i js2) (\<lambda>sent.
       if sent then returnC () else deliver_remote api rapi i js2))))))"

section \<open>Notifications\<close>

definition HandlerRedisSubscribeMessage :: "'d mysql_api \<Rightarrow> int \<Rightarrow> string \<Rightarrow> ('d, 'r, unit) server_cmd" where
  "HandlerRedisSubscribeMessage api uid msg =
     with_lock (
       bindC (getC (\<lambda>s. map_of (user_conn_map s) uid)) (\<lambda>it.
       case it of
         Some conn \<Rightarrow> send conn msg
       | None \<Rightarrow> on_db (OfflineMessageDAO_Store api uid msg)))"

text \<open>The loop of \<open>ClientCloseException\<close>: the first entry of the connection is erased.\<close>

fun erase_first_conn :: "nat \<Rightarrow> (int \<times> nat) list \<Rightarrow> int option \<times> (int \<times> nat) list" where
  "erase_first_conn conn [] = (None, [])"
| "erase_first_conn conn ((i, c) # m) =
     (if c = conn then (Some i, m)
      else let (found, m') = erase_first_conn conn m in (found, (i, c) # m'))"

definition ClientCloseException ::
    "'d mysql_api \<Rightarrow> 'r redis_api \<Rightarrow> nat \<Rightarrow> ('d, 'r, unit) server_cmd" where
  "ClientCloseException api rapi conn =
     with_lock (
       bindC (getC (\<lambda>s. erase_first_conn conn (user_conn_map s))) (\<lambda>(found, m).
       let user = (case found of Some i \<Rightarrow> UserEntity_default\<lparr>user_id := i\<rparr> | None \<Rightarrow> UserEntity_default) in
       seqC (modifyC (\<lambda>s. s\<lparr>user_conn_map := m\<rparr>))
      (seqC (on_redis (RedisConn_Unsubscribe rapi (user_id user)))
       (if user_id user \<noteq> - 1
        then seqC (on_db (UserDAO_UpdateState api (user\<lparr>user_state := ''offline''\<rparr>))) (returnC ())
        else returnC ()))))"

definition MsgIDHandler_Reset :: "'d mysql_api \<Rightarrow> ('d, 'r, unit) server_cmd" where
  "MsgIDHandler_Reset api = on_db (UserDAO_ResetState api)"

section \<open>Dispatch\<close>

type_synonym ('d, 'r) handler = "nat \<Rightarrow> json \<Rightarrow> ('d, 'r, unit) server_cmd"

text \<open>The entries that the constructor inserts.\<close>

definition msg_handler_map ::
    "'d mysql_api \<Rightarrow> 'r redis_api \<Rightarrow> (MsgType \<times> ('d, 'r) handler) list" where
  "msg_handler_map api rapi =
     [(kMsgLog, HandlerLogin api rapi), (kMsgReg, HandlerRegister api), (kMsgLogout, HandlerLogout api rapi),
      (kMsgDirectChat, HandlerDirectChat api rapi), (kMsgAddFriend, HandlerAddFriend api),
      (kMsgCreateGroup, HandlerCreateGroup api), (kMsgJoinGroup, HandlerJoinGroup api),
      (kMsgGroupChat, HandlerGroupChat api rapi)]"

text \<open>An enumeration with fixed underlying type has a value for every \<open>int\<close>; the key is compared as one.\<close>

definition Dispatch :: "'d mysql_api \<Rightarrow> 'r redis_api \<Rightarrow> int \<Rightarrow> ('d, 'r) handler" where
  "Dispatch api rapi msgid =
     (case map_of (map (\<lambda>(t, h). (MsgType_code t, h)) (msg_handler_map api rapi)) msgid of
        Some handler \<Rightarrow> handler
      | None \<Rightarrow> (\<lambda>conn js. returnC ()))"

text \<open>The constructor.\<close>

definition MsgIDHandler_ctor :: "'d \<Rightarrow> 'r redis_api \<Rightarrow> 'r \<Rightarrow> ('d, 'r) server_state" where
  "MsgIDHandler_ctor d rapi r =
     (let (ok, c) = RedisConn_Connect rapi (RedisConn_ctor r);
          c' = (case ok of Inr True \<Rightarrow> snd (RedisConn_InitNotifyHandler c :: (exn + unit) \<times> 'r redis_conn) | _ \<Rightarrow> c)
      in \<lparr>user_conn_map = [], conn_mtx = False, sends = [], db = d, redis = c'\<rparr>)"

end
