(* ===== verification/Chat_Server.thy ===== *)
theory Chat_Server
  imports Chat_Handler
begin

text \<open>
  The server process: \<open>src/server/chat_server.cpp\<close>, \<open>signal_handler.cpp\<close> and \<open>main.cpp\<close>. The event loop of
  muduo calls back for every connection event and for every batch of received bytes; the redis thread
  calls back for every notification. Callbacks are taken as atomic steps.
\<close>

section \<open>Callbacks of the TCP server\<close>

text \<open>
  \<open>conn->shutdown()\<close> after a disconnection does nothing (\<open>TcpConnection\<close> is not in state
  \<open>kConnected\<close> any more).
\<close>

definition OnConnection :: "'d mysql_api \<Rightarrow> 'r redis_api \<Rightarrow> nat \<Rightarrow> bool \<Rightarrow> ('d, 'r, unit) server_cmd" where
  "OnConnection api rapi conn connected =
     (if \<not> connected then ClientCloseException api rapi conn else returnC ())"

text \<open>\<open>buff\<close> is everything in the input buffer; it has to be exactly one JSON text.\<close>

definition OnMessage :: "'d mysql_api \<Rightarrow> 'r redis_api \<Rightarrow> nat \<Rightarrow> string \<Rightarrow> ('d, 'r, unit) server_cmd" where
  "OnMessage api rapi conn buff =
     bindC (liftR (json_parse buff)) (\<lambda>js.
     bindC (liftR (field_int ''msgid'' js)) (\<lambda>(msgid, js1).
     Dispatch api rapi msgid conn js1))"

section \<open>Signals\<close>

type_synonym ('d, 'r) signal_handlers = "(int \<times> (int \<Rightarrow> ('d, 'r, unit) server_cmd)) list"

definition RegisterSignal ::
    "int \<Rightarrow> (int \<Rightarrow> ('d, 'r, unit) server_cmd) \<Rightarrow> ('d, 'r) signal_handlers \<Rightarrow> ('d, 'r) signal_handlers" where
  "RegisterSignal signum handler handlers = umap_assign signum handler handlers"

definition HandlerReset :: "'d mysql_api \<Rightarrow> int \<Rightarrow> ('d, 'r, unit) server_cmd" where
  "HandlerReset api signum = seqC (MsgIDHandler_Reset api) (throwC (Process_exit 0))"

definition SIGINT :: int where "SIGINT = 2"

definition SignalHandler_Init :: "'d mysql_api \<Rightarrow> ('d, 'r) signal_handlers \<Rightarrow> ('d, 'r) signal_handlers" where
  "SignalHandler_Init api handlers = RegisterSignal SIGINT (HandlerReset api) handlers"

definition HandleSignal :: "('d, 'r) signal_handlers \<Rightarrow> int \<Rightarrow> ('d, 'r, unit) server_cmd" where
  "HandleSignal handlers signum =
     (case map_of handlers signum of Some h \<Rightarrow> h signum | None \<Rightarrow> returnC ())"

section \<open>\<open>main\<close>\<close>

text \<open>
  The address and port that \<open>main\<close> listens on. \<open>argv\<close> ends with a null pointer; with too few arguments
  the program goes on after the error message and reads it.
\<close>

definition server_address :: "string list \<Rightarrow> exn + (string \<times> nat)" where
  "server_address argv =
     (if length argv < 3 then Inl (Undefined_behaviour ''null argument in main'')
      else Inr (argv ! 1, nat (atoi (argv ! 2) mod 2 ^ 16)))"

section \<open>The process\<close>

datatype event =
    Connected nat
  | Disconnected nat
  | Message nat string
  | Redis_message int string
  | Signal int

definition run_event :: "'d mysql_api \<Rightarrow> 'r redis_api \<Rightarrow> event \<Rightarrow> ('d, 'r, unit) server_cmd" where
  "run_event api rapi ev =
     (case ev of
        Connected conn \<Rightarrow> OnConnection api rapi conn True
      | Disconnected conn \<Rightarrow> OnConnection api rapi conn False
      | Message conn buff \<Rightarrow> OnMessage api rapi conn buff
      | Redis_message uid msg \<Rightarrow> HandlerRedisSubscribeMessage api uid msg
      | Signal signum \<Rightarrow> HandleSignal (SignalHandler_Init api []) signum)"

text \<open>No callback is called inside a \<open>try\<close> block: an exception ends the process.\<close>

datatype ('d, 'r) process =
    Running "('d, 'r) server_state"
  | Terminated exn "('d, 'r) server_state"

inductive server_step ::
    "'d mysql_api \<Rightarrow> 'r redis_api \<Rightarrow> ('d, 'r) process \<Rightarrow> event \<Rightarrow> ('d, 'r) process \<Rightarrow> bool"
  for api :: "'d mysql_api" and rapi :: "'r redis_api" where
  step_ok: "run_event api rapi ev s = (Inr (), s') \<Longrightarrow> server_step api rapi (Running s) ev (Running s')"
| step_throw: "run_event api rapi ev s = (Inl e, s') \<Longrightarrow> server_step api rapi (Running s) ev (Terminated e s')"

inductive_cases server_step_Running: "server_step api rapi (Running s) ev p"
inductive_simps server_step_Running_iff: "server_step api rapi (Running s) ev (Running s')"
inductive_simps server_step_Terminated_iff: "server_step api rapi (Running s) ev (Terminated e s')"

inductive reachable ::
    "'d mysql_api \<Rightarrow> 'r redis_api \<Rightarrow> ('d, 'r) server_state \<Rightarrow> ('d, 'r) process \<Rightarrow> bool"
  for api :: "'d mysql_api" and rapi :: "'r redis_api" and s0 :: "('d, 'r) server_state" where
  reach_init: "reachable api rapi s0 (Running s0)"
| reach_step: "reachable api rapi s0 p \<Longrightarrow> server_step api rapi p ev p' \<Longrightarrow> reachable api rapi s0 p'"

text \<open>The same as a function, for runs on concrete inputs.\<close>

fun run_events :: "'d mysql_api \<Rightarrow> 'r redis_api \<Rightarrow> event list \<Rightarrow> ('d, 'r, unit) server_cmd" where
  "run_events api rapi [] = returnC ()"
| "run_events api rapi (ev # evs) = seqC (run_event api rapi ev) (run_events api rapi evs)"

section \<open>Structure of the steps\<close>

definition state_of_process :: "('d, 'r) process \<Rightarrow> ('d, 'r) server_state" where
  "state_of_process p = (case p of Running s \<Rightarrow> s | Terminated e s \<Rightarrow> s)"

lemma server_step_state:
  "server_step api rapi p ev p' \<Longrightarrow>
     \<exists>s. p = Running s \<and> state_of_process p' = snd (run_event api rapi ev s)"
  by (auto elim!: server_step.cases simp: state_of_process_def)

lemma reachable_invariant:
  assumes "reachable api rapi s0 p" and "P s0" and "\<And>ev. preserves P (run_event api rapi ev)"
  shows "P (state_of_process p)"
  using assms(1)
proof induction
  case reach_init
  then show ?case by (simp add: state_of_process_def assms(2))
next
  case (reach_step p ev p')
  then obtain s where "p = Running s" "state_of_process p' = snd (run_event api rapi ev s)"
    using server_step_state by blast
  with reach_step.IH show ?case
    using preservesD [OF assms(3), of s ev] by (simp add: state_of_process_def)
qed

lemma server_step_total: "\<exists>p'. server_step api rapi (Running s) ev p'"
  by (cases "run_event api rapi ev s"; cases "fst (run_event api rapi ev s)")
     (auto intro: server_step.intros)

lemma server_step_deterministic:
  "server_step api rapi p ev p1 \<Longrightarrow> server_step api rapi p ev p2 \<Longrightarrow> p1 = p2"
  by (auto elim!: server_step.cases)

definition process_of :: "(exn + unit) \<times> ('d, 'r) server_state \<Rightarrow> ('d, 'r) process" where
  "process_of r = (case fst r of Inr _ \<Rightarrow> Running (snd r) | Inl e \<Rightarrow> Terminated e (snd r))"

lemma server_step_process_of: "server_step api rapi (Running s) ev (process_of (run_event api rapi ev s))"
  by (cases "run_event api rapi ev s"; cases "fst (run_event api rapi ev s)")
     (auto simp: process_of_def intro: server_step.intros)

lemma reachable_one: "reachable api rapi s (process_of (run_event api rapi ev s))"
  by (rule reach_step [OF reach_init server_step_process_of])

lemma state_of_process_one: "state_of_process (process_of r) = snd r"
  by (simp add: state_of_process_def process_of_def split: sum.split)

end
