(* ===== verification/Json_Utf8.thy ===== *)
theory Json_Utf8
  imports Json_Serializer
begin

text \<open>
  Well-formed UTF-8 as byte ranges (RFC 3629), and the proof that the byte-class automaton of
  \<open>serializer::decode\<close> in \<open>include/common/json.hpp\<close> implements it: every transition, and a bound on
  the code point it accumulates.
\<close>

unbundle bit_operations_syntax

section \<open>Well-formed UTF-8\<close>

text \<open>
  The reference definition: after a leading byte, the ranges in which the next bytes have to lie
  (table 3-7 of the Unicode standard). \<open>utf8_run rs s\<close> holds if \<open>s\<close> completes the pending ranges
  \<open>rs\<close> and goes on with complete sequences.
\<close>

abbreviation cont_range :: "nat \<times> nat" where "cont_range \<equiv> (0x80, 0xBF)"

definition lead_ranges :: "nat \<Rightarrow> (nat \<times> nat) list option" where
  "lead_ranges b =
     (if b < 0x80 then Some []
      else if 0xC2 \<le> b \<and> b \<le> 0xDF then Some [cont_range]
      else if b = 0xE0 then Some [(0xA0, 0xBF), cont_range]
      else if b = 0xED then Some [(0x80, 0x9F), cont_range]
      else if 0xE1 \<le> b \<and> b \<le> 0xEF then Some [cont_range, cont_range]
      else if b = 0xF0 then Some [(0x90, 0xBF), cont_range, cont_range]
      else if 0xF1 \<le> b \<and> b \<le> 0xF3 then Some [cont_range, cont_range, cont_range]
      else if b = 0xF4 then Some [(0x80, 0x8F), cont_range, cont_range]
      else None)"

fun utf8_next :: "(nat \<times> nat) list \<Rightarrow> nat \<Rightarrow> (nat \<times> nat) list option" where
  "utf8_next [] b = lead_ranges b"
| "utf8_next (r # rs) b = (if fst r \<le> b \<and> b \<le> snd r then Some rs else None)"

fun utf8_run :: "(nat \<times> nat) list \<Rightarrow> string \<Rightarrow> bool" where
  "utf8_run rs [] = (rs = [])"
| "utf8_run rs (c # cs) = (case utf8_next rs (of_char c) of None \<Rightarrow> False | Some rs' \<Rightarrow> utf8_run rs' cs)"

definition utf8_valid :: "string \<Rightarrow> bool" where
  "utf8_valid s = utf8_run [] s"

section \<open>The automaton\<close>

definition utf8_class :: "nat \<Rightarrow> nat" where
  "utf8_class b =
     (if b < 0x80 then 0 else if b < 0x90 then 1 else if b < 0xA0 then 9 else if b < 0xC0 then 7
      else if b < 0xC2 then 8 else if b < 0xE0 then 2 else if b = 0xE0 then 10 else if b = 0xED then 4
      else if b < 0xF0 then 3 else if b = 0xF0 then 11 else if b < 0xF4 then 6 else if b = 0xF4 then 5
      else 8)"

definition utf8_states :: "((nat \<times> nat) list \<times> nat) list" where
  "utf8_states =
     [([], 0), ([cont_range], 2), ([cont_range, cont_range], 3), ([(0xA0, 0xBF), cont_range], 4),
      ([(0x80, 0x9F), cont_range], 5), ([(0x90, 0xBF), cont_range, cont_range], 6),
      ([cont_range, cont_range, cont_range], 7), ([(0x80, 0x8F), cont_range, cont_range], 8)]"

lemma utf8d_class: "take 256 utf8d = map utf8_class [0..<256]"
  by code_simp

lemma utf8d_nth: "b < 256 \<Longrightarrow> utf8d ! b = utf8_class b"
  using utf8d_class by (metis diff_zero length_map length_upt nth_map nth_take nth_upt plus_nat.add_0)

text \<open>The transition table agrees with the ranges: for every state and a representative of every class.\<close>

definition state_of :: "(nat \<times> nat) list \<Rightarrow> nat" where
  "state_of rs = the (map_of utf8_states rs)"

definition next_state :: "(nat \<times> nat) list option \<Rightarrow> nat" where
  "next_state r = (case r of None \<Rightarrow> UTF8_REJECT | Some rs \<Rightarrow> state_of rs)"

definition pending :: "(nat \<times> nat) list \<Rightarrow> bool" where
  "pending rs \<longleftrightarrow> rs \<in> fst ` set utf8_states"

definition class_bytes :: "nat list" where
  "class_bytes = [0, 0x80, 0xC2, 0xE1, 0xED, 0xF4, 0xF1, 0xA0, 0xC0, 0x90, 0xE0, 0xF0]"

lemma transitions_checked:
  "\<forall>p \<in> set utf8_states.
     take 12 (drop (256 + snd p * 16) utf8d) = map (\<lambda>b. next_state (utf8_next (fst p) b)) class_bytes"
  by code_simp

lemma class_bytes_length: "length class_bytes = 12"
  by (simp add: class_bytes_def)

lemma class_less: "utf8_class b < 12"
  by (simp add: utf8_class_def)

definition class_byte :: "nat \<Rightarrow> nat" where
  "class_byte b = class_bytes ! utf8_class b"

lemma class_byte_intervals:
  "b < 0x80 \<Longrightarrow> class_byte b = 0"
  "0x80 \<le> b \<Longrightarrow> b < 0x90 \<Longrightarrow> class_byte b = 0x80"
  "0x90 \<le> b \<Longrightarrow> b < 0xA0 \<Longrightarrow> class_byte b = 0x90"
  "0xA0 \<le> b \<Longrightarrow> b < 0xC0 \<Longrightarrow> class_byte b = 0xA0"
  "0xC0 \<le> b \<Longrightarrow> b < 0xC2 \<Longrightarrow> class_byte b = 0xC0"
  "0xC2 \<le> b \<Longrightarrow> b < 0xE0 \<Longrightarrow> class_byte b = 0xC2"
  "0xE1 \<le> b \<Longrightarrow> b < 0xF0 \<Longrightarrow> b \<noteq> 0xED \<Longrightarrow> class_byte b = 0xE1"
  "0xF1 \<le> b \<Longrightarrow> b < 0xF4 \<Longrightarrow> class_byte b = 0xF1"
  "0xF5 \<le> b \<Longrightarrow> class_byte b = 0xC0"
  "class_byte 0xE0 = 0xE0" "class_byte 0xED = 0xED" "class_byte 0xF0 = 0xF0" "class_byte 0xF4 = 0xF4"
  by (simp_all add: class_byte_def class_bytes_def utf8_class_def)

lemma class_byte_range:
  assumes "r \<in> {cont_range, (0xA0, 0xBF), (0x80, 0x9F), (0x90, 0xBF), (0x80, 0x8F)}"
  shows "fst r \<le> class_byte b \<and> class_byte b \<le> snd r \<longleftrightarrow> fst r \<le> b \<and> b \<le> snd r"
proof (cases "b < 0xC0")
  case True
  then show ?thesis
    using assms class_byte_intervals(1-4) [of b] by (cases "b < 0x90"; cases "b < 0xA0"; cases "b < 0x80") auto
next
  case False
  then have "0xC0 \<le> class_byte b"
    by (auto simp: class_byte_def class_bytes_def utf8_class_def)
  with False assms show ?thesis by auto
qed

lemma class_byte_lead: "lead_ranges (class_byte b) = lead_ranges b"
proof (cases "b < 0xE0")
  case True
  then show ?thesis
    using class_byte_intervals(1-6) [of b]
    by (cases "b < 0x80"; cases "b < 0x90"; cases "b < 0xA0"; cases "b < 0xC0"; cases "b < 0xC2")
       (auto simp: lead_ranges_def)
next
  case False
  then show ?thesis
    using class_byte_intervals(7-9) [of b] class_byte_intervals(10-13)
    by (cases "b \<in> {0xE0, 0xED, 0xF0, 0xF4}"; cases "b < 0xF0"; cases "b < 0xF4") (auto simp: lead_ranges_def)
qed

lemma utf8_next_class:
  assumes "(rs, st) \<in> set utf8_states"
  shows "utf8_next rs (class_byte b) = utf8_next rs b"
proof (cases rs)
  case Nil
  then show ?thesis by (simp add: class_byte_lead)
next
  case (Cons r rs')
  with assms have "r \<in> {cont_range, (0xA0, 0xBF), (0x80, 0x9F), (0x90, 0xBF), (0x80, 0x8F)}"
    by (auto simp: utf8_states_def)
  then show ?thesis unfolding Cons utf8_next.simps by (simp only: class_byte_range)
qed

lemma utf8_transition:
  assumes "(rs, st) \<in> set utf8_states" and "b < 256"
  shows "utf8d ! (256 + st * 16 + utf8_class b) = next_state (utf8_next rs b)"
proof -
  have len: "256 + st * 16 + utf8_class b < length utf8d"
    using assms(1) class_less [of b] by (auto simp: utf8_states_def utf8d_def)
  have "utf8d ! (256 + st * 16 + utf8_class b) = take 12 (drop (256 + st * 16) utf8d) ! utf8_class b"
    using len class_less [of b] by (simp add: nth_drop)
  also have "\<dots> = next_state (utf8_next rs (class_byte b))"
    using transitions_checked assms(1) class_less [of b]
    by (simp add: class_byte_def class_bytes_length Ball_def del: nth_take)
  also have "\<dots> = next_state (utf8_next rs b)"
    by (simp add: utf8_next_class [OF assms(1)])
  finally show ?thesis .
qed

section \<open>Decoding steps\<close>

lemma state_of_pending: "pending rs \<Longrightarrow> (rs, state_of rs) \<in> set utf8_states"
  by (auto simp: pending_def state_of_def utf8_states_def)

lemma pending_Nil [simp]: "pending []" "state_of [] = UTF8_ACCEPT"
  by (simp_all add: pending_def state_of_def utf8_states_def UTF8_ACCEPT_def)

lemma pending_next: "pending rs \<Longrightarrow> utf8_next rs b = Some rs' \<Longrightarrow> pending rs'"
  by (auto simp: pending_def utf8_states_def lead_ranges_def split: if_splits)

lemma state_of_not_reject: "pending rs \<Longrightarrow> state_of rs \<noteq> UTF8_REJECT"
  by (auto simp: pending_def state_of_def utf8_states_def UTF8_REJECT_def)

lemma state_of_accept: "pending rs \<Longrightarrow> state_of rs = UTF8_ACCEPT \<longleftrightarrow> rs = []"
  by (auto simp: pending_def state_of_def utf8_states_def UTF8_ACCEPT_def)

lemma length_pending: "pending rs \<Longrightarrow> length rs \<le> 3"
  by (auto simp: pending_def utf8_states_def)

lemma decode_state:
  assumes "pending rs"
  shows "fst (decode (state_of rs) cp (of_char c)) = next_state (utf8_next rs (of_char c))"
  using utf8_transition [OF state_of_pending [OF assms], of "of_char c"]
  by (simp add: decode_def Let_def utf8d_nth)

text \<open>The accumulated code point: enough of it is known to see that a multi-byte sequence is not ASCII.\<close>

definition cp_bounds :: "(nat \<times> nat) list \<Rightarrow> 32 word \<Rightarrow> bool" where
  "cp_bounds rs cp \<longleftrightarrow>
     rs = [] \<or>
     unat cp < 2 ^ (21 - 6 * length rs) \<and>
     (fst (hd rs) = 0x80 \<longrightarrow> 0x80 \<le> unat cp * 64 ^ length rs)"

lemma unat_and_3F: "unat (of_nat b AND (0x3F :: 32 word)) = b mod 64"
proof -
  have "(0x3F :: 32 word) = mask 6" by (simp add: mask_eq_exp_minus_1)
  then show ?thesis
    by (simp only: take_bit_eq_mask [symmetric] unsigned_take_bit_eq)
       (simp add: take_bit_eq_mod unat_of_nat mod_mod_cancel)
qed

lemma unat_or_push6:
  assumes "unat (cp :: 32 word) < 2 ^ 20"
  shows "unat ((of_nat b AND 0x3F) OR push_bit 6 cp) = b mod 64 + 64 * unat cp"
proof -
  have m: "(0x3F :: 32 word) = mask 6" by (simp add: mask_eq_exp_minus_1)
  have "(of_nat b AND 0x3F) AND push_bit 6 cp = (0 :: 32 word)"
    unfolding m by (rule bit_word_eqI) (auto simp: bit_simps)
  then have s: "(of_nat b AND 0x3F) OR push_bit 6 cp = (of_nat b AND 0x3F) + push_bit 6 cp"
    by (rule disjunctive_add_eq_or [symmetric])
  have p: "unat (push_bit 6 cp) = 64 * unat cp"
    using assms by (simp add: push_bit_eq_mult unat_word_ariths)
  have "b mod 64 < 64" by simp
  then have "b mod 64 + 64 * unat cp < 2 ^ 32" using assms by simp
  then show ?thesis
    unfolding s by (simp add: unat_word_ariths unat_and_3F p)
qed

lemma decode_codepoint:
  assumes "unat cp < 2 ^ 20" and "b < 256"
  shows "unat (snd (decode st cp b)) =
    (if st \<noteq> UTF8_ACCEPT then b mod 64 + 64 * unat cp else unat (drop_bit (utf8_class b) 0xFF AND of_nat b :: 32 word))"
  using assms by (simp add: decode_def Let_def utf8d_nth unat_or_push6)

lemma drop_bit_mask_word: "drop_bit k (mask 8 :: 32 word) = mask (8 - k)"
  by (rule bit_word_eqI) (auto simp: bit_drop_bit_eq bit_mask_iff)

lemma lead_codepoint:
  assumes "b < 256" and "lead_ranges b = Some rs"
  shows "unat (drop_bit (utf8_class b) 0xFF AND of_nat b :: 32 word) = b mod 2 ^ (8 - utf8_class b)"
proof -
  have "(0xFF :: 32 word) = mask 8" by (simp add: mask_eq_exp_minus_1)
  then have "(drop_bit (utf8_class b) 0xFF :: 32 word) = mask (8 - utf8_class b)"
    by (simp only: drop_bit_mask_word)
  then show ?thesis
    by (simp only: take_bit_eq_mask [symmetric] unsigned_take_bit_eq and.commute)
       (use assms(1) in \<open>simp add: take_bit_eq_mod unat_of_nat\<close>)
qed

lemma cp_bounds_lead:
  assumes "b < 256" and "lead_ranges b = Some rs"
  shows "cp_bounds rs (drop_bit (utf8_class b) 0xFF AND of_nat b)"
proof -
  have "b mod 2 ^ (8 - utf8_class b) < 2 ^ (21 - 6 * length rs) \<and>
     (fst (hd rs) = 0x80 \<longrightarrow> 0x80 \<le> b mod 2 ^ (8 - utf8_class b) * 64 ^ length rs)" if "rs \<noteq> []"
  proof (cases "b < 0xE0")
    case True
    with that assms obtain "0xC2 \<le> b" "b < 0xE0" "rs = [cont_range]"
      by (auto simp: lead_ranges_def split: if_splits)
    then have "b = 0xC0 + (b - 0xC0)" "b - 0xC0 < 32" "2 \<le> b - 0xC0" "utf8_class b = 2"
      by (auto simp: utf8_class_def)
    then obtain d where "b = 0xC0 + d" "d < 32" "2 \<le> d" "utf8_class b = 2" by blast
    then show ?thesis using \<open>rs = _\<close> by (simp add: mod_if)
  next
    case False
    with assms that have "0xE0 \<le> b \<and> b < 0xF5"
      by (auto simp: lead_ranges_def split: if_splits)
    then have "b \<in> set [0xE0..<0xF5]" by (simp only: set_upt atLeastLessThan_iff)
    then have "b \<in> {0xE0,0xE1,0xE2,0xE3,0xE4,0xE5,0xE6,0xE7,0xE8,0xE9,0xEA,0xEB,0xEC,0xED,0xEE,0xEF,0xF0,0xF1,0xF2,0xF3,0xF4}"
      by (simp add: upt_rec_numeral)
    then show ?thesis
      using assms(2) by (elim insertE) (auto simp: lead_ranges_def utf8_class_def)
  qed
  then show ?thesis by (auto simp: cp_bounds_def lead_codepoint [OF assms])
qed

lemma cp_bounds_cont:
  assumes "pending rs" and "cp_bounds rs cp" and "rs = r # rs'" and "fst r \<le> b" "b \<le> snd r"
    and cp': "unat cp' = b mod 64 + 64 * unat cp"
  shows "cp_bounds rs' cp' \<and> (rs' = [] \<longrightarrow> 0x80 \<le> unat cp')"
proof -
  obtain d where d: "b = 0x80 + d" "d < 64"
    using assms(1,3-5) by (auto simp: pending_def utf8_states_def intro!: that [of "b - 0x80"])
  have "b mod 64 = d" using d mod_mult_self1 [of d 2 64] by (simp add: add.commute)
  then have u: "unat cp' = d + 64 * unat cp" using cp' by simp
  have "(r, rs') \<in> {(cont_range, []), (cont_range, [cont_range]), (cont_range, [cont_range, cont_range]),
      ((0xA0, 0xBF), [cont_range]), ((0x80, 0x9F), [cont_range]), ((0x90, 0xBF), [cont_range, cont_range]),
      ((0x80, 0x8F), [cont_range, cont_range])}"
    using assms(1,3) by (auto simp: pending_def utf8_states_def)
  then show ?thesis
    using assms(2-5) d u by (elim insertE emptyE) (simp_all add: cp_bounds_def)
qed

text \<open>One step of the automaton, by the pending ranges.\<close>

lemma decode_reject:
  assumes "pending rs" and "utf8_next rs (of_char c) = None"
  shows "fst (decode (state_of rs) cp (of_char c)) = UTF8_REJECT"
  using assms by (simp add: decode_state next_state_def)

lemma decode_first:
  assumes "lead_ranges (of_char c) = Some rs'"
  shows "fst (decode UTF8_ACCEPT cp (of_char c)) = state_of rs'"
    and "cp_bounds rs' (snd (decode UTF8_ACCEPT cp (of_char c)))"
    and "rs' = [] \<Longrightarrow> snd (decode UTF8_ACCEPT cp (of_char c)) = of_nat (of_char c) \<and> (of_char c :: nat) < 0x80"
proof -
  show "fst (decode UTF8_ACCEPT cp (of_char c)) = state_of rs'"
    using decode_state [of "[]" cp c] assms by (simp add: next_state_def)
  show "cp_bounds rs' (snd (decode UTF8_ACCEPT cp (of_char c)))"
    using cp_bounds_lead [OF _ assms] by (simp add: decode_def Let_def utf8d_nth)
next
  assume "rs' = []"
  with assms have b: "(of_char c :: nat) < 0x80" and "utf8_class (of_char c) = 0"
    by (auto simp: lead_ranges_def utf8_class_def split: if_splits)
  then have "unat (snd (decode UTF8_ACCEPT cp (of_char c))) = unat (of_nat (of_char c) :: 32 word)"
    using lead_codepoint [OF _ assms] by (simp add: decode_def Let_def utf8d_nth unat_of_nat)
  then have "snd (decode UTF8_ACCEPT cp (of_char c)) = of_nat (of_char c)"
    by (rule unsigned_word_eqI)
  with b show "snd (decode UTF8_ACCEPT cp (of_char c)) = of_nat (of_char c) \<and> (of_char c :: nat) < 0x80"
    by simp
qed

lemma decode_cont:
  assumes "pending (r # rs)" and "cp_bounds (r # rs) cp" and "utf8_next (r # rs) (of_char c) = Some rs'"
  shows "fst (decode (state_of (r # rs)) cp (of_char c)) = state_of rs'"
    and "cp_bounds rs' (snd (decode (state_of (r # rs)) cp (of_char c)))"
    and "rs' = [] \<Longrightarrow> 0x80 \<le> unat (snd (decode (state_of (r # rs)) cp (of_char c)))"
proof -
  show "fst (decode (state_of (r # rs)) cp (of_char c)) = state_of rs'"
    using assms by (simp add: decode_state next_state_def)
  have rng: "fst r \<le> of_char c" "of_char c \<le> snd r" and rs': "rs' = rs"
    using assms(3) by (auto split: if_splits)
  have na: "state_of (r # rs) \<noteq> UTF8_ACCEPT"
    using assms(1) by (simp add: state_of_accept)
  have "(2 :: nat) ^ (21 - 6 * length (r # rs)) \<le> 2 ^ 20" by (rule power_increasing) auto
  then have "unat cp < 2 ^ 20"
    using assms(2) by (simp add: cp_bounds_def)
  then have u: "unat (snd (decode (state_of (r # rs)) cp (of_char c))) = of_char c mod 64 + 64 * unat cp"
    using decode_codepoint [of cp "of_char c" "state_of (r # rs)"] na by simp
  show "cp_bounds rs' (snd (decode (state_of (r # rs)) cp (of_char c)))"
    and "rs' = [] \<Longrightarrow> 0x80 \<le> unat (snd (decode (state_of (r # rs)) cp (of_char c)))"
    using cp_bounds_cont [OF assms(1,2) refl rng u] rs' by simp_all
qed

end
