(* ===== verification/Json_Escape.thy ===== *)
theory Json_Escape
  imports Json_Utf8
begin

text \<open>
  Correctness of string serialization: \<open>dump_escaped\<close> stays inside \<open>string_buffer\<close> for every input,
  error handler and output mode, accepts exactly the well-formed UTF-8 strings under the \<open>strict\<close>
  handler, and writes the JSON escaping of its argument. Correctness of integer serialization:
  \<open>dump_integer\<close> stays inside \<open>number_buffer\<close> and writes the decimal representation.
\<close>

section \<open>Reference escaping\<close>

definition esc_char :: "char \<Rightarrow> string" where
  "esc_char c =
     (if c = CHR 0x08 then [backslash, CHR ''b'']
      else if c = CHR 0x09 then [backslash, CHR ''t'']
      else if c = CHR 0x0A then [backslash, CHR ''n'']
      else if c = CHR 0x0C then [backslash, CHR ''f'']
      else if c = CHR 0x0D then [backslash, CHR ''r'']
      else if c = quote then [backslash, quote]
      else if c = backslash then [backslash, backslash]
      else if (of_char c :: nat) < 0x20 then [backslash, CHR ''u''] @ hex4 (of_char c)
      else [c])"

definition escape_string :: "string \<Rightarrow> string" where
  "escape_string s = concat (map esc_char s)"

lemma escape_string_simps [simp]:
  "escape_string [] = []"
  "escape_string (c # cs) = esc_char c @ escape_string cs"
  by (simp_all add: escape_string_def)

section \<open>One accepted code point\<close>

lemma length_escape_accept:
  "length (fst (escape_accept ea cp c)) + snd (escape_accept ea cp c) \<le> 13"
  by (simp add: escape_accept_def hex4_def)

lemma escape_accept_multibyte:
  assumes "0x80 \<le> unat (cp :: 32 word)"
  shows "escape_accept False cp c = ([c], 0)"
proof -
  have "0x80 \<le> cp" using assms by (simp add: word_le_nat_alt)
  then have "\<not> cp \<le> 0x1F" and "cp \<notin> {0x08, 0x09, 0x0A, 0x0C, 0x0D, 0x22, 0x5C}"
    by (auto simp: word_le_nat_alt)
  then show ?thesis by (simp add: escape_accept_def)
qed

lemma esc_char_multibyte: "0x80 \<le> (of_char c :: nat) \<Longrightarrow> esc_char c = [c]"
  by (auto simp: esc_char_def quote_def backslash_def)

lemma escape_accept_ascii:
  assumes "(of_char c :: nat) < 0x80"
  shows "fst (escape_accept False (of_nat (of_char c)) c) = esc_char c"
proof -
  have eq: "(of_nat (of_char c) :: 32 word) = of_nat (of_char d) \<longleftrightarrow> c = d"
    if "(of_char d :: nat) < 0x80" for d
    using assms that by (auto simp: word_of_nat_eq_iff take_bit_eq_mod)
  have le: "(of_nat (of_char c) :: 32 word) \<le> 0x1F \<longleftrightarrow> (of_char c :: nat) < 0x20"
    using assms by (simp add: word_le_nat_alt unat_of_nat) linarith
  have w: "unat (of_nat (of_char c) :: 32 word) = of_char c"
    using assms by (simp add: unat_of_nat)
  have le2: "(of_nat (of_char c) :: 32 word) \<le> 0xFFFF"
    using assms by (simp add: word_le_nat_alt unat_of_nat)
  show ?thesis
    using eq [of "CHR 0x08"] eq [of "CHR 0x09"] eq [of "CHR 0x0A"] eq [of "CHR 0x0C"]
      eq [of "CHR 0x0D"] eq [of quote] eq [of backslash] le le2
    by (simp add: escape_accept_def esc_char_def w quote_def backslash_def)
qed

section \<open>The buffer invariant\<close>

text \<open>
  \<open>rs\<close> are the pending ranges. At most 499 bytes are in the buffer when a code point starts, so that
  the longest escape (12 characters and a NUL) and a partially copied code point fit.
\<close>

definition esc_inv :: "bool \<Rightarrow> (nat \<times> nat) list \<Rightarrow> escape_state \<Rightarrow> bool" where
  "esc_inv ea rs st \<longleftrightarrow>
     pending rs \<and> es_state st = state_of rs \<and> cp_bounds rs (es_codepoint st) \<and> es_accept st \<le> 499 \<and>
     (rs = [] \<longleftrightarrow> es_undumped st = 0) \<and> es_undumped st + length rs \<le> 4 \<and>
     length (es_buffer st) \<le> 499 + (if ea then 0 else es_undumped st)"

definition es_text :: "escape_state \<Rightarrow> string" where
  "es_text st = es_out st @ es_buffer st"

lemma esc_inv_init: "esc_inv ea [] escape_init"
  by (simp add: esc_inv_def escape_init_def cp_bounds_def)

lemma sb_flush_props [simp]:
  "length (es_buffer st) \<le> 512 \<Longrightarrow> length (es_buffer (sb_flush st)) \<le> 499"
  "es_text (sb_flush st) = es_text st"
  "es_state (sb_flush st) = es_state st"
  "es_codepoint (sb_flush st) = es_codepoint st"
  by (auto simp: sb_flush_def string_buffer_size_def es_text_def)

lemma pending_ConsD: "pending (r # rs) \<Longrightarrow> pending rs"
  by (auto simp: pending_def utf8_states_def)

lemma pending_ge_80: "pending (r # rs) \<Longrightarrow> 0x80 \<le> fst r"
  by (auto simp: pending_def utf8_states_def)

lemma esc_inv_decode:
  assumes "esc_inv ea rs st" and "utf8_next rs (of_char c) = Some rs'"
  obtains cp where "decode (es_state st) (es_codepoint st) (of_char c) = (state_of rs', cp)"
    and "pending rs'" and "cp_bounds rs' cp"
    and "rs' = [] \<Longrightarrow> rs = [] \<Longrightarrow> cp = of_nat (of_char c) \<and> (of_char c :: nat) < 0x80"
    and "rs \<noteq> [] \<Longrightarrow> 0x80 \<le> (of_char c :: nat)"
    and "rs' = [] \<Longrightarrow> rs \<noteq> [] \<Longrightarrow> 0x80 \<le> unat cp"
proof (rule that [of "snd (decode (es_state st) (es_codepoint st) (of_char c))"])
  have inv: "pending rs" "es_state st = state_of rs" "cp_bounds rs (es_codepoint st)"
    using assms(1) by (auto simp: esc_inv_def)
  have "pending rs'" using pending_next [OF inv(1) assms(2)] .
  note facts = this decode_first [of c rs' "es_codepoint st"] decode_cont [of "hd rs" "tl rs" "es_codepoint st" c rs']
  show "pending rs'" by fact
  show "decode (es_state st) (es_codepoint st) (of_char c) =
      (state_of rs', snd (decode (es_state st) (es_codepoint st) (of_char c)))"
    using facts inv assms(2) by (cases rs) (auto intro: prod_eqI)
  show "cp_bounds rs' (snd (decode (es_state st) (es_codepoint st) (of_char c)))"
    using facts inv assms(2) by (cases rs) auto
  show "rs \<noteq> [] \<Longrightarrow> 0x80 \<le> (of_char c :: nat)"
    using inv(1) assms(2) pending_ge_80 [of "hd rs" "tl rs"] by (cases rs) (auto split: if_splits)
  show "rs' = [] \<Longrightarrow> rs = [] \<Longrightarrow> snd (decode (es_state st) (es_codepoint st) (of_char c)) = of_nat (of_char c) \<and> (of_char c :: nat) < 0x80"
    using facts inv assms(2) by auto
  show "rs' = [] \<Longrightarrow> rs \<noteq> [] \<Longrightarrow> 0x80 \<le> unat (snd (decode (es_state st) (es_codepoint st) (of_char c)))"
    using facts inv assms(2) by (cases rs) auto
qed

section \<open>One iteration\<close>

definition step_text :: "bool \<Rightarrow> (nat \<times> nat) list \<Rightarrow> (nat \<times> nat) list \<Rightarrow> char \<Rightarrow> escape_state \<Rightarrow> string" where
  "step_text ea rs rs' c st =
     (if rs' = [] then fst (escape_accept ea (snd (decode (es_state st) (es_codepoint st) (of_char c))) c)
      else if ea then [] else [c])"

lemma escape_step_next:
  assumes inv: "esc_inv ea rs st" and nxt: "utf8_next rs (of_char c) = Some rs'"
  obtains st' where "escape_step eh ea i c st = Inr (False, st')" and "esc_inv ea rs' st'"
    and "es_text st' = es_text st @ step_text ea rs rs' c st"
proof -
  obtain cp where dec: "decode (es_state st) (es_codepoint st) (of_char c) = (state_of rs', cp)"
    and rs': "pending rs'" "cp_bounds rs' cp"
    and one: "rs' = [] \<Longrightarrow> rs = [] \<Longrightarrow> cp = of_nat (of_char c) \<and> (of_char c :: nat) < 0x80"
    and "rs \<noteq> [] \<Longrightarrow> 0x80 \<le> (of_char c :: nat)"
    and more: "rs' = [] \<Longrightarrow> rs \<noteq> [] \<Longrightarrow> 0x80 \<le> unat cp"
    by (fact esc_inv_decode [OF inv nxt])
  let ?st = "st\<lparr>es_state := state_of rs', es_codepoint := cp\<rparr>"
  show ?thesis
  proof (cases "rs' = []")
    case True
    let ?acc = "escape_accept ea cp c"
    have len: "length (es_buffer st) + length (fst ?acc) + snd ?acc \<le> 512"
    proof (cases "ea \<or> rs = []")
      case True
      then have "length (es_buffer st) \<le> 499" using inv by (auto simp: esc_inv_def split: if_splits)
      then show ?thesis using length_escape_accept [of ea cp c] by simp
    next
      case False
      then have "?acc = ([c], 0)" using more [OF True] by (simp add: escape_accept_multibyte)
      moreover have "length (es_buffer st) \<le> 503" using inv by (auto simp: esc_inv_def split: if_splits)
      ultimately show ?thesis by simp
    qed
    let ?st1 = "sb_flush (?st\<lparr>es_buffer := es_buffer st @ fst ?acc\<rparr>)"
    have b: "length (es_buffer ?st1) \<le> 499" using len by simp
    let ?st2 = "?st1\<lparr>es_accept := length (es_buffer ?st1), es_undumped := 0\<rparr>"
    show ?thesis
    proof (rule that [of ?st2])
      show "escape_step eh ea i c st = Inr (False, ?st2)"
        using True len by (simp add: escape_step_def Let_def dec sb_write_def string_buffer_size_def)
      show "esc_inv ea rs' ?st2"
        using True b rs' by (simp add: esc_inv_def)
      have "es_text ?st2 = es_text ?st1" by (simp add: es_text_def)
      also have "\<dots> = es_text st @ fst ?acc" by (simp del: sb_flush_props(1)) (simp add: es_text_def)
      finally show "es_text ?st2 = es_text st @ step_text ea rs rs' c st"
        using True by (simp add: step_text_def dec)
    qed
  next
    case False
    have len: "length (es_buffer st) \<le> 499 + (if ea then 0 else es_undumped st)" "es_undumped st \<le> 3"
      using inv False by (cases rs; auto simp: esc_inv_def)+
    have cnt: "es_undumped st + length rs' \<le> 3"
      using inv nxt rs'(1) length_pending [of rs'] False
      by (cases rs) (auto simp: esc_inv_def split: if_splits)
    let ?st1 = "(if ea then ?st else ?st\<lparr>es_buffer := es_buffer st @ [c]\<rparr>)"
    let ?st2 = "?st1\<lparr>es_undumped := es_undumped st + 1\<rparr>"
    show ?thesis
    proof (rule that [of ?st2])
      show "escape_step eh ea i c st = Inr (False, ?st2)"
        using False len state_of_accept [OF rs'(1)] state_of_not_reject [OF rs'(1)]
        by (cases ea) (auto simp add: escape_step_def Let_def dec sb_write_def string_buffer_size_def)
      show "esc_inv ea rs' ?st2"
        using False len rs' cnt inv by (auto simp: esc_inv_def)
      show "es_text ?st2 = es_text st @ step_text ea rs rs' c st"
        using False by (simp add: step_text_def es_text_def)
    qed
  qed
qed

lemma escape_step_invalid_strict:
  assumes inv: "esc_inv ea rs st" and nxt: "utf8_next rs (of_char c) = None"
  shows "escape_step strict ea i c st = Inl (type_error_create 316
    (''invalid UTF-8 byte at index '' @ show_nat i @ '': 0x'' @ hex2_upper (of_char c)))"
proof -
  have "fst (decode (es_state st) (es_codepoint st) (of_char c)) = UTF8_REJECT"
    using inv decode_reject [OF _ nxt] by (simp add: esc_inv_def)
  then show ?thesis
    by (cases "decode (es_state st) (es_codepoint st) (of_char c)")
       (simp add: escape_step_def UTF8_REJECT_def UTF8_ACCEPT_def)
qed

lemma escape_step_invalid:
  assumes inv: "esc_inv ea rs st" and nxt: "utf8_next rs (of_char c) = None" and eh: "eh \<noteq> strict"
  obtains st' where "escape_step eh ea i c st = Inr (rs \<noteq> [], st')" and "esc_inv ea [] st'"
proof -
  obtain cp where dec: "decode (es_state st) (es_codepoint st) (of_char c) = (UTF8_REJECT, cp)"
    using inv decode_reject [OF _ nxt, of "es_codepoint st"]
    by (cases "decode (es_state st) (es_codepoint st) (of_char c)") (simp add: esc_inv_def)
  let ?st1 = "st\<lparr>es_state := UTF8_REJECT, es_codepoint := cp, es_buffer := take (es_accept st) (es_buffer st)\<rparr>"
  let ?st2 = "sb_flush (?st1\<lparr>es_buffer := take (es_accept st) (es_buffer st) @ replacement ea\<rparr>)"
  have acc: "es_accept st \<le> 499" and again: "0 < es_undumped st \<longleftrightarrow> rs \<noteq> []"
    using inv by (auto simp: esc_inv_def)
  have rep: "length (replacement ea) \<le> 6" by (simp add: replacement_def)
  have b: "length (es_buffer ?st2) \<le> 499" using acc rep by simp
  have run: "escape_step eh ea i c st = Inr (rs \<noteq> [],
      (if eh = replace then ?st2\<lparr>es_accept := length (es_buffer ?st2)\<rparr> else ?st1)
        \<lparr>es_undumped := 0, es_state := UTF8_ACCEPT\<rparr>)"
    using eh acc rep again
    by (cases eh) (simp_all add: escape_step_def Let_def dec sb_write_def string_buffer_size_def
        UTF8_REJECT_def UTF8_ACCEPT_def)
  show ?thesis
    by (rule that [OF run]) (use acc b in \<open>auto simp: esc_inv_def cp_bounds_def\<close>)
qed

section \<open>The loop\<close>

lemma step_text_esc_char:
  assumes "esc_inv False rs st" and "utf8_next rs (of_char c) = Some rs'"
  shows "step_text False rs rs' c st = esc_char c"
proof -
  obtain cp where dec: "decode (es_state st) (es_codepoint st) (of_char c) = (state_of rs', cp)"
    and "pending rs'" and "cp_bounds rs' cp"
    and one: "rs' = [] \<Longrightarrow> rs = [] \<Longrightarrow> cp = of_nat (of_char c) \<and> (of_char c :: nat) < 0x80"
    and cont: "rs \<noteq> [] \<Longrightarrow> 0x80 \<le> (of_char c :: nat)"
    and more: "rs' = [] \<Longrightarrow> rs \<noteq> [] \<Longrightarrow> 0x80 \<le> unat cp"
    by (fact esc_inv_decode [OF assms])
  have lead: "rs = [] \<Longrightarrow> rs' \<noteq> [] \<Longrightarrow> 0x80 \<le> (of_char c :: nat)"
    using assms(2) by (auto simp: lead_ranges_def split: if_splits)
  show ?thesis
    using one cont more lead
    by (cases "rs = []"; cases "rs' = []")
       (simp_all add: step_text_def dec escape_accept_ascii escape_accept_multibyte esc_char_multibyte)
qed

lemma escape_loop_valid:
  assumes "esc_inv ea rs st" and "utf8_run rs cs"
  shows "\<exists>st'. escape_loop eh ea i cs st = Inr st' \<and> esc_inv ea [] st' \<and>
    (\<not> ea \<longrightarrow> es_text st' = es_text st @ escape_string cs)"
  using assms
proof (induction cs arbitrary: rs st i)
  case (Cons c cs)
  then obtain rs' where nxt: "utf8_next rs (of_char c) = Some rs'" and run: "utf8_run rs' cs"
    by (auto split: option.splits)
  obtain st1 where st1: "escape_step eh ea i c st = Inr (False, st1)" "esc_inv ea rs' st1"
    "es_text st1 = es_text st @ step_text ea rs rs' c st"
    using escape_step_next [OF Cons.prems(1) nxt] by blast
  have "\<not> ea \<Longrightarrow> step_text ea rs rs' c st = esc_char c"
    using step_text_esc_char [OF _ nxt] Cons.prems(1) by (cases ea) auto
  then show ?case
    using Cons.IH [OF st1(2) run, of "Suc i"] st1(1,3) by auto
qed auto

lemma escape_loop_invalid:
  assumes "esc_inv ea rs st" and "\<not> utf8_run rs cs"
  shows "(\<exists>w. escape_loop strict ea i cs st = Inl (type_error_create 316 w)) \<or>
    (\<exists>st'. escape_loop strict ea i cs st = Inr st' \<and> es_state st' \<noteq> UTF8_ACCEPT)"
  using assms
proof (induction cs arbitrary: rs st i)
  case Nil
  then show ?case using state_of_accept [of rs] by (auto simp: esc_inv_def)
next
  case (Cons c cs)
  show ?case
  proof (cases "utf8_next rs (of_char c)")
    case None
    then show ?thesis using escape_step_invalid_strict [OF Cons.prems(1) None] by auto
  next
    case (Some rs')
    obtain st1 where st1: "escape_step strict ea i c st = Inr (False, st1)" "esc_inv ea rs' st1"
      using escape_step_next [OF Cons.prems(1) Some] by blast
    have "\<not> utf8_run rs' cs" using Cons.prems(2) Some by simp
    then show ?thesis using Cons.IH [OF st1(2), of "Suc i"] st1(1) by simp
  qed
qed

lemma escape_loop_lenient:
  assumes "eh \<noteq> strict"
  shows "esc_inv ea rs st \<Longrightarrow> \<exists>st' rs'. escape_loop eh ea i cs st = Inr st' \<and> esc_inv ea rs' st'"
proof (induction "2 * length cs + (if rs = [] then 0 else 1)" arbitrary: cs rs st i rule: less_induct)
  case less
  show ?case
  proof (cases cs)
    case (Cons c cs')
    show ?thesis
    proof (cases "utf8_next rs (of_char c)")
      case None
      obtain st1 where st1: "escape_step eh ea i c st = Inr (rs \<noteq> [], st1)" "esc_inv ea [] st1"
        using escape_step_invalid [OF less.prems None assms] by blast
      then show ?thesis
        using less.hyps [OF _ st1(2), of cs' "Suc i"] less.hyps [OF _ st1(2), of cs i] Cons
        by (cases "rs = []") auto
    next
      case (Some rs')
      obtain st1 where st1: "escape_step eh ea i c st = Inr (False, st1)" "esc_inv ea rs' st1"
        using escape_step_next [OF less.prems Some] by blast
      then show ?thesis using less.hyps [OF _ st1(2), of cs' "Suc i"] Cons by auto
    qed
  qed (use less.prems in auto)
qed

section \<open>\<open>dump_escaped\<close>\<close>

lemma dump_escaped_valid:
  assumes "utf8_valid s"
  shows "dump_escaped eh False s = Inr (escape_string s)"
  using escape_loop_valid [OF esc_inv_init, of s eh False 0] assms
  by (auto simp: dump_escaped_def utf8_valid_def esc_inv_def es_text_def escape_init_def)

lemma dump_escaped_valid_any:
  assumes "utf8_valid s"
  shows "\<exists>t. dump_escaped eh ea s = Inr t"
  using escape_loop_valid [OF esc_inv_init, of s eh ea 0] assms
  by (auto simp: dump_escaped_def utf8_valid_def esc_inv_def)

lemma dump_escaped_strict_invalid:
  assumes "\<not> utf8_valid s"
  shows "\<exists>w. dump_escaped strict ea s = Inl (type_error_create 316 w)"
  using escape_loop_invalid [OF esc_inv_init, of s ea 0] assms
  by (auto simp: dump_escaped_def utf8_valid_def)

lemma dump_escaped_lenient:
  assumes "eh \<noteq> strict"
  shows "\<exists>t. dump_escaped eh ea s = Inr t"
  using escape_loop_lenient [OF assms esc_inv_init, of ea 0 s] assms
  by (cases eh) (auto simp: dump_escaped_def)

section \<open>Integers\<close>

lemma count_digits_loop: "count_digits_loop x n = n + length (show_nat x) - 1"
proof (induction x n rule: count_digits_loop.induct)
  case (1 x n)
  consider "x < 10" | "10 \<le> x" "x < 100" | "100 \<le> x" "x < 1000" | "1000 \<le> x" "x < 10000" | "10000 \<le> x"
    by linarith
  then show ?case
  proof cases
    case 5
    have "length (show_nat x) = 4 + length (show_nat (x div 10000))"
      using 5 length_show_nat_step [of x] length_show_nat_step [of "x div 10"]
        length_show_nat_step [of "x div 100"] length_show_nat_step [of "x div 1000"]
      by (simp add: div_mult2_eq [symmetric])
    with 5 1 show ?thesis by (simp add: count_digits_loop.simps [of x])
  qed (simp_all add: count_digits_loop.simps [of x] length_show_nat_small
      length_show_nat_step [of x] length_show_nat_step [of "x div 10"] length_show_nat_step [of "x div 100"]
      div_mult2_eq [symmetric])
qed

lemma count_digits_show: "count_digits x = length (show_nat x)"
  by (simp add: count_digits_def count_digits_loop)

lemma digits_to_99_map:
  "digits_to_99 = map (\<lambda>n. [digit_char (n div 10), digit_char (n mod 10)]) [0..<100]"
  by code_simp

lemma digits_to_99_nth: "n < 100 \<Longrightarrow> digits_to_99 ! n = [digit_char (n div 10), digit_char (n mod 10)]"
  by (simp add: digits_to_99_map del: upt_rec_numeral)

lemma show_nat_two: "10 \<le> n \<Longrightarrow> n < 100 \<Longrightarrow> show_nat n = [digit_char (n div 10), digit_char (n mod 10)]"
  by (simp add: show_nat.simps [of n] show_nat.simps [of "n div 10"])

lemma show_nat_hundred:
  assumes "100 \<le> n"
  shows "show_nat n = show_nat (n div 100) @ [digit_char (n mod 100 div 10), digit_char (n mod 100 mod 10)]"
proof -
  have "n div 10 mod 10 = n mod 100 div 10" "n mod 100 mod 10 = n mod 10"
    using mod_mult2_eq [of n 10 10] by (auto simp: mod_mod_cancel)
  with assms show ?thesis
    by (simp add: show_nat.simps [of n] show_nat.simps [of "n div 10"] div_mult2_eq [symmetric])
qed

lemma write_two:
  assumes "2 \<le> p" and "p \<le> length b"
  shows "b[p - Suc 0 := y, p - 2 := x] = take (p - 2) b @ [x, y] @ drop p b"
proof (rule nth_equalityI)
  fix i assume "i < length (b[p - Suc 0 := y, p - 2 := x])"
  then show "b[p - Suc 0 := y, p - 2 := x] ! i = (take (p - 2) b @ [x, y] @ drop p b) ! i"
    using assms by (auto simp: nth_append nth_Cons' nth_list_update min_def)
qed (use assms in auto)

lemma fill_digits_show:
  assumes "length (show_nat a) \<le> p" and "p \<le> length b"
  shows "fill_digits a p b = Inr (take (p - length (show_nat a)) b @ show_nat a @ drop p b)"
  using assms
proof (induction a p b rule: fill_digits.induct)
  case (1 a p b)
  consider "100 \<le> a" | "10 \<le> a" "a < 100" | "a < 10" by linarith
  then show ?case
  proof cases
    case 1
    let ?d = "[digit_char (a mod 100 div 10), digit_char (a mod 100 mod 10)]"
    have sh: "show_nat a = show_nat (a div 100) @ ?d" using 1 by (rule show_nat_hundred)
    then have len: "2 \<le> p" "length (show_nat (a div 100)) \<le> p - 2" using "1.prems" by auto
    then have "fill_digits a p b = fill_digits (a div 100) (p - 2) (take (p - 2) b @ ?d @ drop p b)"
      using 1 "1.prems" by (subst fill_digits.simps) (simp add: digits_to_99_nth write_two)
    also have "\<dots> = Inr (take (p - 2 - length (show_nat (a div 100))) (take (p - 2) b @ ?d @ drop p b) @
        show_nat (a div 100) @ drop (p - 2) (take (p - 2) b @ ?d @ drop p b))"
      using "1.IH" [OF 1 _ refl] len 1 "1.prems" by (simp add: digits_to_99_nth write_two)
    also have "\<dots> = Inr (take (p - length (show_nat a)) b @ show_nat a @ drop p b)"
      using len "1.prems" by (simp add: sh)
    finally show ?thesis .
  next
    case 2
    then show ?thesis using "1.prems"
      by (subst fill_digits.simps) (simp add: show_nat_two digits_to_99_nth write_two, simp add: numeral_2_eq_2)
  next
    case 3
    then show ?thesis using "1.prems"
      by (subst fill_digits.simps) (simp add: show_nat.simps [of a] upd_conv_take_nth_drop)
  qed
qed

lemma dump_integer_show:
  assumes "length buffer = 64" and "- (2 ^ 63) < x" and "x < 2 ^ 64"
  shows "dump_integer buffer x = Inr (show_int x)"
proof (cases "x = 0")
  case True
  then show ?thesis by (simp add: dump_integer_def show_int_def show_nat_0)
next
  case False
  have "nat \<bar>x\<bar> < 2 ^ 64" using assms(2,3) by auto
  then have "nat \<bar>x\<bar> < 10 ^ 20" by simp
  then have len: "length (show_nat (nat \<bar>x\<bar>)) \<le> 20" by (rule length_show_nat_le) simp
  let ?n = "length (show_nat (nat \<bar>x\<bar>))"
  show ?thesis
  proof (cases "x < 0")
    case True
    then have "fill_digits (nat \<bar>x\<bar>) (Suc ?n) (buffer[0 := CHR ''-'']) =
        Inr ([CHR ''-''] @ show_nat (nat \<bar>x\<bar>) @ drop (Suc ?n) buffer)"
      using fill_digits_show [of "nat \<bar>x\<bar>" "Suc ?n" "buffer[0 := CHR ''-'']"] assms(1) len
      by (cases buffer) auto
    then show ?thesis
      using True assms(2) len by (simp add: dump_integer_def show_int_def count_digits_show assertR_def Let_def)
  next
    case False
    with \<open>x \<noteq> 0\<close> show ?thesis
      using assms len fill_digits_show [of "nat x" "length (show_nat (nat x))" buffer]
      by (simp add: dump_integer_def show_int_def count_digits_show assertR_def Let_def)
  qed
qed

end
