(* ===== verification/Json_Print.thy ===== *)
theory Json_Print
  imports Json_Escape
begin

text \<open>
  The text of a JSON value: a reference printer for the compact form, and the proof that
  \<open>basic_json::dump()\<close> with its default arguments writes it. This is the form in which every message of
  the chat protocol is sent and stored.
\<close>

section \<open>Reference printer\<close>

definition float_text :: "double \<Rightarrow> string" where
  "float_text x = (case dump_float x of Inr t \<Rightarrow> t | Inl _ \<Rightarrow> [])"

definition quoted :: "string \<Rightarrow> string" where
  "quoted s = [quote] @ escape_string s @ [quote]"

fun json_text :: "json \<Rightarrow> string"
  and members_text :: "(string \<times> json) list \<Rightarrow> string"
  and elems_text :: "json list \<Rightarrow> string" where
  "json_text Null = ''null''"
| "json_text (Object m) = ''{'' @ members_text m @ ''}''"
| "json_text (Array a) = ''['' @ elems_text a @ '']''"
| "json_text (String s) = quoted s"
| "json_text (Boolean b) = (if b then ''true'' else ''false'')"
| "json_text (Number_integer i) = show_int i"
| "json_text (Number_unsigned i) = show_int i"
| "json_text (Number_float x) = float_text x"
| "json_text Discarded = ''<discarded>''"
| "members_text [] = []"
| "members_text ((k, v) # m) = quoted k @ '':'' @ json_text v @ (if m = [] then [] else '','' @ members_text m)"
| "elems_text [] = []"
| "elems_text (v # a) = json_text v @ (if a = [] then [] else '','' @ elems_text a)"

section \<open>Printable values\<close>

text \<open>
  Values that can be written: strings and keys are UTF-8, integers are in range and not the smallest
  64-bit integer, floats can be written.
\<close>

fun printable :: "json \<Rightarrow> bool"
  and members_printable :: "(string \<times> json) list \<Rightarrow> bool"
  and elems_printable :: "json list \<Rightarrow> bool" where
  "printable Null = True"
| "printable (Object m) = members_printable m"
| "printable (Array a) = elems_printable a"
| "printable (String s) = utf8_valid s"
| "printable (Boolean b) = True"
| "printable (Number_integer i) = (- (2 ^ 63) < i \<and> i < 2 ^ 63)"
| "printable (Number_unsigned i) = (0 \<le> i \<and> i < 2 ^ 64)"
| "printable (Number_float x) = (case dump_float x of Inr _ \<Rightarrow> True | Inl _ \<Rightarrow> False)"
| "printable Discarded = True"
| "members_printable [] = True"
| "members_printable ((k, v) # m) = (utf8_valid k \<and> printable v \<and> members_printable m)"
| "elems_printable [] = True"
| "elems_printable (v # a) = (printable v \<and> elems_printable a)"

lemma members_printable_iff: "members_printable m \<longleftrightarrow> (\<forall>(k, v) \<in> set m. utf8_valid k \<and> printable v)"
  by (induction m) auto

lemma elems_printable_iff: "elems_printable a \<longleftrightarrow> (\<forall>v \<in> set a. printable v)"
  by (induction a) auto

section \<open>\<open>dump\<close> in compact mode\<close>

lemma length_number_buffer [simp]: "length number_buffer = 64"
  by (simp add: number_buffer_def)

lemma dump_scalar_text:
  assumes "printable v" and "\<not> pretty_print opts" and "\<not> ensure_ascii opts"
    and "\<not> is_object v" and "\<not> is_array v"
  shows "dump_scalar opts v = Inr (json_text v)"
  using assms
  by (cases v)
     (auto simp: dump_scalar_def dump_escaped_valid quoted_def dump_integer_show float_text_def
        is_object_def is_array_def split: sum.splits)

lemma dump_text:
  assumes "\<not> pretty_print opts" and "\<not> ensure_ascii opts"
  shows "printable v \<Longrightarrow> dump opts cur v ind = Inr (json_text v, ind)"
    and "members_printable m \<Longrightarrow> dump_members opts cur m ind = Inr (members_text m, ind)"
    and "elems_printable a \<Longrightarrow> dump_elems opts cur a ind = Inr (elems_text a, ind)"
proof (induction v and m and a rule: json_text_members_text_elems_text.induct)
  case (11 k v m)
  then show ?case using assms
    by (subst dump_members.simps) (cases m; simp add: dump_escaped_valid quoted_def)
next
  case (13 v a)
  then show ?case using assms
    by (subst dump_elems.simps) (cases a; simp)
qed (use assms in \<open>auto simp: dump.simps [of opts] dump_members.simps [of opts] dump_elems.simps [of opts]
       dump_scalar_text is_object_def is_array_def\<close>)

lemma dump_default_text: "printable v \<Longrightarrow> dump_default v = Inr (json_text v)"
  by (simp add: dump_default_def json_dump_def dump_text Let_def)

section \<open>Texts are UTF-8\<close>

lemma utf8_run_append: "utf8_run rs a \<Longrightarrow> utf8_valid b \<Longrightarrow> utf8_run rs (a @ b)"
  by (induction rs a rule: utf8_run.induct) (auto simp: utf8_valid_def split: option.splits)

lemma utf8_valid_append: "utf8_valid a \<Longrightarrow> utf8_valid b \<Longrightarrow> utf8_valid (a @ b)"
  using utf8_run_append [of "[]" a b] by (simp add: utf8_valid_def)

lemma utf8_valid_ascii: "\<forall>c \<in> set s. (of_char c :: nat) < 0x80 \<Longrightarrow> utf8_valid s"
  by (induction s) (auto simp: utf8_valid_def lead_ranges_def)

lemma utf8_valid_Nil [simp]: "utf8_valid []"
  by (simp add: utf8_valid_def)

lemma utf8_valid_ascii_Cons: "(of_char c :: nat) < 0x80 \<Longrightarrow> utf8_valid (c # s) \<longleftrightarrow> utf8_valid s"
  by (simp add: utf8_valid_def lead_ranges_def)

lemma utf8_valid_show_nat: "utf8_valid (show_nat n)"
  using show_nat_digits [of n] by (intro utf8_valid_ascii) (auto simp: is_digit_def)

lemma utf8_valid_show_int: "utf8_valid (show_int i)"
  by (simp add: show_int_def utf8_valid_ascii_Cons utf8_valid_show_nat)

lemma hex_digit_lower_ascii: "d < 16 \<Longrightarrow> (of_char (hex_digit_lower d) :: nat) < 0x80"
  by (simp add: hex_digit_lower_def)

lemma esc_char_ascii: "(of_char c :: nat) < 0x80 \<Longrightarrow> utf8_valid (esc_char c)"
  by (rule utf8_valid_ascii)
     (auto simp: esc_char_def backslash_def quote_def hex4_def hex_digit_lower_ascii)

lemma utf8_run_escape: "pending rs \<Longrightarrow> utf8_run rs s \<Longrightarrow> utf8_run rs (escape_string s)"
proof (induction rs s rule: utf8_run.induct)
  case (2 rs c cs)
  then obtain rs' where nxt: "utf8_next rs (of_char c) = Some rs'" and run: "utf8_run rs' cs"
    by (auto split: option.splits)
  have ih: "utf8_run rs' (escape_string cs)"
    using 2 nxt run pending_next [OF 2(2) nxt] by simp
  show ?case
  proof (cases "esc_char c = [c]")
    case True
    with nxt ih show ?thesis by simp
  next
    case False
    then have small: "(of_char c :: nat) < 0x80" using esc_char_multibyte [of c] by linarith
    have "rs = []"
      using nxt small 2(2) pending_ge_80 [of "hd rs" "tl rs"] by (cases rs) (auto split: if_splits)
    moreover have "rs' = []" using nxt small calculation by (simp add: lead_ranges_def)
    ultimately show ?thesis
      using ih esc_char_ascii [OF small] utf8_run_append [of "[]" "esc_char c" "escape_string cs"]
      by (simp add: utf8_valid_def)
  qed
qed simp

lemma utf8_valid_quoted: "utf8_valid s \<Longrightarrow> utf8_valid (quoted s)"
  using utf8_run_escape [of "[]" s] utf8_valid_append [of "escape_string s" "[quote]"]
  by (simp add: quoted_def utf8_valid_def quote_def lead_ranges_def)

end
