(* ===== verification/Chat_Run.thy ===== *)
theory Chat_Run
  imports Chat_Server Json_Print
begin

text \<open>
  Evaluation of server commands: database and redis commands lifted to the server state and the mutex
  scope. The invariant of the connection table.
\<close>

section \<open>Lifted commands\<close>

lemma on_db_run [simp]:
  "fst (on_db m s) = fst (m (db s))"
  "snd (on_db m s) = s\<lparr>db := snd (m (db s))\<rparr>"
  by (simp_all add: on_db_def case_prod_beta)

lemma on_redis_run [simp]:
  "fst (on_redis m s) = fst (m (redis s))"
  "snd (on_redis m s) = s\<lparr>redis := snd (m (redis s))\<rparr>"
  by (simp_all add: on_redis_def case_prod_beta)

lemma send_run [simp]: "send conn message s = (Inr (), s\<lparr>sends := sends s @ [(conn, message)]\<rparr>)"
  by (simp add: send_def)

lemma with_lock_run:
  "\<not> conn_mtx s \<Longrightarrow> with_lock m s =
     (fst (m (s\<lparr>conn_mtx := True\<rparr>)), (snd (m (s\<lparr>conn_mtx := True\<rparr>)))\<lparr>conn_mtx := False\<rparr>)"
  by (simp add: with_lock_def finallyC_def)

lemma send_json_run:
  "printable j \<Longrightarrow> send_json conn j s = (Inr (), s\<lparr>sends := sends s @ [(conn, json_text j)]\<rparr>)"
  by (simp add: send_json_def dump_default_text)

section \<open>The connection table\<close>

text \<open>
  The operations on \<open>user_conn_map_\<close> that the handlers use, and what they rely on: \<open>std::unordered_map\<close>
  keeps its keys distinct, \<open>insert\<close> does not replace, \<open>erase\<close> removes.
\<close>

locale connection_table =
  fixes find :: "'m \<Rightarrow> 'k \<Rightarrow> 'c option"
    and insert_new :: "'k \<Rightarrow> 'c \<Rightarrow> 'm \<Rightarrow> 'm"
    and erase :: "'k \<Rightarrow> 'm \<Rightarrow> 'm"
    and invar :: "'m \<Rightarrow> bool"
  assumes find_insert: "invar m \<Longrightarrow> find (insert_new k c m) =
      (if find m k = None then (find m)(k \<mapsto> c) else find m)"
    and find_erase: "invar m \<Longrightarrow> find (erase k m) = (find m)(k := None)"
    and invar_insert: "invar m \<Longrightarrow> invar (insert_new k c m)"
    and invar_erase: "invar m \<Longrightarrow> invar (erase k m)"
begin

lemma find_insert_fresh: "invar m \<Longrightarrow> find m k = None \<Longrightarrow> find (insert_new k c m) k = Some c"
  by (simp add: find_insert)

lemma find_insert_stale: "invar m \<Longrightarrow> find m k = Some c' \<Longrightarrow> find (insert_new k c m) k = Some c'"
  by (simp add: find_insert)

lemma find_insert_other: "invar m \<Longrightarrow> k' \<noteq> k \<Longrightarrow> find (insert_new k c m) k' = find m k'"
  by (simp add: find_insert)

lemma find_erase_same: "invar m \<Longrightarrow> find (erase k m) k = None"
  by (simp add: find_erase)

lemma insert_after_erase: "invar m \<Longrightarrow> find (insert_new k c (erase k m)) k = Some c"
  by (simp add: find_insert find_erase invar_erase)

end

definition conn_ok :: "(int \<times> nat) list \<Rightarrow> bool" where
  "conn_ok m \<longleftrightarrow> distinct (map fst m)"

interpretation conns: connection_table "map_of :: (int \<times> nat) list \<Rightarrow> int \<Rightarrow> nat option" umap_insert umap_erase conn_ok
proof unfold_locales
  show "map_of (umap_insert k c m) = (if map_of m k = None then (map_of m)(k \<mapsto> c) else map_of m)"
    for k :: int and c :: nat and m
    by (auto simp: map_of_umap_insert)
qed (simp_all add: conn_ok_def distinct_umap_insert distinct_umap_erase)

lemma erase_first_conn_subset: "set (snd (erase_first_conn conn m)) \<subseteq> set m"
  by (induction conn m rule: erase_first_conn.induct) (auto split: prod.splits)

lemma conn_ok_erase_first: "conn_ok m \<Longrightarrow> conn_ok (snd (erase_first_conn conn m))"
proof (induction conn m rule: erase_first_conn.induct)
  case (2 conn i c m)
  then show ?case
    using erase_first_conn_subset [of conn m]
    by (auto simp: conn_ok_def split: prod.splits)
qed simp

lemma erase_first_conn_None:
  "fst (erase_first_conn conn m) = None \<longleftrightarrow> conn \<notin> snd ` set m"
  by (induction conn m rule: erase_first_conn.induct) (force split: prod.splits)+

lemma erase_first_conn_Some:
  "fst (erase_first_conn conn m) = Some i \<Longrightarrow> conn_ok m \<Longrightarrow>
     map_of m i = Some conn \<and> map_of (snd (erase_first_conn conn m)) = (map_of m)(i := None)"
proof (induction conn m rule: erase_first_conn.induct)
  case (2 conn j c m)
  show ?case
  proof (cases "c = conn")
    case True
    then show ?thesis using 2(2,3) by (auto simp: conn_ok_def fun_eq_iff map_of_eq_None_iff)
  next
    case False
    then have found: "fst (erase_first_conn conn m) = Some i" and ok: "conn_ok m"
      using 2(2,3) by (auto simp: conn_ok_def split: prod.splits)
    have "map_of m i = Some conn" "map_of (snd (erase_first_conn conn m)) = (map_of m)(i := None)"
      using 2(1) [OF False found ok] by auto
    moreover have "j \<noteq> i"
      using 2(3) calculation(1) by (force simp: conn_ok_def dest: map_of_SomeD)
    ultimately show ?thesis using False by (auto simp: fun_eq_iff split: prod.splits)
  qed
qed simp

text \<open>A connection with one entry is gone from the table after it was closed.\<close>

lemma erase_first_conn_removes:
  assumes "conn_ok m" and "fst (erase_first_conn conn m) = Some i" and "\<forall>j. map_of m j = Some conn \<longrightarrow> j = i"
  shows "conn \<notin> snd ` set (snd (erase_first_conn conn m))"
proof
  assume "conn \<in> snd ` set (snd (erase_first_conn conn m))"
  then obtain j where "(j, conn) \<in> set (snd (erase_first_conn conn m))" by auto
  then have "map_of (snd (erase_first_conn conn m)) j = Some conn"
    using conn_ok_erase_first [OF assms(1), of conn] by (simp add: conn_ok_def)
  then have "j \<noteq> i \<and> map_of m j = Some conn"
    by (simp add: erase_first_conn_Some [OF assms(2,1)] split: if_splits)
  then show False using assms(3) by blast
qed

lemma erase_first_conn_unique:
  assumes "conn_ok m" and "map_of m i = Some conn" and "\<forall>j. map_of m j = Some conn \<longrightarrow> j = i"
  shows "fst (erase_first_conn conn m) = Some i"
proof (cases "fst (erase_first_conn conn m)")
  case None
  then show ?thesis using map_of_SomeD [OF assms(2)] by (force simp: erase_first_conn_None)
next
  case (Some j)
  then show ?thesis using erase_first_conn_Some [OF Some assms(1)] assms(3) by simp
qed

definition conn_inv :: "('d, 'r) server_state \<Rightarrow> bool" where
  "conn_inv s \<longleftrightarrow> conn_ok (user_conn_map s)"

lemma preserves_conn_basic [preserves_intros]:
  "preserves conn_inv (on_db m)" "preserves conn_inv (on_redis r)" "preserves conn_inv (send conn msg)"
  by (auto intro!: preservesI simp: conn_inv_def)

lemma preserves_conn_map [preserves_intros]:
  "(\<And>s. conn_ok (user_conn_map s) \<Longrightarrow> conn_ok (f s)) \<Longrightarrow>
     preserves conn_inv (modifyC (\<lambda>s. s\<lparr>user_conn_map := f s\<rparr>))"
  by (auto intro!: preserves_modifyC simp: conn_inv_def)

lemma preserves_conn_lock [preserves_intros]: "preserves conn_inv m \<Longrightarrow> preserves conn_inv (with_lock m)"
  by (auto simp: preserves_def with_lock_def finallyC_def conn_inv_def)

lemma preserves_conn_send_json [preserves_intros]: "preserves conn_inv (send_json conn j)"
  unfolding send_json_def by (intro preserves_intros)

lemma preserves_conn_delivery [preserves_intros]:
  "preserves conn_inv (send_if_connected i js)" "preserves conn_inv (deliver_remote api rapi i js)"
  unfolding send_if_connected_def deliver_remote_def by (intro preserves_intros)+

lemma preserves_conn_handlers:
  "preserves conn_inv (HandlerLogin api rapi conn js)" "preserves conn_inv (HandlerRegister api conn js)"
  "preserves conn_inv (HandlerLogout api rapi conn js)" "preserves conn_inv (HandlerDirectChat api rapi conn js)"
  "preserves conn_inv (HandlerAddFriend api conn js)" "preserves conn_inv (HandlerCreateGroup api conn js)"
  "preserves conn_inv (HandlerJoinGroup api conn js)" "preserves conn_inv (HandlerGroupChat api rapi conn js)"
  "preserves conn_inv (HandlerRedisSubscribeMessage api i msg)"
  "preserves conn_inv (MsgIDHandler_Reset api)"
  unfolding HandlerLogin_def login_accept_def HandlerRegister_def HandlerLogout_def HandlerDirectChat_def
    HandlerAddFriend_def HandlerCreateGroup_def HandlerJoinGroup_def HandlerGroupChat_def
    HandlerRedisSubscribeMessage_def MsgIDHandler_Reset_def Let_def
  by (intro preserves_intros conns.invar_insert conns.invar_erase; assumption?)+

lemma ClientCloseException_conn_map:
  "\<not> conn_mtx s \<Longrightarrow> user_conn_map (snd (ClientCloseException api rapi conn s)) =
     snd (erase_first_conn conn (user_conn_map s))"
  by (auto simp: ClientCloseException_def with_lock_run bindC_run seqC_run Let_def case_prod_beta
      split: sum.splits)

lemma preserves_conn_close [preserves_intros]: "preserves conn_inv (ClientCloseException api rapi conn)"
proof (rule preservesI)
  fix s :: "('a, 'b) server_state"
  assume "conn_inv s"
  then show "conn_inv (snd (ClientCloseException api rapi conn s))"
    using ClientCloseException_conn_map [of s api rapi conn] conn_ok_erase_first [of "user_conn_map s" conn]
    by (cases "conn_mtx s") (simp_all add: conn_inv_def ClientCloseException_def with_lock_def)
qed

lemma preserves_conn_run_event: "preserves conn_inv (run_event api rapi ev)"
proof (cases ev)
  case (Message conn buff)
  have "preserves conn_inv (Dispatch api rapi msgid conn js)" for msgid js
    by (auto simp: Dispatch_def msg_handler_map_def intro!: preserves_conn_handlers preserves_intros)
  then show ?thesis
    by (simp add: run_event_def OnMessage_def Message) (intro preserves_intros)
next
  case (Signal k)
  then show ?thesis
    by (auto simp: run_event_def HandleSignal_def SignalHandler_Init_def RegisterSignal_def HandlerReset_def
        intro!: preserves_intros preserves_conn_handlers)
qed (auto simp: run_event_def OnConnection_def intro!: preserves_intros preserves_conn_handlers)

lemma reachable_conn_ok:
  "reachable api rapi s0 p \<Longrightarrow> conn_ok (user_conn_map s0) \<Longrightarrow> conn_ok (user_conn_map (state_of_process p))"
  using reachable_invariant [of api rapi s0 p conn_inv] preserves_conn_run_event by (auto simp: conn_inv_def)

end
