(* ===== verification/Chat_Lock.thy ===== *)
theory Chat_Lock
  imports Chat_Run
begin

text \<open>
  The mutex discipline of \<open>MsgIDHandler\<close>: no step of the server locks \<open>conn_mtx_\<close> while it holds it,
  and every step releases it, on the paths that throw too.
\<close>

section \<open>The mutex\<close>

text \<open>A command that does not touch the mutex, whatever the state, and never fails on it.\<close>

definition lock_neutral :: "('d, 'r, 'a) server_cmd \<Rightarrow> bool" where
  "lock_neutral m \<longleftrightarrow> (\<forall>s. fst (m s) \<noteq> Inl Mutex_relocked \<and> conn_mtx (snd (m s)) = conn_mtx s)"

text \<open>A command that is started without the mutex, and ends without it on every path.\<close>

definition lock_safe :: "('d, 'r, 'a) server_cmd \<Rightarrow> bool" where
  "lock_safe m \<longleftrightarrow> (\<forall>s. \<not> conn_mtx s \<longrightarrow> fst (m s) \<noteq> Inl Mutex_relocked \<and> \<not> conn_mtx (snd (m s)))"

text \<open>A computation that cannot report a mutex error.\<close>

definition no_relock :: "exn + 'a \<Rightarrow> bool" where
  "no_relock r \<longleftrightarrow> r \<noteq> Inl Mutex_relocked"

named_theorems lock_intros

lemma no_relock_intros [lock_intros]:
  "no_relock (Inr x)"
  "no_relock (Inl (Undefined_behaviour w))"
  "no_relock (Inl (Assertion_failed w))"
  "no_relock (Inl (Logic_error w))"
  "no_relock (Inl (type_error_create i w))"
  "no_relock (Inl (out_of_range_create i w))"
  "no_relock (Inl (parse_error_create i pos w))"
  by (simp_all add: no_relock_def type_error_create_def out_of_range_create_def parse_error_create_def)

lemma no_relock_bindR [lock_intros]:
  "no_relock r \<Longrightarrow> (\<And>x. r = Inr x \<Longrightarrow> no_relock (f x)) \<Longrightarrow> no_relock (bindR r f)"
  by (auto simp: no_relock_def bindR_eq_Inl)

lemma no_relock_mapR [lock_intros]: "no_relock r \<Longrightarrow> no_relock (mapR f r)"
  by (cases r) (auto simp: no_relock_def)

lemma no_relock_if [lock_intros]: "no_relock a \<Longrightarrow> no_relock b \<Longrightarrow> no_relock (if c then a else b)"
  by simp

lemma no_relock_case_prod [lock_intros]: "(\<And>a b. no_relock (f a b)) \<Longrightarrow> no_relock (case p of (a, b) \<Rightarrow> f a b)"
  by (cases p) simp

lemma no_relock_case_option [lock_intros]:
  "no_relock a \<Longrightarrow> (\<And>x. no_relock (f x)) \<Longrightarrow> no_relock (case p of None \<Rightarrow> a | Some x \<Rightarrow> f x)"
  by (cases p) simp_all

lemma no_relock_case_list [lock_intros]:
  "no_relock a \<Longrightarrow> (\<And>x xs. no_relock (f x xs)) \<Longrightarrow> no_relock (case p of [] \<Rightarrow> a | x # xs \<Rightarrow> f x xs)"
  by (cases p) simp_all

lemma no_relock_traverseR [lock_intros]: "(\<And>x. no_relock (f x)) \<Longrightarrow> no_relock (traverseR f xs)"
  by (induction xs) (auto intro!: lock_intros)

lemma lock_neutral_prim [lock_intros]:
  "lock_neutral (returnC x)"
  "no_relock r \<Longrightarrow> lock_neutral (liftR r)"
  "lock_neutral (getC f)"
  "e \<noteq> Mutex_relocked \<Longrightarrow> lock_neutral (throwC e)"
  "lock_neutral (send conn message)"
  by (auto simp: lock_neutral_def no_relock_def)

lemma lock_neutral_modifyC: "(\<And>s. conn_mtx (f s) = conn_mtx s) \<Longrightarrow> lock_neutral (modifyC f)"
  by (simp add: lock_neutral_def)

lemma lock_neutral_bindC [lock_intros]:
  "lock_neutral m \<Longrightarrow> (\<And>x. lock_neutral (f x)) \<Longrightarrow> lock_neutral (bindC m f)"
  by (auto simp: lock_neutral_def bindC_run split: sum.splits)

lemma lock_neutral_seqC [lock_intros]: "lock_neutral m \<Longrightarrow> lock_neutral n \<Longrightarrow> lock_neutral (seqC m n)"
  by (simp add: seqC_def lock_neutral_bindC)

lemma lock_neutral_if [lock_intros]: "lock_neutral a \<Longrightarrow> lock_neutral b \<Longrightarrow> lock_neutral (if c then a else b)"
  by simp

lemma lock_neutral_case_option [lock_intros]:
  "lock_neutral a \<Longrightarrow> (\<And>x. lock_neutral (f x)) \<Longrightarrow> lock_neutral (case p of None \<Rightarrow> a | Some x \<Rightarrow> f x)"
  by (cases p) simp_all

lemma lock_neutral_case_prod [lock_intros]:
  "(\<And>a b. lock_neutral (f a b)) \<Longrightarrow> lock_neutral (case p of (a, b) \<Rightarrow> f a b)"
  by (cases p) simp

lemma lock_neutral_forC [lock_intros]: "(\<And>x. lock_neutral (f x)) \<Longrightarrow> lock_neutral (forC xs f)"
  by (induction xs) (auto intro!: lock_intros)

lemma lock_safe_neutral: "lock_neutral m \<Longrightarrow> lock_safe m"
  by (simp add: lock_safe_def lock_neutral_def)

lemma lock_safe_with_lock: "lock_neutral m \<Longrightarrow> lock_safe (with_lock m)"
  by (simp add: lock_safe_def lock_neutral_def with_lock_run)

lemma lock_safe_bindC: "lock_safe m \<Longrightarrow> (\<And>x. lock_safe (f x)) \<Longrightarrow> lock_safe (bindC m f)"
  by (auto simp: lock_safe_def bindC_run split: sum.splits)

lemma lock_safe_seqC: "lock_safe m \<Longrightarrow> lock_safe n \<Longrightarrow> lock_safe (seqC m n)"
  by (simp add: seqC_def lock_safe_bindC)

lemma lock_safe_if: "lock_safe a \<Longrightarrow> lock_safe b \<Longrightarrow> lock_safe (if c then a else b)"
  by simp

lemma lock_safe_case_prod: "(\<And>a b. lock_safe (f a b)) \<Longrightarrow> lock_safe (case p of (a, b) \<Rightarrow> f a b)"
  by (cases p) simp

text \<open>Database and redis commands do not see the mutex.\<close>

definition no_relockC :: "('s, exn, 'a) cmd \<Rightarrow> bool" where
  "no_relockC m \<longleftrightarrow> (\<forall>s. no_relock (fst (m s)))"

lemma no_relockC_bindC [lock_intros]: "no_relockC m \<Longrightarrow> (\<And>x. no_relockC (f x)) \<Longrightarrow> no_relockC (bindC m f)"
  by (auto simp: no_relockC_def no_relock_def bindC_run split: sum.splits)

lemma no_relockC_seqC [lock_intros]: "no_relockC m \<Longrightarrow> no_relockC n \<Longrightarrow> no_relockC (seqC m n)"
  by (simp add: seqC_def no_relockC_bindC)

lemma no_relockC_prim [lock_intros]:
  "no_relock r \<Longrightarrow> no_relockC (liftR r)"
  "no_relockC (returnC x)"
  "no_relockC (getC g)"
  by (simp_all add: no_relockC_def no_relock_def)

lemma no_relockC_if [lock_intros]: "no_relockC a \<Longrightarrow> no_relockC b \<Longrightarrow> no_relockC (if c then a else b)"
  by simp

lemma no_relockC_case_prod [lock_intros]: "(\<And>a b. no_relockC (f a b)) \<Longrightarrow> no_relockC (case p of (a, b) \<Rightarrow> f a b)"
  by (cases p) simp

lemma no_relockC_mysql [lock_intros]:
  "no_relockC (MySQLConn_Update api sql)"
  "no_relockC (MySQLConn_Query api sql)"
  by (simp_all add: no_relockC_def no_relock_def MySQLConn_Update_def MySQLConn_Query_def case_prod_beta)

lemma no_relockC_finallyC [lock_intros]: "no_relockC m \<Longrightarrow> no_relockC (finallyC m f)"
  by (simp add: no_relockC_def finallyC_def)

lemma no_relockC_with_conn [lock_intros]: "(\<And>b. no_relockC (body b)) \<Longrightarrow> no_relockC (with_conn api body)"
proof -
  have "no_relockC (MySQLConn_ctor api)" "\<And>conn. no_relockC (MySQLConn_Connect api conn h p u pw n)" for h p u pw n
    by (simp_all add: no_relockC_def no_relock_def MySQLConn_ctor_def MySQLConn_Connect_def case_prod_beta)
  then show "(\<And>b. no_relockC (body b)) \<Longrightarrow> no_relockC (with_conn api body)"
    unfolding with_conn_def by (intro lock_intros)
qed

lemma lock_neutral_on_db [lock_intros]: "no_relockC m \<Longrightarrow> lock_neutral (on_db m)"
  by (simp add: lock_neutral_def no_relockC_def no_relock_def)

lemma lock_neutral_on_redis [lock_intros]: "no_relockC m \<Longrightarrow> lock_neutral (on_redis m)"
  by (simp add: lock_neutral_def no_relockC_def no_relock_def)

lemma no_relock_columns [lock_intros]:
  "no_relock (column_string row i)" "no_relock (column_atoi row i)"
  by (auto simp: column_string_def column_atoi_def column_def intro!: lock_intros)

lemma no_relock_rows [lock_intros]:
  "no_relock (user_of_row row)" "no_relock (friend_of_row row)" "no_relock (group_of_row row)"
  "no_relock (member_of_row row)" "no_relock (sprintf_sql s)"
  unfolding user_of_row_def friend_of_row_def group_of_row_def member_of_row_def sprintf_sql_def
  by (intro lock_intros)+

lemma no_relock_fetch_all [lock_intros]: "(\<And>row. no_relock (f row)) \<Longrightarrow> no_relock (fetch_all f res)"
  unfolding fetch_all_def by (intro lock_intros)

lemma no_relockC_case_rows [lock_intros]:
  "no_relockC a \<Longrightarrow> (\<And>r rs. no_relockC (f r rs)) \<Longrightarrow>
     no_relockC (case res of Some (r # rs) \<Rightarrow> f r rs | _ \<Rightarrow> a)"
  by (auto split: option.splits list.splits)

lemma no_relockC_dao [lock_intros]:
  "no_relockC (UserDAO_Insert api user)" "no_relockC (UserDAO_Query api i)"
  "no_relockC (UserDAO_UpdateState api user)" "no_relockC (UserDAO_ResetState api)"
  "no_relockC (FriendDAO_AddFriend api i f)" "no_relockC (FriendDAO_GetFriends api i)"
  "no_relockC (OfflineMessageDAO_Store api i m)" "no_relockC (OfflineMessageDAO_Delete api i)"
  "no_relockC (OfflineMessageDAO_Query api i)" "no_relockC (GroupDAO_CreateGroup api g)"
  "no_relockC (GroupDAO_JoinGroup api i k role)" "no_relockC (GroupDAO_GetOtherGroupMembers api i k)"
  unfolding UserDAO_Insert_def UserDAO_Query_def UserDAO_UpdateState_def UserDAO_ResetState_def
    FriendDAO_AddFriend_def FriendDAO_GetFriends_def OfflineMessageDAO_Store_def
    OfflineMessageDAO_Delete_def OfflineMessageDAO_Query_def GroupDAO_CreateGroup_def
    GroupDAO_JoinGroup_def GroupDAO_GetOtherGroupMembers_def
  by (intro lock_intros)+

lemma no_relockC_redis [lock_intros]:
  "no_relockC (RedisConn_Publish rapi i m)" "no_relockC (RedisConn_Subscribe rapi i)"
  "no_relockC (RedisConn_Unsubscribe rapi i)"
  by (simp_all add: no_relockC_def no_relock_def RedisConn_Publish_def RedisConn_Subscribe_def
      RedisConn_Unsubscribe_def append_and_write_def case_prod_beta Let_def)

subsection \<open>JSON\<close>

lemma no_relock_case_error_handler [lock_intros]:
  "no_relock a \<Longrightarrow> no_relock b \<Longrightarrow> no_relock c \<Longrightarrow> no_relock (case eh of strict \<Rightarrow> a | replace \<Rightarrow> b | ignore \<Rightarrow> c)"
  by (cases eh) simp_all

lemma no_relock_sb_write [lock_intros]: "no_relock (sb_write t n st)"
  unfolding sb_write_def by (intro lock_intros)

lemma no_relock_escape_step [lock_intros]: "no_relock (escape_step eh ea i c st)"
  unfolding escape_step_def Let_def by (intro lock_intros)

lemma no_relock_escape_loop [lock_intros]: "no_relock (escape_loop eh ea i cs st)"
proof (induction eh ea i cs st rule: escape_loop.induct)
  case (2 eh ea i c cs st)
  then show ?case
    by (cases "escape_step eh ea i c st")
       (use no_relock_escape_step [of eh ea i c st] in \<open>auto simp: no_relock_def\<close>)
qed (simp add: no_relock_def)

lemma no_relock_dump_escaped [lock_intros]: "no_relock (dump_escaped eh ea s)"
  unfolding dump_escaped_def by (intro lock_intros)

lemma no_relock_assertR [lock_intros]: "no_relock (assertR b w)"
  by (simp add: assertR_def no_relock_def)

lemma no_relock_fill_digits [lock_intros]: "no_relock (fill_digits a p b)"
proof (induction a p b rule: fill_digits.induct)
  case (1 a p b)
  then show ?case by (subst fill_digits.simps) (auto intro!: lock_intros simp: Let_def)
qed

lemma no_relock_dump_integer [lock_intros]: "no_relock (dump_integer b x)"
  unfolding dump_integer_def Let_def by (intro lock_intros)

lemma no_relock_case_sum [lock_intros]:
  "(\<And>x. no_relock (f x)) \<Longrightarrow> (\<And>y. no_relock (g y)) \<Longrightarrow> no_relock (case p of Inl x \<Rightarrow> f x | Inr y \<Rightarrow> g y)"
  by (cases p) simp_all

lemma no_relock_dtoa_steps [lock_intros]:
  "no_relock (diyfp_sub x y)" "no_relock (normalize x)" "no_relock (normalize_to x e)"
  "no_relock (get_cached_power_for_binary_exponent e)" "no_relock (append_digit b d)"
  "no_relock (append_exponent e)" "no_relock (compute_boundaries v)"
  "no_relock (format_buffer b e mn mx)"
  unfolding diyfp_sub_def normalize_def normalize_to_def get_cached_power_for_binary_exponent_def
    append_digit_def append_exponent_def compute_boundaries_def format_buffer_def Let_def
  by (intro lock_intros)+

lemma no_relock_grisu2_round [lock_intros]: "no_relock (grisu2_round b dist delta rest k)"
proof -
  have "no_relock (grisu2_round_loop b dist delta rest k)"
  proof (induction b dist delta rest k rule: grisu2_round_loop.induct)
    case (1 b dist delta rest k)
    then show ?case by (subst grisu2_round_loop.simps) (auto intro!: lock_intros)
  qed
  then show ?thesis unfolding grisu2_round_def by (intro lock_intros)
qed

lemma no_relock_digit_gen [lock_intros]:
  "no_relock (digit_gen_integral n b e p1 pow10 p2 sh dist delta)"
  "no_relock (digit_gen_fraction fuel b m p2 sh dist delta)"
proof -
  show "no_relock (digit_gen_integral n b e p1 pow10 p2 sh dist delta)"
    by (induction n arbitrary: b p1 pow10) (auto simp: Let_def intro!: lock_intros)
  show "no_relock (digit_gen_fraction fuel b m p2 sh dist delta)"
    by (induction fuel arbitrary: b m p2 dist delta) (auto simp: Let_def intro!: lock_intros)
qed

lemma no_relock_dump_float [lock_intros]: "no_relock (dump_float x)"
  unfolding dump_float_def to_chars_def grisu2_def grisu2_boundaries_def grisu2_digit_gen_def Let_def
  by (intro lock_intros)

lemma no_relock_dump_scalar [lock_intros]: "no_relock (dump_scalar opts v)"
  unfolding dump_scalar_def by (cases v) (auto intro!: lock_intros)

lemma no_relock_write_indent [lock_intros]: "no_relock (write_indent n i)"
  unfolding write_indent_def by (intro lock_intros)

lemma no_relock_dump:
  "no_relock (dump opts cur v ind)" "no_relock (dump_members opts cur m ind)" "no_relock (dump_elems opts cur a ind)"
proof (induction v and m and a arbitrary: cur ind and cur ind and cur ind
    rule: json_text_members_text_elems_text.induct)
  case (11 k v m)
  then show ?case by (cases "m = []") (subst dump_members.simps, auto simp: Let_def intro!: lock_intros)+
next
  case (13 v a)
  then show ?case by (cases "a = []") (subst dump_elems.simps, auto simp: Let_def intro!: lock_intros)+
next
  case (2 m)
  then show ?case by (subst dump.simps) (auto simp: Let_def intro!: lock_intros)
next
  case (3 a)
  then show ?case by (subst dump.simps) (auto simp: Let_def intro!: lock_intros)
qed (subst dump.simps dump_members.simps dump_elems.simps, auto intro!: lock_intros)+

lemma no_relock_dump_default [lock_intros]: "no_relock (dump_default j)"
  unfolding dump_default_def json_dump_def Let_def by (intro lock_intros no_relock_dump)

lemma no_relock_json_index [lock_intros]: "no_relock (json_index key j)"
  by (cases j) (auto simp: json_index_def intro!: lock_intros split: option.split)

lemma no_relock_json_fields [lock_intros]:
  "no_relock (get_int j)" "no_relock (get_string j)" "no_relock (field_int key j)" "no_relock (field_string key j)"
proof -
  show g: "no_relock (get_int j)" "no_relock (get_string j)" for j
    unfolding get_int_def get_string_def by (cases j; auto intro!: lock_intros)+
  show "no_relock (field_int key j)" "no_relock (field_string key j)"
    unfolding field_int_def field_string_def by (intro lock_intros g)+
qed

lemma no_relock_json_set [lock_intros]: "no_relock (json_set key v j)"
proof -
  have "no_relock (case j' of Object m \<Rightarrow> Inr (Object (omap_update key v m)) | _ \<Rightarrow> Inr j')" for j'
    by (cases j') (simp_all add: no_relock_def)
  then show ?thesis unfolding json_set_def by (intro lock_intros)
qed

lemma no_relock_json_build [lock_intros]: "no_relock (json_build kvs j)"
proof -
  have "no_relock r \<Longrightarrow> no_relock (foldl (\<lambda>r (k, v). bindR r (json_set k v)) r kvs)" for r
  proof (induction kvs arbitrary: r)
    case (Cons kv kvs)
    then show ?case
      by (cases kv) (simp add: no_relock_bindR no_relock_json_set)
  qed simp
  then show ?thesis by (simp add: json_build_def no_relock_def)
qed

lemma no_relock_friend_info [lock_intros]: "no_relock (friend_info u)"
  unfolding friend_info_def by (intro lock_intros)

lemma no_relock_handle_value [lock_intros]: "no_relock (handle_value v p)"
  unfolding handle_value_def
  by (auto intro!: lock_intros split: list.split option.split json.split)

lemma no_relock_sax [lock_intros]:
  "no_relock (sax_value v p)" "no_relock (start_object p)" "no_relock (start_array p)" "no_relock (sax_end p)"
  unfolding sax_value_def start_object_def start_array_def sax_end_def by (intro lock_intros)+

lemma no_relock_sax_key [lock_intros]: "no_relock (sax_key k p)"
  unfolding sax_key_def by (auto simp: Let_def intro!: lock_intros split: list.split option.split json.split)

lemma no_relock_sax_parse_error [lock_intros]:
  "ex \<noteq> Mutex_relocked \<Longrightarrow> no_relock (sax_parse_error ex p)"
  by (simp add: sax_parse_error_def no_relock_def)

lemma no_relock_fail_101 [lock_intros]: "no_relock (fail_101 e w p)"
  unfolding fail_101_def
  by (intro lock_intros) (simp add: parser_error_101_def syntax_error_def overflow_error_def parse_error_create_def)

lemma no_relock_parse_member_head [lock_intros]: "no_relock (parse_member_head st p)"
  unfolding parse_member_head_def Let_def by (intro lock_intros)

lemma no_relock_token_step [lock_intros]: "no_relock (token_step st p)"
  unfolding token_step_def Let_def
  by (cases "last_token p") (auto intro!: lock_intros simp: overflow_error_def out_of_range_create_def)

lemma no_relock_state_step [lock_intros]: "no_relock (state_step st p)"
  unfolding state_step_def Let_def
  by (auto intro!: lock_intros split: list.split bool.split)

lemma no_relock_sax_parse_loop [lock_intros]: "no_relock (sax_parse_loop sk st p)"
proof (induction sk st p rule: sax_parse_loop.induct)
  case (1 sk st p)
  then show ?case
    by (subst sax_parse_loop.simps)
       (auto intro!: no_relock_bindR lock_intros split: outcome.split if_splits)
qed

lemma no_relock_json_parse [lock_intros]: "no_relock (json_parse s)"
  unfolding json_parse_def parser_parse_def sax_parse_internal_def Let_def
  by (intro lock_intros) (simp add: parser_error_101_def syntax_error_def overflow_error_def parse_error_create_def)

section \<open>Every handler respects the mutex\<close>

lemma lock_neutral_send_json [lock_intros]: "lock_neutral (send_json conn j)"
  unfolding send_json_def by (intro lock_intros)

lemma lock_neutral_send_if_connected [lock_intros]: "lock_neutral (send_if_connected i js)"
  unfolding send_if_connected_def by (intro lock_intros)

lemma lock_neutral_deliver_remote [lock_intros]: "lock_neutral (deliver_remote api rapi i js)"
  unfolding deliver_remote_def by (intro lock_intros)

lemmas lock_safe_intros =
  lock_safe_with_lock lock_safe_bindC lock_safe_seqC lock_safe_if lock_safe_case_prod

lemma lock_neutral_conn_map [lock_intros]:
  "lock_neutral (modifyC (\<lambda>s. s\<lparr>user_conn_map := f s\<rparr>))"
  by (rule lock_neutral_modifyC) simp

lemma lock_safe_handlers:
  "lock_safe (HandlerLogin api rapi conn js)" "lock_safe (HandlerRegister api conn js)"
  "lock_safe (HandlerLogout api rapi conn js)" "lock_safe (HandlerDirectChat api rapi conn js)"
  "lock_safe (HandlerAddFriend api conn js)" "lock_safe (HandlerCreateGroup api conn js)"
  "lock_safe (HandlerJoinGroup api conn js)" "lock_safe (HandlerGroupChat api rapi conn js)"
  "lock_safe (HandlerRedisSubscribeMessage api i msg)" "lock_safe (ClientCloseException api rapi conn)"
  "lock_safe (MsgIDHandler_Reset api)"
proof -
  show "lock_safe (HandlerRegister api conn js)" "lock_safe (HandlerAddFriend api conn js)"
    "lock_safe (HandlerCreateGroup api conn js)" "lock_safe (HandlerJoinGroup api conn js)"
    "lock_safe (MsgIDHandler_Reset api)"
    unfolding HandlerRegister_def HandlerAddFriend_def HandlerCreateGroup_def HandlerJoinGroup_def
      MsgIDHandler_Reset_def
    by (rule lock_safe_neutral; intro lock_intros)+
  show "lock_safe (HandlerRedisSubscribeMessage api i msg)" "lock_safe (ClientCloseException api rapi conn)"
    unfolding HandlerRedisSubscribeMessage_def ClientCloseException_def Let_def
    by (rule lock_safe_with_lock; intro lock_intros)+
  show "lock_safe (HandlerLogin api rapi conn js)" 
    unfolding HandlerLogin_def login_accept_def Let_def
    by (intro lock_safe_intros; (rule lock_safe_neutral)?; intro lock_intros)
  show "lock_safe (HandlerLogout api rapi conn js)" 
    unfolding HandlerLogout_def
    by (intro lock_safe_intros; (rule lock_safe_neutral)?; intro lock_intros)
  show "lock_safe (HandlerDirectChat api rapi conn js)" "lock_safe (HandlerGroupChat api rapi conn js)"
    unfolding HandlerDirectChat_def HandlerGroupChat_def
    by (intro lock_safe_intros; (rule lock_safe_neutral)?; intro lock_intros)+
qed

lemma lock_safe_Dispatch: "lock_safe (Dispatch api rapi msgid conn js)"
  using lock_safe_handlers
  by (auto simp: Dispatch_def msg_handler_map_def intro: lock_safe_neutral lock_intros)

lemma lock_safe_HandlerReset: "lock_safe (HandlerReset api k)"
  unfolding HandlerReset_def
  by (intro lock_safe_intros lock_safe_handlers; rule lock_safe_neutral; intro lock_intros) simp

lemma lock_safe_run_event: "lock_safe (run_event api rapi ev)"
proof (cases ev)
  case (Message conn buff)
  then show ?thesis
    by (simp add: run_event_def OnMessage_def)
       (intro lock_safe_intros lock_safe_Dispatch; rule lock_safe_neutral; intro lock_intros)
next
  case (Signal n)
  then show ?thesis
    by (simp add: run_event_def HandleSignal_def SignalHandler_Init_def RegisterSignal_def lock_safe_HandlerReset
        lock_safe_neutral lock_intros split: option.split)
qed (simp_all add: run_event_def OnConnection_def lock_safe_handlers lock_safe_neutral lock_intros)

lemma reachable_unlocked:
  assumes "reachable api rapi s0 p" and "\<not> conn_mtx s0"
  shows "\<not> conn_mtx (state_of_process p) \<and> (\<forall>s. p \<noteq> Terminated Mutex_relocked s)"
proof -
  have inv: "\<not> conn_mtx (state_of_process p)" if "reachable api rapi s0 p" for p
    using reachable_invariant [OF that, of "\<lambda>s. \<not> conn_mtx s"] assms(2) lock_safe_run_event
    by (auto simp: preserves_def lock_safe_def)
  from assms(1) show ?thesis
  proof cases
    case (reach_step q ev)
    obtain s where q: "q = Running s" using server_step_state [OF reach_step(2)] by blast
    then have "\<not> conn_mtx s" using inv [OF reach_step(1)] by (simp add: state_of_process_def)
    then have "fst (run_event api rapi ev s) \<noteq> Inl Mutex_relocked"
      using lock_safe_run_event [of api rapi ev] by (simp add: lock_safe_def)
    then have "p \<noteq> Terminated Mutex_relocked s'" for s'
      using reach_step(2) q by (auto simp: server_step_Terminated_iff)
    with inv [OF assms(1)] show ?thesis by blast
  qed (simp add: state_of_process_def assms(2))
qed

lemma lock_safe_unlocked: "lock_safe m \<Longrightarrow> \<not> conn_mtx s \<Longrightarrow> \<not> conn_mtx (snd (m s))"
  by (simp add: lock_safe_def)

end
