(* ===== verification/Chat_Behaviour.thy ===== *)
theory Chat_Behaviour
  imports Chat_Run Chat_Sql
begin

text \<open>
  Functional behaviour of the handlers over a MySQL server that satisfies \<open>sql_server\<close>: what is sent to
  whom, what changes in the tables, and what happens to the connection table.
\<close>

section \<open>What is sent\<close>

definition friend_json :: "UserEntity \<Rightarrow> json" where
  "friend_json u =
     Object [(''id'', json_of_int (user_id u)), (''name'', json_of_string (user_name u)),
             (''state'', json_of_string (user_state u))]"

definition optional_field :: "string \<Rightarrow> string list \<Rightarrow> (string \<times> json) list" where
  "optional_field k vs = (if vs = [] then [] else [(k, json_of_strings vs)])"

text \<open>The answer to a successful login of user \<open>i\<close>, from the tables before the login.\<close>

definition login_response :: "int \<Rightarrow> tables \<Rightarrow> json" where
  "login_response i t =
     Object ([(''errno'', json_of_int 0)] @
       optional_field ''friendinfo'' (map (\<lambda>u. json_text (friend_json u)) (friends_of i t)) @
       [(''id'', json_of_int i), (''msgid'', json_of_int 2),
        (''name'', json_of_string (user_name (find_user i t)))] @
       optional_field ''offlinemsg'' (offline_of i t))"

definition login_failure :: "int \<Rightarrow> string \<Rightarrow> json" where
  "login_failure err msg =
     Object [(''errmsg'', json_of_string msg), (''errno'', json_of_int err), (''msgid'', json_of_int 2)]"

text \<open>The texts of user \<open>i\<close> are UTF-8.\<close>

definition texts_ok :: "int \<Rightarrow> tables \<Rightarrow> bool" where
  "texts_ok i t \<longleftrightarrow>
     utf8_valid (user_name (find_user i t)) \<and>
     (\<forall>u \<in> set (friends_of i t). utf8_valid (user_name u) \<and> utf8_valid (user_state u) \<and> is_int32 (user_id u)) \<and>
     (\<forall>m \<in> set (offline_of i t). utf8_valid m)"

lemma printable_int: "is_int32 i \<Longrightarrow> printable (json_of_int i)"
  by (auto simp: json_of_int_def is_int32_def)

lemma printable_strings: "\<forall>s \<in> set ss. utf8_valid s \<Longrightarrow> printable (json_of_strings ss)"
  by (simp add: json_of_strings_def elems_printable_iff json_of_string_def)

lemma printable_friend:
  "utf8_valid (user_name u) \<Longrightarrow> utf8_valid (user_state u) \<Longrightarrow> is_int32 (user_id u) \<Longrightarrow> printable (friend_json u)"
  using printable_int [of "user_id u"]
  by (simp add: friend_json_def json_of_string_def utf8_valid_ascii)

lemma utf8_valid_friend:
  "utf8_valid (user_name u) \<Longrightarrow> utf8_valid (user_state u) \<Longrightarrow> utf8_valid (json_text (friend_json u))"
  by (simp add: friend_json_def json_of_string_def json_of_int_def utf8_valid_ascii_Cons utf8_valid_append
      utf8_valid_show_int utf8_valid_quoted utf8_valid_ascii)

lemma friend_info_text:
  assumes "utf8_valid (user_name u)" "utf8_valid (user_state u)" "is_int32 (user_id u)"
  shows "friend_info u = Inr (json_text (friend_json u))"
proof -
  have "json_build [(''id'', json_of_int (user_id u)), (''name'', json_of_string (user_name u)),
      (''state'', json_of_string (user_state u))] Null = Inr (friend_json u)"
    by (simp add: json_build_Null friend_json_def)
  then show ?thesis
    using dump_default_text [OF printable_friend [OF assms]] by (simp add: friend_info_def)
qed

lemma printable_login_response:
  assumes "is_int32 i" and "texts_ok i t"
  shows "printable (login_response i t)"
proof -
  have f: "printable (json_of_strings (map (\<lambda>u. json_text (friend_json u)) (friends_of i t)))"
    using assms(2) by (intro printable_strings) (auto simp: texts_ok_def intro!: utf8_valid_friend)
  have o: "printable (json_of_strings (offline_of i t))"
    using assms(2) by (intro printable_strings) (simp add: texts_ok_def)
  show ?thesis
    using f o assms printable_int [of i] printable_int [of 0] printable_int [of 2]
    by (simp add: login_response_def optional_field_def members_printable_iff json_of_string_def
        texts_ok_def utf8_valid_ascii is_int32_def)
qed

lemma utf8_valid_errmsg [simp]: "utf8_valid errmsg_already_online" "utf8_valid errmsg_wrong_password"
  by (simp_all add: errmsg_already_online_def errmsg_wrong_password_def utf8_valid_def lead_ranges_def)

lemma printable_login_failure: "is_int32 e \<Longrightarrow> utf8_valid msg \<Longrightarrow> printable (login_failure e msg)"
  using printable_int [of e] printable_int [of 2]
  by (simp add: login_failure_def json_of_string_def utf8_valid_ascii is_int32_def)

lemma login_failure_build:
  "json_build [(''msgid'', json_of_MsgType kMsgLogACK), (''errno'', json_of_int e), (''errmsg'', json_of_string m)] Null
     = Inr (login_failure e m)"
  by (simp add: json_build_Null login_failure_def json_of_MsgType_def)

section \<open>Login\<close>

text \<open>A login request for user \<open>i\<close> with password \<open>pwd\<close>.\<close>

definition login_request :: "json \<Rightarrow> int \<Rightarrow> string \<Rightarrow> bool" where
  "login_request js i pwd \<longleftrightarrow>
     field_int ''id'' js = Inr (i, js) \<and> field_string ''password'' js = Inr (pwd, js)"

lemma is_int32_field: "field_int k js = Inr (i, js') \<Longrightarrow> is_int32 i"
  by (auto simp: field_int_def bindR_eq_Inr mapR_eq_Inr is_int32_get_int split: prod.splits)

lemma login_build:
  "json_build [(''msgid'', json_of_MsgType kMsgLogACK), (''errno'', json_of_int 0), (''id'', json_of_int i),
     (''name'', json_of_string n)] Null =
   Inr (Object [(''errno'', json_of_int 0), (''id'', json_of_int i), (''msgid'', json_of_int 2),
     (''name'', json_of_string n)])"
  by (simp add: json_build_Null json_of_MsgType_def)

lemma friends_info_run:
  assumes "texts_ok i t"
  shows "traverseR friend_info (friends_of i t) = Inr (map (\<lambda>u. json_text (friend_json u)) (friends_of i t))"
  using assms by (intro traverseR_all) (auto simp: texts_ok_def friend_info_text)

lemma find_user_id: "user_id (find_user i t) = i \<or> find_user i t = UserEntity_default"
  by (auto simp: find_user_def split: option.splits)

lemma friends_of_cong:
  "t_user t' = t_user t \<Longrightarrow> t_friend t' = t_friend t \<Longrightarrow> friends_of i t' = friends_of i t"
  by (simp only: friends_of_def)

lemma friends_of_update:
  "friends_of i (stmt_update (Delete_offline u) t) = friends_of i t"
  "offline_of i (stmt_update (Update_state st u) t) = offline_of i t"
  by (rule friends_of_cong) (simp_all add: offline_of_def)

lemma user_ids_update: "map fst (t_user (stmt_update s t)) = map fst (t_user t)"
proof -
  have "map fst (map (\<lambda>(j, n, p, s). if j = i then (j, n, p, st) else (j, n, p, s)) us) = map fst us"
    and "map fst (map (\<lambda>(j, n, p, s). (j, n, p, if s = ''online'' then ''offline'' else s)) us) = map fst us"
    for us :: "(int \<times> string \<times> string \<times> string) list" and i st
    by (induction us) auto
  then show ?thesis by (cases s) (simp_all del: map_map)
qed

lemma tables_ok_update [simp]: "tables_ok t \<Longrightarrow> tables_ok (stmt_update s t)"
  unfolding tables_ok_def list.set_map [symmetric] user_ids_update by simp

declare stmt_update.simps [simp del]

text \<open>The tables after a login: the user is online, the offline messages are delivered.\<close>

definition login_tables :: "int \<Rightarrow> tables \<Rightarrow> tables" where
  "login_tables i t =
     (let t1 = stmt_update (Update_state ''online'' i) t
      in if offline_of i t = [] then t1 else stmt_update (Delete_offline i) t1)"

definition omap_update_all :: "(string \<times> json) list \<Rightarrow> (string \<times> json) list \<Rightarrow> (string \<times> json) list" where
  "omap_update_all kvs m = fold (\<lambda>(k, v). omap_update k v) kvs m"

text \<open>The receiver is connected to this server: the message goes to that connection and nowhere else.\<close>

lemma direct_chat_local:
  fixes s :: "('d, 'r) server_state"
  assumes "field_int ''toid'' js = Inr (j, js')" and "printable js'" and "\<not> conn_mtx s"
    and "map_of (user_conn_map s) j = Some to_conn"
  shows "HandlerDirectChat api rapi conn js s = (Inr (), s\<lparr>sends := sends s @ [(to_conn, json_text js')]\<rparr>)"
  using assms
  by (simp add: HandlerDirectChat_def send_if_connected_def bindC_run seqC_run with_lock_run send_json_run)

context chat_database
begin

lemma login_accept_run:
  fixes s :: "('d, 'r) server_state"
  assumes i: "is_int32 i" and ok: "tables_ok (view (db s))" and unlocked: "\<not> conn_mtx s"
    and u: "user = find_user i t" "user_id user = i"
    and t: "t = view (db s)" and t1: "t1 = stmt_update (Update_state ''online'' i) t"
    and texts: "texts_ok i t1"
  shows "fst (login_accept api rapi conn i user s) = Inr () \<and>
    sends (snd (login_accept api rapi conn i user s)) = sends s @ [(conn, json_text (login_response i t1))] \<and>
    user_conn_map (snd (login_accept api rapi conn i user s)) = umap_insert i conn (user_conn_map s) \<and>
    view (db (snd (login_accept api rapi conn i user s))) = login_tables i t"
proof -
  let ?user = "user\<lparr>user_state := ''online''\<rparr>"
  define d1 where "d1 = snd (UserDAO_UpdateState api ?user (db s))"
  have upd: "fst (UserDAO_UpdateState api ?user (db s)) = Inr True" and v1: "view d1 = t1"
    using UserDAO_UpdateState_run [of ?user "db s"] i u(2) t t1 by (simp_all add: d1_def)
  define d2 where "d2 = snd (OfflineMessageDAO_Query api i d1)"
  have qry: "fst (OfflineMessageDAO_Query api i d1) = Inr (offline_of i t1)" and v2: "view d2 = t1"
    using OfflineMessageDAO_Query_run [OF i, of d1] v1 by (simp_all add: d2_def)
  define d3 where "d3 = (if offline_of i t1 \<noteq> [] then snd (OfflineMessageDAO_Delete api i d2) else d2)"
  have del: "fst (OfflineMessageDAO_Delete api i d2) = Inr ()" and v3: "view d3 = login_tables i t"
    using OfflineMessageDAO_Delete_run [OF i, of d2] v2 t1
    by (simp_all add: d3_def login_tables_def Let_def friends_of_update)
  have f3: "friends_of i (login_tables i t) = friends_of i t1" and ok3: "tables_ok (view d3)"
    using ok t t1 by (simp_all add: v3 login_tables_def Let_def friends_of_update)
  define d4 where "d4 = snd (FriendDAO_GetFriends api i d3)"
  have fr: "fst (FriendDAO_GetFriends api i d3) = Inr (friends_of i t1)" and v4: "view d4 = login_tables i t"
    using FriendDAO_GetFriends_run [OF i ok3] v3 f3 by (simp_all add: d4_def)
  obtain b where sub: "fst (RedisConn_Subscribe rapi i (redis s)) = Inr b"
    using subscribe_no_throw by blast
  have "user_name (find_user i t1) = user_name (find_user i t)"
  proof -
    have "map_of (map (\<lambda>(j, n, p, s). if j = i then (j, n, p, ''online'') else (j, n, p, s)) us) i =
        map_option (\<lambda>(n, p, s). (n, p, ''online'')) (map_of us i)" for us :: "(int \<times> string \<times> string \<times> string) list"
      by (induction us) auto
    then show ?thesis by (simp add: t1 find_user_def stmt_update.simps split: option.splits)
  qed
  then have name: "user_name user = user_name (find_user i t1)" using u(1) by simp
  have print: "printable (login_response i t1)" by (rule printable_login_response [OF i texts])
  define S where "S = s\<lparr>user_conn_map := umap_insert i conn (user_conn_map s), conn_mtx := False,
      redis := snd (RedisConn_Subscribe rapi i (redis s)), db := d4\<rparr>"
  have d3: "offline_of i t1 \<noteq> [] \<Longrightarrow> snd (OfflineMessageDAO_Delete api i d2) = d3"
    "offline_of i t1 = [] \<Longrightarrow> d2 = d3"
    by (simp_all add: d3_def)
  have "login_accept api rapi conn i user s = send_json conn (login_response i t1) S"
    by (cases "offline_of i t1 = []"; cases "friends_of i t1 = []")
       (use d3 in \<open>simp_all add: login_accept_def Let_def seqC_run bindC_run with_lock_run unlocked sub upd
         d1_def [symmetric] qry d2_def [symmetric] del fr d4_def [symmetric] u(2) login_build
         friends_info_run [OF texts] login_response_def optional_field_def name S_def\<close>)
  then show ?thesis
    by (simp add: send_json_run [OF print] S_def v4)
qed

text \<open>\<open>HandlerLogin\<close> after the user was looked up.\<close>

lemma HandlerLogin_cases:
  fixes s :: "('d, 'r) server_state"
  assumes "login_request js i pwd" and "is_int32 i" and "tables_ok (view (db s))"
  defines "u \<equiv> find_user i (view (db s))"
  obtains s1 where "view (db s1) = view (db s)" "sends s1 = sends s" "user_conn_map s1 = user_conn_map s"
    "conn_mtx s1 = conn_mtx s" "redis s1 = redis s"
    "HandlerLogin api rapi conn js s =
       (if user_id u = i \<and> user_password u = pwd then
          if user_state u = ''online'' then send_json conn (login_failure 2 errmsg_already_online) s1
          else login_accept api rapi conn i u s1
        else send_json conn (login_failure 1 errmsg_wrong_password) s1)"
proof (rule that [of "s\<lparr>db := snd (UserDAO_Query api i (db s))\<rparr>"])
  show "view (db (s\<lparr>db := snd (UserDAO_Query api i (db s))\<rparr>)) = view (db s)"
    using UserDAO_Query_run [OF assms(2,3)] by simp
  show "HandlerLogin api rapi conn js s =
       (if user_id u = i \<and> user_password u = pwd then
          if user_state u = ''online''
          then send_json conn (login_failure 2 errmsg_already_online) (s\<lparr>db := snd (UserDAO_Query api i (db s))\<rparr>)
          else login_accept api rapi conn i u (s\<lparr>db := snd (UserDAO_Query api i (db s))\<rparr>)
        else send_json conn (login_failure 1 errmsg_wrong_password) (s\<lparr>db := snd (UserDAO_Query api i (db s))\<rparr>))"
    using assms(1) UserDAO_Query_run [OF assms(2,3)]
    by (simp add: HandlerLogin_def login_request_def bindC_run login_failure_build u_def)
qed simp_all

lemma login_reject_run:
  fixes s :: "('d, 'r) server_state"
  assumes "login_request js i pwd" and "is_int32 i" and "tables_ok (view (db s))"
    and "\<not> (user_id (find_user i (view (db s))) = i \<and> user_password (find_user i (view (db s))) = pwd)"
  shows "fst (HandlerLogin api rapi conn js s) = Inr () \<and>
    sends (snd (HandlerLogin api rapi conn js s)) = sends s @ [(conn, json_text (login_failure 1 errmsg_wrong_password))] \<and>
    user_conn_map (snd (HandlerLogin api rapi conn js s)) = user_conn_map s \<and>
    view (db (snd (HandlerLogin api rapi conn js s))) = view (db s) \<and>
    redis (snd (HandlerLogin api rapi conn js s)) = redis s"
proof -
  obtain s1 where s1: "view (db s1) = view (db s)" "sends s1 = sends s" "user_conn_map s1 = user_conn_map s"
      "redis s1 = redis s"
    and run: "HandlerLogin api rapi conn js s = send_json conn (login_failure 1 errmsg_wrong_password) s1"
    using HandlerLogin_cases [OF assms(1-3), of rapi conn] assms(4) by metis
  show ?thesis
    by (simp add: run send_json_run printable_login_failure is_int32_def s1)
qed

lemma login_twice_run:
  fixes s :: "('d, 'r) server_state"
  assumes "login_request js i pwd" and "is_int32 i" and "tables_ok (view (db s))"
    and "user_id (find_user i (view (db s))) = i" and "user_password (find_user i (view (db s))) = pwd"
    and "user_state (find_user i (view (db s))) = ''online''"
  shows "fst (HandlerLogin api rapi conn js s) = Inr () \<and>
    sends (snd (HandlerLogin api rapi conn js s)) = sends s @ [(conn, json_text (login_failure 2 errmsg_already_online))] \<and>
    user_conn_map (snd (HandlerLogin api rapi conn js s)) = user_conn_map s \<and>
    view (db (snd (HandlerLogin api rapi conn js s))) = view (db s) \<and>
    redis (snd (HandlerLogin api rapi conn js s)) = redis s"
proof -
  obtain s1 where s1: "view (db s1) = view (db s)" "sends s1 = sends s" "user_conn_map s1 = user_conn_map s"
      "redis s1 = redis s"
    and run: "HandlerLogin api rapi conn js s = send_json conn (login_failure 2 errmsg_already_online) s1"
    using HandlerLogin_cases [OF assms(1-3), of rapi conn] assms(4-6) by metis
  show ?thesis
    by (simp add: run send_json_run printable_login_failure is_int32_def s1)
qed

lemma login_success_run:
  fixes s :: "('d, 'r) server_state"
  assumes "login_request js i pwd" and "is_int32 i" and "tables_ok (view (db s))" and "\<not> conn_mtx s"
    and "user_id (find_user i (view (db s))) = i" and "user_password (find_user i (view (db s))) = pwd"
    and "user_state (find_user i (view (db s))) \<noteq> ''online''"
    and "texts_ok i (stmt_update (Update_state ''online'' i) (view (db s)))"
  shows "fst (HandlerLogin api rapi conn js s) = Inr () \<and>
    sends (snd (HandlerLogin api rapi conn js s)) =
      sends s @ [(conn, json_text (login_response i (stmt_update (Update_state ''online'' i) (view (db s)))))] \<and>
    user_conn_map (snd (HandlerLogin api rapi conn js s)) = umap_insert i conn (user_conn_map s) \<and>
    view (db (snd (HandlerLogin api rapi conn js s))) = login_tables i (view (db s))"
proof -
  obtain s1 where s1: "view (db s1) = view (db s)" "sends s1 = sends s" "user_conn_map s1 = user_conn_map s"
      "conn_mtx s1 = conn_mtx s"
    and run: "HandlerLogin api rapi conn js s = login_accept api rapi conn i (find_user i (view (db s))) s1"
    using HandlerLogin_cases [OF assms(1-3), of rapi conn] assms(5-7) by metis
  have acc: "fst (login_accept api rapi conn i (find_user i (view (db s1))) s1) = Inr () \<and>
      sends (snd (login_accept api rapi conn i (find_user i (view (db s1))) s1)) =
        sends s1 @ [(conn, json_text (login_response i (stmt_update (Update_state ''online'' i) (view (db s1)))))] \<and>
      user_conn_map (snd (login_accept api rapi conn i (find_user i (view (db s1))) s1)) =
        umap_insert i conn (user_conn_map s1) \<and>
      view (db (snd (login_accept api rapi conn i (find_user i (view (db s1))) s1))) = login_tables i (view (db s1))"
    by (rule login_accept_run [OF assms(2) _ _ refl _ refl refl]) (use assms(3-8) s1 in simp_all)
  then show ?thesis by (simp add: run s1)
qed

section \<open>Logout and lost connections\<close>

lemma offline_tables:
  assumes "is_int32 i" and "user_id u = i" and "user_state u = ''offline''"
  shows "fst (UserDAO_UpdateState api u d) = Inr True \<and>
    view (snd (UserDAO_UpdateState api u d)) = stmt_update (Update_state ''offline'' i) (view d)"
  using UserDAO_UpdateState_run [of u d] assms by simp

lemma HandlerLogout_run:
  fixes s :: "('d, 'r) server_state"
  assumes "field_int ''id'' js = Inr (i, js')" and "\<not> conn_mtx s" and "subscribe_context (redis s)"
  shows "fst (HandlerLogout api rapi conn js s) = Inr () \<and>
    sends (snd (HandlerLogout api rapi conn js s)) = sends s \<and>
    user_conn_map (snd (HandlerLogout api rapi conn js s)) = umap_erase i (user_conn_map s) \<and>
    view (db (snd (HandlerLogout api rapi conn js s))) = stmt_update (Update_state ''offline'' i) (view (db s))"
proof -
  obtain b where b: "fst (RedisConn_Unsubscribe rapi i (redis s)) = Inr b"
    using unsubscribe_no_throw [OF assms(3)] by blast
  show ?thesis
    using assms(1,2) b offline_tables [OF is_int32_field [OF assms(1)], of _ "db s"]
    by (simp add: HandlerLogout_def bindC_run seqC_run with_lock_run)
qed

lemma ClientCloseException_run:
  fixes s :: "('d, 'r) server_state"
  assumes "\<not> conn_mtx s" and "subscribe_context (redis s)"
    and "fst (erase_first_conn conn (user_conn_map s)) = Some i" and "is_int32 i" and "i \<noteq> - 1"
  shows "fst (ClientCloseException api rapi conn s) = Inr () \<and>
    sends (snd (ClientCloseException api rapi conn s)) = sends s \<and>
    view (db (snd (ClientCloseException api rapi conn s))) = stmt_update (Update_state ''offline'' i) (view (db s))"
proof -
  obtain b where b: "fst (RedisConn_Unsubscribe rapi i (redis s)) = Inr b"
    using unsubscribe_no_throw [OF assms(2)] by blast
  show ?thesis
    using assms b offline_tables [OF assms(4), of _ "db s"]
    by (simp add: ClientCloseException_def bindC_run seqC_run with_lock_run Let_def case_prod_beta)
qed

section \<open>Direct messages\<close>

lemma direct_chat_remote:
  fixes s :: "('d, 'r) server_state"
  assumes "field_int ''toid'' js = Inr (j, js')" and "printable js'" and "\<not> conn_mtx s"
    and "map_of (user_conn_map s) j = None" and "tables_ok (view (db s))"
    and "user_state (find_user j (view (db s))) = ''online''"
  shows "fst (HandlerDirectChat api rapi conn js s) = Inr () \<and>
    sends (snd (HandlerDirectChat api rapi conn js s)) = sends s \<and>
    view (db (snd (HandlerDirectChat api rapi conn js s))) = view (db s) \<and>
    redis (snd (HandlerDirectChat api rapi conn js s)) = snd (RedisConn_Publish rapi j (json_text js') (redis s))"
proof -
  obtain b where b: "fst (RedisConn_Publish rapi j (json_text js') (redis s)) = Inr b"
    using publish_no_throw by blast
  have q: "fst (UserDAO_Query api j (db s)) = Inr (find_user j (view (db s)))"
    "view (snd (UserDAO_Query api j (db s))) = view (db s)"
    using UserDAO_Query_run [OF is_int32_field [OF assms(1)] assms(5)] by simp_all
  show ?thesis
    using assms(1-4,6) b q
    by (simp add: HandlerDirectChat_def send_if_connected_def deliver_remote_def bindC_run seqC_run with_lock_run
        dump_default_text)
qed

lemma direct_chat_offline:
  fixes s :: "('d, 'r) server_state"
  assumes "field_int ''toid'' js = Inr (j, js')" and "printable js'" and "\<not> conn_mtx s"
    and "map_of (user_conn_map s) j = None" and "tables_ok (view (db s))"
    and "user_state (find_user j (view (db s))) \<noteq> ''online''"
    and "sql_plain (json_text js')" and "length (stmt_text (Insert_offline j (json_text js'))) < 1024"
  shows "fst (HandlerDirectChat api rapi conn js s) = Inr () \<and>
    sends (snd (HandlerDirectChat api rapi conn js s)) = sends s \<and>
    user_conn_map (snd (HandlerDirectChat api rapi conn js s)) = user_conn_map s \<and>
    \<not> conn_mtx (snd (HandlerDirectChat api rapi conn js s)) \<and>
    redis (snd (HandlerDirectChat api rapi conn js s)) = redis s \<and>
    view (db (snd (HandlerDirectChat api rapi conn js s))) =
      stmt_update (Insert_offline j (json_text js')) (view (db s))"
proof -
  have q: "fst (UserDAO_Query api j (db s)) = Inr (find_user j (view (db s)))"
    "view (snd (UserDAO_Query api j (db s))) = view (db s)"
    using UserDAO_Query_run [OF is_int32_field [OF assms(1)] assms(5)] by simp_all
  show ?thesis
    using assms(1-4,6) q OfflineMessageDAO_Store_run [OF assms(7,8), of "snd (UserDAO_Query api j (db s))"]
    by (simp add: HandlerDirectChat_def send_if_connected_def deliver_remote_def bindC_run seqC_run with_lock_run
        dump_default_text)
qed

text \<open>A notification from redis reaches the connection, or is stored if the user has left meanwhile.\<close>

lemma redis_message_run:
  fixes s :: "('d, 'r) server_state"
  assumes "\<not> conn_mtx s" and "sql_plain msg" and "length (stmt_text (Insert_offline j msg)) < 1024"
  shows "fst (HandlerRedisSubscribeMessage api j msg s) = Inr () \<and>
    sends (snd (HandlerRedisSubscribeMessage api j msg s)) =
      sends s @ (case map_of (user_conn_map s) j of Some c \<Rightarrow> [(c, msg)] | None \<Rightarrow> []) \<and>
    view (db (snd (HandlerRedisSubscribeMessage api j msg s))) =
      (case map_of (user_conn_map s) j of
         Some c \<Rightarrow> view (db s) | None \<Rightarrow> stmt_update (Insert_offline j msg) (view (db s)))"
  using assms(1) OfflineMessageDAO_Store_run [OF assms(2,3), of "db s"]
  by (simp add: HandlerRedisSubscribeMessage_def bindC_run with_lock_run split: option.split)

section \<open>Groups and friends\<close>

lemma group_chat_run:
  fixes s :: "('d, 'r) server_state"
  assumes "field_int ''id'' js = Inr (i, js1)" and "field_int ''groupid'' js1 = Inr (g, js2)" and "\<not> conn_mtx s"
  shows "fst (HandlerGroupChat api rapi conn js s) = Inr () \<and>
    sends (snd (HandlerGroupChat api rapi conn js s)) = sends s \<and>
    redis (snd (HandlerGroupChat api rapi conn js s)) = redis s \<and>
    view (db (snd (HandlerGroupChat api rapi conn js s))) = view (db s)"
  using assms GroupDAO_GetOtherGroupMembers_run [OF is_int32_field [OF assms(1)] is_int32_field [OF assms(2)], of "db s"]
  by (simp add: HandlerGroupChat_def bindC_run with_lock_run)

lemma add_friend_run:
  fixes s :: "('d, 'r) server_state"
  assumes "field_int ''userid'' js = Inr (i, js1)" and "field_int ''friendid'' js1 = Inr (f, js2)"
  shows "fst (HandlerAddFriend api conn js s) = Inr () \<and>
    sends (snd (HandlerAddFriend api conn js s)) = sends s \<and>
    view (db (snd (HandlerAddFriend api conn js s))) = stmt_update (Insert_friend i f) (view (db s))"
  using assms FriendDAO_AddFriend_run [OF is_int32_field [OF assms(1)] is_int32_field [OF assms(2)], of "db s"]
  by (simp add: HandlerAddFriend_def bindC_run)

section \<open>Shutdown\<close>

lemma signal_run:
  fixes s :: "('d, 'r) server_state"
  shows "fst (run_event api rapi (Signal SIGINT) s) = Inl (Process_exit 0) \<and>
    view (db (snd (run_event api rapi (Signal SIGINT) s))) = stmt_update Reset_state (view (db s))"
  using UserDAO_ResetState_run [of "db s"]
  by (simp add: run_event_def HandleSignal_def SignalHandler_Init_def RegisterSignal_def HandlerReset_def
      MsgIDHandler_Reset_def seqC_run)

end

lemma nobody_online_after_reset:
  "(j, n, p, st) \<in> set (t_user (stmt_update Reset_state t)) \<Longrightarrow> st \<noteq> ''online''"
  by (auto simp: stmt_update.simps split: if_splits)

section \<open>Offline delivery\<close>

lemma offline_of_insert:
  "offline_of j (stmt_update (Insert_offline j m) t) = offline_of j t @ [m]"
  "j' \<noteq> j \<Longrightarrow> offline_of j' (stmt_update (Insert_offline j m) t) = offline_of j' t"
  by (simp_all add: offline_of_def stmt_update.simps)

lemma offline_of_login: "offline_of i (login_tables i t) = []"
proof -
  have "[m. (v, m) \<leftarrow> filter (\<lambda>e. fst e \<noteq> i) ms, v = i] = []" for ms :: "(int \<times> string) list"
    by (induction ms) auto
  then show ?thesis
    by (simp add: login_tables_def Let_def offline_of_def stmt_update.simps)
qed

lemma offline_of_login_other: "i' \<noteq> i \<Longrightarrow> offline_of i' (login_tables i t) = offline_of i' t"
proof -
  assume "i' \<noteq> i"
  then have "[m. (v, m) \<leftarrow> filter (\<lambda>e. fst e \<noteq> i) ms, v = i'] = [m. (v, m) \<leftarrow> ms, v = i']"
    for ms :: "(int \<times> string) list"
    by (induction ms) auto
  then show ?thesis
    by (simp add: login_tables_def Let_def offline_of_def stmt_update.simps)
qed

lemma login_online:
  assumes "map_of (t_user t) i = Some (n, p, st)"
  shows "map_of (t_user (login_tables i t)) i = Some (n, p, ''online'')"
proof -
  have "map_of us i = Some (n, p, st) \<Longrightarrow>
      map_of (map (\<lambda>(j, n, p, s). if j = i then (j, n, p, ''online'') else (j, n, p, s)) us) i = Some (n, p, ''online'')"
    for us :: "(int \<times> string \<times> string \<times> string) list"
    by (induction us) (auto split: if_splits)
  then show ?thesis
    using assms by (simp add: login_tables_def Let_def stmt_update.simps)
qed

lemma login_response_offline:
  "offline_of i t \<noteq> [] \<Longrightarrow> \<exists>m. login_response i t = Object m \<and>
     map_of m ''offlinemsg'' = Some (json_of_strings (offline_of i t))"
  by (simp add: login_response_def optional_field_def)

lemma find_user_insert [simp]:
  "find_user i (stmt_update (Insert_offline j m) t) = find_user i t"
  by (simp add: find_user_def stmt_update.simps)

context chat_database
begin

lemma offline_delivery:
  fixes s :: "('d, 'r) server_state"
  assumes "field_int ''toid'' js = Inr (j, js')" and "printable js'"
    and "\<not> conn_mtx s" and "map_of (user_conn_map s) j = None" and "tables_ok (view (db s))"
    and "user_state (find_user j (view (db s))) \<noteq> ''online''"
    and "sql_plain (json_text js')" and "length (stmt_text (Insert_offline j (json_text js'))) < 1024"
    and "login_request lg j pwd"
    and "user_id (find_user j (view (db s))) = j" and "user_password (find_user j (view (db s))) = pwd"
    and "texts_ok j (stmt_update (Update_state ''online'' j)
           (stmt_update (Insert_offline j (json_text js')) (view (db s))))"
  shows "sends (snd (HandlerDirectChat api rapi conn js s)) = sends s \<and>
    offline_of j (view (db (snd (HandlerDirectChat api rapi conn js s)))) =
      offline_of j (view (db s)) @ [json_text js'] \<and>
    (\<exists>m. sends (snd (HandlerLogin api rapi conn' lg (snd (HandlerDirectChat api rapi conn js s)))) =
         sends s @ [(conn', json_text (Object m))] \<and>
       map_of m ''offlinemsg'' = Some (json_of_strings (offline_of j (view (db s)) @ [json_text js']))) \<and>
    offline_of j (view (db (snd (HandlerLogin api rapi conn' lg (snd (HandlerDirectChat api rapi conn js s)))))) = []"
proof -
  let ?t = "view (db s)" and ?t1 = "stmt_update (Insert_offline j (json_text js')) (view (db s))"
  define s1 where "s1 = snd (HandlerDirectChat api rapi conn js s)"
  have s1: "sends s1 = sends s" "view (db s1) = ?t1" "\<not> conn_mtx s1"
    using direct_chat_offline [OF assms(1-8), of rapi conn] by (simp_all add: s1_def)
  have i32: "is_int32 j" by (rule is_int32_field [OF assms(1)])
  have off: "offline_of j (stmt_update (Update_state ''online'' j) ?t1) = offline_of j ?t @ [json_text js']"
    by (simp add: friends_of_update offline_of_insert)
  have login: "sends (snd (HandlerLogin api rapi conn' lg s1)) =
      sends s1 @ [(conn', json_text (login_response j (stmt_update (Update_state ''online'' j) (view (db s1)))))]"
    "view (db (snd (HandlerLogin api rapi conn' lg s1))) = login_tables j (view (db s1))"
    using login_success_run [OF assms(9) i32, of s1 rapi conn'] assms(5,6,10-12) s1 by simp_all
  obtain m where "login_response j (stmt_update (Update_state ''online'' j) ?t1) = Object m"
      "map_of m ''offlinemsg'' = Some (json_of_strings (offline_of j ?t @ [json_text js']))"
    using login_response_offline [of j "stmt_update (Update_state ''online'' j) ?t1"] off by auto
  then show ?thesis
    using login s1 by (auto simp: s1_def [symmetric] offline_of_login offline_of_insert)
qed

end

section \<open>Registration\<close>

definition register_response :: "bool \<Rightarrow> int \<Rightarrow> json" where
  "register_response ok i =
     (if ok then Object [(''errno'', json_of_int 0), (''id'', json_of_int i), (''msgid'', json_of_int 5)]
      else Object [(''errno'', json_of_int 1), (''msgid'', json_of_int 5)])"

lemma printable_register: "is_int32 i \<Longrightarrow> printable (register_response ok i)"
  using printable_int [of 0] printable_int [of 1] printable_int [of 5] printable_int [of i]
  by (simp add: register_response_def is_int32_def utf8_valid_ascii)

lemma register_build:
  "json_build (if ok then [(''msgid'', json_of_MsgType kMsgRegACK), (''errno'', json_of_int 0), (''id'', json_of_int i)]
     else [(''msgid'', json_of_MsgType kMsgRegACK), (''errno'', json_of_int 1)]) Null = Inr (register_response ok i)"
  by (simp add: json_build_Null register_response_def json_of_MsgType_def)

definition insert_user_text :: "string \<Rightarrow> string \<Rightarrow> string" where
  "insert_user_text name pwd =
     ''insert into user(name, password, state) values('' @ squote @ c_str name @ squote @ '', '' @
       squote @ c_str pwd @ squote @ '', '' @ squote @ ''offline'' @ squote @ '')''"

text \<open>What the database answers to one statement on a fresh connection: the id of the new row.\<close>

definition statement_result :: "'d mysql_api \<Rightarrow> string \<Rightarrow> 'd \<Rightarrow> int option" where
  "statement_result api sql d =
     (let (p, d1) = mysql_real_connect api ''127.0.0.1'' ''root'' ''123456'' ''chat'' 3306 (snd (mysql_init api d));
          (err, d2) = mysql_query api sql (mysql_set_character_set api ''utf8'' d1)
      in if \<not> p \<or> err then None else Some (to_int32 (mysql_insert_id api d2)))"

text \<open>
  Whatever the database answers, a registration is answered once: with the id of the new row if the
  statement succeeded, with \<open>errno\<close> 1 otherwise.
\<close>

lemma HandlerRegister_run:
  fixes s :: "('d, 'r) server_state"
  assumes "field_string ''name'' js = Inr (name, js1)" and "field_string ''password'' js1 = Inr (pwd, js2)"
    and short: "length (insert_user_text name pwd) < 1024"
    and conn: "fst (mysql_init api (db s))"
  shows "fst (HandlerRegister api conn js s) = Inr () \<and>
    sends (snd (HandlerRegister api conn js s)) = sends s @ [(conn, json_text
      (case statement_result api (insert_user_text name pwd) (db s) of
         Some i \<Rightarrow> register_response True i | None \<Rightarrow> register_response False 0))] \<and>
    user_conn_map (snd (HandlerRegister api conn js s)) = user_conn_map s"
proof -
  let ?u = "UserEntity_default\<lparr>user_name := name, user_password := pwd\<rparr>"
  let ?r = "statement_result api (insert_user_text name pwd) (db s)"
  have fmt: "sprintf_sql (''insert into user(name, password, state) values('' @ squote @ c_str (user_name ?u) @ squote @
      '', '' @ squote @ c_str (user_password ?u) @ squote @ '', '' @ squote @ c_str (user_state ?u) @ squote @ '')'') =
      Inr (insert_user_text name pwd)"
    using short by (simp add: sprintf_sql_def insert_user_text_def UserEntity_default_def c_str_def)
  have ins: "fst (UserDAO_Insert api ?u (db s)) =
      Inr (case ?r of Some i \<Rightarrow> (True, ?u\<lparr>user_id := i\<rparr>) | None \<Rightarrow> (False, ?u))"
    unfolding UserDAO_Insert_def fmt bindC_prim
    using conn by (simp add: with_conn_def MySQLConn_ctor_def MySQLConn_Connect_def MySQLConn_Update_def bindC_run
        finallyC_def case_prod_beta statement_result_def Let_def)
  have i32: "?r = Some i \<Longrightarrow> is_int32 i" for i
    by (auto simp: statement_result_def Let_def case_prod_beta split: if_splits)
  have resp: "register_response False (- 1) = register_response False 0"
    by (simp add: register_response_def)
  have "HandlerRegister api conn js s =
      send_json conn (case ?r of Some i \<Rightarrow> register_response True i | None \<Rightarrow> register_response False 0)
        (s\<lparr>db := snd (UserDAO_Insert api ?u (db s))\<rparr>)"
    using assms(1,2) ins resp
    by (simp add: HandlerRegister_def bindC_run register_build UserEntity_default_def split: option.split)
  moreover have "printable (case ?r of Some i \<Rightarrow> register_response True i | None \<Rightarrow> register_response False 0)"
    using i32 printable_register [of 0 False] by (auto simp: printable_register is_int32_def split: option.split)
  ultimately show ?thesis by (simp add: send_json_run)
qed

lemma HandlerRegister_overflow:
  assumes "field_string ''name'' js = Inr (name, js1)" and "field_string ''password'' js1 = Inr (pwd, js2)"
    and "1024 \<le> length (insert_user_text name pwd)"
  shows "HandlerRegister api conn js s = (Inl (Undefined_behaviour ''sprintf past the end of sql''), s)"
  using assms
  by (simp add: HandlerRegister_def UserDAO_Insert_def bindC_run on_db_def sprintf_sql_def
      insert_user_text_def UserEntity_default_def c_str_def)

lemma c_str_replicate: "c \<noteq> CHR 0x00 \<Longrightarrow> c_str (replicate n c) = replicate n c"
  by (simp add: c_str_def takeWhile_eq_all_conv)

lemma friends_of_insert:
  assumes "map_of (t_user t) f = Some (n, p, st)"
  shows "UserEntity_default\<lparr>user_id := f, user_name := n, user_state := st\<rparr>
    \<in> set (friends_of i (stmt_update (Insert_friend i f) t))"
  using map_of_SomeD [OF assms] by (force simp: friends_of_def stmt_update.simps)

end
