(* ===== verification/Chat_Example.thy ===== *)
theory Chat_Example
  imports Chat_Sql_Ref Chat_Lock Chat_Behaviour
begin

text \<open>
  A concrete server for the witnesses: the in-memory database with three users, and a redis library that
  records the commands it is given.
\<close>

type_synonym redis_log = "(string \<times> fmt_arg list) list"

definition log_redis :: "redis_log redis_api" where
  "log_redis =
     \<lparr>redisConnect = (\<lambda>_ _ r. (True, r)), redisCommand = (\<lambda>_ f a r. (True, r @ [(f, a)])),
      redisAppendCommand = (\<lambda>_ f a r. (True, r @ [(f, a)])), redisBufferWrite = (\<lambda>_ r. (True, r)),
      redisGetReply = (\<lambda>_ r. (False, None, r))\<rparr>"

text \<open>Ann (1) is offline with a stored message, Bob (2) is online here, Eve (3) is online elsewhere.\<close>

definition ex_tables :: tables where
  "ex_tables =
     \<lparr>t_user = [(1, ''ann'', ''pa'', ''offline''), (2, ''bob'', ''pb'', ''online''), (3, ''eve'', ''pe'', ''online'')],
      t_friend = [(1, 2)], t_offline = [(1, ''m0''), (2, ''m1'')]\<rparr>"

definition ex_db :: ref_db where
  "ex_db = \<lparr>rd_tables = ex_tables, rd_result = None\<rparr>"

definition ex_redis :: "redis_log redis_conn" where
  "ex_redis =
     \<lparr>publish_context = True, subscribe_context = True, notify_message_handler = True,
      should_stop_observing = False, hiredis = []\<rparr>"

definition ex_state :: "(ref_db, redis_log) server_state" where
  "ex_state = \<lparr>user_conn_map = [(2, 12)], conn_mtx = False, sends = [], db = ex_db, redis = ex_redis\<rparr>"

definition login_js :: "int \<Rightarrow> string \<Rightarrow> json" where
  "login_js i pwd =
     Object [(''id'', Number_unsigned i), (''msgid'', Number_unsigned 1), (''password'', String pwd)]"

definition chat_js :: "int \<Rightarrow> json" where
  "chat_js to = Object [(''msg'', String ''hi''), (''msgid'', Number_unsigned 6), (''toid'', Number_unsigned to)]"

lemma ex_state_simps [simp]:
  "user_conn_map ex_state = [(2, 12)]" "\<not> conn_mtx ex_state" "sends ex_state = []"
  "rd_tables (db ex_state) = ex_tables" "redis ex_state = ex_redis" "subscribe_context ex_redis"
  by (simp_all add: ex_state_def ex_db_def ex_redis_def)

lemma ex_tables_ok [simp]: "tables_ok ex_tables"
  by (simp add: tables_ok_def ex_tables_def is_int32_def)

lemma find_user_ex [simp]:
  "find_user 1 ex_tables = \<lparr>user_id = 1, user_name = ''ann'', user_password = ''pa'', user_state = ''offline''\<rparr>"
  "find_user 2 ex_tables = \<lparr>user_id = 2, user_name = ''bob'', user_password = ''pb'', user_state = ''online''\<rparr>"
  "find_user 3 ex_tables = \<lparr>user_id = 3, user_name = ''eve'', user_password = ''pe'', user_state = ''online''\<rparr>"
  "find_user (- 1) ex_tables = UserEntity_default"
  by (simp_all add: find_user_def ex_tables_def)

lemma login_request_ex: "is_int32 i \<Longrightarrow> login_request (login_js i pwd) i pwd"
  by (simp add: login_request_def login_js_def field_int_def field_string_def get_int_def get_string_def to_int32_id)

lemma field_toid_ex [simp]: "is_int32 i \<Longrightarrow> field_int ''toid'' (chat_js i) = Inr (i, chat_js i)"
  by (simp add: chat_js_def field_int_def get_int_def to_int32_id)

lemma field_id_ex: "is_int32 i \<Longrightarrow> field_int ''id'' (login_js i pwd) = Inr (i, login_js i pwd)"
  by (simp add: login_js_def field_int_def get_int_def to_int32_id)

lemma printable_chat_ex [simp]: "0 \<le> i \<Longrightarrow> is_int32 i \<Longrightarrow> printable (chat_js i)"
  by (simp add: chat_js_def is_int32_def utf8_valid_ascii)

lemma is_int32_ex [simp]: "is_int32 0" "is_int32 1" "is_int32 2" "is_int32 3" "is_int32 (- 1)"
  by (simp_all add: is_int32_def)

lemma texts_ok_ex: "texts_ok 1 (stmt_update (Update_state ''online'' 1) ex_tables)"
  by (simp add: texts_ok_def ex_tables_def stmt_update.simps find_user_def friends_of_def offline_of_def
      utf8_valid_ascii)

lemma ex_offline: "offline_of 1 ex_tables = [''m0'']"
  by (simp add: offline_of_def ex_tables_def)

lemma ex_conn_map: "map_of [(2 :: int, 12 :: nat)] 1 = None" by simp

lemma show_int_digit: "0 \<le> i \<Longrightarrow> i < 10 \<Longrightarrow> show_int i = [digit_char (nat i)]"
  by (simp add: show_int_def show_nat.simps)

lemma digit_char_ex: "digit_char 6 = CHR ''6''" "digit_char (Suc 0) = CHR ''1''"
  by code_simp+

lemma chat_text_ex:
  "json_text (chat_js 1) =
     [CHR ''{'', quote] @ ''msg'' @ [quote, CHR '':'', quote] @ ''hi'' @ [quote, CHR '','', quote] @ ''msgid'' @
     [quote, CHR '':'', CHR ''6'', CHR '','', quote] @ ''toid'' @ [quote, CHR '':'', CHR ''1'', CHR ''}'']"
  by (simp add: chat_js_def quoted_def esc_char_def backslash_def quote_def show_int_digit digit_char_ex)

lemma ex_chat_plain: "sql_plain (json_text (chat_js 1))"
  unfolding chat_text_ex by (simp add: sql_plain_def quote_def)

lemma ex_chat_short: "length (stmt_text (Insert_offline 1 (json_text (chat_js 1)))) < 1024"
  using length_show_int_32 [of 1] by (simp add: chat_text_ex squote_def)

lemma ex_texts_ok_stored:
  "texts_ok 1 (stmt_update (Update_state ''online'' 1) (stmt_update (Insert_offline 1 (json_text (chat_js 1))) ex_tables))"
  using texts_ok_ex
  by (simp add: texts_ok_def friends_of_update offline_of_insert ex_offline)
     (simp add: chat_text_ex ex_tables_def stmt_update.simps find_user_def friends_of_def utf8_valid_ascii
       quote_def offline_of_def)

definition register_js :: "string \<Rightarrow> string \<Rightarrow> json" where
  "register_js name pwd = Object [(''msgid'', Number_unsigned 4), (''name'', String name), (''password'', String pwd)]"

lemma field_register_ex:
  "field_string ''name'' (register_js n p) = Inr (n, register_js n p)"
  "field_string ''password'' (register_js n p) = Inr (p, register_js n p)"
  by (simp_all add: register_js_def field_string_def get_string_def)

definition group_js :: "int \<Rightarrow> int \<Rightarrow> json" where
  "group_js i g = Object [(''groupid'', Number_unsigned g), (''id'', Number_unsigned i), (''msgid'', Number_unsigned 10)]"

lemma field_group_ex:
  "is_int32 i \<Longrightarrow> field_int ''id'' (group_js i g) = Inr (i, group_js i g)"
  "is_int32 g \<Longrightarrow> field_int ''groupid'' (group_js i g) = Inr (g, group_js i g)"
  by (simp_all add: group_js_def field_int_def get_int_def to_int32_id)

definition friend_js :: "int \<Rightarrow> int \<Rightarrow> json" where
  "friend_js i f = Object [(''friendid'', Number_unsigned f), (''msgid'', Number_unsigned 7), (''userid'', Number_unsigned i)]"

lemma field_friend_ex:
  "is_int32 i \<Longrightarrow> field_int ''userid'' (friend_js i f) = Inr (i, friend_js i f)"
  "is_int32 f \<Longrightarrow> field_int ''friendid'' (friend_js i f) = Inr (f, friend_js i f)"
  by (simp_all add: friend_js_def field_int_def get_int_def to_int32_id)

lemma texts_ok_default: "texts_ok (- 1) (stmt_update (Update_state ''online'' (- 1)) ex_tables)"
  by (simp add: texts_ok_def ex_tables_def stmt_update.simps find_user_def friends_of_def offline_of_def
      UserEntity_default_def)

definition ack_text :: string where
  "ack_text = [CHR ''{'', CHR 0x22] @ ''msgid'' @ [CHR 0x22, CHR '':'', CHR ''2'', CHR ''}'']"

lemma parse_ack: "json_parse ack_text = Inr (Object [(''msgid'', Number_unsigned 2)])"
  by code_simp

lemma parse_empty: "json_parse ''{}'' = Inr (Object [])"
  by code_simp

lemma ex_users [simp]:
  "map_of (t_user ex_tables) 3 = Some (''eve'', ''pe'', ''online'')"
  "map_of (t_user ex_tables) (- 1) = None"
  by (simp_all add: ex_tables_def)

end
