(* ===== verification/Chat_Console.thy ===== *)
theory Chat_Console
  imports Prelude
begin

text \<open>
  The standard streams as the client uses them: \<open>std::cin\<close> as the characters that are still to come and
  its state flags, with \<open>operator>>(int&)\<close>, \<open>get()\<close> and \<open>getline(char*, n)\<close>. A stream that is not good does
  nothing but set \<open>failbit\<close>, and nothing in the client calls \<open>clear()\<close>.
\<close>

record istream =
  chars :: string
  eofbit :: bool
  failbit :: bool

definition istream_of :: "string \<Rightarrow> istream" where
  "istream_of s = \<lparr>chars = s, eofbit = False, failbit = False\<rparr>"

definition good :: "istream \<Rightarrow> bool" where
  "good is \<longleftrightarrow> \<not> eofbit is \<and> \<not> failbit is"

text \<open>\<open>std::istream::get()\<close>: the character, if there is one.\<close>

definition cin_get :: "istream \<Rightarrow> char option \<times> istream" where
  "cin_get is =
     (if \<not> good is then (None, is\<lparr>failbit := True\<rparr>)
      else case chars is of
        [] \<Rightarrow> (None, is\<lparr>eofbit := True, failbit := True\<rparr>)
      | c # cs \<Rightarrow> (Some c, is\<lparr>chars := cs\<rparr>))"

text \<open>
  \<open>std::istream::getline(s, n)\<close> with the string that is in \<open>s\<close> afterwards. A line of \<open>n\<close> or more characters
  leaves its rest in the stream and sets \<open>failbit\<close>.
\<close>

definition lf :: char where
  "lf = CHR 0x0A"

definition cin_getline :: "nat \<Rightarrow> istream \<Rightarrow> string \<times> istream" where
  "cin_getline n is =
     (if \<not> good is then ([], is\<lparr>failbit := True\<rparr>)
      else
        let line = take (n - 1) (takeWhile (\<lambda>c. c \<noteq> lf) (chars is));
            rest = drop (length line) (chars is) in
        case rest of
          [] \<Rightarrow> (line, is\<lparr>chars := [], eofbit := True, failbit := (line = [])\<rparr>)
        | c # cs \<Rightarrow>
            if c = lf then (line, is\<lparr>chars := cs\<rparr>)
            else (line, is\<lparr>chars := rest, failbit := True\<rparr>))"

text \<open>
  \<open>std::cin >> i\<close>. White space is skipped. Without digits the value is 0, out of the range of \<open>int\<close> it is
  the nearest limit, both with \<open>failbit\<close>. \<open>None\<close>: the variable is not written.
\<close>

definition int_limit :: "int \<Rightarrow> int" where
  "int_limit x = max (- (2 ^ 31)) (min (2 ^ 31 - 1) x)"

definition cin_int :: "istream \<Rightarrow> int option \<times> istream" where
  "cin_int is =
     (if \<not> good is then (None, is\<lparr>failbit := True\<rparr>)
      else
        let s = dropWhile is_space (chars is) in
        if s = [] then (None, is\<lparr>chars := [], eofbit := True, failbit := True\<rparr>)
        else
          let signed = (hd s = CHR ''-'' \<or> hd s = CHR ''+'');
              t = (if signed then tl s else s);
              ds = takeWhile is_digit t;
              rest = drop (length ds) t;
              n = int (read_digits 0 ds);
              x = (if hd s = CHR ''-'' then - n else n) in
          (Some (int_limit x),
           is\<lparr>chars := rest, eofbit := (rest = []), failbit := (ds = [] \<or> \<not> is_int32 x)\<rparr>))"

section \<open>Behaviour\<close>

lemma cin_not_good:
  assumes "\<not> good is"
  shows "cin_get is = (None, is\<lparr>failbit := True\<rparr>)" and "cin_getline n is = ([], is\<lparr>failbit := True\<rparr>)"
    and "cin_int is = (None, is\<lparr>failbit := True\<rparr>)"
  using assms by (simp_all add: cin_get_def cin_getline_def cin_int_def)

lemma good_istream_of [simp]: "good (istream_of s)"
  by (simp add: good_def istream_of_def)

lemma chars_istream_of [simp]: "chars (istream_of s) = s"
  by (simp add: istream_of_def)

lemma istream_of_chars: "good is \<Longrightarrow> istream_of (chars is) = is"
  by (simp add: good_def istream_of_def)

lemma takeWhile_line: "lf \<notin> set l \<Longrightarrow> takeWhile (\<lambda>c. c \<noteq> lf) (l @ lf # r) = l"
  by (induction l) auto

lemma getline_line:
  assumes "lf \<notin> set l" and "length l < n"
  shows "cin_getline n (istream_of (l @ lf # r)) = (l, istream_of r)"
  using assms takeWhile_line [of l r]
  by (simp add: cin_getline_def Let_def) (simp add: istream_of_def)

lemma takeWhile_long: "lf \<notin> set l \<Longrightarrow> length l = n \<Longrightarrow> take n (takeWhile (\<lambda>c. c \<noteq> lf) (l @ r)) = l"
  by (simp add: takeWhile_append takeWhile_eq_all_conv [THEN iffD2])

text \<open>A line that does not fit: the first \<open>n - 1\<close> characters are taken and the stream fails.\<close>

lemma getline_too_long:
  assumes "lf \<notin> set l" and "length l = n" and "r \<noteq> []" and "hd r \<noteq> lf"
  shows "cin_getline (Suc n) (istream_of (l @ r)) = (l, (istream_of r)\<lparr>failbit := True\<rparr>)"
proof -
  obtain c cs where "r = c # cs" using assms(3) by (cases r) auto
  then show ?thesis
    using takeWhile_long [OF assms(1,2), of r] assms(2,4) by (simp add: cin_getline_def) (simp add: istream_of_def)
qed

text \<open>A number that is followed by a newline reads back.\<close>

lemma cin_int_show:
  assumes "is_int32 i"
  shows "cin_int (istream_of (show_int i @ lf # r)) = (Some i, istream_of (lf # r))"
proof -
  have stop: "takeWhile is_digit (show_nat m @ lf # r) = show_nat m" for m
    using show_nat_digits [of m] by (subst takeWhile_append2) (auto simp: is_digit_def lf_def)
  obtain c cs where cs: "show_nat (nat i) = c # cs" by (cases "show_nat (nat i)") auto
  have dig: "is_digit c" using show_nat_digits [of "nat i"] cs by auto
  then have first: "\<not> is_space c" "c \<noteq> CHR ''-''" "c \<noteq> CHR ''+''"
    by (auto simp: is_digit_def is_space_def)
  show ?thesis
  proof (cases "i < 0")
    case True
    then have s: "show_int i = CHR ''-'' # show_nat (nat (- i))" by (simp add: show_int_def)
    show ?thesis
      using assms True unfolding s
      by (simp add: cin_int_def is_space_def stop read_digits_show_nat int_limit_def is_int32_def)
         (simp add: istream_of_def)
  next
    case False
    then have s: "show_int i = c # cs" using cs by (simp add: show_int_def)
    have tw: "takeWhile is_digit (c # cs @ lf # r) = c # cs" using stop [of "nat i"] cs by simp
    have rd: "read_digits 0 (c # cs) = nat i" using read_digits_show_nat [of "nat i"] cs by simp
    show ?thesis
      using assms False first unfolding s
      by (simp add: cin_int_def Let_def tw rd int_limit_def is_int32_def del: takeWhile.simps read_digits_Cons)
         (simp add: istream_of_def)
  qed
qed

lemma cin_get_newline: "cin_get (istream_of (c # r)) = (Some c, istream_of r)"
  by (simp add: cin_get_def) (simp add: istream_of_def)

end
