(* ===== verification/Chat_Client.thy ===== *)
theory Chat_Client
  imports Chat_Console Chat_Database Json_Parser Json_Serializer
begin

text \<open>
  The chat client: class \<open>ChatClient\<close> of \<open>include/client/chat_client.hpp\<close> and \<open>src/client/main.cpp\<close>. The
  socket functions of the operating system are a parameter (a record of functions over a state type
  \<open>'n\<close>); the standard streams are modelled. The main thread reads the console and sends requests, the
  reader thread handles what arrives; they share the global variables and meet at a semaphore.
\<close>

section \<open>State\<close>

record 'n socket_api =
  sock_socket :: "'n \<Rightarrow> int \<times> 'n"
  sock_inet_pton :: "string \<Rightarrow> int \<times> nat"
  sock_connect :: "int \<Rightarrow> nat \<Rightarrow> nat \<Rightarrow> 'n \<Rightarrow> int \<times> 'n"
  sock_close :: "int \<Rightarrow> 'n \<Rightarrow> 'n"
  sock_send :: "int \<Rightarrow> string \<Rightarrow> 'n \<Rightarrow> int \<times> 'n"
  sock_recv :: "int \<Rightarrow> nat \<Rightarrow> 'n \<Rightarrow> (int \<times> string) \<times> 'n"
  sock_strerror :: "'n \<Rightarrow> string"

datatype main_pc =
    Start_menu        \<comment> \<open>at the head of the loop in \<open>main\<close>\<close>
  | Wait_login        \<comment> \<open>in \<open>sem_wait\<close> after a login request\<close>
  | Wait_register     \<comment> \<open>in \<open>sem_wait\<close> after a registration request\<close>
  | Chat_menu         \<comment> \<open>at the head of the loop in \<open>MainMenu\<close>\<close>

record 'n client_state =
  g_current_user :: UserEntity
  g_current_user_friend_list :: "UserEntity list"
  g_current_user_group_list :: "GroupEntity list"
  g_read_write_mutex :: nat
  g_is_login_success :: bool
  g_is_main_menu_running :: bool
  clientfd :: int
  sin_port :: nat
  sin_addr :: nat
  main_at :: main_pc
  cin :: istream
  cout :: string
  cerr :: string
  net :: 'n

type_synonym ('n, 'a) client_cmd = "('n client_state, exn, 'a) cmd"

definition on_net :: "('n \<Rightarrow> 'a \<times> 'n) \<Rightarrow> ('n, 'a) client_cmd" where
  "on_net f s = (let (x, n) = f (net s) in (Inr x, s\<lparr>net := n\<rparr>))"

definition on_cin :: "(istream \<Rightarrow> 'a \<times> istream) \<Rightarrow> ('n, 'a) client_cmd" where
  "on_cin f s = (let (x, i) = f (cin s) in (Inr x, s\<lparr>cin := i\<rparr>))"

definition out :: "string \<Rightarrow> ('n, unit) client_cmd" where
  "out t = modifyC (\<lambda>s. s\<lparr>cout := cout s @ t\<rparr>)"

definition err :: "string \<Rightarrow> ('n, unit) client_cmd" where
  "err t = modifyC (\<lambda>s. s\<lparr>cerr := cerr s @ t\<rparr>)"

text \<open>\<open>std::endl\<close>, and a line of output.\<close>

definition endl :: string where
  "endl = [lf]"

definition out_line :: "string \<Rightarrow> ('n, unit) client_cmd" where
  "out_line t = out (t @ endl)"

definition err_line :: "string \<Rightarrow> ('n, unit) client_cmd" where
  "err_line t = err (t @ endl)"

text \<open>\<open>operator<<\<close> of a JSON value, without an indentation width.\<close>

definition out_json :: "json \<Rightarrow> ('n, unit) client_cmd" where
  "out_json j = bindC (liftR (dump_default j)) out"

section \<open>Class \<open>ChatClient\<close>\<close>

definition msg_socket_failed :: string where
  "msg_socket_failed = bytes [0xE5, 0x88, 0x9B, 0xE5, 0xBB, 0xBA] @ ''socket'' @ bytes [0xE5, 0xA4, 0xB1, 0xE8, 0xB4,
       0xA5] @ '': ''"

definition msg_bad_address :: string where
  "msg_bad_address = bytes [0xE6, 0x97, 0xA0, 0xE6, 0x95, 0x88, 0xE7, 0x9A, 0x84] @ ''IP'' @ bytes [0xE5, 0x9C,
       0xB0, 0xE5, 0x9D, 0x80] @ '': ''"

definition msg_connect_failed :: string where
  "msg_connect_failed = bytes [0xE8, 0xBF, 0x9E, 0xE6, 0x8E, 0xA5, 0xE6, 0x9C, 0x8D, 0xE5, 0x8A, 0xA1, 0xE5, 0x99,
       0xA8, 0xE5, 0xA4, 0xB1, 0xE8, 0xB4, 0xA5] @ '': ''"

definition msg_connected :: string where
  "msg_connected = bytes [0xE6, 0x88, 0x90, 0xE5, 0x8A, 0x9F, 0xE8, 0xBF, 0x9E, 0xE6, 0x8E, 0xA5, 0xE5, 0x88,
       0xB0, 0xE6, 0x9C, 0x8D, 0xE5, 0x8A, 0xA1, 0xE5, 0x99, 0xA8] @ '' ''"

definition msg_disconnected :: string where
  "msg_disconnected = bytes [0xE5, 0xB7, 0xB2, 0xE6, 0x96, 0xAD, 0xE5, 0xBC, 0x80, 0xE8, 0xBF, 0x9E, 0xE6, 0x8E,
       0xA5]"

definition msg_not_connected :: string where
  "msg_not_connected = bytes [0xE6, 0x9C, 0xAA, 0xE8, 0xBF, 0x9E, 0xE6, 0x8E, 0xA5, 0xE5, 0x88, 0xB0, 0xE6, 0x9C,
       0x8D, 0xE5, 0x8A, 0xA1, 0xE5, 0x99, 0xA8]"

definition msg_send_failed :: string where
  "msg_send_failed = bytes [0xE5, 0x8F, 0x91, 0xE9, 0x80, 0x81, 0xE6, 0x95, 0xB0, 0xE6, 0x8D, 0xAE, 0xE5, 0xA4,
       0xB1, 0xE8, 0xB4, 0xA5] @ '': ''"

definition msg_sent :: string where
  "msg_sent = bytes [0xE5, 0xB7, 0xB2, 0xE5, 0x8F, 0x91, 0xE9, 0x80, 0x81] @ '' ''"

definition msg_bytes_of :: string where
  "msg_bytes_of = '' '' @ bytes [0xE5, 0xAD, 0x97, 0xE8, 0x8A, 0x82, 0xE6, 0x95, 0xB0, 0xE6, 0x8D, 0xAE] @ '': ''"

definition msg_recv_failed :: string where
  "msg_recv_failed = bytes [0xE6, 0x8E, 0xA5, 0xE6, 0x94, 0xB6, 0xE6, 0x95, 0xB0, 0xE6, 0x8D, 0xAE, 0xE5, 0xA4,
       0xB1, 0xE8, 0xB4, 0xA5] @ '': ''"

definition msg_server_closed :: string where
  "msg_server_closed = bytes [0xE6, 0x9C, 0x8D, 0xE5, 0x8A, 0xA1, 0xE5, 0x99, 0xA8, 0xE6, 0x96, 0xAD, 0xE5, 0xBC,
       0x80, 0xE8, 0xBF, 0x9E, 0xE6, 0x8E, 0xA5]"

definition msg_received :: string where
  "msg_received = bytes [0xE5, 0xB7, 0xB2, 0xE6, 0x8E, 0xA5, 0xE6, 0x94, 0xB6] @ '' ''"

definition msg_bytes :: string where
  "msg_bytes = '' '' @ bytes [0xE5, 0xAD, 0x97, 0xE8, 0x8A, 0x82, 0xE6, 0x95, 0xB0, 0xE6, 0x8D, 0xAE]"

definition ConnectToServer :: "'n socket_api \<Rightarrow> string \<Rightarrow> int \<Rightarrow> ('n, bool) client_cmd" where
  "ConnectToServer api ip port =
     bindC (on_net (sock_socket api)) (\<lambda>fd.
     seqC (modifyC (\<lambda>s. s\<lparr>clientfd := fd\<rparr>))
    (if fd < 0 then
       seqC (bindC (getC (\<lambda>s. sock_strerror api (net s))) (\<lambda>e. err_line (msg_socket_failed @ e))) (returnC False)
     else
       seqC (modifyC (\<lambda>s. s\<lparr>sin_port := nat (port mod 2 ^ 16)\<rparr>))
      (let (ok, addr) = sock_inet_pton api (c_str ip) in
       if ok \<le> 0 then
         seqC (err_line (msg_bad_address @ ip))
        (seqC (modifyC (\<lambda>s. s\<lparr>net := sock_close api fd (net s), clientfd := - 1\<rparr>)) (returnC False))
       else
         seqC (modifyC (\<lambda>s. s\<lparr>sin_addr := addr\<rparr>))
        (bindC (on_net (\<lambda>n. sock_connect api fd addr (nat (port mod 2 ^ 16)) n)) (\<lambda>r.
         if r < 0 then
           seqC (bindC (getC (\<lambda>s. sock_strerror api (net s))) (\<lambda>e. err_line (msg_connect_failed @ e)))
          (seqC (modifyC (\<lambda>s. s\<lparr>net := sock_close api fd (net s), clientfd := - 1\<rparr>)) (returnC False))
         else
           seqC (out_line (msg_connected @ ip @ '':'' @ show_int port)) (returnC True))))))"

definition Disconnect :: "'n socket_api \<Rightarrow> ('n, unit) client_cmd" where
  "Disconnect api =
     bindC (getC clientfd) (\<lambda>fd.
     whenC (0 \<le> fd)
       (seqC (modifyC (\<lambda>s. s\<lparr>net := sock_close api fd (net s), clientfd := - 1\<rparr>))
        (out_line msg_disconnected)))"

definition SendData :: "'n socket_api \<Rightarrow> string \<Rightarrow> ('n, bool) client_cmd" where
  "SendData api message =
     bindC (getC clientfd) (\<lambda>fd.
     if fd < 0 then seqC (err_line msg_not_connected) (returnC False)
     else
       bindC (on_net (sock_send api fd message)) (\<lambda>bytes_sent.
       if bytes_sent < 0 then
         seqC (bindC (getC (\<lambda>s. sock_strerror api (net s))) (\<lambda>e. err_line (msg_send_failed @ e))) (returnC False)
       else
         seqC (out_line (msg_sent @ show_int bytes_sent @ msg_bytes_of @ message)) (returnC True)))"

text \<open>The buffer is an array of \<open>buffer_size\<close> characters; an array of size 0 is undefined.\<close>

definition ReceiveData :: "'n socket_api \<Rightarrow> nat \<Rightarrow> ('n, string) client_cmd" where
  "ReceiveData api buffer_size =
     bindC (getC clientfd) (\<lambda>fd.
     if fd < 0 then returnC []
     else if buffer_size = 0 then throwC (Undefined_behaviour ''array of size 0 in ReceiveData'')
     else
       bindC (on_net (sock_recv api fd (buffer_size - 1))) (\<lambda>(bytes_received, data).
       if bytes_received < 0 then
         seqC (bindC (getC (\<lambda>s. sock_strerror api (net s))) (\<lambda>e. err_line (msg_recv_failed @ e))) (returnC [])
       else if bytes_received = 0 then seqC (out_line msg_server_closed) (returnC [])
       else seqC (out_line (msg_received @ show_int bytes_received @ msg_bytes)) (returnC data)))"

definition IsConnected :: "'n client_state \<Rightarrow> bool" where
  "IsConnected s \<longleftrightarrow> 0 \<le> clientfd s"

section \<open>Requests\<close>

text \<open>\<open>send(fd, text.c_str(), strlen(text.c_str()) + 1, 0)\<close>: the text with its terminating null character.\<close>

definition send_text :: "'n socket_api \<Rightarrow> int \<Rightarrow> string \<Rightarrow> string \<Rightarrow> ('n, bool) client_cmd" where
  "send_text api fd failure text =
     bindC (on_net (sock_send api fd (c_str text @ [CHR 0x00]))) (\<lambda>len.
     if len = - 1 then seqC (err_line (failure @ text)) (returnC False) else returnC True)"

definition send_request ::
    "'n socket_api \<Rightarrow> int \<Rightarrow> string \<Rightarrow> (string \<times> json) list \<Rightarrow> ('n, bool) client_cmd" where
  "send_request api fd failure kvs =
     bindC (liftR (json_build kvs Null)) (\<lambda>js.
     bindC (liftR (dump_default js)) (send_text api fd failure))"

section \<open>Time\<close>

text \<open>The broken-down local time comes from outside. \<open>date\<close> has 60 characters.\<close>

record tm =
  tm_year :: int
  tm_mon :: int
  tm_mday :: int
  tm_hour :: int
  tm_min :: int
  tm_sec :: int

definition show_02d :: "int \<Rightarrow> string" where
  "show_02d i = (if 0 \<le> i \<and> i < 10 then CHR ''0'' # show_int i else show_int i)"

definition GetCurrentTime :: "tm \<Rightarrow> exn + string" where
  "GetCurrentTime t =
     (let date = show_int (tm_year t + 1900) @ ''-'' @ show_02d (tm_mon t + 1) @ ''-'' @ show_02d (tm_mday t) @
        '' '' @ show_02d (tm_hour t) @ '':'' @ show_02d (tm_min t) @ '':'' @ show_02d (tm_sec t)
      in if length date < 60 then Inr date else Inl (Undefined_behaviour ''sprintf past the end of date''))"

section \<open>Commands\<close>

text \<open>\<open>str.find(":")\<close>, and the parts before and after the position.\<close>

definition find_colon :: "string \<Rightarrow> nat option" where
  "find_colon s = (let n = length (takeWhile (\<lambda>c. c \<noteq> CHR '':'') s) in if n < length s then Some n else None)"

type_synonym 'n command = "'n socket_api \<Rightarrow> tm \<Rightarrow> int \<Rightarrow> string \<Rightarrow> ('n, unit) client_cmd"

text \<open>The iteration order of the \<open>unordered_map\<close> is not specified; this is the order of the entries in the source.\<close>

definition command_descriptions :: "(string \<times> string) list" where
  "command_descriptions =
     [(''help'', bytes [0xE6, 0x98, 0xBE, 0xE7, 0xA4, 0xBA, 0xE6, 0x89, 0x80, 0xE6, 0x9C, 0x89, 0xE6, 0x94,
           0xAF, 0xE6, 0x8C, 0x81, 0xE7, 0x9A, 0x84, 0xE5, 0x91, 0xBD, 0xE4, 0xBB, 0xA4, 0xEF, 0xBC,
           0x8C, 0xE6, 0xA0, 0xBC, 0xE5, 0xBC, 0x8F] @ ''help''),
      (''chat'', bytes [0xE4, 0xB8, 0x80, 0xE5, 0xAF, 0xB9, 0xE4, 0xB8, 0x80, 0xE8, 0x81, 0x8A, 0xE5, 0xA4,
           0xA9, 0xEF, 0xBC, 0x8C, 0xE6, 0xA0, 0xBC, 0xE5, 0xBC, 0x8F] @ ''chat:friendid:message''),
      (''addfriend'', bytes [0xE6, 0xB7, 0xBB, 0xE5, 0x8A, 0xA0, 0xE5, 0xA5, 0xBD, 0xE5, 0x8F, 0x8B, 0xEF, 0xBC,
           0x8C, 0xE6, 0xA0, 0xBC, 0xE5, 0xBC, 0x8F] @ ''addfriend:friendid''),
      (''creategroup'', bytes [0xE5, 0x88, 0x9B, 0xE5, 0xBB, 0xBA, 0xE7, 0xBE, 0xA4, 0xE7, 0xBB, 0x84, 0xEF, 0xBC,
           0x8C, 0xE6, 0xA0, 0xBC, 0xE5, 0xBC, 0x8F] @ ''creategroup:groupname:groupdesc''),
      (''joingroup'', bytes [0xE5, 0x8A, 0xA0, 0xE5, 0x85, 0xA5, 0xE7, 0xBE, 0xA4, 0xE7, 0xBB, 0x84, 0xEF, 0xBC,
           0x8C, 0xE6, 0xA0, 0xBC, 0xE5, 0xBC, 0x8F] @ ''joingroup:groupid''),
      (''groupchat'', bytes [0xE7, 0xBE, 0xA4, 0xE8, 0x81, 0x8A, 0xEF, 0xBC, 0x8C, 0xE6, 0xA0, 0xBC, 0xE5, 0xBC,
           0x8F] @ ''groupchat:groupid:message''),
      (''logout'', bytes [0xE6, 0xB3, 0xA8, 0xE9, 0x94, 0x80, 0xEF, 0xBC, 0x8C, 0xE6, 0xA0, 0xBC, 0xE5, 0xBC,
           0x8F] @ ''logout'')]"

definition Help :: "'n command" where
  "Help api t fd str =
     seqC (out_line ''show command list >>> '')
    (seqC (forC command_descriptions (\<lambda>(c, d). out_line (c @ '' : '' @ d)))
     (out_line []))"

definition AddFriend :: "'n command" where
  "AddFriend api t fd str =
     bindC (getC (\<lambda>s. user_id (g_current_user s))) (\<lambda>uid.
     seqC (send_request api fd ''send addfriend msg error -> ''
       [(''msgid'', json_of_MsgType kMsgAddFriend), (''id'', json_of_int uid),
        (''friendid'', json_of_int (atoi str))])
     (returnC ()))"

definition Chat :: "'n command" where
  "Chat api t fd str =
     (case find_colon str of
        None \<Rightarrow> err_line ''chat command invalid!''
      | Some idx \<Rightarrow>
          bindC (getC g_current_user) (\<lambda>user.
          bindC (liftR (GetCurrentTime t)) (\<lambda>time.
          seqC (send_request api fd ''send chat msg error -> ''
            [(''msgid'', json_of_MsgType kMsgDirectChat), (''id'', json_of_int (user_id user)),
             (''name'', json_of_string (user_name user)), (''toid'', json_of_int (atoi (take idx str))),
             (''msg'', json_of_string (drop (Suc idx) str)), (''time'', json_of_string time)])
          (returnC ()))))"

definition CreateGroup :: "'n command" where
  "CreateGroup api t fd str =
     (case find_colon str of
        None \<Rightarrow> err_line ''creategroup command invalid!''
      | Some idx \<Rightarrow>
          bindC (getC (\<lambda>s. user_id (g_current_user s))) (\<lambda>uid.
          seqC (send_request api fd ''send creategroup msg error -> ''
            [(''msgid'', json_of_MsgType kMsgCreateGroup), (''id'', json_of_int uid),
             (''groupname'', json_of_string (take idx str)),
             (''groupdesc'', json_of_string (drop (Suc idx) str))])
          (returnC ())))"

definition JoinGroup :: "'n command" where
  "JoinGroup api t fd str =
     bindC (getC (\<lambda>s. user_id (g_current_user s))) (\<lambda>uid.
     seqC (send_request api fd ''send joingroup msg error -> ''
       [(''msgid'', json_of_MsgType kMsgJoinGroup), (''id'', json_of_int uid),
        (''groupid'', json_of_int (atoi str))])
     (returnC ()))"

definition GroupChat :: "'n command" where
  "GroupChat api t fd str =
     (case find_colon str of
        None \<Rightarrow> err_line ''groupchat command invalid!''
      | Some idx \<Rightarrow>
          bindC (getC g_current_user) (\<lambda>user.
          bindC (liftR (GetCurrentTime t)) (\<lambda>time.
          seqC (send_request api fd ''send groupchat msg error -> ''
            [(''msgid'', json_of_MsgType kMsgGroupChat), (''id'', json_of_int (user_id user)),
             (''name'', json_of_string (user_name user)), (''groupid'', json_of_int (atoi (take idx str))),
             (''msg'', json_of_string (drop (Suc idx) str)), (''time'', json_of_string time)])
          (returnC ()))))"

definition Logout :: "'n command" where
  "Logout api t fd str =
     bindC (getC (\<lambda>s. user_id (g_current_user s))) (\<lambda>uid.
     bindC (send_request api fd ''send logout msg error -> ''
       [(''msgid'', json_of_MsgType kMsgLogout), (''id'', json_of_int uid)]) (\<lambda>sent.
     whenC sent (modifyC (\<lambda>s. s\<lparr>g_is_main_menu_running := False\<rparr>))))"

definition command_handlers :: "(string \<times> 'n command) list" where
  "command_handlers =
     [(''help'', Help), (''chat'', Chat), (''addfriend'', AddFriend), (''creategroup'', CreateGroup),
      (''joingroup'', JoinGroup), (''groupchat'', GroupChat), (''logout'', Logout)]"

section \<open>Responses\<close>

definition field_strings :: "string \<Rightarrow> json \<Rightarrow> exn + (string list \<times> json)" where
  "field_strings key j = bindR (json_index key j) (\<lambda>(v, j'). mapR (\<lambda>ss. (ss, j')) (get_string_vector v))"

definition HandleRegistrationResponse :: "json \<Rightarrow> ('n, unit) client_cmd" where
  "HandleRegistrationResponse responsejs =
     bindC (liftR (field_int ''errno'' responsejs)) (\<lambda>(errno, js1).
     if errno \<noteq> 0 then err_line ''name is already exist, register error!''
     else
       bindC (liftR (json_index ''id'' js1)) (\<lambda>(v, js2).
       seqC (out ''name register success, userid is '')
      (seqC (out_json v) (out_line '', do not forget it!''))))"

definition show_user :: "'a UserEntity_scheme \<Rightarrow> string" where
  "show_user user = show_int (user_id user) @ '' '' @ user_name user @ '' '' @ user_state user"

definition show_group :: "GroupEntity \<Rightarrow> string list" where
  "show_group grp =
     (show_int (group_id grp) @ '' '' @ group_name grp @ '' '' @ group_desc grp) #
     map (\<lambda>user. show_user user @ '' '' @ user_role user) (group_users grp)"

definition ShowCurrentUserData :: "('n, unit) client_cmd" where
  "ShowCurrentUserData =
     bindC (getC g_current_user) (\<lambda>user.
     bindC (getC g_current_user_friend_list) (\<lambda>friend_list.
     bindC (getC g_current_user_group_list) (\<lambda>group_list.
     forC ([''======================login user======================'',
            ''current login user => id:'' @ show_int (user_id user) @ '' name:'' @ user_name user,
            ''----------------------friend list---------------------''] @
           map show_user friend_list @
           [''----------------------group list----------------------''] @
           concat (map show_group group_list) @
           [''======================================================'']) out_line)))"

definition parse_friend :: "string \<Rightarrow> exn + UserEntity" where
  "parse_friend str =
     bindR (json_parse str) (\<lambda>js.
     bindR (field_int ''id'' js) (\<lambda>(i, js1).
     bindR (field_string ''name'' js1) (\<lambda>(name, js2).
     bindR (field_string ''state'' js2) (\<lambda>(state, js3).
     Inr (UserEntity_default\<lparr>user_id := i, user_name := name, user_state := state\<rparr>)))))"

definition parse_group_user :: "string \<Rightarrow> exn + GroupUserEntity" where
  "parse_group_user userstr =
     bindR (json_parse userstr) (\<lambda>js.
     bindR (field_int ''id'' js) (\<lambda>(i, js1).
     bindR (field_string ''name'' js1) (\<lambda>(name, js2).
     bindR (field_string ''state'' js2) (\<lambda>(state, js3).
     bindR (field_string ''role'' js3) (\<lambda>(role, js4).
     Inr (GroupUserEntity_default
       \<lparr>user_id := i, user_name := name, user_state := state, user_role := role\<rparr>))))))"

definition parse_group :: "string \<Rightarrow> exn + GroupEntity" where
  "parse_group groupstr =
     bindR (json_parse groupstr) (\<lambda>grpjs.
     bindR (field_int ''id'' grpjs) (\<lambda>(i, js1).
     bindR (field_string ''groupname'' js1) (\<lambda>(name, js2).
     bindR (field_string ''groupdesc'' js2) (\<lambda>(desc, js3).
     bindR (field_strings ''users'' js3) (\<lambda>(vec2, js4).
     bindR (traverseR parse_group_user vec2) (\<lambda>users.
     Inr ((GroupEntity_make i name desc)\<lparr>group_users := users\<rparr>)))))))"

text \<open>The line of a message: time, sender and text. Each part is written as soon as it is read.\<close>

definition show_chat :: "json \<Rightarrow> ('n, unit) client_cmd" where
  "show_chat js =
     bindC (liftR (field_string ''time'' js)) (\<lambda>(time, js1).
     seqC (out (time @ '' [''))
    (bindC (liftR (json_index ''id'' js1)) (\<lambda>(v, js2).
     seqC (out_json v)
    (seqC (out '']'')
    (bindC (liftR (field_string ''name'' js2)) (\<lambda>(name, js3).
     seqC (out (name @ '' said: ''))
    (bindC (liftR (field_string ''msg'' js3)) (\<lambda>(msg, js4).
     out_line msg))))))))"

definition group_message_mark :: string where
  "group_message_mark = bytes [0xE7, 0xBE, 0xA4, 0xE6, 0xB6, 0x88, 0xE6, 0x81, 0xAF] @ ''[''"

definition show_offline_message :: "string \<Rightarrow> ('n, unit) client_cmd" where
  "show_offline_message str =
     bindC (liftR (json_parse str)) (\<lambda>js.
     bindC (liftR (field_int ''msgid'' js)) (\<lambda>(msgid, js1).
     if msgid = MsgType_code kMsgDirectChat then show_chat js1
     else
       seqC (out group_message_mark)
      (bindC (liftR (json_index ''groupid'' js1)) (\<lambda>(v, js2).
       seqC (out_json v) (seqC (out '']:'') (show_chat js2))))))"

text \<open>The part of \<open>HandleLoginResponse\<close> for one optional list of the response.\<close>

definition when_contains ::
    "string \<Rightarrow> json \<Rightarrow> ('n, unit) client_cmd \<Rightarrow> (string list \<Rightarrow> ('n, unit) client_cmd)
      \<Rightarrow> ('n, json) client_cmd" where
  "when_contains key js clear body =
     (if contains key js
      then seqC clear (bindC (liftR (field_strings key js)) (\<lambda>(vec, js'). seqC (body vec) (returnC js')))
      else returnC js)"

definition read_friends :: "string list \<Rightarrow> ('n, unit) client_cmd" where
  "read_friends vec =
     forC vec (\<lambda>str. bindC (liftR (parse_friend str)) (\<lambda>user.
       modifyC (\<lambda>s. s\<lparr>g_current_user_friend_list := g_current_user_friend_list s @ [user]\<rparr>)))"

definition read_groups :: "string list \<Rightarrow> ('n, unit) client_cmd" where
  "read_groups vec =
     forC vec (\<lambda>str. bindC (liftR (parse_group str)) (\<lambda>grp.
       modifyC (\<lambda>s. s\<lparr>g_current_user_group_list := g_current_user_group_list s @ [grp]\<rparr>)))"

definition HandleLoginResponse :: "json \<Rightarrow> ('n, unit) client_cmd" where
  "HandleLoginResponse responsejs =
     bindC (liftR (field_int ''errno'' responsejs)) (\<lambda>(errno, js1).
     if errno \<noteq> 0 then
       bindC (liftR (json_index ''errmsg'' js1)) (\<lambda>(v, js2).
       seqC (bindC (liftR (dump_default v)) err_line)
        (modifyC (\<lambda>s. s\<lparr>g_is_login_success := False\<rparr>)))
     else
       bindC (liftR (field_int ''id'' js1)) (\<lambda>(i, js2).
       bindC (liftR (field_string ''name'' js2)) (\<lambda>(name, js3).
       seqC (modifyC (\<lambda>s. s\<lparr>g_current_user := (g_current_user s)\<lparr>user_id := i, user_name := name\<rparr>\<rparr>))
      (bindC (when_contains ''friends'' js3
         (modifyC (\<lambda>s. s\<lparr>g_current_user_friend_list := []\<rparr>)) read_friends) (\<lambda>js4.
       bindC (when_contains ''groups'' js4
         (modifyC (\<lambda>s. s\<lparr>g_current_user_group_list := []\<rparr>)) read_groups) (\<lambda>js5.
       seqC ShowCurrentUserData
      (bindC (when_contains ''offlinemsg'' js5 (returnC ()) (\<lambda>vec. forC vec show_offline_message)) (\<lambda>js6.
       modifyC (\<lambda>s. s\<lparr>g_is_login_success := True\<rparr>)))))))))"

section \<open>The reader thread\<close>

definition sem_post :: "('n, unit) client_cmd" where
  "sem_post = modifyC (\<lambda>s. s\<lparr>g_read_write_mutex := Suc (g_read_write_mutex s)\<rparr>)"

text \<open>
  What \<open>json::parse(buffer)\<close> reads: the constructor of \<open>input_adapter\<close> for arrays takes all 1024 characters,
  the bytes received and zeros after them.
\<close>

definition recv_buffer :: "string \<Rightarrow> string" where
  "recv_buffer received = received @ replicate (1024 - length received) (CHR 0x00)"

text \<open>The body of the loop after \<open>recv\<close>.\<close>

definition handle_received :: "string \<Rightarrow> ('n, unit) client_cmd" where
  "handle_received received =
     bindC (liftR (json_parse (recv_buffer received))) (\<lambda>js.
     bindC (liftR (field_int ''msgid'' js)) (\<lambda>(msgid, js1).
     if msgid = MsgType_code kMsgDirectChat then show_chat js1
     else if msgid = MsgType_code kMsgLogACK then seqC (HandleLoginResponse js1) sem_post
     else if msgid = MsgType_code kMsgRegACK then seqC (HandleRegistrationResponse js1) sem_post
     else returnC ()))"

text \<open>One iteration of \<open>ReadTaskHandler\<close>.\<close>

definition ReadTaskHandler_once :: "'n socket_api \<Rightarrow> ('n, unit) client_cmd" where
  "ReadTaskHandler_once api =
     bindC (getC clientfd) (\<lambda>fd.
     bindC (on_net (sock_recv api fd 1023)) (\<lambda>(len, received).
     if len = - 1 \<or> len = 0 then
       seqC (modifyC (\<lambda>s. s\<lparr>net := sock_close api fd (net s)\<rparr>)) (throwC (Process_exit (- 1)))
     else handle_received received))"

end
