(* ===== verification/Chat_Client_Main.thy ===== *)
theory Chat_Client_Main
  imports Chat_Client
begin

text \<open>
  The main thread of the client (\<open>main\<close> and \<open>MainMenu\<close> of \<open>src/client/main.cpp\<close>) and the two threads as a
  step relation. The main thread is cut at its two \<open>sem_wait\<close> calls and at the heads of its loops; what it does
  between two cuts, and what the reader thread does with one message, are atomic steps.
\<close>

section \<open>The start menu\<close>

definition start_menu :: "string list" where
  "start_menu =
     [''========================'', ''1. login'', ''2. register'', ''3. quit'', ''========================'']"

definition read_number :: "('n, int) client_cmd" where
  "read_number =
     bindC (on_cin cin_int) (\<lambda>v.
     seqC (on_cin cin_get)
     (returnC (case v of Some x \<Rightarrow> x | None \<Rightarrow> 0)))"

text \<open>The two buffers have 50 characters.\<close>

definition read_field :: "string \<Rightarrow> ('n, string) client_cmd" where
  "read_field prompt = seqC (out prompt) (bindC (on_cin (cin_getline 50)) (\<lambda>t. returnC (c_str t)))"

definition login_choice :: "'n socket_api \<Rightarrow> ('n, unit) client_cmd" where
  "login_choice api =
     seqC (out ''user id:'')
    (bindC read_number (\<lambda>i.
     bindC (read_field ''user password:'') (\<lambda>pwd.
     bindC (liftR (json_build
        [(''msgid'', json_of_MsgType kMsgLog), (''id'', json_of_int i), (''password'', json_of_string pwd)] Null)) (\<lambda>js.
     bindC (liftR (dump_default js)) (\<lambda>request.
     bindC (getC clientfd) (\<lambda>fd.
     seqC (modifyC (\<lambda>s. s\<lparr>g_is_login_success := False\<rparr>))
    (seqC (send_text api fd ''send login msg error:'' request)
     (modifyC (\<lambda>s. s\<lparr>main_at := Wait_login\<rparr>)))))))))"

definition register_choice :: "'n socket_api \<Rightarrow> ('n, unit) client_cmd" where
  "register_choice api =
     bindC (read_field ''username:'') (\<lambda>name.
     bindC (read_field ''userpassword:'') (\<lambda>pwd.
     bindC (getC clientfd) (\<lambda>fd.
     seqC (send_request api fd ''send reg msg error:''
        [(''msgid'', json_of_MsgType kMsgReg), (''name'', json_of_string name), (''password'', json_of_string pwd)])
     (modifyC (\<lambda>s. s\<lparr>main_at := Wait_register\<rparr>)))))"

definition quit_choice :: "'n socket_api \<Rightarrow> ('n, unit) client_cmd" where
  "quit_choice api =
     seqC (modifyC (\<lambda>s. s\<lparr>net := sock_close api (clientfd s) (net s)\<rparr>)) (throwC (Process_exit 0))"

text \<open>One iteration of the loop in \<open>main\<close>, up to \<open>sem_wait\<close>.\<close>

definition start_menu_step :: "'n socket_api \<Rightarrow> ('n, unit) client_cmd" where
  "start_menu_step api =
     seqC (forC start_menu out_line)
    (seqC (out ''choice:'')
    (bindC read_number (\<lambda>choice.
     if choice = 1 then login_choice api
     else if choice = 2 then register_choice api
     else if choice = 3 then quit_choice api
     else err_line ''invalid input!'')))"

section \<open>After \<open>sem_wait\<close>\<close>

text \<open>\<open>sem_wait\<close> returns only when the count is positive.\<close>

definition sem_wait :: "('n, unit) client_cmd" where
  "sem_wait = modifyC (\<lambda>s. s\<lparr>g_read_write_mutex := g_read_write_mutex s - 1\<rparr>)"

definition login_answered :: "'n socket_api \<Rightarrow> tm \<Rightarrow> ('n, unit) client_cmd" where
  "login_answered api t =
     seqC sem_wait
    (bindC (getC (\<lambda>s. (g_is_login_success s, clientfd s))) (\<lambda>(success, fd).
     if success then
       seqC (modifyC (\<lambda>s. s\<lparr>g_is_main_menu_running := True, main_at := Chat_menu\<rparr>)) (Help api t 0 [])
     else modifyC (\<lambda>s. s\<lparr>main_at := Start_menu\<rparr>)))"

definition register_answered :: "('n, unit) client_cmd" where
  "register_answered = seqC sem_wait (modifyC (\<lambda>s. s\<lparr>main_at := Start_menu\<rparr>))"

section \<open>The chat menu\<close>

text \<open>The name of a command and its argument; without a colon the whole line is both.\<close>

definition split_command :: "string \<Rightarrow> string \<times> string" where
  "split_command commandbuf =
     (case find_colon commandbuf of
        None \<Rightarrow> (commandbuf, commandbuf)
      | Some idx \<Rightarrow> (take idx commandbuf, drop (Suc idx) commandbuf))"

definition run_command :: "'n socket_api \<Rightarrow> tm \<Rightarrow> string \<Rightarrow> ('n, unit) client_cmd" where
  "run_command api t commandbuf =
     (let (command, args) = split_command commandbuf in
      case map_of command_handlers command of
        None \<Rightarrow> err_line ''invalid input command!''
      | Some handler \<Rightarrow> bindC (getC clientfd) (\<lambda>fd. handler api t fd args))"

text \<open>One iteration of the loop in \<open>MainMenu\<close>; at its end the condition of the loop is tested.\<close>

definition chat_menu_step :: "'n socket_api \<Rightarrow> tm \<Rightarrow> ('n, unit) client_cmd" where
  "chat_menu_step api t =
     bindC (on_cin (cin_getline 1024)) (\<lambda>buffer.
     seqC (run_command api t (c_str buffer))
    (modifyC (\<lambda>s. if g_is_main_menu_running s then s else s\<lparr>main_at := Start_menu\<rparr>)))"

section \<open>Start of the program\<close>

definition client_init :: "istream \<Rightarrow> 'n \<Rightarrow> 'n client_state" where
  "client_init input n =
     \<lparr>g_current_user = UserEntity_default, g_current_user_friend_list = [], g_current_user_group_list = [],
      g_read_write_mutex = 0, g_is_login_success = False, g_is_main_menu_running = False, clientfd = - 1,
      sin_port = 0, sin_addr = 0, main_at = Start_menu, cin = input, cout = [], cerr = [], net = n\<rparr>"

text \<open>With too few arguments \<open>main\<close> goes on after the error message and reads the null pointer that ends \<open>argv\<close>.\<close>

definition client_main :: "'n socket_api \<Rightarrow> string list \<Rightarrow> ('n, unit) client_cmd" where
  "client_main api argv =
     (if length argv < 3
      then seqC (err_line ''command invalid! example : 127.0.0.1 6000'')
            (throwC (Undefined_behaviour ''null argument in main''))
      else seqC (ConnectToServer api (argv ! 1) (atoi (argv ! 2) mod 2 ^ 16))
            (modifyC (\<lambda>s. s\<lparr>g_read_write_mutex := 0\<rparr>)))"

section \<open>The threads\<close>

datatype client_event =
    Main_step tm        \<comment> \<open>the main thread goes on to its next cut\<close>
  | Reader_step         \<comment> \<open>the reader thread receives once\<close>

definition main_step :: "'n socket_api \<Rightarrow> tm \<Rightarrow> ('n, unit) client_cmd" where
  "main_step api t =
     bindC (getC main_at) (\<lambda>pc.
     case pc of
       Start_menu \<Rightarrow> start_menu_step api
     | Wait_login \<Rightarrow> login_answered api t
     | Wait_register \<Rightarrow> register_answered
     | Chat_menu \<Rightarrow> chat_menu_step api t)"

definition main_blocked :: "'n client_state \<Rightarrow> bool" where
  "main_blocked s \<longleftrightarrow> main_at s \<in> {Wait_login, Wait_register} \<and> g_read_write_mutex s = 0"

fun client_enabled :: "client_event \<Rightarrow> 'n client_state \<Rightarrow> bool" where
  "client_enabled (Main_step t) s \<longleftrightarrow> \<not> main_blocked s"
| "client_enabled Reader_step s \<longleftrightarrow> True"

fun run_client_event :: "'n socket_api \<Rightarrow> client_event \<Rightarrow> ('n, unit) client_cmd" where
  "run_client_event api (Main_step t) = main_step api t"
| "run_client_event api Reader_step = ReadTaskHandler_once api"

text \<open>An exception in either thread, or \<open>exit\<close>, ends the process.\<close>

datatype 'n client_process =
    Client_running "'n client_state"
  | Client_terminated exn "'n client_state"

inductive client_step ::
    "'n socket_api \<Rightarrow> 'n client_process \<Rightarrow> client_event \<Rightarrow> 'n client_process \<Rightarrow> bool"
  for api :: "'n socket_api" where
  client_ok: "client_enabled ev s \<Longrightarrow> run_client_event api ev s = (Inr (), s') \<Longrightarrow>
    client_step api (Client_running s) ev (Client_running s')"
| client_throw: "client_enabled ev s \<Longrightarrow> run_client_event api ev s = (Inl e, s') \<Longrightarrow>
    client_step api (Client_running s) ev (Client_terminated e s')"

inductive_cases client_step_Running: "client_step api (Client_running s) ev p"
inductive_simps client_step_Terminated_iff: "client_step api (Client_terminated e s) ev p"

inductive client_reachable :: "'n socket_api \<Rightarrow> 'n client_state \<Rightarrow> 'n client_process \<Rightarrow> bool"
  for api :: "'n socket_api" and s0 :: "'n client_state" where
  client_reach_init: "client_reachable api s0 (Client_running s0)"
| client_reach_step: "client_reachable api s0 p \<Longrightarrow> client_step api p ev p' \<Longrightarrow> client_reachable api s0 p'"

definition client_state_of :: "'n client_process \<Rightarrow> 'n client_state" where
  "client_state_of p = (case p of Client_running s \<Rightarrow> s | Client_terminated e s \<Rightarrow> s)"

end
