(* ===== verification/Json_Slot.thy ===== *)
theory Json_Slot
  imports Json_Parser
begin

text \<open>
  The text parser and its value under construction: reading a token does not change where the next value
  goes, and the iterations of the loop.
\<close>

section \<open>Tokens\<close>

lemma handle_value_token:
  "handle_value w (p\<lparr>last_token := t, m_lexer := l\<rparr>) =
     mapR (\<lambda>(q, p'). (q, p'\<lparr>last_token := t, m_lexer := l\<rparr>)) (handle_value w p)"
  by (simp add: handle_value_def split: list.split option.split json.split)

lemma get_token_eq: "scan (m_lexer p) = (t, lx) \<Longrightarrow> get_token p = p\<lparr>last_token := t, m_lexer := lx\<rparr>"
  by (simp add: get_token_def)

lemma slot_token: "slot p ptr R \<Longrightarrow> slot (p\<lparr>last_token := t, m_lexer := l\<rparr>) ptr R"
  by (simp add: slot_def handle_value_token)

section \<open>Iterations of the loop\<close>

lemma loop_Break: "token_step st p = Inr (Break st p') \<Longrightarrow> sax_parse_loop False st p = sax_parse_loop True st p'"
  by (subst (1 2) sax_parse_loop.simps) simp

lemma loop_Continue: "token_step st p = Inr (Continue st' p') \<Longrightarrow> sax_parse_loop False st p = sax_parse_loop False st' p'"
  by (subst sax_parse_loop.simps) simp

lemma loop_state:
  "state_step st p = Inr (Continue st' p') \<Longrightarrow> sax_parse_loop True st p = sax_parse_loop False st' p'"
  "state_step st p = Inr (Skip st' p') \<Longrightarrow> sax_parse_loop True st p = sax_parse_loop True st' p'"
  "sax_parse_loop True [] p = Inr (True, p)"
  by (subst sax_parse_loop.simps, simp add: state_step_def)+

end
