(* ===== verification/Json_Lexer_Spec.thy ===== *)
theory Json_Lexer_Spec
  imports Json_Lexer Json_Print
begin

text \<open>
  What the scanner of \<open>include/common/json.hpp\<close> returns on the texts that \<open>dump()\<close> writes: strings with
  their escapes, integers, literals and structural characters. A lexer is described by the characters that
  are still to be read.
\<close>

section \<open>Pending input\<close>

definition pend :: "lexer \<Rightarrow> string" where
  "pend lx = (if next_unget lx then (case current lx of Some c \<Rightarrow> [c] | None \<Rightarrow> []) else []) @ ia lx"

text \<open>\<open>lex_at cs lx\<close>: the next characters are \<open>cs\<close>. Before the first character the text has no byte order mark.\<close>

definition lex_at :: "string \<Rightarrow> lexer \<Rightarrow> bool" where
  "lex_at cs lx \<longleftrightarrow>
     pend lx = cs \<and> (next_unget lx \<and> current lx = None \<longrightarrow> ia lx = []) \<and>
     (chars_read_total (position lx) = 0 \<longrightarrow> take 1 cs \<noteq> [CHR 0xEF])"

text \<open>The same after the first character.\<close>

definition lex_in :: "string \<Rightarrow> lexer \<Rightarrow> bool" where
  "lex_in cs lx \<longleftrightarrow> lex_at cs lx \<and> 0 < chars_read_total (position lx)"

lemma lex_in_at: "lex_in cs lx \<Longrightarrow> lex_at cs lx"
  by (simp add: lex_in_def)

lemma lex_at_init: "take 1 cs \<noteq> [CHR 0xEF] \<Longrightarrow> lex_at cs (lexer_init cs)"
  by (simp add: lex_at_def pend_def lexer_init_def)

lemma avail_pend: "avail lx = length (pend lx)"
  by (auto simp: avail_def pend_def split: option.splits)

lemma chars_read_count [simp]:
  "chars_read_total (count_char c pos) = Suc (chars_read_total pos)"
  "chars_read_total (uncount_char pos) = chars_read_total pos - 1"
  by (simp_all add: count_char_def uncount_char_def Let_def)

lemma lex_buffer [simp]:
  "token_buffer (lex_get lx) = token_buffer lx" "token_buffer (lex_unget lx) = token_buffer lx"
  "token_buffer (lex_add c lx) = token_buffer lx @ [c]" "token_buffer (lex_reset lx) = []"
  "chars_read_total (position (lex_get lx)) = Suc (chars_read_total (position lx))"
  "current (lex_add c lx) = current lx" "current (lex_reset lx) = current lx"
  by (simp_all add: lex_get_def lex_unget_def lex_add_def lex_reset_def Let_def split: prod.split)

lemma lex_in_frame [simp]:
  "lex_in cs (lex_add c lx) = lex_in cs lx" "lex_in cs (lex_reset lx) = lex_in cs lx"
  "lex_in cs (lx\<lparr>value_integer := i\<rparr>) = lex_in cs lx" "lex_in cs (lx\<lparr>value_unsigned := i\<rparr>) = lex_in cs lx"
  by (simp_all add: lex_in_def lex_at_def pend_def lex_add_def lex_reset_def)

lemma lex_get_Cons:
  assumes "lex_at (c # cs) lx"
  shows "current (lex_get lx) = Some c \<and> lex_in cs (lex_get lx) \<and> \<not> next_unget (lex_get lx)"
  using assms
  by (auto simp: lex_at_def lex_in_def pend_def lex_get_def get_character_def Let_def split: option.splits if_splits)

lemma lex_get_Nil:
  assumes "lex_at [] lx"
  shows "current (lex_get lx) = None \<and> lex_in [] (lex_get lx)"
  using assms
  by (auto simp: lex_at_def lex_in_def pend_def lex_get_def get_character_def Let_def split: option.splits if_splits)

text \<open>Reading a character and putting it back.\<close>

lemma lex_unget_get: "lex_at cs lx \<Longrightarrow> lex_at cs (lex_unget (lex_get lx))"
  by (auto simp: lex_at_def pend_def lex_get_def lex_unget_def get_character_def Let_def
      split: option.splits if_splits list.splits)

lemma lex_in_unget_get: "lex_in cs lx \<Longrightarrow> lex_in cs (lex_unget (lex_get lx))"
  using lex_unget_get [of cs lx] by (simp add: lex_in_def lex_unget_def)

lemma lex_in_get: "lex_in (c # cs) lx \<Longrightarrow> current (lex_get lx) = Some c \<and> lex_in cs (lex_get lx)"
  using lex_get_Cons lex_in_at by blast

section \<open>Strings\<close>

definition simple_escapes :: "(char \<times> char) set" where
  "simple_escapes = {(quote, quote), (backslash, backslash), (CHR ''b'', CHR 0x08), (CHR ''f'', CHR 0x0C),
     (CHR ''n'', CHR 0x0A), (CHR ''r'', CHR 0x0D), (CHR ''t'', CHR 0x09)}"

lemma esc_char_cases:
  obtains (two) e where "esc_char c = [backslash, e]" "(e, c) \<in> simple_escapes"
  | (ctl) "esc_char c = [backslash, CHR ''u''] @ hex4 (of_char c)"
  | (plain) "esc_char c = [c]" "c \<noteq> quote" "c \<noteq> backslash" "0x20 \<le> (of_char c :: nat)"
proof (cases "\<exists>e. (e, c) \<in> simple_escapes")
  case True
  then obtain e where e: "(e, c) \<in> simple_escapes" by blast
  then have "esc_char c = [backslash, e]"
    by (auto simp: simple_escapes_def esc_char_def quote_def backslash_def)
  then show ?thesis using e two by blast
next
  case False
  then have no: "c \<noteq> CHR 0x08" "c \<noteq> CHR 0x09" "c \<noteq> CHR 0x0A" "c \<noteq> CHR 0x0C" "c \<noteq> CHR 0x0D" "c \<noteq> quote" "c \<noteq> backslash"
    by (auto simp: simple_escapes_def)
  show ?thesis
  proof (cases "(of_char c :: nat) < 0x20")
    case True
    then show ?thesis using ctl no by (simp add: esc_char_def)
  next
    case False
    then show ?thesis using plain no by (simp add: esc_char_def)
  qed
qed

lemma hex_digit_value_lower: "d < 16 \<Longrightarrow> hex_digit_value (Some (hex_digit_lower d)) = Some d"
  by (simp add: hex_digit_value_def hex_digit_lower_def)

lemma hex_sum:
  fixes n :: nat
  shows "q1 * 16 + r0 = n \<Longrightarrow> q2 * 16 + r1 = q1 \<Longrightarrow> q3 * 16 + r2 = q2 \<Longrightarrow>
    q3 * 2 ^ 12 + r2 * 2 ^ 8 + r1 * 2 ^ 4 + r0 = n"
  by simp

lemma get_codepoint_loop_digits:
  assumes "length ds = length fs" and "\<forall>d \<in> set ds. d < 16" and "lex_in (map hex_digit_lower ds @ rest) lx"
  shows "\<exists>lx'. get_codepoint_loop fs cp lx = (Some (cp + sum_list (map2 (\<lambda>d f. d * 2 ^ f) ds fs)), lx') \<and>
    lex_in rest lx' \<and> token_buffer lx' = token_buffer lx"
  using assms
proof (induction ds fs arbitrary: cp lx rule: list_induct2)
  case (Cons d ds f fs)
  have "lex_in (hex_digit_lower d # map hex_digit_lower ds @ rest) lx" using Cons.prems by simp
  note get = lex_in_get [OF this]
  obtain lx' where "get_codepoint_loop fs (cp + d * 2 ^ f) (lex_get lx) =
      (Some (cp + d * 2 ^ f + sum_list (map2 (\<lambda>d f. d * 2 ^ f) ds fs)), lx')"
    "lex_in rest lx'" "token_buffer lx' = token_buffer lx"
    using Cons.IH [of "lex_get lx" "cp + d * 2 ^ f"] Cons.prems get by auto
  then show ?case using get Cons.prems by (simp add: hex_digit_value_lower Let_def add.assoc)
qed auto

lemma hex_map2:
  "0 + sum_list (map2 (\<lambda>d f. d * 2 ^ f) [a, b, c, d] [12, 8, 4, 0]) = a * 2 ^ 12 + b * 2 ^ 8 + c * 2 ^ 4 + (d :: nat)"
  by simp

lemma get_codepoint_hex4:
  assumes "n < 0x10000" and "lex_in (hex4 n @ rest) lx"
  shows "\<exists>lx'. get_codepoint lx = (Some n, lx') \<and> lex_in rest lx' \<and> token_buffer lx' = token_buffer lx"
proof -
  let ?ds = "[n div 4096 mod 16, n div 256 mod 16, n div 16 mod 16, n mod 16]"
  have "n div 16 div 16 = n div 256" "n div 256 div 16 = n div 4096" "n div 4096 mod 16 = n div 4096"
    using assms(1) by (simp_all add: div_mult2_eq [symmetric])
  then have "n div 4096 mod 16 * 2 ^ 12 + n div 256 mod 16 * 2 ^ 8 + n div 16 mod 16 * 2 ^ 4 + n mod 16 = n"
    using div_mult_mod_eq [of "n div 16" 16] div_mult_mod_eq [of "n div 256" 16]
    by (intro hex_sum [OF div_mult_mod_eq [of n 16]]) (simp_all only:)
  then have sum: "0 + sum_list (map2 (\<lambda>d f. d * 2 ^ f) ?ds [12, 8, 4, 0]) = n"
    unfolding hex_map2 .
  have "lex_in (map hex_digit_lower ?ds @ rest) lx"
    using assms(2) by (simp only: hex4_def list.map)
  then show ?thesis
    using get_codepoint_loop_digits [of ?ds "[12, 8, 4, 0]" rest lx 0] mod_less_divisor [of 16]
    unfolding sum get_codepoint_def by fastforce
qed

text \<open>Two-character escapes and control characters.\<close>

lemma scan_escape_simple:
  assumes "lex_in (e # rest) lx"
    and "(e, c) \<in> simple_escapes"
  shows "\<exists>lx'. scan_escape lx = (None, lx') \<and> lex_in rest lx' \<and> token_buffer lx' = token_buffer lx @ [c]"
  using lex_in_get [OF assms(1)] assms(2)
  by (auto simp: simple_escapes_def scan_escape_def Let_def quote_def backslash_def)

lemma scan_escape_unicode:
  assumes "n < 0x80" and "lex_in (CHR ''u'' # hex4 n @ rest) lx"
  shows "\<exists>lx'. scan_escape lx = (None, lx') \<and> lex_in rest lx' \<and> token_buffer lx' = token_buffer lx @ [char_of n]"
proof -
  obtain lx' where lx': "get_codepoint (lex_get lx) = (Some n, lx')" "lex_in rest lx'" "token_buffer lx' = token_buffer lx"
    using get_codepoint_hex4 [of n rest "lex_get lx"] lex_in_get [OF assms(2)] assms(1) by auto
  then show ?thesis
    using lex_in_get [OF assms(2)] assms(1)
    by (simp add: scan_escape_def scan_unicode_escape_def Let_def codepoint_bytes_def lex_adds_def)
qed

lemma string_step_ascii:
  assumes "(of_char c :: nat) < 0x80" and "lex_in (esc_char c @ rest) lx"
  shows "\<exists>lx'. string_step lx = (None, lx') \<and> lex_in rest lx' \<and> token_buffer lx' = token_buffer lx @ [c]"
proof -
  have esc: "\<exists>lx'. string_step lx = (None, lx') \<and> lex_in rest lx' \<and> token_buffer lx' = token_buffer lx @ [c]"
    if "lex_in (backslash # e) lx" and "\<And>l. lex_in e l \<Longrightarrow>
      \<exists>lx'. scan_escape l = (None, lx') \<and> lex_in rest lx' \<and> token_buffer lx' = token_buffer l @ [c]" for e
    using lex_in_get [OF that(1)] that(2) [of "lex_get lx"]
    by (auto simp: string_step_def Let_def backslash_def)
  show ?thesis
  proof (cases rule: esc_char_cases [of c])
    case (two e)
    then show ?thesis using esc [of "e # rest"] scan_escape_simple [OF _ two(2)] assms(2) by simp
  next
    case ctl
    then show ?thesis
      using esc [of "CHR ''u'' # hex4 (of_char c) @ rest"] scan_escape_unicode [OF assms(1), of rest] assms(2)
      by simp
  next
    case plain
    then show ?thesis
      using assms lex_in_get [of c rest lx]
      by (auto simp: string_step_def Let_def quote_def backslash_def)
  qed
qed

text \<open>Multi-byte sequences.\<close>

lemma in_ranges_loop_run:
  assumes "utf8_run rs s" and "\<forall>r \<in> set rs. 0x80 \<le> fst r"
  shows "\<exists>bs s'. s = bs @ s' \<and> utf8_run [] s' \<and> (\<forall>b \<in> set bs. 0x80 \<le> (of_char b :: nat)) \<and>
    (\<forall>lx rest. lex_in (bs @ rest) lx \<longrightarrow>
      (\<exists>lx'. in_ranges_loop rs lx = (True, lx') \<and> lex_in rest lx' \<and> token_buffer lx' = token_buffer lx @ bs))"
  using assms
proof (induction rs arbitrary: s)
  case Nil
  then show ?case by (intro exI [of _ "[]"] exI [of _ s]) auto
next
  case (Cons r rs)
  from Cons.prems obtain c t where s: "s = c # t" by (cases s) auto
  then have c: "fst r \<le> (of_char c :: nat)" "(of_char c :: nat) \<le> snd r" and run: "utf8_run rs t"
    using Cons.prems by (auto split: if_splits)
  obtain bs s' where IH: "t = bs @ s'" "utf8_run [] s'" "\<forall>b \<in> set bs. 0x80 \<le> (of_char b :: nat)"
    "\<And>lx rest. lex_in (bs @ rest) lx \<Longrightarrow>
      \<exists>lx'. in_ranges_loop rs lx = (True, lx') \<and> lex_in rest lx' \<and> token_buffer lx' = token_buffer lx @ bs"
    using Cons.IH [OF run] Cons.prems(2) by auto
  have "\<exists>lx'. in_ranges_loop (r # rs) lx = (True, lx') \<and> lex_in rest lx' \<and> token_buffer lx' = token_buffer lx @ c # bs"
    if "lex_in (c # bs @ rest) lx" for lx rest
    using lex_in_get [OF that] IH(4) [of rest "lex_add c (lex_get lx)"] c
    by (cases r) (auto simp: Let_def)
  then show ?case
    using s IH(1-3) c(1) Cons.prems(2) by (intro exI [of _ "c # bs"] exI [of _ s']) auto
qed

lemma scan_multibyte_lead:
  assumes "lead_ranges (of_char c) = Some rs" and "0x80 \<le> (of_char c :: nat)"
  shows "scan_multibyte c lx = next_byte_in_range c rs lx" and "\<forall>r \<in> set rs. 0x80 \<le> fst r"
  using assms by (auto simp: lead_ranges_def scan_multibyte_def Let_def split: if_splits)

lemma escape_string_high: "\<forall>b \<in> set bs. 0x80 \<le> (of_char b :: nat) \<Longrightarrow> escape_string (bs @ s) = bs @ escape_string s"
  by (induction bs) (simp_all add: esc_char_multibyte)

lemma string_step_high:
  assumes "utf8_run [] (c # s)" and "0x80 \<le> (of_char c :: nat)"
  shows "\<exists>bs s'. s = bs @ s' \<and> utf8_run [] s' \<and> escape_string s = bs @ escape_string s' \<and>
    (\<forall>lx rest. lex_in (c # bs @ rest) lx \<longrightarrow>
      (\<exists>lx'. string_step lx = (None, lx') \<and> lex_in rest lx' \<and> token_buffer lx' = token_buffer lx @ c # bs))"
proof -
  obtain rs where rs: "lead_ranges (of_char c) = Some rs" "utf8_run rs s"
    using assms(1) by (auto split: option.splits)
  note lead = scan_multibyte_lead [OF rs(1) assms(2)]
  obtain bs s' where bs: "s = bs @ s'" "utf8_run [] s'" "\<forall>b \<in> set bs. 0x80 \<le> (of_char b :: nat)"
    "\<And>lx rest. lex_in (bs @ rest) lx \<Longrightarrow>
      \<exists>lx'. in_ranges_loop rs lx = (True, lx') \<and> lex_in rest lx' \<and> token_buffer lx' = token_buffer lx @ bs"
    using in_ranges_loop_run [OF rs(2) lead(2)] by blast
  have "\<exists>lx'. string_step lx = (None, lx') \<and> lex_in rest lx' \<and> token_buffer lx' = token_buffer lx @ c # bs"
    if "lex_in (c # bs @ rest) lx" for lx rest
    using lex_in_get [OF that] bs(4) [of rest "lex_add c (lex_get lx)"] assms(2)
    by (auto simp: string_step_def Let_def lead next_byte_in_range_def)
  then show ?thesis using bs(1-3) escape_string_high [OF bs(3)] by blast
qed

lemma scan_string_loop_escape:
  assumes "utf8_valid s" and "lex_in (escape_string s @ quote # rest) lx"
  shows "\<exists>lx'. scan_string_loop lx = (value_string_tok, lx') \<and> lex_in rest lx' \<and> token_buffer lx' = token_buffer lx @ s"
  using assms unfolding utf8_valid_def
proof (induction s arbitrary: lx rule: length_induct)
  case (1 s)
  have go: ?case if "string_step lx = (None, l)" and "lex_in (escape_string s' @ quote # rest) l"
    and "utf8_run [] s'" and "length s' < length s" and "token_buffer l @ s' = token_buffer lx @ s" for l s'
  proof -
    note h = that
    obtain l' where "scan_string_loop l = (value_string_tok, l')" "lex_in rest l'" "token_buffer l' = token_buffer l @ s'"
      using 1(1) [rule_format, of s' l] h by blast
    then show ?thesis using h by (simp add: scan_string_loop.simps [of lx])
  qed
  show ?case
  proof (cases s)
    case Nil
    then show ?thesis
      using lex_in_get [of quote rest lx] 1(3)
      by (auto simp: scan_string_loop.simps [of lx] string_step_def Let_def quote_def)
  next
    case (Cons c t)
    show ?thesis
    proof (cases "(of_char c :: nat) < 0x80")
      case True
      then have "utf8_run [] t" using 1(2) Cons by (simp add: lead_ranges_def)
      moreover obtain l where "string_step lx = (None, l)" "lex_in (escape_string t @ quote # rest) l"
        "token_buffer l = token_buffer lx @ [c]"
        using string_step_ascii [OF True, of "escape_string t @ quote # rest" lx] 1(3) Cons by auto
      ultimately show ?thesis using go [of l t] Cons by simp
    next
      case False
      obtain bs s' where bs: "t = bs @ s'" "utf8_run [] s'" "escape_string t = bs @ escape_string s'"
        "\<And>lx rest. lex_in (c # bs @ rest) lx \<Longrightarrow>
          \<exists>lx'. string_step lx = (None, lx') \<and> lex_in rest lx' \<and> token_buffer lx' = token_buffer lx @ c # bs"
        using string_step_high [of c t] 1(2) False Cons by auto
      have "lex_in (c # bs @ escape_string s' @ quote # rest) lx"
        using 1(3) False Cons bs(3) by (simp add: esc_char_multibyte)
      then obtain l where "string_step lx = (None, l)" "lex_in (escape_string s' @ quote # rest) l"
        "token_buffer l = token_buffer lx @ c # bs"
        using bs(4) by blast
      then show ?thesis using go [of l s'] Cons bs(1,2) by simp
    qed
  qed
qed

section \<open>Tokens\<close>

lemma scan_first:
  assumes "lex_at (c # cs) lx" and "\<not> is_ws (Some c)"
  shows "\<exists>lx1. scan lx = scan_token lx1 \<and> current lx1 = Some c \<and> lex_in cs lx1"
proof -
  have ws: "skip_ws l = lex_get l" if "lex_at (c # cs) l" for l
    using lex_get_Cons [OF that] assms(2) by (simp add: skip_ws.simps [of l])
  show ?thesis
  proof (cases "chars_read_total (position lx) = 0")
    case True
    then have "c \<noteq> CHR 0xEF" using assms(1) by (simp add: lex_at_def)
    then have "scan lx = scan_token (skip_ws (lex_unget (lex_get lx)))"
      using True lex_get_Cons [OF assms(1)] by (simp add: scan_def skip_bom_def)
    then show ?thesis
      using lex_unget_get [OF assms(1)] ws lex_get_Cons by force
  next
    case False
    then show ?thesis using ws [OF assms(1)] lex_get_Cons [OF assms(1)] by (auto simp: scan_def)
  qed
qed

lemma scan_end:
  assumes "lex_in [] lx"
  shows "fst (scan lx) = end_of_input"
proof -
  have "skip_ws lx = lex_get lx"
    using lex_get_Nil lex_in_at [OF assms] by (simp add: skip_ws.simps [of lx] is_ws_def)
  then show ?thesis
    using assms lex_get_Nil [OF lex_in_at [OF assms]] by (simp add: scan_def scan_token_def lex_in_def)
qed

text \<open>A null character ends the input, whatever comes after it.\<close>

definition text_end :: "string \<Rightarrow> bool" where
  "text_end rest \<longleftrightarrow> (case rest of [] \<Rightarrow> True | c # _ \<Rightarrow> c = CHR 0x00)"

lemma scan_text_end:
  assumes "lex_in rest lx" and "text_end rest"
  shows "fst (scan lx) = end_of_input"
proof (cases rest)
  case (Cons c cs)
  then have "lex_at (CHR 0x00 # cs) lx" using assms by (simp add: text_end_def lex_in_at)
  from scan_first [OF this] show ?thesis by (auto simp: is_ws_def scan_token_def is_digit_def)
qed (use assms(1) scan_end in simp)

lemma scan_structural:
  assumes "lex_at (c # cs) lx"
    and "(c, t) \<in> {(CHR ''['', begin_array), (CHR '']'', end_array), (CHR ''{'', begin_object),
      (CHR ''}'', end_object), (CHR '':'', name_separator), (CHR '','', value_separator)}"
  shows "\<exists>lx'. scan lx = (t, lx') \<and> lex_in cs lx'"
proof -
  have "\<not> is_ws (Some c)" using assms(2) by (auto simp: is_ws_def)
  with scan_first [OF assms(1)] show ?thesis
    using assms(2) by (auto simp: scan_token_def)
qed

lemma scan_literal_loop_match:
  "lex_in (cs @ rest) lx \<Longrightarrow> \<exists>lx'. scan_literal_loop cs t lx = (t, lx') \<and> lex_in rest lx'"
proof (induction cs arbitrary: lx)
  case (Cons c cs)
  then show ?case using lex_in_get [of c "cs @ rest" lx] by auto
qed simp

lemma scan_literals:
  "lex_at (''true'' @ rest) lx \<Longrightarrow> \<exists>lx'. scan lx = (literal_true, lx') \<and> lex_in rest lx'"
  "lex_at (''false'' @ rest) lx \<Longrightarrow> \<exists>lx'. scan lx = (literal_false, lx') \<and> lex_in rest lx'"
  "lex_at (''null'' @ rest) lx \<Longrightarrow> \<exists>lx'. scan lx = (literal_null, lx') \<and> lex_in rest lx'"
proof -
  have lit: "\<exists>lx'. scan lx = (t, lx') \<and> lex_in rest lx'"
    if "lex_at ((c # cs) @ rest) lx" "\<not> is_ws (Some c)"
      "\<And>l. current l = Some c \<Longrightarrow> scan_token l = scan_literal_loop cs t l" for c cs t
    using scan_first [of c "cs @ rest" lx] that scan_literal_loop_match [of cs rest _ t] by fastforce
  show "lex_at (''true'' @ rest) lx \<Longrightarrow> \<exists>lx'. scan lx = (literal_true, lx') \<and> lex_in rest lx'"
    by (rule lit [of "CHR ''t''" "''rue''"]) (auto simp: is_ws_def scan_token_def scan_literal_def simp del: scan_literal_loop.simps)
  show "lex_at (''false'' @ rest) lx \<Longrightarrow> \<exists>lx'. scan lx = (literal_false, lx') \<and> lex_in rest lx'"
    by (rule lit [of "CHR ''f''" "''alse''"]) (auto simp: is_ws_def scan_token_def scan_literal_def simp del: scan_literal_loop.simps)
  show "lex_at (''null'' @ rest) lx \<Longrightarrow> \<exists>lx'. scan lx = (literal_null, lx') \<and> lex_in rest lx'"
    by (rule lit [of "CHR ''n''" "''ull''"]) (auto simp: is_ws_def scan_token_def scan_literal_def simp del: scan_literal_loop.simps)
qed

lemma scan_quoted:
  assumes "lex_at (quoted s @ rest) lx" and "utf8_valid s"
  shows "\<exists>lx'. scan lx = (value_string_tok, lx') \<and> lex_in rest lx' \<and> token_buffer lx' = s"
proof -
  obtain lx1 where lx1: "scan lx = scan_token lx1" "current lx1 = Some quote"
    "lex_in (escape_string s @ quote # rest) lx1"
    using scan_first [of quote "escape_string s @ quote # rest" lx] assms(1)
    by (auto simp: quoted_def is_ws_def quote_def)
  obtain lx' where "scan_string_loop (lex_reset lx1) = (value_string_tok, lx')" "lex_in rest lx'" "token_buffer lx' = s"
    using scan_string_loop_escape [OF assms(2), of rest "lex_reset lx1"] lx1(3) by auto
  then show ?thesis using lx1 by (simp add: scan_token_def scan_string_def quote_def)
qed

section \<open>Integers\<close>

text \<open>What may follow a value: nothing, the next structural character, a null character, or another object.\<close>

definition stops :: "string \<Rightarrow> bool" where
  "stops rest \<longleftrightarrow> (case rest of [] \<Rightarrow> True | c # _ \<Rightarrow> c \<in> {CHR '','', CHR '']'', CHR ''}'', CHR ''{'', CHR 0x00})"

lemma scan_number_loop_digits:
  assumes "\<forall>c \<in> set ds. is_digit c" and "stops rest" and "lex_in (ds @ rest) lx"
  shows "\<exists>lx1. scan_number_loop Any1 ty lx = scan_number_done ty lx1 \<and> lex_in rest (lex_unget lx1) \<and>
    token_buffer lx1 = token_buffer lx @ ds"
  using assms
proof (induction ds arbitrary: lx)
  case Nil
  have "number_step Any1 (current (lex_get lx)) = Done"
  proof (cases rest)
    case Nil
    then show ?thesis using lex_get_Nil [of lx] Nil.prems(3) lex_in_at by auto
  next
    case (Cons c cs)
    then show ?thesis
      using lex_in_get [of c cs lx] Nil.prems(2,3) by (auto simp: stops_def is_exp_def is_digit_def)
  qed
  then show ?case
    using lex_in_unget_get Nil.prems(3)
    by (intro exI [of _ "lex_get lx"]) (simp add: scan_number_loop.simps [of Any1] label_type_def)
next
  case (Cons d ds)
  have "lex_in (d # ds @ rest) lx" using Cons.prems(3) by simp
  note get = lex_in_get [OF this]
  have "scan_number_loop Any1 ty lx = scan_number_loop Any1 ty (lex_add d (lex_get lx))"
    using get Cons.prems(1) by (simp add: scan_number_loop.simps [of Any1 ty lx] label_type_def)
  then show ?case
    using Cons.IH [of "lex_add d (lex_get lx)"] Cons.prems get by auto
qed

lemma scan_number_loop_zero:
  assumes "stops rest" and "lex_in rest lx"
  shows "scan_number_loop Zero ty lx = scan_number_done ty (lex_get lx)" and "lex_in rest (lex_unget (lex_get lx))"
proof -
  have "number_step Zero (current (lex_get lx)) = Done"
  proof (cases rest)
    case Nil
    then show ?thesis using lex_get_Nil [of lx] assms(2) lex_in_at by auto
  next
    case (Cons c cs)
    then show ?thesis using lex_in_get [of c cs lx] assms by (auto simp: stops_def is_exp_def)
  qed
  then show "scan_number_loop Zero ty lx = scan_number_done ty (lex_get lx)"
    by (simp add: scan_number_loop.simps [of Zero] label_type_def)
qed (rule lex_in_unget_get [OF assms(2)])

text \<open>The digits of a number, from the state after its first digit.\<close>

lemma scan_number_loop_show:
  assumes "show_nat n = d # ds" and "stops rest" and "lex_in (ds @ rest) lx"
  shows "\<exists>lx1. scan_number_loop (if d = CHR ''0'' then Zero else Any1) ty lx = scan_number_done ty lx1 \<and>
    lex_in rest (lex_unget lx1) \<and> token_buffer lx1 = token_buffer lx @ ds"
proof (cases "n = 0")
  case True
  then have "d = CHR ''0''" "ds = []" using assms(1) by (simp_all add: show_nat_0)
  then show ?thesis
    using scan_number_loop_zero [OF assms(2), where lx = lx] assms(3) by (intro exI [of _ "lex_get lx"]) simp
next
  case False
  then have "d \<noteq> CHR ''0''" using hd_show_nat_nonzero [of n] assms(1) by simp
  moreover have "\<forall>c \<in> set ds. is_digit c" using show_nat_digits [of n] assms(1) by simp
  ultimately show ?thesis using scan_number_loop_digits [OF _ assms(2,3), of ty] by simp
qed

lemma scan_unsigned:
  assumes "lex_at (show_nat n @ rest) lx" and "n < 2 ^ 64" and "stops rest"
  shows "\<exists>lx'. scan lx = (value_unsigned_tok, lx') \<and> lex_in rest lx' \<and> value_unsigned lx' = int n"
proof -
  obtain d ds where sh: "show_nat n = d # ds" by (cases "show_nat n") auto
  then have d: "is_digit d" using show_nat_digits [of n] by simp
  then have no: "\<not> is_ws (Some d)" "d \<notin> {CHR ''['', CHR '']'', CHR ''{'', CHR ''}'', CHR '':'', CHR '','', CHR ''t'',
      CHR ''f'', CHR ''n'', CHR 0x22, CHR ''-''}"
    by (auto simp: is_ws_def is_digit_def)
  obtain lx1 where lx1: "scan lx = scan_token lx1" "current lx1 = Some d" "lex_in (ds @ rest) lx1"
    using scan_first [of d "ds @ rest" lx] assms(1) no(1) sh by auto
  obtain lx2 where lx2: "scan_number_loop (if d = CHR ''0'' then Zero else Any1) value_unsigned_tok
      (lex_add d (lex_reset lx1)) = scan_number_done value_unsigned_tok lx2"
    "lex_in rest (lex_unget lx2)" "token_buffer lx2 = show_nat n"
    using scan_number_loop_show [OF sh assms(3), of "lex_add d (lex_reset lx1)" value_unsigned_tok] lx1(3) sh by auto
  have "strtoull (show_nat n) = Some (int n)"
    using assms(2) by (simp add: strtoull_def read_digits_show_nat)
  then have "scan_number_done value_unsigned_tok lx2 = (value_unsigned_tok, (lex_unget lx2)\<lparr>value_unsigned := int n\<rparr>)"
    using lx2(3) by (simp add: scan_number_done_def)
  moreover have "scan lx = scan_number_done value_unsigned_tok lx2"
    using lx1 lx2(1) no d by (simp add: scan_token_def scan_number_def)
  ultimately show ?thesis using lx2(2) by simp
qed

lemma scan_negative:
  assumes "lex_at (CHR ''-'' # show_nat n @ rest) lx" and "0 < n" and "n \<le> 2 ^ 63" and "stops rest"
  shows "\<exists>lx'. scan lx = (value_integer_tok, lx') \<and> lex_in rest lx' \<and> value_integer lx' = - int n"
proof -
  obtain d ds where sh: "show_nat n = d # ds" by (cases "show_nat n") auto
  then have d: "is_digit d" using show_nat_digits [of n] by simp
  obtain lx1 where lx1: "scan lx = scan_token lx1" "current lx1 = Some (CHR ''-'')" "lex_in (d # ds @ rest) lx1"
    using scan_first [of "CHR ''-''" "d # ds @ rest" lx] assms(1) sh by (auto simp: is_ws_def)
  let ?l = "lex_add (CHR ''-'') (lex_reset lx1)"
  have get: "current (lex_get ?l) = Some d" "lex_in (ds @ rest) (lex_get ?l)"
    using lex_in_get [of d "ds @ rest" ?l] lx1(3) by simp_all
  have first: "scan_number_loop Minus value_unsigned_tok ?l =
      scan_number_loop (if d = CHR ''0'' then Zero else Any1) value_integer_tok (lex_add d (lex_get ?l))"
    using get d by (simp add: scan_number_loop.simps [of Minus] label_type_def)
  obtain lx2 where lx2: "scan_number_loop (if d = CHR ''0'' then Zero else Any1) value_integer_tok
      (lex_add d (lex_get ?l)) = scan_number_done value_integer_tok lx2"
    "lex_in rest (lex_unget lx2)" "token_buffer lx2 = CHR ''-'' # show_nat n"
    using scan_number_loop_show [OF sh assms(4), of "lex_add d (lex_get ?l)" value_integer_tok] get sh by auto
  have "strtoll (CHR ''-'' # show_nat n) = Some (- int n)"
    using assms(2,3) by (simp add: strtoll_def read_digits_show_nat is_int64_def)
  then have "scan_number_done value_integer_tok lx2 = (value_integer_tok, (lex_unget lx2)\<lparr>value_integer := - int n\<rparr>)"
    using lx2(3) by (simp add: scan_number_done_def)
  moreover have "scan lx = scan_number_done value_integer_tok lx2"
    using lx1 lx2(1) first by (simp add: scan_token_def scan_number_def is_digit_def)
  ultimately show ?thesis using lx2(2) by simp
qed

end
