(* ===== verification/Json_Reparse.thy ===== *)
theory Json_Reparse
  imports Json_Value
begin

text \<open>
  What a value becomes when it is written in JSON, MessagePack or CBOR and read again: these formats have
  one kind of non-negative integer, so a non-negative \<open>number_integer\<close> comes back as
  \<open>number_unsigned\<close>. The two compare equal.
\<close>

fun reparse :: "json \<Rightarrow> json" and reparse_members :: "(string \<times> json) list \<Rightarrow> (string \<times> json) list \<Rightarrow> (string \<times> json) list"
  and reparse_elems :: "json list \<Rightarrow> json list" where
  "reparse (Object m) = Object (reparse_members m [])"
| "reparse (Array a) = Array (reparse_elems a)"
| "reparse (Number_integer i) = (if 0 \<le> i then Number_unsigned i else Number_integer i)"
| "reparse Null = Null"
| "reparse (String s) = String s"
| "reparse (Boolean b) = Boolean b"
| "reparse (Number_unsigned i) = Number_unsigned i"
| "reparse (Number_float x) = Number_float x"
| "reparse Discarded = Discarded"
| "reparse_members [] acc = acc"
| "reparse_members ((k, v) # m) acc = reparse_members m (omap_update k (reparse v) acc)"
| "reparse_elems [] = []"
| "reparse_elems (v # a) = reparse v # reparse_elems a"

text \<open>On well-formed values the entries of an object keep their places.\<close>

lemma reparse_members_map:
  "omap_ok (acc @ m) \<Longrightarrow> reparse_members m acc = acc @ map (\<lambda>(k, v). (k, reparse v)) m"
proof (induction m arbitrary: acc)
  case (Cons e m)
  obtain k v where e: "e = (k, v)" by force
  have less: "\<forall>k' \<in> fst ` set acc. k' < k" and ok: "omap_ok ((acc @ [(k, reparse v)]) @ m)"
    using Cons.prems by (auto simp: e omap_ok_def sorted_wrt_append)
  show ?case using Cons.IH [OF ok] by (simp add: e omap_update_notin_append [OF less])
qed simp

lemma reparse_Object: "omap_ok m \<Longrightarrow> reparse (Object m) = Object (map (\<lambda>(k, v). (k, reparse v)) m)"
  using reparse_members_map [of "[]" m] by simp

lemma reparse_elems_map: "reparse_elems a = map reparse a"
  by (induction a) simp_all

section \<open>Equality\<close>

text \<open>A NaN is different from itself, and a discarded value is equal to nothing.\<close>

fun comparable :: "json \<Rightarrow> bool" and members_comparable :: "(string \<times> json) list \<Rightarrow> bool"
  and elems_comparable :: "json list \<Rightarrow> bool" where
  "comparable (Object m) \<longleftrightarrow> members_comparable m"
| "comparable (Array a) \<longleftrightarrow> elems_comparable a"
| "comparable (Number_float x) \<longleftrightarrow> \<not> is_nan x"
| "comparable Discarded \<longleftrightarrow> False"
| "comparable _ \<longleftrightarrow> True"
| "members_comparable [] \<longleftrightarrow> True"
| "members_comparable ((k, v) # m) \<longleftrightarrow> comparable v \<and> members_comparable m"
| "elems_comparable [] \<longleftrightarrow> True"
| "elems_comparable (v # a) \<longleftrightarrow> comparable v \<and> elems_comparable a"

lemma json_eq_reparse:
  shows "comparable v \<Longrightarrow> json_ok v \<Longrightarrow> json_eq v (reparse v)"
    and "members_comparable m \<Longrightarrow> members_ok m \<Longrightarrow> members_eq m (map (\<lambda>(k, v). (k, reparse v)) m)"
    and "elems_comparable a \<Longrightarrow> elems_ok a \<Longrightarrow> elems_eq a (map reparse a)"
  by (induction v and m and a rule: comparable_members_comparable_elems_comparable.induct)
    (auto simp: reparse_Object reparse_elems_map double_eq_refl to_int64_id is_int64_def simp del: reparse.simps(1))

end
