(* ===== verification/Json_Roundtrip.thy ===== *)
theory Json_Roundtrip
  imports Json_Slot Json_Lexer_Spec Json_Reparse
begin

text \<open>
  \<open>json::parse(v.dump())\<close> for values without floats: the parser builds \<open>v\<close> again through its element
  pointers, except that a non-negative integer comes back as unsigned (the two are equal for
  \<open>operator==\<close>).
\<close>

section \<open>Texts and what they parse to\<close>

fun float_free :: "json \<Rightarrow> bool" and members_float_free :: "(string \<times> json) list \<Rightarrow> bool"
  and elems_float_free :: "json list \<Rightarrow> bool" where
  "float_free (Object m) \<longleftrightarrow> members_float_free m"
| "float_free (Array a) \<longleftrightarrow> elems_float_free a"
| "float_free (Number_float x) \<longleftrightarrow> False"
| "float_free Discarded \<longleftrightarrow> False"
| "float_free _ \<longleftrightarrow> True"
| "members_float_free [] \<longleftrightarrow> True"
| "members_float_free ((k, v) # m) \<longleftrightarrow> float_free v \<and> members_float_free m"
| "elems_float_free [] \<longleftrightarrow> True"
| "elems_float_free (v # a) \<longleftrightarrow> float_free v \<and> elems_float_free a"

fun first_token :: "json \<Rightarrow> token_type" where
  "first_token (Object _) = begin_object"
| "first_token (Array _) = begin_array"
| "first_token Null = literal_null"
| "first_token (Boolean b) = (if b then literal_true else literal_false)"
| "first_token (String _) = value_string_tok"
| "first_token (Number_integer i) = (if 0 \<le> i then value_unsigned_tok else value_integer_tok)"
| "first_token (Number_unsigned _) = value_unsigned_tok"
| "first_token (Number_float _) = value_float_tok"
| "first_token Discarded = parse_error_tok"

text \<open>How a structured value goes on after its first token, and what a scalar leaves in the lexer.\<close>

fun text_tail :: "json \<Rightarrow> string" where
  "text_tail (Object m) = members_text m @ ''}''"
| "text_tail (Array a) = elems_text a @ '']''"
| "text_tail _ = []"

fun scalar_read :: "json \<Rightarrow> lexer \<Rightarrow> bool" where
  "scalar_read (String s) lx \<longleftrightarrow> token_buffer lx = s"
| "scalar_read (Number_integer i) lx \<longleftrightarrow> (if 0 \<le> i then value_unsigned lx = i else value_integer lx = i)"
| "scalar_read (Number_unsigned i) lx \<longleftrightarrow> value_unsigned lx = i"
| "scalar_read _ lx \<longleftrightarrow> True"

lemma scan_text:
  assumes "printable v" and "float_free v" and "stops rest" and "lex_at (json_text v @ rest) lx"
  shows "\<exists>lx'. scan lx = (first_token v, lx') \<and> lex_in (text_tail v @ rest) lx' \<and> scalar_read v lx'"
proof (cases v)
  case Null
  then show ?thesis using scan_literals(3) assms(4) by simp
next
  case (Object m)
  then show ?thesis using scan_structural [of "CHR ''{''" "members_text m @ ''}'' @ rest" lx begin_object] assms(4) by simp
next
  case (Array a)
  then show ?thesis using scan_structural [of "CHR ''[''" "elems_text a @ '']'' @ rest" lx begin_array] assms(4) by simp
next
  case (String s)
  then show ?thesis using scan_quoted [of s rest lx] assms(1,4) by simp
next
  case (Boolean b)
  then show ?thesis using scan_literals(1,2) [of rest lx] assms(4) by (cases b) simp_all
next
  case (Number_integer i)
  show ?thesis
  proof (cases "0 \<le> i")
    case True
    then have "nat i < 2 ^ 64" using assms(1) Number_integer by (simp add: nat_less_iff)
    then show ?thesis
      using scan_unsigned [of "nat i" rest lx] assms(3,4) Number_integer True by (simp add: show_int_def)
  next
    case False
    then have "0 < nat (- i)" "nat (- i) \<le> 2 ^ 63" using assms(1) Number_integer by (simp_all add: nat_le_iff)
    then show ?thesis
      using scan_negative [of "nat (- i)" rest lx] assms(3,4) Number_integer False by (simp add: show_int_def)
  qed
next
  case (Number_unsigned i)
  then have "nat i < 2 ^ 64" "0 \<le> i" using assms(1) by (simp_all add: nat_less_iff)
  then show ?thesis
    using scan_unsigned [of "nat i" rest lx] assms(3,4) Number_unsigned by (simp add: show_int_def)
qed (use assms(2) in simp_all)

section \<open>The parser on a text\<close>

text \<open>\<open>parsed p p' rest j\<close>: from \<open>p\<close>, the loop has come to \<open>p'\<close> with the value built into the root.\<close>

definition parsed :: "parser \<Rightarrow> parser \<Rightarrow> string \<Rightarrow> pointer list \<Rightarrow> json \<Rightarrow> bool" where
  "parsed p p' rest st j \<longleftrightarrow>
     lex_in rest (m_lexer p') \<and> root p' = j \<and> ref_stack p' = st \<and>
     errored p' = errored p \<and> allow_exceptions p' = allow_exceptions p"

lemma stops_simps [simp]: "stops []" "stops (CHR '','' # cs)" "stops (CHR '']'' # cs)" "stops (CHR ''}'' # cs)"
  by (simp_all add: stops_def)

lemma parse_scalar:
  assumes "scan (m_lexer p) = (first_token v, lx)" and "scalar_read v lx" and "slot p ptr R" and "float_free v"
    and "\<nexists>m. v = Object m" and "\<nexists>a. v = Array a"
  shows "sax_parse_loop False states (get_token p) =
    sax_parse_loop True states (p\<lparr>last_token := first_token v, m_lexer := lx, root := R (reparse v)\<rparr>)"
proof -
  let ?q = "p\<lparr>last_token := first_token v, m_lexer := lx\<rparr>"
  have "sax_value w (p\<lparr>last_token := t, m_lexer := lx\<rparr>) = Inr (p\<lparr>last_token := t, m_lexer := lx, root := R w\<rparr>)" for w t
    using slot_sax_value [OF slot_token [OF assms(3)]] by simp
  then have "token_step states ?q = Inr (Break states (?q\<lparr>root := R (reparse v)\<rparr>))"
    using assms(2,4-6) by (cases v) (simp_all add: token_step_def)
  then show ?thesis using loop_Break get_token_eq [OF assms(1)] by simp
qed

text \<open>The end of an array or object, and the comma between two elements.\<close>

lemma state_step_close:
  assumes "lex_in (c # rest) (m_lexer p)" and "c = (if b then CHR '']'' else CHR ''}'')" and "ref_stack p = ptr # st"
  shows "\<exists>p'. sax_parse_loop True (b # states) p = sax_parse_loop True states p' \<and> parsed p p' rest st (root p)"
proof -
  let ?t = "if b then end_array else end_object"
  obtain lx where lx: "scan (m_lexer p) = (?t, lx)" "lex_in rest lx"
    using scan_structural [of c rest "m_lexer p" ?t] assms(1,2) lex_in_at by (cases b) auto
  let ?p = "p\<lparr>last_token := ?t, m_lexer := lx, ref_stack := st\<rparr>"
  have "state_step (b # states) p = Inr (Skip states ?p)"
    using assms(3) get_token_eq [OF lx(1)] by (cases b) (simp_all add: state_step_def sax_end_def Let_def)
  then show ?thesis using loop_state(2) lx(2) by (intro exI [of _ ?p]) (simp add: parsed_def)
qed

lemma state_step_comma:
  assumes "lex_in (CHR '','' # rest) (m_lexer p)"
  shows "\<exists>lx. scan (m_lexer p) = (value_separator, lx) \<and> lex_in rest lx"
  using scan_structural [of "CHR '',''" rest "m_lexer p" value_separator] assms lex_in_at by auto

text \<open>A key with its separator.\<close>

lemma member_head:
  assumes "lex_at (quoted k @ CHR '':'' # rest) (m_lexer p)" and "utf8_valid k"
    and "ref_stack p = ptr # st" and "hole ptr R" and "root p = R (Object m)"
  shows "\<exists>q ptr' m'. parse_member_head states (get_token p) = Inr (Continue states (get_token q)) \<and>
    slot q ptr' (\<lambda>w. R (Object (omap_update k w m))) \<and> parsed p q rest (ptr # st) (R (Object m')) \<and>
    last_token (get_token p) = value_string_tok"
proof -
  obtain lx where lx: "scan (m_lexer p) = (value_string_tok, lx)" "lex_in (CHR '':'' # rest) lx" "token_buffer lx = k"
    using scan_quoted [OF assms(1,2)] by blast
  let ?p1 = "p\<lparr>last_token := value_string_tok, m_lexer := lx\<rparr>"
  have p1: "ref_stack ?p1 = ptr # st" "root ?p1 = R (Object m)" using assms(3,5) by simp_all
  obtain m' where key: "sax_key k ?p1 = Inr (?p1\<lparr>root := R (Object m'), object_element := Some (ptr @ [Key k])\<rparr>)"
    "map_of m' k \<noteq> None" "\<And>w. omap_update k w m' = omap_update k w m"
    using sax_key_run [OF p1(1) assms(4) p1(2)] by metis
  let ?p2 = "?p1\<lparr>root := R (Object m'), object_element := Some (ptr @ [Key k])\<rparr>"
  obtain lx2 where lx2: "scan (m_lexer ?p2) = (name_separator, lx2)" "lex_in rest lx2"
    using scan_structural [of "CHR '':''" rest lx name_separator] lx(2) lex_in_at by auto
  let ?q = "?p2\<lparr>last_token := name_separator, m_lexer := lx2\<rparr>"
  have "parse_member_head states (get_token p) = Inr (Continue states (get_token ?q))"
    using get_token_eq [OF lx(1)] get_token_eq [OF lx2(1)] lx(3) key(1)
    by (simp add: parse_member_head_def Let_def del: m_lexer_get_token)
  moreover obtain v where "map_of m' k = Some v" using key(2) by blast
  then have "slot ?p2 (ptr @ [Key k]) (\<lambda>w. R (Object (omap_update k w m')))"
    using assms(3) by (intro slot_object [OF _ assms(4), where v = v and st = st]) simp_all
  then have "slot ?q (ptr @ [Key k]) (\<lambda>w. R (Object (omap_update k w m)))"
    unfolding key(3) by (rule slot_token)
  moreover have "parsed p ?q rest (ptr # st) (R (Object m'))"
    using lx2(2) assms(3) by (simp add: parsed_def)
  ultimately show ?thesis using lx(1) by auto
qed

text \<open>The three kinds of text at once: a value, the elements after a bracket, the members after a brace.\<close>

lemma parse_text_scalar:
  assumes "printable v" and "float_free v" and "lex_at (json_text v @ rest) (m_lexer p)" and "stops rest"
    and "slot p ptr R" and "\<nexists>m. v = Object m" and "\<nexists>a. v = Array a"
  shows "\<exists>p'. sax_parse_loop False states (get_token p) = sax_parse_loop True states p' \<and>
    parsed p p' rest (ref_stack p) (R (reparse v))"
proof -
  obtain lx where lx: "scan (m_lexer p) = (first_token v, lx)" "lex_in (text_tail v @ rest) lx" "scalar_read v lx"
    using scan_text [OF assms(1,2,4,3)] by blast
  moreover have "text_tail v = []" using assms(6,7) by (cases v) auto
  ultimately show ?thesis
    using parse_scalar [OF lx(1,3) assms(5,2,6,7)]
    by (intro exI [of _ "p\<lparr>last_token := first_token v, m_lexer := lx, root := R (reparse v)\<rparr>"]) (simp add: parsed_def)
qed

lemma elems_first:
  assumes "elems_printable a" and "elems_float_free a" and "a \<noteq> []" and "lex_at (elems_text a @ CHR '']'' # rest) lx"
  shows "fst (scan lx) \<noteq> end_array"
proof -
  obtain v as where a: "a = v # as" using assms(3) by (cases a) auto
  have "lex_at (json_text v @ (if as = [] then [] else CHR '','' # elems_text as) @ CHR '']'' # rest) lx"
    using assms(4) a by (cases "as = []") simp_all
  moreover have "stops ((if as = [] then [] else CHR '','' # elems_text as) @ CHR '']'' # rest)" by simp
  ultimately have "fst (scan lx) = first_token v"
    using scan_text assms(1,2) a by fastforce
  then show ?thesis by (cases v) auto
qed

lemma parse_text:
  shows "printable v \<Longrightarrow> float_free v \<Longrightarrow> lex_at (json_text v @ rest) (m_lexer p) \<Longrightarrow> stops rest \<Longrightarrow>
      slot p ptr R \<Longrightarrow>
      \<exists>p'. sax_parse_loop False states (get_token p) = sax_parse_loop True states p' \<and>
        parsed p p' rest (ref_stack p) (R (reparse v))"
    and "members_printable m \<Longrightarrow> members_float_free m \<Longrightarrow> m \<noteq> [] \<Longrightarrow>
      lex_at (members_text m @ CHR ''}'' # rest) (m_lexer p) \<Longrightarrow>
      ref_stack p = ptr # st \<Longrightarrow> hole ptr R \<Longrightarrow> root p = R (Object acc) \<Longrightarrow>
      \<exists>q p'. parse_member_head (False # states) (get_token p) = Inr (Continue (False # states) q) \<and>
        last_token (get_token p) = value_string_tok \<and>
        sax_parse_loop False (False # states) q = sax_parse_loop True states p' \<and>
        parsed p p' rest st (R (Object (reparse_members m acc)))"
    and "elems_printable a \<Longrightarrow> elems_float_free a \<Longrightarrow> a \<noteq> [] \<Longrightarrow>
      lex_at (elems_text a @ CHR '']'' # rest) (m_lexer p) \<Longrightarrow>
      ref_stack p = ptr # st \<Longrightarrow> hole ptr R \<Longrightarrow> root p = R (Array pre) \<Longrightarrow>
      \<exists>p'. sax_parse_loop False (True # states) (get_token p) = sax_parse_loop True states p' \<and>
        parsed p p' rest st (R (Array (pre @ reparse_elems a)))"
proof (induction v and m and a arbitrary: rest p ptr R states and rest p ptr R st acc states
    and rest p ptr R st pre states rule: json_text_members_text_elems_text.induct)
  case (2 m)
  let ?q = "\<lambda>lx. p\<lparr>last_token := begin_object, m_lexer := lx, root := R (Object []), ref_stack := ptr # ref_stack p\<rparr>"
  obtain lx where lx: "scan (m_lexer p) = (begin_object, lx)" "lex_in (members_text m @ CHR ''}'' # rest) lx"
    using scan_text [OF 2(2,3,5,4)] by auto
  have start: "start_object (p\<lparr>last_token := begin_object, m_lexer := lx\<rparr>) = Inr (?q lx)"
    using slot_start(1) [OF slot_token [OF 2(6)]] by simp
  have hole: "hole ptr R" using 2(6) by (simp add: slot_def)
  show ?case
  proof (cases "m = []")
    case True
    obtain lx2 where lx2: "scan lx = (end_object, lx2)" "lex_in rest lx2"
      using scan_structural [of "CHR ''}''" rest lx end_object] lx(2) lex_in_at True by auto
    let ?p' = "(?q lx2)\<lparr>last_token := end_object, ref_stack := ref_stack p\<rparr>"
    have "token_step states (get_token p) = Inr (Break states ?p')"
      using get_token_eq [OF lx(1)] start get_token_eq [of "?q lx" end_object lx2] lx2(1)
      by (simp add: token_step_def sax_end_def)
    then show ?thesis
      using loop_Break lx2(2) True by (intro exI [of _ ?p']) (simp add: parsed_def)
  next
    case False
    obtain q p' where q: "parse_member_head (False # states) (get_token (?q lx)) = Inr (Continue (False # states) q)"
      "last_token (get_token (?q lx)) = value_string_tok"
      "sax_parse_loop False (False # states) q = sax_parse_loop True states p'"
      "parsed (?q lx) p' rest (ref_stack p) (R (Object (reparse_members m [])))"
      using 2(1) [of rest "?q lx" ptr "ref_stack p" R "[]" states] 2(2,3) False lx(2) lex_in_at hole by auto
    have "token_step states (get_token p) = Inr (Continue (False # states) q)"
      using get_token_eq [OF lx(1)] start q(1,2) by (simp add: token_step_def Let_def del: m_lexer_get_token)
    then show ?thesis using loop_Continue q(3,4) by (auto simp: parsed_def)
  qed
next
  case (3 a)
  let ?q = "\<lambda>lx. p\<lparr>last_token := begin_array, m_lexer := lx, root := R (Array []), ref_stack := ptr # ref_stack p\<rparr>"
  obtain lx where lx: "scan (m_lexer p) = (begin_array, lx)" "lex_in (elems_text a @ CHR '']'' # rest) lx"
    using scan_text [OF 3(2,3,5,4)] by auto
  have start: "start_array (p\<lparr>last_token := begin_array, m_lexer := lx\<rparr>) = Inr (?q lx)"
    using slot_start(2) [OF slot_token [OF 3(6)]] by simp
  have hole: "hole ptr R" using 3(6) by (simp add: slot_def)
  show ?case
  proof (cases "a = []")
    case True
    obtain lx2 where lx2: "scan lx = (end_array, lx2)" "lex_in rest lx2"
      using scan_structural [of "CHR '']''" rest lx end_array] lx(2) lex_in_at True by auto
    let ?p' = "(?q lx2)\<lparr>last_token := end_array, ref_stack := ref_stack p\<rparr>"
    have "token_step states (get_token p) = Inr (Break states ?p')"
      using get_token_eq [OF lx(1)] start get_token_eq [of "?q lx" end_array lx2] lx2(1)
      by (simp add: token_step_def sax_end_def)
    then show ?thesis
      using loop_Break lx2(2) True by (intro exI [of _ ?p']) (simp add: parsed_def)
  next
    case False
    have tok: "last_token (get_token (?q lx)) \<noteq> end_array"
      using elems_first [of a rest lx] 3(2,3) False lx(2) lex_in_at by simp
    obtain p' where q: "sax_parse_loop False (True # states) (get_token (?q lx)) = sax_parse_loop True states p'"
      "parsed (?q lx) p' rest (ref_stack p) (R (Array ([] @ reparse_elems a)))"
      using 3(1) [of rest "?q lx" ptr "ref_stack p" R "[]" states] 3(2,3) False lx(2) lex_in_at hole by auto
    have "token_step states (get_token p) = Inr (Continue (True # states) (get_token (?q lx)))"
      using get_token_eq [OF lx(1)] start tok by (simp add: token_step_def Let_def del: m_lexer_get_token)
    then show ?thesis using loop_Continue q by (auto simp: parsed_def)
  qed
next
  case (11 k v m)
  let ?rest1 = "(if m = [] then [] else CHR '','' # members_text m) @ CHR ''}'' # rest"
  have k: "lex_at (quoted k @ CHR '':'' # json_text v @ ?rest1) (m_lexer p)" "utf8_valid k"
    using 11(6,3) by (cases "m = []"; simp)+
  obtain q ptr' m' where q: "parse_member_head (False # states) (get_token p) = Inr (Continue (False # states) (get_token q))"
    "slot q ptr' (\<lambda>w. R (Object (omap_update k w acc)))" "parsed p q (json_text v @ ?rest1) (ptr # st) (R (Object m'))"
    "last_token (get_token p) = value_string_tok"
    using member_head [OF k 11(7-9)] by blast
  have "lex_at (json_text v @ ?rest1) (m_lexer q)" "stops ?rest1"
    using q(3) lex_in_at by (simp_all add: parsed_def)
  then obtain p1 where p1: "sax_parse_loop False (False # states) (get_token q) = sax_parse_loop True (False # states) p1"
    "parsed q p1 ?rest1 (ref_stack q) (R (Object (omap_update k (reparse v) acc)))"
    using 11(1) [OF _ _ _ _ q(2)] 11(3,4) by fastforce
  have st: "ref_stack p1 = ptr # st" "root p1 = R (Object (omap_update k (reparse v) acc))"
    using p1(2) q(3) by (simp_all add: parsed_def)
  have "\<exists>p'. sax_parse_loop True (False # states) p1 = sax_parse_loop True states p' \<and>
      parsed p1 p' rest st (R (Object (reparse_members ((k, v) # m) acc)))"
  proof (cases "m = []")
    case True
    then show ?thesis
      using state_step_close [of "CHR ''}''" rest p1 False ptr st states] p1(2) st by (simp add: parsed_def)
  next
    case False
    then obtain lx where lx: "scan (m_lexer p1) = (value_separator, lx)" "lex_in (members_text m @ CHR ''}'' # rest) lx"
      using state_step_comma [of "members_text m @ CHR ''}'' # rest" p1] p1(2) by (auto simp: parsed_def)
    let ?p2 = "p1\<lparr>last_token := value_separator, m_lexer := lx\<rparr>"
    obtain q2 p' where q2: "parse_member_head (False # states) (get_token ?p2) = Inr (Continue (False # states) q2)"
      "sax_parse_loop False (False # states) q2 = sax_parse_loop True states p'"
      "parsed ?p2 p' rest st (R (Object (reparse_members m (omap_update k (reparse v) acc))))"
      using 11(2) [of rest ?p2 ptr st R "omap_update k (reparse v) acc" states] 11(3,4,8) False lx(2) lex_in_at st by auto
    have "state_step (False # states) p1 = Inr (Continue (False # states) q2)"
      using get_token_eq [OF lx(1)] q2(1) by (simp add: state_step_def Let_def del: m_lexer_get_token)
    then show ?thesis using loop_state(1) q2(2,3) by (auto simp: parsed_def)
  qed
  then show ?case using q(1,3,4) p1 by (auto simp: parsed_def)
next
  case (13 v a)
  let ?rest1 = "(if a = [] then [] else CHR '','' # elems_text a) @ CHR '']'' # rest"
  have v: "lex_at (json_text v @ ?rest1) (m_lexer p)" "stops ?rest1"
    using 13(6) by (cases "a = []"; simp)+
  note slot = slot_array [OF 13(7-9)]
  obtain p1 where p1: "sax_parse_loop False (True # states) (get_token p) = sax_parse_loop True (True # states) p1"
    "parsed p p1 ?rest1 (ptr # st) (R (Array (pre @ [reparse v])))"
    using 13(1) [OF _ _ v slot] 13(3,4,7) by fastforce
  have st: "ref_stack p1 = ptr # st" "root p1 = R (Array (pre @ [reparse v]))"
    using p1(2) by (simp_all add: parsed_def)
  have "\<exists>p'. sax_parse_loop True (True # states) p1 = sax_parse_loop True states p' \<and>
      parsed p1 p' rest st (R (Array (pre @ reparse_elems (v # a))))"
  proof (cases "a = []")
    case True
    then show ?thesis
      using state_step_close [of "CHR '']''" rest p1 True ptr st states] p1(2) st by (simp add: parsed_def)
  next
    case False
    then obtain lx where lx: "scan (m_lexer p1) = (value_separator, lx)" "lex_in (elems_text a @ CHR '']'' # rest) lx"
      using state_step_comma [of "elems_text a @ CHR '']'' # rest" p1] p1(2) by (auto simp: parsed_def)
    let ?p2 = "p1\<lparr>last_token := value_separator, m_lexer := lx\<rparr>"
    obtain p' where p': "sax_parse_loop False (True # states) (get_token ?p2) = sax_parse_loop True states p'"
      "parsed ?p2 p' rest st (R (Array ((pre @ [reparse v]) @ reparse_elems a)))"
      using 13(2) [of rest ?p2 ptr st R "pre @ [reparse v]" states] 13(3,4,8) False lx(2) lex_in_at st by auto
    have "state_step (True # states) p1 = Inr (Continue (True # states) (get_token ?p2))"
      using get_token_eq [OF lx(1)] by (simp add: state_step_def)
    then show ?thesis using loop_state(1) p' by (auto simp: parsed_def)
  qed
  then show ?case using p1 by (auto simp: parsed_def)
qed ((rule parse_text_scalar; simp)+, simp_all)

section \<open>The round trip\<close>

lemma json_text_first: "printable v \<Longrightarrow> float_free v \<Longrightarrow> take 1 (json_text v) \<noteq> [CHR 0xEF]"
proof (cases v)
  case (Number_integer i)
  obtain d ds where "show_nat (nat i) = d # ds" by (cases "show_nat (nat i)") auto
  with Number_integer show ?thesis using show_nat_digits [of "nat i"] by (auto simp: show_int_def is_digit_def)
next
  case (Number_unsigned i)
  obtain d ds where "show_nat (nat i) = d # ds" by (cases "show_nat (nat i)") auto
  with Number_unsigned show ?thesis using show_nat_digits [of "nat i"] by (auto simp: show_int_def is_digit_def)
qed (auto simp: quoted_def quote_def)

lemma json_text_first_append:
  "printable v \<Longrightarrow> float_free v \<Longrightarrow> take 1 (json_text v @ rest) \<noteq> [CHR 0xEF] \<or> json_text v = []"
  using json_text_first [of v] by (cases "json_text v") auto

lemma json_text_nonempty: "float_free v \<Longrightarrow> json_text v \<noteq> []"
  by (cases v) (auto simp: show_int_def quoted_def)

lemma parse_text_whole:
  assumes "printable v" and "float_free v" and "stops rest"
  shows "\<exists>p'. sax_parse_internal (parser_init True (json_text v @ rest)) = Inr (True, p') \<and>
    lex_in rest (m_lexer p') \<and> root p' = reparse v \<and> \<not> errored p' \<and> allow_exceptions p'"
proof -
  let ?p0 = "\<lparr>root = Null, ref_stack = [], object_element = None, errored = False, allow_exceptions = True,
    last_token = uninitialized, m_lexer = lexer_init (json_text v @ rest)\<rparr>"
  have "lex_at (json_text v @ rest) (m_lexer ?p0)"
    using lex_at_init [of "json_text v @ rest"] json_text_first_append [OF assms(1,2)]
      json_text_nonempty [OF assms(2)] by simp
  moreover have "slot ?p0 [] (\<lambda>w. w)" by (rule slot_root) simp
  ultimately obtain p' where p': "sax_parse_loop False [] (get_token ?p0) = sax_parse_loop True [] p'"
    "parsed ?p0 p' rest [] (reparse v)"
    using parse_text(1) [OF assms(1,2), of rest ?p0 "[]" "\<lambda>w. w" "[]"] assms(3) by auto
  then have "sax_parse_internal (get_token ?p0) = Inr (True, p')"
    by (simp add: sax_parse_internal_def loop_state(3))
  then show ?thesis using p'(2) by (auto simp: parser_init_def parsed_def)
qed

lemma get_token_fields [simp]:
  "errored (get_token p) = errored p" "root (get_token p) = root p" "allow_exceptions (get_token p) = allow_exceptions p"
  by (simp_all add: get_token_def split: prod.split)

lemma json_parse_text_end:
  assumes "printable v" and "float_free v" and "text_end rest"
  shows "json_parse (json_text v @ rest) = Inr (reparse v)"
proof -
  have "stops rest" using assms(3) by (auto simp: text_end_def stops_def split: list.splits)
  then obtain p' where p': "sax_parse_internal (parser_init True (json_text v @ rest)) = Inr (True, p')"
    "lex_in rest (m_lexer p')" "root p' = reparse v" "\<not> errored p'" "allow_exceptions p'"
    using parse_text_whole [OF assms(1,2)] by blast
  moreover have "last_token (get_token p') = end_of_input"
    using scan_text_end [of rest "m_lexer p'"] assms(3) p'(2) by simp
  ultimately show ?thesis
    by (simp add: json_parse_def parser_parse_def Let_def del: m_lexer_get_token)
qed

text \<open>A second object after the first is an error in strict mode.\<close>

lemma json_parse_text_twice:
  assumes "printable v" and "float_free v"
  shows "\<exists>pos w. json_parse (json_text v @ CHR ''{'' # rest) = Inl (parse_error_create 101 pos w)"
proof -
  have "stops (CHR ''{'' # rest)" by (simp add: stops_def)
  then obtain p' where p': "sax_parse_internal (parser_init True (json_text v @ CHR ''{'' # rest)) = Inr (True, p')"
    "lex_in (CHR ''{'' # rest) (m_lexer p')" "allow_exceptions p'"
    using parse_text_whole [OF assms] by blast
  moreover have "last_token (get_token p') = begin_object"
    using scan_structural [of "CHR ''{''" rest "m_lexer p'" begin_object] lex_in_at [OF p'(2)] by auto
  ultimately show ?thesis
    by (simp add: json_parse_def parser_parse_def Let_def sax_parse_error_def parser_error_101_def syntax_error_def overflow_error_def
        del: m_lexer_get_token) blast
qed

lemma json_parse_text: "printable v \<Longrightarrow> float_free v \<Longrightarrow> json_parse (json_text v) = Inr (reparse v)"
  using json_parse_text_end [of v "[]"] by (simp add: text_end_def)

text \<open>\<open>json::parse(v.dump()) == v\<close>.\<close>

lemma float_free_comparable:
  shows "float_free v \<Longrightarrow> comparable v"
    and "members_float_free m \<Longrightarrow> members_comparable m"
    and "elems_float_free a \<Longrightarrow> elems_comparable a"
  by (induction v and m and a rule: comparable_members_comparable_elems_comparable.induct) simp_all

end
