(* ===== verification/Json_Token_Inv.thy ===== *)
theory Json_Token_Inv
  imports Json_Lexer_Spec
begin

text \<open>
  What every token of the scanner satisfies, for every input: strings are well-formed UTF-8, integers are
  in the range of their type. Escapes of code points are encoded as the ranges of the Unicode standard say.
\<close>

unbundle bit_operations_syntax

section \<open>Encoding a code point\<close>

text \<open>The leading and continuation bytes.\<close>

lemma byte_or:
  "x < 0x40 \<Longrightarrow> (0x80 OR x :: nat) = 0x80 + x"
  "x < 0x20 \<Longrightarrow> (0xC0 OR x :: nat) = 0xC0 + x"
  "x < 0x10 \<Longrightarrow> (0xE0 OR x :: nat) = 0xE0 + x"
  "x < 0x08 \<Longrightarrow> (0xF0 OR x :: nat) = 0xF0 + x"
proof -
  have "list_all (\<lambda>x. (0x80 OR x :: nat) = 0x80 + x) [0..<0x40]"
    "list_all (\<lambda>x. (0xC0 OR x :: nat) = 0xC0 + x) [0..<0x20]"
    "list_all (\<lambda>x. (0xE0 OR x :: nat) = 0xE0 + x) [0..<0x10]"
    "list_all (\<lambda>x. (0xF0 OR x :: nat) = 0xF0 + x) [0..<0x08]"
    by code_simp+
  then show "x < 0x40 \<Longrightarrow> (0x80 OR x :: nat) = 0x80 + x" "x < 0x20 \<Longrightarrow> (0xC0 OR x :: nat) = 0xC0 + x"
    "x < 0x10 \<Longrightarrow> (0xE0 OR x :: nat) = 0xE0 + x" "x < 0x08 \<Longrightarrow> (0xF0 OR x :: nat) = 0xF0 + x"
    by (simp_all add: list_all_iff)
qed

lemma and_3F: "(x AND 0x3F :: nat) = x mod 0x40"
  using take_bit_eq_mask [of 6 x] by (simp add: take_bit_eq_mod mask_eq_exp_minus_1)

text \<open>The bytes in terms of the six-bit groups of the code point.\<close>

lemma codepoint_bytes_groups:
  assumes "cp = a * 0x40 + b" "b < 0x40" "a = c * 0x40 + d" "d < 0x40" "c = e * 0x40 + f" "f < 0x40"
  shows "codepoint_bytes cp =
    (if cp < 0x80 then [char_of cp]
     else if cp \<le> 0x7FF then [char_of (0xC0 OR a), char_of (0x80 OR b)]
     else if cp \<le> 0xFFFF then [char_of (0xE0 OR c), char_of (0x80 OR d), char_of (0x80 OR b)]
     else [char_of (0xF0 OR e), char_of (0x80 OR f), char_of (0x80 OR d), char_of (0x80 OR b)])"
proof -
  have a: "drop_bit 6 cp = a" using assms(1,2) by (simp add: drop_bit_eq_div)
  have "drop_bit 6 (drop_bit 6 cp) = c" unfolding a using assms(3,4) by (simp add: drop_bit_eq_div)
  then have c: "drop_bit 12 cp = c" by simp
  have "drop_bit 6 (drop_bit 12 cp) = e" unfolding c using assms(5,6) by (simp add: drop_bit_eq_div)
  then have e: "drop_bit 18 cp = e" by simp
  have "cp AND 0x3F = b" using assms(1,2) by (simp add: and_3F)
  moreover have "a AND 0x3F = d" using assms(3,4) by (simp add: and_3F)
  moreover have "c AND 0x3F = f" using assms(5,6) by (simp add: and_3F)
  ultimately show ?thesis unfolding codepoint_bytes_def a c e by simp
qed

lemma of_char_byte: "n < 0x100 \<Longrightarrow> (of_char (char_of n :: char) :: nat) = n"
  by simp

lemma utf8_valid_codepoint:
  assumes "cp \<le> 0x10FFFF" and "\<not> (0xD800 \<le> cp \<and> cp \<le> 0xDFFF)"
  shows "utf8_valid (codepoint_bytes cp)"
proof -
  define a b c d e f where defs: "a = cp div 0x40" "b = cp mod 0x40" "c = a div 0x40" "d = a mod 0x40"
    "e = c div 0x40" "f = c mod 0x40"
  have g: "cp = a * 0x40 + b" "b < 0x40" "a = c * 0x40 + d" "d < 0x40" "c = e * 0x40 + f" "f < 0x40"
    by (simp_all add: defs)
  consider "cp < 0x80" | "0x80 \<le> cp" "cp \<le> 0x7FF" | "0x7FF < cp" "cp \<le> 0xFFFF" | "0xFFFF < cp" by linarith
  then show ?thesis
  proof cases
    case 1
    then show ?thesis using codepoint_bytes_groups [OF g] by (simp add: utf8_valid_def lead_ranges_def)
  next
    case 2
    then have "2 \<le> a" "a < 0x20" using g by linarith+
    then show ?thesis
      using 2 codepoint_bytes_groups [OF g] g(2)
      by (simp add: byte_or utf8_valid_def lead_ranges_def)
  next
    case 3
    then have c: "c < 0x10" "c = 0 \<Longrightarrow> 0x20 \<le> d" "c = 13 \<Longrightarrow> d < 0x20" using g assms(2) by linarith+
    then show ?thesis
      using 3 codepoint_bytes_groups [OF g] g(2,4)
      by (auto simp: byte_or utf8_valid_def lead_ranges_def)
  next
    case 4
    then have e: "e < 5" "e = 0 \<Longrightarrow> 0x10 \<le> f" "e = 4 \<Longrightarrow> f < 0x10" using g assms(1) by linarith+
    then show ?thesis
      using 4 codepoint_bytes_groups [OF g] g(2,4,6)
      by (cases "e = 0"; cases "e = 4") (auto simp: byte_or utf8_valid_def lead_ranges_def)
  qed
qed

section \<open>Strings\<close>

lemma get_codepoint_loop_less:
  "get_codepoint_loop fs cp lx = (Some n, lx') \<Longrightarrow> n \<le> cp + sum_list (map (\<lambda>f. 15 * 2 ^ f) fs)"
proof (induction fs arbitrary: cp lx)
  case (Cons f fs)
  then obtain d where d: "hex_digit_value (current (lex_get lx)) = Some d"
    "get_codepoint_loop fs (cp + d * 2 ^ f) (lex_get lx) = (Some n, lx')"
    by (auto simp: Let_def split: option.splits)
  have "d \<le> 15" using d(1) by (auto simp: hex_digit_value_def Let_def split: option.splits if_splits)
  then have "d * 2 ^ f \<le> 15 * 2 ^ f" by (rule mult_le_mono1)
  with Cons.IH [OF d(2)] show ?case unfolding list.map sum_list.Cons by linarith
qed simp

lemma get_codepoint_less: "get_codepoint lx = (Some n, lx') \<Longrightarrow> n \<le> 0xFFFF"
  using get_codepoint_loop_less [of "[12, 8, 4, 0]" 0 lx n lx'] by (simp add: get_codepoint_def)

lemma get_codepoint_loop_buffer: "token_buffer (snd (get_codepoint_loop fs cp lx)) = token_buffer lx"
  by (induction fs arbitrary: cp lx) (auto simp: Let_def split: option.split)

lemma get_codepoint_buffer: "get_codepoint lx = (r, lx') \<Longrightarrow> token_buffer lx' = token_buffer lx"
  using get_codepoint_loop_buffer [of "[12, 8, 4, 0]" 0 lx] by (simp add: get_codepoint_def)

lemma lex_adds_buffer [simp]: "token_buffer (lex_adds cs lx) = token_buffer lx @ cs"
  unfolding lex_adds_def by (induction cs arbitrary: lx) simp_all

text \<open>An iteration that goes on appends a well-formed piece.\<close>

definition appends_utf8 :: "lexer \<Rightarrow> token_type option \<times> lexer \<Rightarrow> bool" where
  "appends_utf8 lx r \<longleftrightarrow> fst r = None \<longrightarrow> (\<exists>s. utf8_valid s \<and> token_buffer (snd r) = token_buffer lx @ s)"

lemma appends_utf8_simps [simp]:
  "appends_utf8 lx (Some t, l)" "appends_utf8 lx (lex_fail m l)" "appends_utf8 (lex_get lx) r = appends_utf8 lx r"
  by (simp_all add: appends_utf8_def lex_fail_def)

lemma appends_utf8_add:
  "token_buffer l = token_buffer lx \<Longrightarrow> (of_char c :: nat) < 0x80 \<Longrightarrow> appends_utf8 lx (None, lex_add c l)"
  by (auto simp: appends_utf8_def utf8_valid_ascii)

lemma surrogates_codepoint:
  assumes "0xD800 \<le> c1" "c1 \<le> 0xDBFF" "0xDC00 \<le> c2" "c2 \<le> 0xDFFF"
  shows "0xFFFF < c1 * 2 ^ 10 + c2 - 0x35FDC00 \<and> c1 * 2 ^ 10 + c2 - 0x35FDC00 \<le> (0x10FFFF :: nat)"
  using assms by (simp add: less_diff_conv le_diff_conv)

lemma appends_unicode_escape: "appends_utf8 lx (scan_unicode_escape lx)"
proof -
  obtain cp1 l1 where c1: "get_codepoint lx = (cp1, l1)" by force
  note b1 = get_codepoint_buffer [OF c1]
  show ?thesis
  proof (cases cp1)
    case None
    then show ?thesis by (simp add: scan_unicode_escape_def c1)
  next
    case (Some n1)
    then have n1: "n1 \<le> 0xFFFF" using get_codepoint_less c1 by simp
    obtain cp2 l2 where c2: "get_codepoint (lex_get (lex_get l1)) = (cp2, l2)" by force
    note b2 = get_codepoint_buffer [OF c2]
    show ?thesis
    proof (cases "0xD800 \<le> n1 \<and> n1 \<le> 0xDBFF")
      case True
      have "appends_utf8 lx (None, lex_adds (codepoint_bytes (n1 * 2 ^ 10 + n2 - 0x35FDC00)) l2)"
        if "0xDC00 \<le> n2" "n2 \<le> 0xDFFF" for n2
        using surrogates_codepoint [of n1 n2] True that b1 b2
          utf8_valid_codepoint [of "n1 * 2 ^ 10 + n2 - 0x35FDC00"]
        by (simp add: appends_utf8_def)
      with True Some show ?thesis
        by (simp add: scan_unicode_escape_def c1 c2 Let_def split: option.split)
    next
      case False
      then show ?thesis
        using Some n1 b1 utf8_valid_codepoint [of n1]
        by (auto simp: scan_unicode_escape_def c1 Let_def appends_utf8_def lex_fail_def)
    qed
  qed
qed

lemma appends_escape: "appends_utf8 lx (scan_escape lx)"
  using appends_unicode_escape [of "lex_get lx"]
  by (simp add: scan_escape_def Let_def appends_utf8_add)

lemma in_ranges_loop_utf8:
  "in_ranges_loop rs lx = (True, lx') \<Longrightarrow> \<exists>bs. utf8_run rs bs \<and> token_buffer lx' = token_buffer lx @ bs"
proof (induction rs arbitrary: lx)
  case (Cons r rs)
  obtain lo hi where r: "r = (lo, hi)" by force
  obtain c where c: "current (lex_get lx) = Some c" "lo \<le> (of_char c :: nat)" "(of_char c :: nat) \<le> hi"
    "in_ranges_loop rs (lex_add c (lex_get lx)) = (True, lx')"
    using Cons.prems by (auto simp: r Let_def split: option.splits if_splits)
  obtain bs where "utf8_run rs bs" "token_buffer lx' = token_buffer lx @ c # bs"
    using Cons.IH [OF c(4)] by auto
  with c show ?case by (intro exI [of _ "c # bs"]) (simp add: r)
qed auto

lemma appends_multibyte:
  assumes "0x80 \<le> (of_char c :: nat)"
  shows "appends_utf8 lx (scan_multibyte c lx)"
proof (cases "lead_ranges (of_char c)")
  case None
  then have "scan_multibyte c lx = lex_fail ''invalid string: ill-formed UTF-8 byte'' lx"
    using assms by (auto simp: lead_ranges_def scan_multibyte_def Let_def split: if_splits)
  then show ?thesis by simp
next
  case (Some rs)
  obtain ok lx' where r: "in_ranges_loop rs (lex_add c lx) = (ok, lx')" by force
  have "utf8_run rs bs \<Longrightarrow> utf8_valid (c # bs)" for bs using Some by (simp add: utf8_valid_def)
  then show ?thesis
    using in_ranges_loop_utf8 [of rs "lex_add c lx" lx'] r
    by (auto simp: scan_multibyte_lead [OF Some assms] next_byte_in_range_def appends_utf8_def)
qed

lemma appends_string_step: "appends_utf8 lx (string_step lx)"
  using appends_escape [of "lex_get lx"] appends_multibyte [of _ "lex_get lx"]
  by (auto simp: string_step_def Let_def appends_utf8_add split: option.split)

lemma scan_string_loop_utf8:
  "scan_string_loop lx = (value_string_tok, lx') \<Longrightarrow> \<exists>s. utf8_valid s \<and> token_buffer lx' = token_buffer lx @ s"
proof (induction lx rule: scan_string_loop.induct)
  case (1 lx)
  obtain r l where r: "string_step lx = (r, l)" by force
  show ?case
  proof (cases r)
    case None
    obtain s where s: "utf8_valid s" "token_buffer l = token_buffer lx @ s"
      using appends_string_step [of lx] r None by (auto simp: appends_utf8_def)
    moreover obtain s' where "utf8_valid s'" "token_buffer lx' = token_buffer l @ s'"
      using 1(1) [OF r [symmetric]] 1(2) r None by (auto simp: scan_string_loop.simps [of lx])
    ultimately show ?thesis by (intro exI [of _ "s @ s'"]) (simp add: utf8_valid_append)
  next
    case (Some t)
    then have "t = value_string_tok" "lx' = l" using 1(2) r by (simp_all add: scan_string_loop.simps [of lx])
    with r Some have "token_buffer lx' = token_buffer lx"
      by (auto simp: string_step_def Let_def scan_escape_def scan_unicode_escape_def scan_multibyte_def
          next_byte_in_range_def lex_fail_def split: option.splits if_splits prod.splits)
    then show ?thesis by (intro exI [of _ "[]"]) simp
  qed
qed

section \<open>All tokens\<close>

definition token_ok :: "token_type \<Rightarrow> lexer \<Rightarrow> bool" where
  "token_ok t lx \<longleftrightarrow>
     (t = value_string_tok \<longrightarrow> utf8_valid (token_buffer lx)) \<and>
     (t = value_unsigned_tok \<longrightarrow> is_uint64 (value_unsigned lx)) \<and>
     (t = value_integer_tok \<longrightarrow> is_int64 (value_integer lx))"

lemma token_ok_other [simp]:
  "t \<notin> {value_string_tok, value_unsigned_tok, value_integer_tok} \<Longrightarrow> token_ok t lx"
  by (simp add: token_ok_def)

lemma string_step_result: "string_step lx = (Some t, l) \<Longrightarrow> t = value_string_tok \<or> t = parse_error_tok"
  by (auto simp: string_step_def Let_def scan_escape_def scan_unicode_escape_def scan_multibyte_def
      next_byte_in_range_def lex_fail_def split: option.splits if_splits prod.splits)

lemma scan_string_loop_result: "fst (scan_string_loop lx) \<in> {value_string_tok, parse_error_tok}"
proof (induction lx rule: scan_string_loop.induct)
  case (1 lx)
  obtain r l where r: "string_step lx = (r, l)" by force
  then show ?case
    using 1 [OF r [symmetric]] string_step_result
    by (cases r) (auto simp: scan_string_loop.simps [of lx])
qed

lemma token_ok_string: "scan_string lx = (t, lx') \<Longrightarrow> token_ok t lx'"
  using scan_string_loop_result [of "lex_reset lx"] scan_string_loop_utf8 [of "lex_reset lx" lx']
  by (auto simp: scan_string_def token_ok_def)

lemma strtoull_range: "strtoull s = Some x \<Longrightarrow> is_uint64 x"
  by (auto simp: strtoull_def Let_def is_uint64_def split: if_splits)

lemma strtoll_range: "strtoll s = Some x \<Longrightarrow> is_int64 x"
  by (auto simp: strtoll_def Let_def split: if_splits)

lemma token_ok_number_done: "scan_number_done ty lx = (t, lx') \<Longrightarrow> token_ok t lx'"
  by (auto simp: scan_number_done_def scan_number_float_def Let_def token_ok_def strtoull_range strtoll_range
      split: if_splits option.splits)

lemma token_ok_number_loop: "scan_number_loop st ty lx = (t, lx') \<Longrightarrow> token_ok t lx'"
proof (induction st ty lx rule: scan_number_loop.induct)
  case (1 st ty lx)
  then show ?case
    by (cases "number_step st (current (lex_get lx))")
       (auto simp: scan_number_loop.simps [of st] Let_def dest: token_ok_number_done)
qed

lemma token_ok_number: "scan_number lx = (t, lx') \<Longrightarrow> token_ok t lx'"
  by (auto simp: scan_number_def Let_def dest: token_ok_number_loop split: option.splits)

lemma scan_literal_loop_result: "fst (scan_literal_loop cs t lx) \<in> {t, parse_error_tok}"
  by (induction cs arbitrary: lx) (auto simp: Let_def)

lemma token_ok_literal:
  "scan_literal cs t0 lx = (t, lx') \<Longrightarrow> t0 \<in> {literal_true, literal_false, literal_null} \<Longrightarrow> token_ok t lx'"
  using scan_literal_loop_result [of "tl cs" t0 lx] by (auto simp: scan_literal_def)

lemma token_ok_if:
  "token_ok (fst a) (snd a) \<Longrightarrow> token_ok (fst b) (snd b) \<Longrightarrow>
     token_ok (fst (if c then a else b)) (snd (if c then a else b))"
  by simp

lemma token_ok_scan_token: "token_ok (fst (scan_token lx)) (snd (scan_token lx))"
proof (cases "current lx")
  case (Some c)
  show ?thesis
    unfolding scan_token_def Some option.case
    by (intro token_ok_if token_ok_string [OF prod.collapse [symmetric]] token_ok_number [OF prod.collapse [symmetric]]
        token_ok_literal [OF prod.collapse [symmetric]]) simp_all
qed (simp add: scan_token_def)

lemma token_ok_scan: "scan lx = (t, lx') \<Longrightarrow> token_ok t lx'"
  using token_ok_scan_token by (auto simp: scan_def split: prod.splits if_splits) (metis fst_conv snd_conv)+

end
