(* ===== verification/Json_Safety.thy ===== *)
theory Json_Safety
  imports Json_Slot Json_Token_Inv
begin

text \<open>
  Safety of \<open>json::parse\<close> for every input: no assertion of \<open>json_sax_dom_parser\<close> fails and no pointer is
  used on a value of another type, the only exceptions are \<open>parse_error.101\<close> and \<open>out_of_range.406\<close>, and a
  value that is returned is well-formed. The stack of \<open>parser\<close> and the element pointers of the builder
  describe the same path into the value.
\<close>

section \<open>Well-formed results\<close>

fun json_wf :: "json \<Rightarrow> bool" and members_wf :: "(string \<times> json) list \<Rightarrow> bool"
  and elems_wf :: "json list \<Rightarrow> bool" where
  "json_wf (Object m) \<longleftrightarrow> omap_ok m \<and> members_wf m"
| "json_wf (Array a) \<longleftrightarrow> elems_wf a"
| "json_wf (String s) \<longleftrightarrow> utf8_valid s"
| "json_wf (Number_integer i) \<longleftrightarrow> is_int64 i"
| "json_wf (Number_unsigned i) \<longleftrightarrow> is_uint64 i"
| "json_wf (Number_float x) \<longleftrightarrow> is_finite x"
| "json_wf Discarded \<longleftrightarrow> False"
| "json_wf _ \<longleftrightarrow> True"
| "members_wf [] \<longleftrightarrow> True"
| "members_wf ((k, v) # m) \<longleftrightarrow> utf8_valid k \<and> json_wf v \<and> members_wf m"
| "elems_wf [] \<longleftrightarrow> True"
| "elems_wf (v # a) \<longleftrightarrow> json_wf v \<and> elems_wf a"

lemma members_wf_iff: "members_wf m \<longleftrightarrow> (\<forall>(k, v) \<in> set m. utf8_valid k \<and> json_wf v)"
  by (induction m) auto

lemma elems_wf_iff: "elems_wf a \<longleftrightarrow> (\<forall>v \<in> set a. json_wf v)"
  by (induction a) auto

lemma members_wf_update: "members_wf m \<Longrightarrow> utf8_valid k \<Longrightarrow> json_wf v \<Longrightarrow> members_wf (omap_update k v m)"
  by (auto simp: members_wf_iff dest!: set_omap_update)

section \<open>The path of open arrays and objects\<close>

inductive frames :: "bool list \<Rightarrow> pointer list \<Rightarrow> pointer \<Rightarrow> (json \<Rightarrow> json) \<Rightarrow> bool" where
  frames_root: "frames [] [] [] (\<lambda>w. w)"
| frames_array: "frames bs st q R \<Longrightarrow> elems_wf a \<Longrightarrow>
    frames (True # bs) (q # st) (q @ [Index (length a)]) (\<lambda>w. R (Array (a @ [w])))"
| frames_object: "frames bs st q R \<Longrightarrow> omap_ok m \<Longrightarrow> members_wf m \<Longrightarrow> utf8_valid k \<Longrightarrow>
    frames (False # bs) (q # st) (q @ [Key k]) (\<lambda>w. R (Object (omap_update k w m)))"

inductive_cases frames_NilE: "frames [] st q R"
inductive_cases frames_TrueE: "frames (True # bs) st q R"
inductive_cases frames_FalseE: "frames (False # bs) st q R"

lemma frames_hole: "frames bs st q R \<Longrightarrow> hole q R"
  by (induction rule: frames.induct) (simp_all add: hole_root hole_index hole_key)

lemma frames_wf: "frames bs st q R \<Longrightarrow> json_wf w \<Longrightarrow> json_wf (R w)"
  by (induction arbitrary: w rule: frames.induct)
     (simp_all add: elems_wf_iff omap_ok_update members_wf_update)

text \<open>\<open>ready\<close>: the next value has a place; \<open>closed\<close>: a value has just been completed.\<close>

definition ready :: "bool list \<Rightarrow> parser \<Rightarrow> bool" where
  "ready states p \<longleftrightarrow> (\<exists>ptr R. frames states (ref_stack p) ptr R \<and> slot p ptr R)"

definition closed :: "bool list \<Rightarrow> parser \<Rightarrow> bool" where
  "closed states p \<longleftrightarrow>
     (case states of
        [] \<Rightarrow> ref_stack p = [] \<and> json_wf (root p)
      | b # bs \<Rightarrow> (\<exists>q st R w. ref_stack p = q # st \<and> frames bs st q R \<and> root p = R w \<and> json_wf w \<and>
          json_type w = (if b then array_t else object_t)))"

lemma frames_closed:
  assumes "frames bs (ref_stack p) q R" and "json_wf w" and "root p = R w"
  shows "closed bs p"
proof (cases bs)
  case Nil
  then show ?thesis using assms by (auto simp: closed_def elim: frames_NilE)
next
  case (Cons b cs)
  show ?thesis
  proof (cases b)
    case True
    then obtain q' st R' a where "ref_stack p = q' # st" "frames cs st q' R'" "elems_wf a" "R = (\<lambda>w. R' (Array (a @ [w])))"
      using assms(1) Cons by (auto elim: frames_TrueE)
    then show ?thesis
      using assms(2,3) Cons True
      by (simp add: closed_def) (intro exI [of _ R'] exI [of _ "Array (a @ [w])"] conjI, simp_all add: elems_wf_iff)
  next
    case False
    then obtain q' st R' m k where "ref_stack p = q' # st" "frames cs st q' R'" "omap_ok m" "members_wf m" "utf8_valid k"
      "R = (\<lambda>w. R' (Object (omap_update k w m)))"
      using assms(1) Cons by (auto elim: frames_FalseE)
    then show ?thesis
      using assms(2,3) Cons False
      by (simp add: closed_def)
         (intro exI [of _ R'] exI [of _ "Object (omap_update k w m)"] conjI,
          simp_all add: omap_ok_update members_wf_update)
  qed
qed

text \<open>The state of the builder does not depend on the lexer.\<close>

lemma closed_get_token [simp]: "closed states (get_token p) = closed states p"
  by (simp add: closed_def get_token_def split: prod.split list.split)

lemma ready_get_token: "ready states p \<Longrightarrow> ready states (get_token p)"
  by (auto simp: ready_def get_token_def intro: slot_token split: prod.split)

section \<open>The callbacks\<close>

definition same_flags :: "parser \<Rightarrow> parser \<Rightarrow> bool" where
  "same_flags p p' \<longleftrightarrow> errored p' = errored p \<and> allow_exceptions p' = allow_exceptions p"

lemma same_flags_get_token [simp]: "same_flags p (get_token p') = same_flags p p'"
  by (simp add: same_flags_def get_token_def split: prod.split)

lemma closed_value: "ready states p \<Longrightarrow> json_wf v \<Longrightarrow> \<exists>p'. sax_value v p = Inr p' \<and> closed states p' \<and> same_flags p p'"
  unfolding ready_def
  by (auto simp: slot_sax_value same_flags_def intro!: frames_closed)

lemma closed_start:
  assumes "ready states p"
  shows "\<exists>p'. start_array p = Inr p' \<and> closed (True # states) p' \<and> same_flags p p'"
    and "\<exists>p'. start_object p = Inr p' \<and> closed (False # states) p' \<and> same_flags p p'"
proof -
  obtain ptr R where *: "frames states (ref_stack p) ptr R" "slot p ptr R" using assms by (auto simp: ready_def)
  have "closed (True # states) (p\<lparr>root := R (Array []), ref_stack := ptr # ref_stack p\<rparr>)"
    "closed (False # states) (p\<lparr>root := R (Object []), ref_stack := ptr # ref_stack p\<rparr>)"
    using *(1) by (force simp: closed_def)+
  then show "\<exists>p'. start_array p = Inr p' \<and> closed (True # states) p' \<and> same_flags p p'"
    and "\<exists>p'. start_object p = Inr p' \<and> closed (False # states) p' \<and> same_flags p p'"
    using slot_start [OF *(2)] by (auto simp: same_flags_def)
qed

lemma closed_end: "closed (b # bs) p \<Longrightarrow> \<exists>p'. sax_end p = Inr p' \<and> closed bs p' \<and> same_flags p p'"
  by (auto simp: closed_def [of "b # bs"] sax_end_def same_flags_def intro!: frames_closed)

lemma closed_array_ready:
  assumes "closed (True # bs) p"
  shows "ready (True # bs) p"
proof -
  obtain q st R a where *: "ref_stack p = q # st" "frames bs st q R" "root p = R (Array a)" "elems_wf a"
    using assms by (auto simp: closed_def) (metis json_type.simps json_wf.simps(2) value_t.distinct json.exhaust)
  show ?thesis
    unfolding ready_def *(1)
    using frames_array [OF *(2,4)] slot_array [OF *(1) frames_hole [OF *(2)] *(3)] by blast
qed

lemma closed_key_ready:
  assumes "closed (False # bs) p" and "utf8_valid k"
  shows "\<exists>p'. sax_key k p = Inr p' \<and> ready (False # bs) p' \<and> same_flags p p'"
proof -
  obtain q st R m where *: "ref_stack p = q # st" "frames bs st q R" "root p = R (Object m)" "omap_ok m" "members_wf m"
    using assms(1) by (auto simp: closed_def) (metis json_type.simps json_wf.simps(1) value_t.distinct json.exhaust)
  note hole = frames_hole [OF *(2)]
  obtain m' where key: "sax_key k p = Inr (p\<lparr>root := R (Object m'), object_element := Some (q @ [Key k])\<rparr>)"
    "map_of m' k \<noteq> None" "\<And>w. omap_update k w m' = omap_update k w m"
    using sax_key_run [OF *(1) hole *(3)] by metis
  let ?p = "p\<lparr>root := R (Object m'), object_element := Some (q @ [Key k])\<rparr>"
  obtain v where v: "map_of m' k = Some v" using key(2) by blast
  have "slot ?p (q @ [Key k]) (\<lambda>w. R (Object (omap_update k w m')))"
    by (rule slot_object [OF _ hole _ _ v, where st = st]) (simp_all add: *(1))
  then have "ready (False # bs) ?p"
    unfolding ready_def key(3) using frames_object [OF *(2,4,5) assms(2)] *(1) by auto
  then show ?thesis using key(1) by (simp add: same_flags_def)
qed

section \<open>One iteration\<close>

definition allowed :: "exn \<Rightarrow> bool" where
  "allowed e \<longleftrightarrow> (\<exists>pos w. e = parse_error_create 101 pos w) \<or> (\<exists>w. e = out_of_range_create 406 w)"

definition tok_ok :: "parser \<Rightarrow> bool" where
  "tok_ok p \<longleftrightarrow> token_ok (last_token p) (m_lexer p)"

lemma tok_ok_get_token [simp]: "tok_ok (get_token p)"
  using token_ok_scan [of "m_lexer p"] by (auto simp: tok_ok_def get_token_def split: prod.split)

fun outcome_ok :: "parser \<Rightarrow> parser outcome \<Rightarrow> bool" where
  "outcome_ok p (Return b p') \<longleftrightarrow> allow_exceptions p' = allow_exceptions p \<and>
     (if b then closed [] p' \<and> errored p' = errored p else errored p' \<and> \<not> allow_exceptions p)"
| "outcome_ok p (Continue st p') \<longleftrightarrow> ready st p' \<and> tok_ok p' \<and> same_flags p p'"
| "outcome_ok p (Skip st p') \<longleftrightarrow> closed st p' \<and> same_flags p p'"
| "outcome_ok p (Break st p') \<longleftrightarrow> closed st p' \<and> same_flags p p'"

definition result_ok :: "parser \<Rightarrow> exn + parser outcome \<Rightarrow> bool" where
  "result_ok p r = (case r of Inl e \<Rightarrow> allow_exceptions p \<and> allowed e | Inr out \<Rightarrow> outcome_ok p out)"

lemma result_ok_fail:
  assumes "allowed ex" and "same_flags p p'"
  shows "result_ok p (mapR (\<lambda>(b, p''). Return b p'') (sax_parse_error ex p'))"
  using assms by (auto simp: result_ok_def sax_parse_error_def same_flags_def)

lemma result_ok_fail_101: "same_flags p p' \<Longrightarrow> result_ok p (fail_101 t c p')"
  unfolding fail_101_def by (rule result_ok_fail) (auto simp: allowed_def parser_error_101_def syntax_error_def overflow_error_def)

lemma same_flags_trans: "same_flags p p' \<Longrightarrow> same_flags p' p'' \<Longrightarrow> same_flags p p''"
  by (simp add: same_flags_def)

lemma result_ok_value:
  assumes "ready states p" and "json_wf v"
  shows "result_ok p (mapR (Break states) (sax_value v p))"
  using closed_value [OF assms] by (auto simp: result_ok_def)

lemma result_ok_end:
  assumes "closed (b # bs) p'" and "same_flags p p'"
  shows "result_ok p (mapR (Break bs) (sax_end p'))" and "result_ok p (mapR (Skip bs) (sax_end p'))"
  using closed_end [OF assms(1)] same_flags_trans [OF assms(2)] by (auto simp: result_ok_def)

lemma result_ok_member_head:
  assumes "closed (False # bs) p'" and "tok_ok p'" and "same_flags p p'"
  shows "result_ok p (parse_member_head (False # bs) p')"
proof (cases "last_token p' = value_string_tok")
  case True
  then have "utf8_valid (token_buffer (m_lexer p'))" using assms(2) by (simp add: tok_ok_def token_ok_def)
  then obtain p1 where "sax_key (token_buffer (m_lexer p')) p' = Inr p1" "ready (False # bs) p1" "same_flags p p1"
    using closed_key_ready [OF assms(1)] same_flags_trans [OF assms(3)] by blast
  then show ?thesis
    using True ready_get_token [of "False # bs"] result_ok_fail_101 [of p "get_token p1"]
    by (auto simp: parse_member_head_def Let_def result_ok_def simp del: m_lexer_get_token)
next
  case False
  then show ?thesis using result_ok_fail_101 [OF assms(3)] by (simp add: parse_member_head_def)
qed

lemma token_step_ok:
  assumes "ready states p" and "tok_ok p"
  shows "result_ok p (token_step states p)"
proof -
  have refl: "same_flags p p" by (simp add: same_flags_def)
  obtain p1 where a: "start_array p = Inr p1" "closed (True # states) p1" "same_flags p p1"
    using closed_start(1) [OF assms(1)] by blast
  obtain p2 where ob: "start_object p = Inr p2" "closed (False # states) p2" "same_flags p p2"
    using closed_start(2) [OF assms(1)] by blast
  have arr: "result_ok p (if last_token (get_token p1) = end_array then mapR (Break states) (sax_end (get_token p1))
      else Inr (Continue (True # states) (get_token p1)))"
    using ready_get_token [OF closed_array_ready [OF a(2)]] a(2,3) result_ok_end(1) [of True states "get_token p1" p]
    by (simp add: result_ok_def del: m_lexer_get_token)
  have obj: "result_ok p (if last_token (get_token p2) = end_object then mapR (Break states) (sax_end (get_token p2))
      else parse_member_head (False # states) (get_token p2))"
    using ob(2,3) result_ok_end(1) [of False states "get_token p2" p] result_ok_member_head [of states "get_token p2" p]
    by (simp del: m_lexer_get_token)
  have overflow: "result_ok p (mapR (\<lambda>(b, p'). Return b p') (sax_parse_error (out_of_range_create 406 w) p))" for w
    by (rule result_ok_fail [OF _ refl]) (auto simp: allowed_def)
  note val = result_ok_value [OF assms(1)]
  note fail = result_ok_fail_101 [OF refl]
  show ?thesis
  proof (cases "last_token p")
    case value_float_tok
    then show ?thesis
      unfolding token_step_def value_float_tok token_type.case Let_def
      using overflow val [of "Number_float (value_float (m_lexer p))"] by (simp add: overflow_error_def)
  next
    case begin_array
    then show ?thesis using arr a(1) by (simp add: token_step_def Let_def del: m_lexer_get_token)
  next
    case begin_object
    then show ?thesis using obj ob(1) by (simp add: token_step_def Let_def del: m_lexer_get_token)
  qed (use assms(2) val fail in \<open>simp_all add: token_step_def tok_ok_def token_ok_def\<close>)
qed

lemma state_step_ok:
  assumes "closed states p"
  shows "result_ok p (state_step states p)"
proof (cases states)
  case Nil
  then show ?thesis using assms by (simp add: state_step_def result_ok_def)
next
  case (Cons b bs)
  have closed: "closed (b # bs) (get_token p)" "closed (b # bs) (get_token (get_token p))"
    using assms Cons by simp_all
  have flags: "same_flags p (get_token p)" "same_flags p (get_token (get_token p))"
    by (simp_all add: same_flags_def [of p p])
  show ?thesis
  proof (cases b)
    case True
    have "ready (True # bs) (get_token (get_token p))"
      using closed_array_ready closed(2) True by simp
    then have "result_ok p (Inr (Continue states (get_token (get_token p))))"
      using flags(2) Cons True by (simp add: result_ok_def)
    then show ?thesis
      using Cons True result_ok_end(2) [OF closed(1) flags(1)] result_ok_fail_101 [OF flags(1)]
      by (simp add: state_step_def Let_def del: m_lexer_get_token)
  next
    case False
    then show ?thesis
      using Cons result_ok_end(2) [OF closed(1) flags(1)] result_ok_fail_101 [OF flags(1)]
        result_ok_member_head [OF _ tok_ok_get_token flags(2)] closed(2)
      by (simp add: state_step_def Let_def del: m_lexer_get_token)
  qed
qed

section \<open>The loop\<close>

definition loop_ok :: "parser \<Rightarrow> exn + (bool \<times> parser) \<Rightarrow> bool" where
  "loop_ok p r =
     (case r of
        Inl e \<Rightarrow> allow_exceptions p \<and> allowed e
      | Inr (b, p') \<Rightarrow> outcome_ok p (Return b p'))"

lemma loop_ok_same_flags: "same_flags p p' \<Longrightarrow> loop_ok p r = loop_ok p' r"
  by (simp add: loop_ok_def same_flags_def split: sum.split)

lemma sax_parse_loop_ok:
  "(if skip then closed states p else ready states p \<and> tok_ok p) \<Longrightarrow> loop_ok p (sax_parse_loop skip states p)"
proof (induction skip states p rule: sax_parse_loop.induct)
  case (1 skip states p)
  let ?r = "if skip then Inr (Break states p) else token_step states p"
  have ok: "result_ok p ?r"
    using 1(5) token_step_ok [of states p] by (simp add: result_ok_def same_flags_def)
  show ?case
  proof (cases ?r)
    case (Inl e)
    then show ?thesis using ok by (subst sax_parse_loop.simps) (simp add: loop_ok_def result_ok_def)
  next
    case (Inr out)
    then have out: "outcome_ok p out" using ok by (simp add: result_ok_def)
    show ?thesis
    proof (cases out)
      case (Return b p1)
      then show ?thesis using Inr out by (subst sax_parse_loop.simps) (simp add: loop_ok_def)
    next
      case (Continue states1 p1)
      then show ?thesis
        using 1(1) [OF Inr Continue] Inr out loop_ok_same_flags [of p p1]
        by (subst sax_parse_loop.simps) simp
    next
      case (Skip states1 p1)
      then show ?thesis
        using 1(2) [OF Inr Skip] Inr out loop_ok_same_flags [of p p1]
        by (subst sax_parse_loop.simps) simp
    next
      case (Break states1 p1)
      then have flags: "same_flags p p1" using out by simp
      have ok': "result_ok p1 (state_step states1 p1)" using state_step_ok out Break by simp
      have eq: "sax_parse_loop skip states p = bindR (state_step states1 p1) (\<lambda>r'.
          case r' of
            Return b p2 \<Rightarrow> Inr (b, p2)
          | Continue states2 p2 \<Rightarrow> sax_parse_loop False states2 p2
          | Skip states2 p2 \<Rightarrow> sax_parse_loop True states2 p2
          | Break states2 p2 \<Rightarrow> Inr (True, p2))"
        using Inr Break by (subst sax_parse_loop.simps) simp
      show ?thesis
      proof (cases "state_step states1 p1")
        case (Inl e)
        then show ?thesis using ok' flags by (simp add: eq loop_ok_def result_ok_def same_flags_def)
      next
        case (Inr out')
        then have out': "outcome_ok p1 out'" using ok' by (simp add: result_ok_def)
        show ?thesis
        proof (cases out')
          case (Return b p2)
          then show ?thesis
            using Inr out' flags by (cases b) (simp_all add: eq loop_ok_def same_flags_def)
        next
          case (Continue states2 p2)
          then show ?thesis
            using 1(3) [OF \<open>?r = Inr out\<close> Break Inr Continue] Inr out' flags
              loop_ok_same_flags [of p p1] loop_ok_same_flags [of p1 p2]
            by (simp add: eq)
        next
          case (Skip states2 p2)
          then show ?thesis
            using 1(4) [OF \<open>?r = Inr out\<close> Break Inr Skip] Inr out' flags
              loop_ok_same_flags [of p p1] loop_ok_same_flags [of p1 p2]
            by (simp add: eq)
        next
          case (Break states2 p2)
          then show ?thesis using Inr state_step_avail(3) by blast
        qed
      qed
    qed
  qed
qed

section \<open>\<open>json::parse\<close>\<close>

lemma parser_parse_ok:
  assumes "ready [] p" and "tok_ok p" and "\<not> errored p"
  shows "case parser_parse only p of
      Inl e \<Rightarrow> allow_exceptions p \<and> allowed e
    | Inr j \<Rightarrow> json_wf j \<or> j = Discarded \<and> \<not> allow_exceptions p"
proof -
  have ok: "loop_ok p (sax_parse_internal p)"
    using sax_parse_loop_ok [of False "[]" p] assms(1,2) by (simp add: sax_parse_internal_def)
  show ?thesis
  proof (cases "sax_parse_internal p")
    case (Inl e)
    then show ?thesis using ok by (simp add: parser_parse_def loop_ok_def)
  next
    case (Inr r)
    obtain b p1 where r: "r = (b, p1)" by force
    then have out: "outcome_ok p (Return b p1)" using ok Inr by (simp add: loop_ok_def)
    let ?p2 = "if only then get_token p1 else p1"
    have flags: "errored ?p2 = errored p1" "allow_exceptions ?p2 = allow_exceptions p" "root ?p2 = root p1"
      using out by (simp_all add: get_token_def split: prod.split)
    have wf: "\<not> errored p1 \<Longrightarrow> json_wf (root p1)" using out by (auto simp: closed_def split: if_splits)
    have err: "errored p1 \<Longrightarrow> \<not> allow_exceptions p" using out assms(3) by (auto split: if_splits)
    show ?thesis
    proof (cases "only \<and> last_token ?p2 \<noteq> end_of_input")
      case True
      then show ?thesis
        using flags Inr r
        by (auto simp: parser_parse_def Let_def sax_parse_error_def allowed_def parser_error_101_def syntax_error_def overflow_error_def
            simp del: m_lexer_get_token)
    next
      case False
      then have "parser_parse only p = Inr (if errored p1 then Discarded else root p1)"
        using Inr r flags by (auto simp: parser_parse_def Let_def simp del: m_lexer_get_token)
      then show ?thesis using wf err by simp
    qed
  qed
qed

lemma parser_init_ok: "ready [] (parser_init allow s)" "tok_ok (parser_init allow s)"
    "errored (parser_init allow s) = False" "allow_exceptions (parser_init allow s) = allow"
proof -
  let ?p = "\<lparr>root = Null, ref_stack = [], object_element = None, errored = False, allow_exceptions = allow,
    last_token = uninitialized, m_lexer = lexer_init s\<rparr>"
  have "ready [] ?p" using frames_root slot_root [of ?p] by (auto simp: ready_def)
  then show "ready [] (parser_init allow s)" unfolding parser_init_def by (rule ready_get_token)
  show "tok_ok (parser_init allow s)" by (simp add: parser_init_def)
  show "errored (parser_init allow s) = False" "allow_exceptions (parser_init allow s) = allow"
    by (simp_all add: parser_init_def get_token_def split: prod.split)
qed

lemma json_parse_ok: "case json_parse s of Inl e \<Rightarrow> allowed e | Inr j \<Rightarrow> json_wf j"
  using parser_parse_ok [OF parser_init_ok(1,2), of True s True] parser_init_ok(3,4)
  by (simp add: json_parse_def split: sum.splits)

lemma json_parse_noexcept_ok: "\<exists>j. json_parse_noexcept s = Inr j \<and> (json_wf j \<or> j = Discarded)"
  using parser_parse_ok [OF parser_init_ok(1,2), of False s True] parser_init_ok(3,4)
  by (simp add: json_parse_noexcept_def split: sum.splits)

end
