(* ===== verification/Json_Wire.thy ===== *)
theory Json_Wire
  imports Json_Roundtrip Json_Safety
begin

text \<open>
  JSON texts as messages between the programs. A program builds an object, writes it with \<open>dump()\<close> and
  sends it, the client with a null character after it; the receiver parses the bytes, reads fields, and may
  write the value again. Parsing and writing again give the same bytes.
\<close>

section \<open>What a parsed text says\<close>

lemma reparse_scalar [simp]:
  "get_int (reparse v) = get_int v" "get_string (reparse v) = get_string v"
  by (cases v; simp add: get_int_def get_string_def)+

lemma json_type_reparse: "is_object (reparse v) = is_object v" "(reparse v = Null) = (v = Null)"
  by (cases v; simp add: is_object_def)+

lemma map_of_reparse: "map_of (map (\<lambda>(k, v). (k, reparse v)) m) k = map_option reparse (map_of m k)"
  by (induction m) auto

lemma json_text_reparse:
  shows "json_ok v \<Longrightarrow> json_text (reparse v) = json_text v"
    and "members_ok m \<Longrightarrow> members_text (map (\<lambda>(k, v). (k, reparse v)) m) = members_text m"
    and "elems_ok a \<Longrightarrow> elems_text (map reparse a) = elems_text a"
  by (induction v and m and a rule: printable_members_printable_elems_printable.induct)
     (auto simp: reparse_Object reparse_elems_map simp del: reparse.simps(1))

lemma printable_reparse:
  shows "json_ok v \<Longrightarrow> printable v \<Longrightarrow> printable (reparse v)"
    and "members_ok m \<Longrightarrow> members_printable m \<Longrightarrow> members_printable (map (\<lambda>(k, v). (k, reparse v)) m)"
    and "elems_ok a \<Longrightarrow> elems_printable a \<Longrightarrow> elems_printable (map reparse a)"
  by (induction v and m and a rule: printable_members_printable_elems_printable.induct)
     (auto simp: reparse_Object reparse_elems_map simp del: reparse.simps(1))

lemma reparse_strings: "reparse (json_of_strings ss) = json_of_strings ss"
  by (simp add: json_of_strings_def reparse_elems_map json_of_string_def)

text \<open>Fields of a parsed object.\<close>

lemma field_int_reparse:
  "omap_ok m \<Longrightarrow> map_of m k = Some v \<Longrightarrow> get_int v = Inr i \<Longrightarrow>
     field_int k (reparse (Object m)) = Inr (i, reparse (Object m))"
  by (simp add: reparse_Object field_int_found map_of_reparse del: reparse.simps(1))

lemma field_string_reparse:
  "omap_ok m \<Longrightarrow> map_of m k = Some v \<Longrightarrow> get_string v = Inr t \<Longrightarrow>
     field_string k (reparse (Object m)) = Inr (t, reparse (Object m))"
  by (simp add: reparse_Object field_string_found map_of_reparse del: reparse.simps(1))

lemma field_int_reparse_missing:
  "omap_ok m \<Longrightarrow> map_of m k = None \<Longrightarrow>
     field_int k (reparse (Object m)) = Inl (type_error_create 302 ''type must be number, but is null'')"
  by (simp add: reparse_Object field_int_missing map_of_reparse del: reparse.simps(1))

lemma get_int_of_int [simp]: "is_int32 i \<Longrightarrow> get_int (json_of_int i) = Inr i"
  by (simp add: get_int_def json_of_int_def to_int32_id)

lemma get_string_of_string [simp]: "get_string (json_of_string t) = Inr t"
  by (simp add: get_string_def json_of_string_def)

section \<open>Texts as C strings\<close>

lemma no_nul_show_nat: "CHR 0x00 \<notin> set (show_nat n)"
  using show_nat_digits [of n] by (auto simp: is_digit_def)

lemma no_nul_show_int: "CHR 0x00 \<notin> set (show_int i)"
  using no_nul_show_nat by (auto simp: show_int_def)

lemma no_nul_hex: "d < 16 \<Longrightarrow> CHR 0x00 \<noteq> hex_digit_lower d"
proof
  assume "d < 16" and "CHR 0x00 = hex_digit_lower d"
  then have "(of_char (hex_digit_lower d) :: nat) = of_char (CHR 0x00 :: char)" by simp
  with \<open>d < 16\<close> show False by (simp add: hex_digit_lower_def split: if_splits)
qed

lemma no_nul_hex4: "CHR 0x00 \<notin> set (hex4 n)"
  by (simp add: hex4_def no_nul_hex)

lemma no_nul_esc_char: "CHR 0x00 \<notin> set (esc_char c)"
  using no_nul_hex4 by (auto simp: esc_char_def backslash_def quote_def)

lemma no_nul_quoted: "CHR 0x00 \<notin> set (quoted s)"
  using no_nul_esc_char by (auto simp: quoted_def quote_def escape_string_def)

lemma no_nul_text:
  shows "float_free v \<Longrightarrow> CHR 0x00 \<notin> set (json_text v)"
    and "members_float_free m \<Longrightarrow> CHR 0x00 \<notin> set (members_text m)"
    and "elems_float_free a \<Longrightarrow> CHR 0x00 \<notin> set (elems_text a)"
  by (induction v and m and a rule: printable_members_printable_elems_printable.induct)
     (auto simp: no_nul_show_int no_nul_quoted)

text \<open>The text with its null character, or in a buffer filled up with null characters, parses to the value.\<close>

lemma text_end_nul [simp]: "text_end (CHR 0x00 # r)"
  by (simp add: text_end_def)

lemma text_end_replicate [simp]: "text_end (replicate n (CHR 0x00))"
  by (cases n) (simp_all add: text_end_def)

section \<open>Forwarding\<close>

text \<open>
  No integer is the smallest 64-bit integer. The parser accepts that value and \<open>dump_integer\<close> cannot write
  it.
\<close>

fun no_int_min :: "json \<Rightarrow> bool" and members_no_int_min :: "(string \<times> json) list \<Rightarrow> bool"
  and elems_no_int_min :: "json list \<Rightarrow> bool" where
  "no_int_min (Object m) \<longleftrightarrow> members_no_int_min m"
| "no_int_min (Array a) \<longleftrightarrow> elems_no_int_min a"
| "no_int_min (Number_integer i) \<longleftrightarrow> i \<noteq> - (2 ^ 63)"
| "no_int_min _ \<longleftrightarrow> True"
| "members_no_int_min [] \<longleftrightarrow> True"
| "members_no_int_min ((k, v) # m) \<longleftrightarrow> no_int_min v \<and> members_no_int_min m"
| "elems_no_int_min [] \<longleftrightarrow> True"
| "elems_no_int_min (v # a) \<longleftrightarrow> no_int_min v \<and> elems_no_int_min a"

lemma json_wf_ok:
  shows "json_wf v \<Longrightarrow> json_ok v" and "members_wf m \<Longrightarrow> members_ok m" and "elems_wf a \<Longrightarrow> elems_ok a"
  by (induction v and m and a rule: printable_members_printable_elems_printable.induct) auto

lemma json_wf_printable:
  shows "json_wf v \<Longrightarrow> float_free v \<Longrightarrow> no_int_min v \<Longrightarrow> printable v"
    and "members_wf m \<Longrightarrow> members_float_free m \<Longrightarrow> members_no_int_min m \<Longrightarrow> members_printable m"
    and "elems_wf a \<Longrightarrow> elems_float_free a \<Longrightarrow> elems_no_int_min a \<Longrightarrow> elems_printable a"
proof (induction v and m and a rule: printable_members_printable_elems_printable.induct)
  case (6 i)
  then show ?case by (auto simp: is_int64_def)
qed (auto simp: is_uint64_def)

lemma json_parse_wf: "json_parse s = Inr v \<Longrightarrow> json_wf v"
  using json_parse_ok [of s] by simp

lemma forward_parsed:
  assumes "json_parse s = Inr v" and "float_free v" and "no_int_min v"
  shows "dump_default v = Inr (json_text v)" and "json_parse (json_text v) = Inr (reparse v)"
    and "json_eq v (reparse v)" and "json_text (reparse v) = json_text v"
proof -
  have wf: "json_wf v" by (rule json_parse_wf [OF assms(1)])
  have print: "printable v" by (rule json_wf_printable(1) [OF wf assms(2,3)])
  show "dump_default v = Inr (json_text v)" by (rule dump_default_text [OF print])
  show "json_parse (json_text v) = Inr (reparse v)" by (rule json_parse_text [OF print assms(2)])
  show "json_eq v (reparse v)" by (rule json_eq_reparse(1) [OF float_free_comparable(1) [OF assms(2)] json_wf_ok(1) [OF wf]])
  show "json_text (reparse v) = json_text v" by (rule json_text_reparse(1) [OF json_wf_ok(1) [OF wf]])
qed

end
