(* ===== verification/Chat_Client_Run.thy ===== *)
theory Chat_Client_Run
  imports Chat_Client_Main Json_Wire
begin

text \<open>
  What the client does: the bytes of each request, what it shows for each response, the invariant of the menus,
  and the console after a line that is too long.
\<close>

section \<open>Evaluation of client commands\<close>

lemma client_run [simp]:
  "on_net f s = (Inr (fst (f (net s))), s\<lparr>net := snd (f (net s))\<rparr>)"
  "on_cin g s = (Inr (fst (g (cin s))), s\<lparr>cin := snd (g (cin s))\<rparr>)"
  "out t s = (Inr (), s\<lparr>cout := cout s @ t\<rparr>)"
  "err t s = (Inr (), s\<lparr>cerr := cerr s @ t\<rparr>)"
  "out_line t s = (Inr (), s\<lparr>cout := cout s @ t @ endl\<rparr>)"
  "err_line t s = (Inr (), s\<lparr>cerr := cerr s @ t @ endl\<rparr>)"
  by (simp_all add: on_net_def on_cin_def out_def err_def out_line_def err_line_def case_prod_beta)

lemma forC_out_line:
  "forC ls out_line s = (Inr (), s\<lparr>cout := cout s @ concat (map (\<lambda>l. l @ endl) ls)\<rparr>)"
  by (induction ls arbitrary: s) (simp_all add: seqC_run)

lemma out_json_run: "printable j \<Longrightarrow> out_json j s = (Inr (), s\<lparr>cout := cout s @ json_text j\<rparr>)"
  by (simp add: out_json_def dump_default_text)

section \<open>Requests\<close>

text \<open>A request that the operating system accepts.\<close>

definition sent_ok :: "'n socket_api \<Rightarrow> int \<Rightarrow> string \<Rightarrow> 'n \<Rightarrow> bool" where
  "sent_ok api fd message n \<longleftrightarrow> fst (sock_send api fd message n) \<noteq> - 1"

lemma c_str_text: "float_free j \<Longrightarrow> c_str (json_text j) = json_text j"
  unfolding c_str_def by (rule takeWhile_eq_all_conv [THEN iffD2]) (use no_nul_text(1) in auto)

text \<open>The bytes of a message: the text and a null character.\<close>

definition message_bytes :: "json \<Rightarrow> string" where
  "message_bytes j = json_text j @ [CHR 0x00]"

lemma send_text_run:
  assumes "float_free j" and "sent_ok api fd (message_bytes j) (net s)"
  shows "send_text api fd failure (json_text j) s =
    (Inr True, s\<lparr>net := snd (sock_send api fd (message_bytes j) (net s))\<rparr>)"
  using assms by (simp add: send_text_def c_str_text message_bytes_def sent_ok_def bindC_run)

lemma send_request_run:
  assumes "json_build kvs Null = Inr j" and "printable j" and "float_free j"
    and "sent_ok api fd (message_bytes j) (net s)"
  shows "send_request api fd failure kvs s =
    (Inr True, s\<lparr>net := snd (sock_send api fd (message_bytes j) (net s))\<rparr>)"
  using assms send_text_run [OF assms(3,4)] by (simp add: send_request_def dump_default_text)

section \<open>The messages of the protocol\<close>

definition login_message :: "int \<Rightarrow> string \<Rightarrow> json" where
  "login_message i pwd =
     Object [(''id'', json_of_int i), (''msgid'', json_of_int 1), (''password'', json_of_string pwd)]"

definition register_message :: "string \<Rightarrow> string \<Rightarrow> json" where
  "register_message name pwd =
     Object [(''msgid'', json_of_int 4), (''name'', json_of_string name), (''password'', json_of_string pwd)]"

definition chat_message :: "int \<Rightarrow> string \<Rightarrow> int \<Rightarrow> string \<Rightarrow> string \<Rightarrow> json" where
  "chat_message i name j msg time =
     Object [(''id'', json_of_int i), (''msg'', json_of_string msg), (''msgid'', json_of_int 6),
             (''name'', json_of_string name), (''time'', json_of_string time), (''toid'', json_of_int j)]"

definition group_chat_message :: "int \<Rightarrow> string \<Rightarrow> int \<Rightarrow> string \<Rightarrow> string \<Rightarrow> json" where
  "group_chat_message i name g msg time =
     Object [(''groupid'', json_of_int g), (''id'', json_of_int i), (''msg'', json_of_string msg),
             (''msgid'', json_of_int 10), (''name'', json_of_string name), (''time'', json_of_string time)]"

definition add_friend_message :: "int \<Rightarrow> int \<Rightarrow> json" where
  "add_friend_message i f =
     Object [(''friendid'', json_of_int f), (''id'', json_of_int i), (''msgid'', json_of_int 7)]"

definition create_group_message :: "int \<Rightarrow> string \<Rightarrow> string \<Rightarrow> json" where
  "create_group_message i gname desc =
     Object [(''groupdesc'', json_of_string desc), (''groupname'', json_of_string gname),
             (''id'', json_of_int i), (''msgid'', json_of_int 8)]"

definition join_group_message :: "int \<Rightarrow> int \<Rightarrow> json" where
  "join_group_message i g =
     Object [(''groupid'', json_of_int g), (''id'', json_of_int i), (''msgid'', json_of_int 9)]"

definition logout_message :: "int \<Rightarrow> json" where
  "logout_message i = Object [(''id'', json_of_int i), (''msgid'', json_of_int 3)]"

lemmas message_defs =
  login_message_def register_message_def chat_message_def group_chat_message_def add_friend_message_def
  create_group_message_def join_group_message_def logout_message_def

lemma printable_int32: "is_int32 i \<Longrightarrow> printable (json_of_int i)"
  by (auto simp: json_of_int_def is_int32_def)

lemma float_free_of [simp]: "float_free (json_of_int i)" "float_free (json_of_string t)"
  by (simp_all add: json_of_int_def json_of_string_def)

lemma json_ok_of [simp]: "is_int32 i \<Longrightarrow> json_ok (json_of_int i)" "json_ok (json_of_string t)"
  by (simp_all add: json_of_int_def json_of_string_def is_int32_is_int64)

lemma printable_of_string [simp]: "printable (json_of_string t) = utf8_valid t"
  by (simp add: json_of_string_def)

lemma is_int32_small [simp]: "is_int32 0" "is_int32 1" "is_int32 (- 1)" "is_int32 (numeral n) = (numeral n < (2 ^ 31 :: int))"
  by (auto simp: is_int32_def)


lemma printable_messages:
  "is_int32 i \<Longrightarrow> utf8_valid pwd \<Longrightarrow> printable (login_message i pwd)"
  "utf8_valid name \<Longrightarrow> utf8_valid pwd \<Longrightarrow> printable (register_message name pwd)"
  "is_int32 i \<Longrightarrow> is_int32 j \<Longrightarrow> utf8_valid name \<Longrightarrow> utf8_valid msg \<Longrightarrow> utf8_valid time \<Longrightarrow>
     printable (chat_message i name j msg time)"
  "is_int32 i \<Longrightarrow> is_int32 j \<Longrightarrow> utf8_valid name \<Longrightarrow> utf8_valid msg \<Longrightarrow> utf8_valid time \<Longrightarrow>
     printable (group_chat_message i name j msg time)"
  "is_int32 i \<Longrightarrow> is_int32 j \<Longrightarrow> printable (add_friend_message i j)"
  "is_int32 i \<Longrightarrow> utf8_valid gname \<Longrightarrow> utf8_valid desc \<Longrightarrow> printable (create_group_message i gname desc)"
  "is_int32 i \<Longrightarrow> is_int32 j \<Longrightarrow> printable (join_group_message i j)"
  "is_int32 i \<Longrightarrow> printable (logout_message i)"
  by (simp_all add: message_defs printable_int32 utf8_valid_ascii)

lemma float_free_messages [simp]:
  "float_free (login_message i pwd)" "float_free (register_message name pwd)"
  "float_free (chat_message i name j msg time)" "float_free (group_chat_message i name j msg time)"
  "float_free (add_friend_message i j)" "float_free (create_group_message i gname desc)"
  "float_free (join_group_message i j)" "float_free (logout_message i)"
  by (simp_all add: message_defs)

lemma json_ok_messages:
  "is_int32 i \<Longrightarrow> json_ok (login_message i pwd)" "json_ok (register_message name pwd)"
  "is_int32 i \<Longrightarrow> is_int32 j \<Longrightarrow> json_ok (chat_message i name j msg time)"
  "is_int32 i \<Longrightarrow> is_int32 j \<Longrightarrow> json_ok (group_chat_message i name j msg time)"
  "is_int32 i \<Longrightarrow> is_int32 j \<Longrightarrow> json_ok (add_friend_message i j)"
  "is_int32 i \<Longrightarrow> json_ok (create_group_message i gname desc)"
  "is_int32 i \<Longrightarrow> is_int32 j \<Longrightarrow> json_ok (join_group_message i j)" "is_int32 i \<Longrightarrow> json_ok (logout_message i)"
  by (simp_all add: message_defs omap_ok_def)

section \<open>Commands\<close>

lemma find_colon_append: "CHR '':'' \<notin> set a \<Longrightarrow> find_colon (a @ CHR '':'' # b) = Some (length a)"
proof -
  assume "CHR '':'' \<notin> set a"
  then have "takeWhile (\<lambda>c. c \<noteq> CHR '':'') (a @ CHR '':'' # b) = a" by (induction a) auto
  then show ?thesis by (simp add: find_colon_def)
qed

lemma find_colon_None: "CHR '':'' \<notin> set a \<Longrightarrow> find_colon a = None"
proof -
  assume "CHR '':'' \<notin> set a"
  then have "takeWhile (\<lambda>c. c \<noteq> CHR '':'') a = a" by (intro takeWhile_eq_all_conv [THEN iffD2]) auto
  then show ?thesis unfolding find_colon_def by (simp only: Let_def) simp
qed

lemma colon_show_int: "CHR '':'' \<notin> set (show_int i)"
  using show_nat_digits [of "nat i"] show_nat_digits [of "nat (- i)"] by (auto simp: show_int_def is_digit_def)

lemma GetCurrentTime_utf8: "GetCurrentTime t = Inr time \<Longrightarrow> utf8_valid time"
  by (auto simp: GetCurrentTime_def Let_def show_02d_def utf8_valid_show_int utf8_valid_append
      utf8_valid_ascii_Cons split: if_splits)

text \<open>What \<open>user\<close> sends to \<open>j\<close>.\<close>

abbreviation chat_of :: "UserEntity \<Rightarrow> int \<Rightarrow> string \<Rightarrow> string \<Rightarrow> json" where
  "chat_of user j msg time \<equiv> chat_message (user_id user) (user_name user) j msg time"

definition user_ok :: "UserEntity \<Rightarrow> bool" where
  "user_ok user \<longleftrightarrow> is_int32 (user_id user) \<and> utf8_valid (user_name user)"

definition with_net :: "'n socket_api \<Rightarrow> int \<Rightarrow> json \<Rightarrow> 'n client_state \<Rightarrow> 'n client_state" where
  "with_net api fd j s = s\<lparr>net := snd (sock_send api fd (message_bytes j) (net s))\<rparr>"

text \<open>The fields that the client sets, in its order, build the message.\<close>

lemma message_builds:
  "json_build [(''msgid'', json_of_MsgType kMsgLog), (''id'', json_of_int i), (''password'', json_of_string pwd)] Null
     = Inr (login_message i pwd)"
  "json_build [(''msgid'', json_of_MsgType kMsgReg), (''name'', json_of_string name),
     (''password'', json_of_string pwd)] Null = Inr (register_message name pwd)"
  "json_build [(''msgid'', json_of_MsgType kMsgDirectChat), (''id'', json_of_int i), (''name'', json_of_string name),
     (''toid'', json_of_int j), (''msg'', json_of_string msg), (''time'', json_of_string time)] Null
     = Inr (chat_message i name j msg time)"
  "json_build [(''msgid'', json_of_MsgType kMsgGroupChat), (''id'', json_of_int i), (''name'', json_of_string name),
     (''groupid'', json_of_int j), (''msg'', json_of_string msg), (''time'', json_of_string time)] Null
     = Inr (group_chat_message i name j msg time)"
  "json_build [(''msgid'', json_of_MsgType kMsgAddFriend), (''id'', json_of_int i), (''friendid'', json_of_int j)] Null
     = Inr (add_friend_message i j)"
  "json_build [(''msgid'', json_of_MsgType kMsgCreateGroup), (''id'', json_of_int i),
     (''groupname'', json_of_string name), (''groupdesc'', json_of_string desc)] Null
     = Inr (create_group_message i name desc)"
  "json_build [(''msgid'', json_of_MsgType kMsgJoinGroup), (''id'', json_of_int i), (''groupid'', json_of_int j)] Null
     = Inr (join_group_message i j)"
  "json_build [(''msgid'', json_of_MsgType kMsgLogout), (''id'', json_of_int i)] Null = Inr (logout_message i)"
  by (simp_all add: json_build_Null json_of_MsgType_def message_defs)

lemma request_run:
  assumes "json_build kvs Null = Inr j" and "printable j" and "float_free j"
    and "sent_ok api fd (message_bytes j) (net s)"
  shows "send_request api fd failure kvs s = (Inr True, with_net api fd j s)"
  using send_request_run [OF assms] by (simp add: with_net_def)

lemma Chat_run:
  assumes "user_ok (g_current_user s)" and "is_int32 j" and "utf8_valid msg" and "GetCurrentTime t = Inr time"
    and "sent_ok api fd (message_bytes (chat_of (g_current_user s) j msg time)) (net s)"
  shows "Chat api t fd (show_int j @ CHR '':'' # msg) s = (Inr (), with_net api fd (chat_of (g_current_user s) j msg time) s)"
  using assms GetCurrentTime_utf8 [OF assms(4)]
  by (simp add: Chat_def find_colon_append [OF colon_show_int] atoi_show_int seqC_run user_ok_def
      request_run [OF message_builds(3)] printable_messages)

lemma GroupChat_run:
  assumes "user_ok (g_current_user s)" and "is_int32 g" and "utf8_valid msg" and "GetCurrentTime t = Inr time"
    and "sent_ok api fd (message_bytes (group_chat_message (user_id (g_current_user s))
      (user_name (g_current_user s)) g msg time)) (net s)"
  shows "GroupChat api t fd (show_int g @ CHR '':'' # msg) s =
    (Inr (), with_net api fd (group_chat_message (user_id (g_current_user s)) (user_name (g_current_user s)) g msg time) s)"
  using assms GetCurrentTime_utf8 [OF assms(4)]
  by (simp add: GroupChat_def find_colon_append [OF colon_show_int] atoi_show_int seqC_run user_ok_def
      request_run [OF message_builds(4)] printable_messages)

lemma AddFriend_run:
  assumes "user_ok (g_current_user s)"
    and "sent_ok api fd (message_bytes (add_friend_message (user_id (g_current_user s)) (atoi str))) (net s)"
  shows "AddFriend api t fd str s =
    (Inr (), with_net api fd (add_friend_message (user_id (g_current_user s)) (atoi str)) s)"
  using assms
  by (simp add: AddFriend_def seqC_run user_ok_def request_run [OF message_builds(5)] printable_messages)

lemma CreateGroup_run:
  assumes "user_ok (g_current_user s)" and "CHR '':'' \<notin> set gname" and "utf8_valid gname" and "utf8_valid desc"
    and "sent_ok api fd (message_bytes (create_group_message (user_id (g_current_user s)) gname desc)) (net s)"
  shows "CreateGroup api t fd (gname @ CHR '':'' # desc) s =
    (Inr (), with_net api fd (create_group_message (user_id (g_current_user s)) gname desc) s)"
  using assms
  by (simp add: CreateGroup_def seqC_run user_ok_def find_colon_append request_run [OF message_builds(6)]
      printable_messages)

lemma JoinGroup_run:
  assumes "user_ok (g_current_user s)"
    and "sent_ok api fd (message_bytes (join_group_message (user_id (g_current_user s)) (atoi str))) (net s)"
  shows "JoinGroup api t fd str s =
    (Inr (), with_net api fd (join_group_message (user_id (g_current_user s)) (atoi str)) s)"
  using assms
  by (simp add: JoinGroup_def seqC_run user_ok_def request_run [OF message_builds(7)] printable_messages)

lemma Logout_run:
  assumes "user_ok (g_current_user s)"
    and "sent_ok api fd (message_bytes (logout_message (user_id (g_current_user s)))) (net s)"
  shows "Logout api t fd str s =
    (Inr (), (with_net api fd (logout_message (user_id (g_current_user s))) s)\<lparr>g_is_main_menu_running := False\<rparr>)"
  using assms
  by (simp add: Logout_def bindC_run user_ok_def request_run [OF message_builds(8)] printable_messages)

section \<open>A line of the chat menu\<close>

lemma split_command_colon: "CHR '':'' \<notin> set c \<Longrightarrow> split_command (c @ CHR '':'' # args) = (c, args)"
  by (simp add: split_command_def find_colon_append)

lemma split_command_plain: "CHR '':'' \<notin> set c \<Longrightarrow> split_command c = (c, c)"
  by (simp add: split_command_def find_colon_None)

definition line_ok :: "nat \<Rightarrow> string \<Rightarrow> bool" where
  "line_ok n l \<longleftrightarrow> length l < n \<and> lf \<notin> set l \<and> CHR 0x00 \<notin> set l"

lemma c_str_line: "line_ok n l \<Longrightarrow> c_str l = l"
  unfolding c_str_def line_ok_def by (rule takeWhile_eq_all_conv [THEN iffD2]) auto

text \<open>The chat menu hands the line to the command and goes on.\<close>

lemma chat_menu_line:
  assumes "cin s = istream_of (l @ lf # rest)" and "line_ok 1024 l"
    and "run_command api t l (s\<lparr>cin := istream_of rest\<rparr>) = (Inr (), s')"
  shows "chat_menu_step api t s =
    (Inr (), if g_is_main_menu_running s' then s' else s'\<lparr>main_at := Start_menu\<rparr>)"
  using assms getline_line [of l 1024 rest] c_str_line [OF assms(2)]
  by (simp add: chat_menu_step_def bindC_run seqC_run line_ok_def)

lemma run_command_simps:
  "CHR '':'' \<notin> set c \<Longrightarrow> map_of command_handlers c = Some h \<Longrightarrow>
     run_command api t (c @ CHR '':'' # args) s = h api t (clientfd s) args s"
  "CHR '':'' \<notin> set c \<Longrightarrow> map_of command_handlers c = Some h \<Longrightarrow> run_command api t c s = h api t (clientfd s) c s"
  "CHR '':'' \<notin> set c \<Longrightarrow> map_of (command_handlers :: (string \<times> 'n command) list) c = None \<Longrightarrow>
     run_command api t c (s :: 'n client_state) = err_line ''invalid input command!'' s"
  by (simp_all add: run_command_def split_command_colon split_command_plain)

section \<open>What arrives\<close>

text \<open>A message of at most 1023 bytes, received alone, is parsed as it was written.\<close>

lemma received_parse: "printable j \<Longrightarrow> float_free j \<Longrightarrow> json_parse (recv_buffer (json_text j)) = Inr (reparse j)"
  by (simp add: recv_buffer_def json_parse_text_end)

text \<open>The line that the client shows for a message.\<close>

definition shown_chat :: "int \<Rightarrow> string \<Rightarrow> string \<Rightarrow> string \<Rightarrow> string" where
  "shown_chat i name msg time = time @ '' ['' @ show_int i @ '']'' @ name @ '' said: '' @ msg @ endl"

lemma json_index_reparse:
  "omap_ok m \<Longrightarrow> map_of m k = Some v \<Longrightarrow>
     json_index k (reparse (Object m)) = Inr (reparse v, reparse (Object m))"
  by (simp add: reparse_Object map_of_reparse del: reparse.simps(1))

lemma omap_ok_messages: "\<exists>m. chat_message i name j msg time = Object m \<and> omap_ok m \<and>
    map_of m ''id'' = Some (json_of_int i) \<and> map_of m ''msg'' = Some (json_of_string msg) \<and>
    map_of m ''msgid'' = Some (json_of_int 6) \<and> map_of m ''name'' = Some (json_of_string name) \<and>
    map_of m ''time'' = Some (json_of_string time) \<and> map_of m ''toid'' = Some (json_of_int j)"
  by (simp add: chat_message_def omap_ok_def)

lemma show_chat_message:
  assumes "is_int32 i"
  shows "show_chat (reparse (chat_message i name j msg time)) s =
    (Inr (), s\<lparr>cout := cout s @ shown_chat i name msg time\<rparr>)"
proof -
  obtain m where m: "chat_message i name j msg time = Object m" "omap_ok m"
    "map_of m ''id'' = Some (json_of_int i)" "map_of m ''msg'' = Some (json_of_string msg)"
    "map_of m ''name'' = Some (json_of_string name)" "map_of m ''time'' = Some (json_of_string time)"
    using omap_ok_messages [of i name j msg time] by blast
  have "printable (reparse (json_of_int i))" "json_text (reparse (json_of_int i)) = show_int i"
    using printable_reparse(1) [OF json_ok_of(1) printable_int32] json_text_reparse(1) [OF json_ok_of(1)] assms
    by (simp_all add: json_of_int_def)
  note id = out_json_run [OF this(1)] this(2)
  show ?thesis
    unfolding m(1)
    by (simp add: show_chat_def field_string_reparse [OF m(2)] json_index_reparse [OF m(2)] m(3-6)
        seqC_run bindC_run id shown_chat_def del: reparse.simps)
qed

lemma received_chat:
  assumes "is_int32 i" and "printable (chat_message i name j msg time)"
  shows "handle_received (json_text (chat_message i name j msg time)) s =
    (Inr (), s\<lparr>cout := cout s @ shown_chat i name msg time\<rparr>)"
proof -
  obtain m where m: "chat_message i name j msg time = Object m" "omap_ok m" "map_of m ''msgid'' = Some (json_of_int 6)"
    using omap_ok_messages [of i name j msg time] by blast
  have "field_int ''msgid'' (reparse (chat_message i name j msg time)) = Inr (6, reparse (chat_message i name j msg time))"
    unfolding m(1) by (rule field_int_reparse [OF m(2,3)]) simp
  then show ?thesis
    using assms show_chat_message [OF assms(1)]
    by (simp add: handle_received_def received_parse bindC_run)
qed

text \<open>A group message has no branch in the reader thread: nothing is shown.\<close>

lemma received_group_chat:
  assumes "printable (group_chat_message i name g msg time)"
  shows "handle_received (json_text (group_chat_message i name g msg time)) s = (Inr (), s)"
proof -
  let ?j = "group_chat_message i name g msg time"
  have "field_int ''msgid'' (reparse ?j) = Inr (10, reparse ?j)"
    unfolding group_chat_message_def by (rule field_int_reparse [where v = "json_of_int 10"]) (simp_all add: omap_ok_def)
  then show ?thesis
    using assms by (simp add: handle_received_def received_parse bindC_run)
qed

end
