(* ===== verification/Chat_Client_Session.thy ===== *)
theory Chat_Client_Session
  imports Chat_Client_Run
begin

text \<open>
  A session of the client: the start menu, the answer to a login, the invariant that ties the flag of the chat
  menu to the place of the main thread, and the console after a line that does not fit its buffer.
\<close>

section \<open>The answer to a login\<close>

definition user_data_lines :: "UserEntity \<Rightarrow> UserEntity list \<Rightarrow> GroupEntity list \<Rightarrow> string list" where
  "user_data_lines user friend_list group_list =
     [''======================login user======================'',
      ''current login user => id:'' @ show_int (user_id user) @ '' name:'' @ user_name user,
      ''----------------------friend list---------------------''] @
     map show_user friend_list @
     [''----------------------group list----------------------''] @
     concat (map show_group group_list) @
     [''======================================================'']"

definition text_of_lines :: "string list \<Rightarrow> string" where
  "text_of_lines ls = concat (map (\<lambda>l. l @ endl) ls)"

lemma ShowCurrentUserData_run:
  "ShowCurrentUserData s = (Inr (), s\<lparr>cout := cout s @
     text_of_lines (user_data_lines (g_current_user s) (g_current_user_friend_list s) (g_current_user_group_list s))\<rparr>)"
  unfolding ShowCurrentUserData_def
  by (simp only: bindC_prim forC_out_line user_data_lines_def text_of_lines_def)

text \<open>Stored direct messages: sender, name, receiver, text, time.\<close>

type_synonym chat = "int \<times> string \<times> int \<times> string \<times> string"

fun chat_json :: "chat \<Rightarrow> json" where
  "chat_json (i, name, j, msg, time) = chat_message i name j msg time"

fun shown :: "chat \<Rightarrow> string" where
  "shown (i, name, j, msg, time) = shown_chat i name msg time"

fun chat_ok :: "chat \<Rightarrow> bool" where
  "chat_ok (i, name, j, msg, time) \<longleftrightarrow>
     is_int32 i \<and> is_int32 j \<and> utf8_valid name \<and> utf8_valid msg \<and> utf8_valid time"

lemma show_offline_chat:
  assumes "chat_ok c"
  shows "show_offline_message (json_text (chat_json c)) s = (Inr (), s\<lparr>cout := cout s @ shown c\<rparr>)"
proof (cases c)
  case (fields i name j msg time)
  have print: "printable (chat_message i name j msg time)" using assms fields by (simp add: printable_messages)
  obtain m where m: "chat_message i name j msg time = Object m" "omap_ok m" "map_of m ''msgid'' = Some (json_of_int 6)"
    using omap_ok_messages [of i name j msg time] by blast
  have "field_int ''msgid'' (reparse (chat_message i name j msg time)) = Inr (6, reparse (chat_message i name j msg time))"
    unfolding m(1) by (rule field_int_reparse [OF m(2,3)]) simp
  then show ?thesis
    using show_chat_message [of i name j msg time s] assms fields
    by (simp add: show_offline_message_def json_parse_text [OF print])
qed

lemma show_offline_chats:
  "\<forall>c \<in> set cs. chat_ok c \<Longrightarrow>
     forC (map (\<lambda>c. json_text (chat_json c)) cs) show_offline_message s =
       (Inr (), s\<lparr>cout := cout s @ concat (map shown cs)\<rparr>)"
  by (induction cs arbitrary: s) (simp_all add: seqC_run show_offline_chat)

lemma HandleLoginResponse_success:
  assumes "field_int ''errno'' js = Inr (0, js)" and "field_int ''id'' js = Inr (i, js)"
    and "field_string ''name'' js = Inr (name, js)"
    and "\<not> contains ''friends'' js" and "\<not> contains ''groups'' js"
    and "if contains ''offlinemsg'' js
         then field_strings ''offlinemsg'' js = Inr (map (\<lambda>c. json_text (chat_json c)) cs, js) else cs = []"
    and "\<forall>c \<in> set cs. chat_ok c"
  defines "user \<equiv> \<lambda>s. (g_current_user s)\<lparr>user_id := i, user_name := name\<rparr>"
  shows "HandleLoginResponse js s =
    (Inr (), s\<lparr>g_current_user := user s, g_is_login_success := True,
       cout := cout s @ text_of_lines (user_data_lines (user s) (g_current_user_friend_list s)
         (g_current_user_group_list s)) @ concat (map shown cs)\<rparr>)"
  using assms(1-6)
  by (cases "contains ''offlinemsg'' js")
     (simp_all add: HandleLoginResponse_def when_contains_def bindC_run seqC_run ShowCurrentUserData_run user_def
       show_offline_chats [OF assms(7)])

lemma HandleLoginResponse_failure:
  assumes "field_int ''errno'' js = Inr (e, js)" and "e \<noteq> 0" and "json_index ''errmsg'' js = Inr (v, js)"
    and "printable v"
  shows "HandleLoginResponse js s =
    (Inr (), s\<lparr>g_is_login_success := False, cerr := cerr s @ json_text v @ endl\<rparr>)"
  using assms by (simp add: HandleLoginResponse_def bindC_run seqC_run dump_default_text)

section \<open>The start menu\<close>

lemma read_number_line:
  assumes "cin s = istream_of (show_int i @ lf # rest)" and "is_int32 i"
  shows "read_number s = (Inr i, s\<lparr>cin := istream_of rest\<rparr>)"
  using assms by (simp add: read_number_def bindC_run seqC_run cin_int_show cin_get_newline)

lemma read_field_line:
  assumes "cin s = istream_of (l @ lf # rest)" and "line_ok 50 l"
  shows "read_field prompt s = (Inr l, s\<lparr>cout := cout s @ prompt, cin := istream_of rest\<rparr>)"
  using assms getline_line [of l 50 rest] c_str_line [OF assms(2)]
  by (simp add: read_field_def bindC_run seqC_run line_ok_def)

definition menu_text :: string where
  "menu_text = text_of_lines start_menu @ ''choice:''"

text \<open>Choosing 1 and giving an id and a password sends the login request and waits for the answer.\<close>

lemma start_menu_login:
  assumes "cin s = istream_of (show_int 1 @ lf # show_int i @ lf # pwd @ lf # rest)"
    and "is_int32 i" and "line_ok 50 pwd" and "utf8_valid pwd"
    and "sent_ok api (clientfd s) (message_bytes (login_message i pwd)) (net s)"
  shows "start_menu_step api s =
    (Inr (), (with_net api (clientfd s) (login_message i pwd) s)
       \<lparr>g_is_login_success := False, main_at := Wait_login, cin := istream_of rest,
        cout := cout s @ menu_text @ ''user id:'' @ ''user password:''\<rparr>)"
proof -
  let ?s1 = "s\<lparr>cout := cout s @ menu_text, cin := istream_of (show_int i @ lf # pwd @ lf # rest)\<rparr>"
  have menu: "forC start_menu out_line s = (Inr (), s\<lparr>cout := cout s @ text_of_lines start_menu\<rparr>)"
    by (simp add: forC_out_line text_of_lines_def)
  have one: "read_number (s\<lparr>cout := cout s @ menu_text\<rparr>) = (Inr 1, ?s1)"
    using read_number_line [of "s\<lparr>cout := cout s @ menu_text\<rparr>" 1] assms(1) by simp
  have start: "start_menu_step api s = login_choice api ?s1"
    by (simp add: start_menu_step_def seqC_run bindC_run menu one [unfolded menu_text_def] menu_text_def)
  let ?s2 = "?s1\<lparr>cout := cout ?s1 @ ''user id:'', cin := istream_of (pwd @ lf # rest)\<rparr>"
  have two: "read_number (?s1\<lparr>cout := cout ?s1 @ ''user id:''\<rparr>) = (Inr i, ?s2)"
    using read_number_line [of "?s1\<lparr>cout := cout ?s1 @ ''user id:''\<rparr>" i "pwd @ lf # rest"] assms(2) by simp
  have three: "read_field ''user password:'' ?s2 =
      (Inr pwd, ?s2\<lparr>cout := cout ?s2 @ ''user password:'', cin := istream_of rest\<rparr>)"
    by (rule read_field_line [of ?s2 pwd rest, OF _ assms(3)]) simp
  have print: "printable (login_message i pwd)" using assms(2,4) by (simp add: printable_messages)
  show ?thesis
    using assms(5) two three
    by (simp add: start login_choice_def seqC_run bindC_run message_builds dump_default_text [OF print]
        send_text_run with_net_def)
qed

section \<open>What a command leaves alone\<close>

text \<open>The main thread's place, the flag of the chat menu and the console input.\<close>

definition control :: "'n client_state \<Rightarrow> main_pc \<times> bool \<times> istream" where
  "control s = (main_at s, g_is_main_menu_running s, cin s)"

definition keeps_control :: "('n, 'a) client_cmd \<Rightarrow> bool" where
  "keeps_control m \<longleftrightarrow> (\<forall>x. preserves (\<lambda>s. control s = x) m)"

named_theorems control_intros \<open>commands that leave the control state alone\<close>

lemma keeps_controlD: "keeps_control m \<Longrightarrow> control (snd (m s)) = control s"
  by (simp add: keeps_control_def preserves_def del: split_paired_All)

lemma keeps_control_combinators [control_intros]:
  "keeps_control (returnC x)" "keeps_control (throwC e)" "keeps_control (liftR r)" "keeps_control (getC f)"
  "keeps_control m \<Longrightarrow> (\<And>x. keeps_control (g x)) \<Longrightarrow> keeps_control (bindC m g)"
  "keeps_control m \<Longrightarrow> keeps_control m' \<Longrightarrow> keeps_control (seqC m m')"
  "(\<And>x. keeps_control (body x)) \<Longrightarrow> keeps_control (forC xs body)"
  by (auto simp: keeps_control_def intro!: preserves_intros)

lemma keeps_control_if [control_intros]:
  "keeps_control m \<Longrightarrow> keeps_control m' \<Longrightarrow> keeps_control (if b then m else m')"
  by simp

lemma keeps_control_case_prod [control_intros]:
  "(\<And>a b. keeps_control (f a b)) \<Longrightarrow> keeps_control (case x of (a, b) \<Rightarrow> f a b)"
  by (cases x) simp

lemma keeps_control_case_option [control_intros]:
  "keeps_control m \<Longrightarrow> (\<And>y. keeps_control (f y)) \<Longrightarrow> keeps_control (case x of None \<Rightarrow> m | Some y \<Rightarrow> f y)"
  by (cases x) simp_all

lemma keeps_control_modifyC [control_intros]:
  "(\<And>s. control (f s) = control s) \<Longrightarrow> keeps_control (modifyC f)"
  by (simp add: keeps_control_def preserves_def)

lemma keeps_control_prim [control_intros]:
  "keeps_control (out t)" "keeps_control (err t)" "keeps_control (out_line t)" "keeps_control (err_line t)"
  "keeps_control (out_json j)" "keeps_control sem_post" "keeps_control (on_net f)"
  unfolding out_line_def err_line_def out_def err_def out_json_def sem_post_def
  by (intro control_intros; simp add: control_def)+
    (simp add: keeps_control_def preserves_def control_def on_net_def case_prod_beta)

lemma keeps_control_send [control_intros]:
  "keeps_control (send_text api fd failure t)" "keeps_control (send_request api fd failure kvs)"
  unfolding send_text_def send_request_def by (intro control_intros)+

lemma keeps_control_reader [control_intros]:
  "keeps_control (handle_received r)" "keeps_control (ReadTaskHandler_once api)"
proof -
  have [control_intros]: "keeps_control (show_chat js)" for js
    unfolding show_chat_def by (intro control_intros)
  have [control_intros]: "keeps_control (show_offline_message t)" for t
    unfolding show_offline_message_def by (intro control_intros)
  have [control_intros]: "keeps_control (read_friends v)" "keeps_control (read_groups v)"
      "keeps_control ShowCurrentUserData" for v
    unfolding read_friends_def read_groups_def ShowCurrentUserData_def
    by (intro control_intros; simp add: control_def)+
  have [control_intros]: "keeps_control (when_contains k js m body)"
    if "keeps_control m" "\<And>v. keeps_control (body v)" for k js m body
    unfolding when_contains_def by (intro control_intros that)
  have login: "keeps_control (HandleLoginResponse js)" for js
    unfolding HandleLoginResponse_def by (intro control_intros; simp add: control_def)
  have register: "keeps_control (HandleRegistrationResponse js)" for js
    unfolding HandleRegistrationResponse_def by (intro control_intros)
  show "keeps_control (handle_received r)" for r
    unfolding handle_received_def by (intro control_intros login register)
  then show "keeps_control (ReadTaskHandler_once api)"
    unfolding ReadTaskHandler_once_def by (intro control_intros; simp add: control_def)
qed

section \<open>Commands of the chat menu\<close>

text \<open>Only \<open>logout\<close> changes the control state: it clears the flag, and only when the request was sent.\<close>

lemma run_command_control:
  "control (snd (run_command api t l s)) = control s \<or>
   fst (run_command api t l s) = Inr () \<and>
   control (snd (run_command api t l s)) = (main_at s, False, cin s)"
proof -
  have keep: "control (snd (h api t fd args s)) = control s"
    if "h \<in> {Help, Chat, AddFriend, CreateGroup, JoinGroup, GroupChat}" for h :: "'a command" and fd args
  proof (rule keeps_controlD)
    show "keeps_control (h api t fd args)"
      using that
      by (elim insertE emptyE; simp only: Help_def Chat_def AddFriend_def CreateGroup_def JoinGroup_def GroupChat_def)
         (intro control_intros)+
  qed
  have logout: "control (snd (Logout api t fd args s)) = control s \<or>
      fst (Logout api t fd args s) = Inr () \<and> control (snd (Logout api t fd args s)) = (main_at s, False, cin s)"
    for fd args
    using keeps_controlD [OF keeps_control_send(2), of api fd "''send logout msg error -> ''" "[(''msgid'', json_of_MsgType kMsgLogout), (''id'', json_of_int (user_id (g_current_user s)))]" s]
    by (auto simp: Logout_def bindC_run control_def whenC_def split: sum.split)
  obtain c args where split: "split_command l = (c, args)" by force
  show ?thesis
  proof (cases "map_of command_handlers c :: 'a command option")
    case None
    then show ?thesis by (simp add: run_command_def split control_def)
  next
    case (Some h)
    then have "(c, h) \<in> set command_handlers" by (rule map_of_SomeD)
    then have "h = Logout \<or> h \<in> {Help, Chat, AddFriend, CreateGroup, JoinGroup, GroupChat}"
      by (auto simp: command_handlers_def)
    moreover have "run_command api t l s = h api t (clientfd s) args s" by (simp add: run_command_def split Some)
    ultimately show ?thesis using keep [of h "clientfd s" args] logout [of "clientfd s" args] by (elim disjE) simp_all
  qed
qed

text \<open>The flag says that the main thread is in the chat menu.\<close>

definition menus_ok :: "'n client_state \<Rightarrow> bool" where
  "menus_ok s \<longleftrightarrow> (g_is_main_menu_running s \<longleftrightarrow> main_at s = Chat_menu)"

lemma menus_ok_control: "control s' = control s \<Longrightarrow> menus_ok s' = menus_ok s"
  by (simp add: menus_ok_def control_def)

lemma chat_menu_step_menus:
  assumes "menus_ok s" and "main_at s = Chat_menu"
  shows "menus_ok (snd (chat_menu_step api t s))" and "main_at (snd (chat_menu_step api t s)) \<in> {Chat_menu, Start_menu}"
    and "cin (snd (chat_menu_step api t s)) = snd (cin_getline 1024 (cin s))"
proof -
  let ?s1 = "s\<lparr>cin := snd (cin_getline 1024 (cin s))\<rparr>" and ?l = "c_str (fst (cin_getline 1024 (cin s)))"
  have "g_is_main_menu_running s" using assms by (simp add: menus_ok_def)
  then show "menus_ok (snd (chat_menu_step api t s))" "main_at (snd (chat_menu_step api t s)) \<in> {Chat_menu, Start_menu}"
    "cin (snd (chat_menu_step api t s)) = snd (cin_getline 1024 (cin s))"
    using run_command_control [of api t ?l ?s1] assms(2)
    by (auto simp: chat_menu_step_def bindC_run seqC_run control_def menus_ok_def split: sum.split)
qed

definition outside_menu :: "'n client_state \<Rightarrow> bool" where
  "outside_menu s \<longleftrightarrow> \<not> g_is_main_menu_running s \<and> main_at s \<noteq> Chat_menu"

lemma outside_menu_keeps:
  fixes m :: "('n, 'a) client_cmd"
  assumes "keeps_control m"
  shows "preserves outside_menu m"
proof (rule preservesI)
  fix s :: "'n client_state"
  assume s: "outside_menu s"
  have "control (snd (m s)) = control s" by (rule keeps_controlD [OF assms])
  with s show "outside_menu (snd (m s))" by (simp add: outside_menu_def control_def)
qed

lemma start_menu_step_menus: "preserves outside_menu (start_menu_step api)"
proof -
  have cin: "preserves outside_menu (on_cin f)" for f :: "istream \<Rightarrow> 'b \<times> istream"
    by (simp add: preserves_def outside_menu_def)
  have modify: "preserves outside_menu (modifyC (\<lambda>s. s\<lparr>main_at := pc\<rparr>))" if "pc \<noteq> Chat_menu" for pc
    using that by (simp add: preserves_def outside_menu_def)
  have int: "preserves outside_menu read_number" and fld: "preserves outside_menu (read_field p)" for p
    unfolding read_number_def read_field_def
    by (intro preserves_intros cin outside_menu_keeps control_intros)+
  show ?thesis
    unfolding start_menu_step_def login_choice_def register_choice_def quit_choice_def
    by (intro preserves_intros int fld modify outside_menu_keeps control_intros; simp add: control_def)
qed

lemma client_event_menus: "preserves menus_ok (run_client_event api ev)"
proof (cases ev)
  case Reader_step
  have "menus_ok (snd (ReadTaskHandler_once api s)) = menus_ok s" for s
    by (rule menus_ok_control, rule keeps_controlD, rule keeps_control_reader)
  then show ?thesis using Reader_step by (simp add: preserves_def)
next
  case (Main_step t)
  have "menus_ok (snd (main_step api t s))" if ok: "menus_ok s" for s
  proof (cases "main_at s")
    case Start_menu
    then have "outside_menu s" using ok by (simp add: menus_ok_def outside_menu_def)
    from preservesD [OF start_menu_step_menus this, of api] show ?thesis
      using Start_menu by (simp add: main_step_def outside_menu_def menus_ok_def)
  next
    case Wait_login
    have shown_help: "control (snd (Help api t 0 [] s')) = control s'" for s'
      by (rule keeps_controlD) (simp only: Help_def, intro control_intros)
    show ?thesis
      using Wait_login ok shown_help [of "s\<lparr>g_read_write_mutex := g_read_write_mutex s - 1, g_is_main_menu_running := True,
        main_at := Chat_menu\<rparr>"]
      by (auto simp: main_step_def login_answered_def sem_wait_def bindC_run seqC_run menus_ok_def control_def
          split: sum.split)
  next
    case Wait_register
    then show ?thesis
      using ok by (simp add: main_step_def register_answered_def sem_wait_def seqC_run menus_ok_def)
  next
    case Chat_menu
    then show ?thesis using chat_menu_step_menus(1) [OF ok Chat_menu] by (simp add: main_step_def)
  qed
  then show ?thesis using Main_step by (simp add: preserves_def)
qed

section \<open>Entering the chat menu\<close>

lemma client_step_state:
  "client_step api p ev p' \<Longrightarrow> \<exists>s. p = Client_running s \<and> client_enabled ev s \<and>
     client_state_of p' = snd (run_client_event api ev s)"
  by (auto elim!: client_step.cases simp: client_state_of_def)

lemma client_reachable_invariant:
  assumes "client_reachable api s0 p" and "P s0" and "\<And>ev. preserves P (run_client_event api ev)"
  shows "P (client_state_of p)"
  using assms(1)
proof induction
  case client_reach_init
  then show ?case by (simp add: client_state_of_def assms(2))
next
  case (client_reach_step p ev p')
  then obtain s where "p = Client_running s" "client_state_of p' = snd (run_client_event api ev s)"
    using client_step_state by blast
  with client_reach_step.IH show ?case
    using preservesD [OF assms(3), of s ev] by (simp add: client_state_of_def)
qed

lemma menus_ok_init: "menus_ok (client_init input n)"
  by (simp add: menus_ok_def client_init_def)

text \<open>A client that has started.\<close>

definition client_started :: "'n socket_api \<Rightarrow> 'n client_state \<Rightarrow> bool" where
  "client_started api s \<longleftrightarrow> (\<exists>argv input n. client_main api argv (client_init input n) = (Inr (), s))"

lemma menus_ok_started: "client_started api s \<Longrightarrow> menus_ok s"
proof -
  assume "client_started api s"
  then obtain argv input n where run: "client_main api argv (client_init input n) = (Inr (), s)"
    by (auto simp: client_started_def)
  have "keeps_control (client_main api argv)"
    unfolding client_main_def ConnectToServer_def Let_def by (intro control_intros; simp add: control_def)
  from keeps_controlD [OF this, of "client_init input n"] run have "control s = control (client_init input n)" by simp
  from menus_ok_control [OF this] menus_ok_init show ?thesis by simp
qed

lemma menus_ok_reachable:
  "client_started api s0 \<Longrightarrow> client_reachable api s0 p \<Longrightarrow> menus_ok (client_state_of p)"
  by (rule client_reachable_invariant [OF _ menus_ok_started client_event_menus])

text \<open>The chat menu is entered only from the wait for a login answer, after a post, with the flag set.\<close>

lemma chat_menu_entry:
  assumes "menus_ok s" and "client_step api (Client_running s) ev p"
    and "main_at (client_state_of p) = Chat_menu" and "main_at s \<noteq> Chat_menu"
  shows "main_at s = Wait_login \<and> g_is_login_success s \<and> 0 < g_read_write_mutex s"
proof -
  have step: "client_enabled ev s" "client_state_of p = snd (run_client_event api ev s)"
    using client_step_state [OF assms(2)] by auto
  show ?thesis
  proof (cases ev)
    case Reader_step
    have "control (client_state_of p) = control s"
      using keeps_controlD [OF keeps_control_reader(2)] step(2) Reader_step by simp
    then show ?thesis using assms(3,4) by (simp add: control_def)
  next
    case (Main_step t)
    show ?thesis
    proof (cases "main_at s")
      case Start_menu
      then have "outside_menu s" using assms(1) by (simp add: menus_ok_def outside_menu_def)
      from preservesD [OF start_menu_step_menus this, of api] show ?thesis
        using assms(3) step(2) Start_menu Main_step by (simp add: main_step_def outside_menu_def)
    next
      case Wait_login
      then show ?thesis
        using assms(3) step Main_step
        by (auto simp: main_step_def login_answered_def sem_wait_def bindC_run seqC_run main_blocked_def split: if_splits)
    next
      case Wait_register
      then show ?thesis
        using assms(3) step(2) Main_step by (simp add: main_step_def register_answered_def sem_wait_def seqC_run)
    qed (use assms(4) in simp)
  qed
qed

text \<open>The flag is set only by a login answer with error 0.\<close>

definition login_flag_clear :: "'n client_state \<Rightarrow> bool" where
  "login_flag_clear s \<longleftrightarrow> \<not> g_is_login_success s"

lemma login_flag_prim:
  "preserves login_flag_clear (out t)" "preserves login_flag_clear (out_line t)"
  "preserves login_flag_clear (err_line t)" "preserves login_flag_clear (out_json j)"
  "preserves login_flag_clear sem_post"
proof -
  show 1: "preserves login_flag_clear (out t)" "preserves login_flag_clear (out_line t)"
      "preserves login_flag_clear (err_line t)" "preserves login_flag_clear sem_post" for t
    by (simp_all add: preserves_def login_flag_clear_def sem_post_def)
  show "preserves login_flag_clear (out_json j)"
    unfolding out_json_def by (intro preserves_intros 1)
qed

lemma login_flag_shown:
  "preserves login_flag_clear (show_chat js)" "preserves login_flag_clear (HandleRegistrationResponse js)"
  unfolding show_chat_def HandleRegistrationResponse_def
  by (intro preserves_intros login_flag_prim)+

lemma login_flag_source:
  assumes "\<not> g_is_login_success s" and "g_is_login_success (snd (handle_received r s))"
  shows "\<exists>js js1 js2. json_parse (recv_buffer r) = Inr js \<and> field_int ''msgid'' js = Inr (2, js1) \<and>
    field_int ''errno'' js1 = Inr (0, js2)"
proof (cases "json_parse (recv_buffer r)")
  case (Inr js)
  show ?thesis
  proof (cases "field_int ''msgid'' js")
    case (Inr p)
    obtain msgid js1 where p: "p = (msgid, js1)" by force
    have run: "snd (handle_received r s) =
        snd ((if msgid = 6 then show_chat js1 else if msgid = 2 then seqC (HandleLoginResponse js1) sem_post
          else if msgid = 5 then seqC (HandleRegistrationResponse js1) sem_post else returnC ()) s)"
      using \<open>json_parse (recv_buffer r) = Inr js\<close> Inr p by (simp add: handle_received_def)
    have clear: "login_flag_clear s" using assms(1) by (simp add: login_flag_clear_def)
    have "preserves login_flag_clear (if msgid = 6 then show_chat js1
        else if msgid = 5 then seqC (HandleRegistrationResponse js1) sem_post else returnC ())"
      by (intro preserves_intros login_flag_shown login_flag_prim)
    from preservesD [OF this clear] have two: "msgid = 2"
      using assms(2) run by (auto simp: login_flag_clear_def split: if_splits)
    have "\<exists>js2. field_int ''errno'' js1 = Inr (0, js2)"
    proof (rule ccontr)
      assume no: "\<nexists>js2. field_int ''errno'' js1 = Inr (0, js2)"
      then have "\<not> g_is_login_success (snd (seqC (HandleLoginResponse js1) sem_post s))"
        using assms(1)
        by (auto simp: HandleLoginResponse_def bindC_run seqC_run sem_post_def split: sum.splits)
      then show False using assms(2) run two by simp
    qed
    then show ?thesis using \<open>json_parse (recv_buffer r) = Inr js\<close> Inr p two by auto
  qed (use assms Inr in \<open>simp add: handle_received_def\<close>)
qed (use assms in \<open>simp add: handle_received_def\<close>)

section \<open>A console that is not good\<close>

lemma start_menu_frozen:
  assumes "\<not> good (cin s)"
  shows "start_menu_step api s =
    (Inr (), s\<lparr>cin := (cin s)\<lparr>failbit := True\<rparr>, cout := cout s @ menu_text,
       cerr := cerr s @ ''invalid input!'' @ endl\<rparr>)"
proof -
  have "\<not> good ((cin s)\<lparr>failbit := True\<rparr>)" by (simp add: good_def)
  then have "read_number (s\<lparr>cout := x\<rparr>) = (Inr 0, s\<lparr>cout := x, cin := (cin s)\<lparr>failbit := True\<rparr>\<rparr>)" for x
    using assms by (simp add: read_number_def bindC_run seqC_run cin_not_good)
  then show ?thesis
    by (simp add: start_menu_step_def seqC_run bindC_run forC_out_line menu_text_def text_of_lines_def)
qed

lemma chat_menu_frozen:
  assumes "\<not> good (cin s)" and "g_is_main_menu_running s"
  shows "chat_menu_step api t s =
    (Inr (), s\<lparr>cin := (cin s)\<lparr>failbit := True\<rparr>, cerr := cerr s @ ''invalid input command!'' @ endl\<rparr>)"
proof -
  have "run_command api t [] s' = err_line ''invalid input command!'' s'" for s' :: "'a client_state"
    by (rule run_command_simps(3)) (simp_all add: command_handlers_def)
  then show ?thesis
    using assms by (simp add: chat_menu_step_def bindC_run seqC_run cin_not_good c_str_def)
qed

definition main_steps :: "'n socket_api \<Rightarrow> tm list \<Rightarrow> ('n, unit) client_cmd" where
  "main_steps api ts = forC ts (main_step api)"

text \<open>From then on the main thread prints the same error for ever: it reads nothing, sends nothing, never quits.\<close>

definition frozen :: "'n client_state \<Rightarrow> bool" where
  "frozen s \<longleftrightarrow> menus_ok s \<and> main_at s \<in> {Start_menu, Chat_menu} \<and> \<not> good (cin s)"

lemma frozen_step:
  assumes "frozen s"
  shows "\<exists>s'. main_step api t s = (Inr (), s') \<and> frozen s' \<and> net s' = net s \<and> main_at s' = main_at s \<and>
    chars (cin s') = chars (cin s)"
proof (cases "main_at s = Start_menu")
  case True
  then show ?thesis
    using assms start_menu_frozen [of s api] by (auto simp: main_step_def frozen_def menus_ok_def good_def)
next
  case False
  then have "main_at s = Chat_menu" "g_is_main_menu_running s" using assms by (auto simp: frozen_def menus_ok_def)
  then show ?thesis
    using assms chat_menu_frozen [of s api t] by (auto simp: main_step_def frozen_def menus_ok_def good_def)
qed

lemma frozen_steps:
  "frozen s \<Longrightarrow> \<exists>s'. main_steps api ts s = (Inr (), s') \<and> frozen s' \<and> net s' = net s \<and> main_at s' = main_at s"
proof (induction ts arbitrary: s)
  case (Cons t ts)
  obtain s1 where s1: "main_step api t s = (Inr (), s1)" "frozen s1" "net s1 = net s" "main_at s1 = main_at s"
    using frozen_step [OF Cons.prems] by blast
  then show ?case using Cons.IH [OF s1(2)] by (simp add: main_steps_def seqC_run)
qed (simp add: main_steps_def)

text \<open>A line of more than 1023 characters in the chat menu does it.\<close>

lemma long_line_freezes:
  assumes "menus_ok s" and "main_at s = Chat_menu" and "cin s = istream_of (l @ r)"
    and "length l = 1023" and "lf \<notin> set l" and "r \<noteq> []" and "hd r \<noteq> lf"
  shows "frozen (snd (chat_menu_step api t s))"
proof -
  have "cin (snd (chat_menu_step api t s)) = (istream_of r)\<lparr>failbit := True\<rparr>"
    using chat_menu_step_menus(3) [OF assms(1,2)] getline_too_long [OF assms(5,4,6,7)] assms(3) by simp
  then show ?thesis
    using chat_menu_step_menus(1,2) [OF assms(1,2), of api t] by (auto simp: frozen_def good_def)
qed

end
