(* ===== verification/Chat_System.thy ===== *)
theory Chat_System
  imports Chat_Behaviour Chat_Client_Session
begin

text \<open>
  Client and server together: the bytes that a client sends are handed to \<open>OnMessage\<close> of the server, and the
  bytes that the server sends on a connection are handed to the reader thread of the client at its other end.
\<close>

section \<open>A client's message at the server\<close>

text \<open>The null character ends the input: what follows in the same buffer is not looked at.\<close>

lemma OnMessage_text:
  assumes "printable (Object m)" and "float_free (Object m)" and "omap_ok m" and "text_end rest"
    and "map_of m ''msgid'' = Some (json_of_int k)" and "is_int32 k"
  shows "OnMessage api rapi conn (json_text (Object m) @ rest) s =
    Dispatch api rapi k conn (reparse (Object m)) s"
proof -
  have "field_int ''msgid'' (reparse (Object m)) = Inr (k, reparse (Object m))"
    by (rule field_int_reparse [OF assms(3,5)]) (simp add: assms(6))
  then show ?thesis
    using json_parse_text_end [OF assms(1,2,4)] by (simp add: OnMessage_def bindC_run del: json_text.simps reparse.simps)
qed

lemma Dispatch_handlers:
  "Dispatch api rapi 1 = HandlerLogin api rapi" "Dispatch api rapi 3 = HandlerLogout api rapi"
  "Dispatch api rapi 4 = HandlerRegister api" "Dispatch api rapi 6 = HandlerDirectChat api rapi"
  "Dispatch api rapi 7 = HandlerAddFriend api" "Dispatch api rapi 8 = HandlerCreateGroup api"
  "Dispatch api rapi 9 = HandlerJoinGroup api" "Dispatch api rapi 10 = HandlerGroupChat api rapi"
  by (simp_all add: Dispatch_def msg_handler_map_def)

lemma OnMessage_message:
  assumes "printable j" and "float_free j" and "j = Object m" and "omap_ok m"
    and "map_of m ''msgid'' = Some (json_of_int k)" and "is_int32 k"
  shows "OnMessage api rapi conn (message_bytes j) s = Dispatch api rapi k conn (reparse j) s"
  using OnMessage_text [of m "[CHR 0x00]" k] assms unfolding message_bytes_def by simp

text \<open>The messages of the client reach the handlers they are meant for.\<close>

lemma OnMessage_login:
  "is_int32 i \<Longrightarrow> utf8_valid pwd \<Longrightarrow>
     OnMessage api rapi conn (message_bytes (login_message i pwd)) s =
       HandlerLogin api rapi conn (reparse (login_message i pwd)) s"
  unfolding Dispatch_handlers(1) [symmetric]
  by (rule OnMessage_message [OF printable_messages(1) _ login_message_def]) (simp_all add: omap_ok_def)

lemma OnMessage_register:
  "utf8_valid name \<Longrightarrow> utf8_valid pwd \<Longrightarrow>
     OnMessage api rapi conn (message_bytes (register_message name pwd)) s =
       HandlerRegister api conn (reparse (register_message name pwd)) s"
  unfolding Dispatch_handlers(3) [symmetric, of _ rapi]
  by (rule OnMessage_message [OF printable_messages(2) _ register_message_def]) (simp_all add: omap_ok_def)

lemma OnMessage_chat:
  "is_int32 i \<Longrightarrow> is_int32 j \<Longrightarrow> utf8_valid name \<Longrightarrow> utf8_valid msg \<Longrightarrow> utf8_valid time \<Longrightarrow>
     OnMessage api rapi conn (message_bytes (chat_message i name j msg time)) s =
       HandlerDirectChat api rapi conn (reparse (chat_message i name j msg time)) s"
  unfolding Dispatch_handlers(4) [symmetric]
  by (rule OnMessage_message [OF printable_messages(3) _ chat_message_def]) (simp_all add: omap_ok_def)

lemma OnMessage_group_chat:
  "is_int32 i \<Longrightarrow> is_int32 g \<Longrightarrow> utf8_valid name \<Longrightarrow> utf8_valid msg \<Longrightarrow> utf8_valid time \<Longrightarrow>
     OnMessage api rapi conn (message_bytes (group_chat_message i name g msg time)) s =
       HandlerGroupChat api rapi conn (reparse (group_chat_message i name g msg time)) s"
  unfolding Dispatch_handlers(8) [symmetric]
  by (rule OnMessage_message [OF printable_messages(4) _ group_chat_message_def]) (simp_all add: omap_ok_def)

lemma OnMessage_add_friend:
  "is_int32 i \<Longrightarrow> is_int32 j \<Longrightarrow>
     OnMessage api rapi conn (message_bytes (add_friend_message i j)) s =
       HandlerAddFriend api conn (reparse (add_friend_message i j)) s"
  unfolding Dispatch_handlers(5) [symmetric, of _ rapi]
  by (rule OnMessage_message [OF printable_messages(5) _ add_friend_message_def]) (simp_all add: omap_ok_def)

lemma OnMessage_join_group:
  "is_int32 i \<Longrightarrow> is_int32 g \<Longrightarrow>
     OnMessage api rapi conn (message_bytes (join_group_message i g)) s =
       HandlerJoinGroup api conn (reparse (join_group_message i g)) s"
  unfolding Dispatch_handlers(7) [symmetric, of _ rapi]
  by (rule OnMessage_message [OF printable_messages(7) _ join_group_message_def]) (simp_all add: omap_ok_def)

lemma OnMessage_logout:
  "is_int32 i \<Longrightarrow>
     OnMessage api rapi conn (message_bytes (logout_message i)) s =
       HandlerLogout api rapi conn (reparse (logout_message i)) s"
  unfolding Dispatch_handlers(2) [symmetric]
  by (rule OnMessage_message [OF printable_messages(8) _ logout_message_def]) (simp_all add: omap_ok_def)

section \<open>Requests that the server does not understand\<close>

text \<open>
  \<open>HandlerAddFriend\<close> reads \<open>userid\<close>, the client sends \<open>id\<close>; \<open>HandlerJoinGroup\<close> reads \<open>group_id\<close>, the client
  sends \<open>groupid\<close>. The missing field is null, and \<open>get<int>\<close> throws.
\<close>

lemma add_friend_throws:
  assumes "is_int32 i" and "is_int32 j"
  shows "OnMessage api rapi conn (message_bytes (add_friend_message i j)) s =
    (Inl (type_error_create 302 ''type must be number, but is null''), s)"
proof -
  have "field_int ''userid'' (reparse (add_friend_message i j)) =
      Inl (type_error_create 302 ''type must be number, but is null'')"
    unfolding add_friend_message_def by (rule field_int_reparse_missing) (simp_all add: omap_ok_def)
  then show ?thesis by (simp add: OnMessage_add_friend assms HandlerAddFriend_def)
qed

lemma join_group_throws:
  assumes "is_int32 i" and "is_int32 g"
  shows "OnMessage api rapi conn (message_bytes (join_group_message i g)) s =
    (Inl (type_error_create 302 ''type must be number, but is null''), s)"
proof -
  have id: "field_int ''id'' (reparse (join_group_message i g)) = Inr (i, reparse (join_group_message i g))"
    unfolding join_group_message_def
    by (rule field_int_reparse [where v = "json_of_int i"]) (simp_all add: omap_ok_def assms)
  have "field_int ''group_id'' (reparse (join_group_message i g)) =
      Inl (type_error_create 302 ''type must be number, but is null'')"
    unfolding join_group_message_def by (rule field_int_reparse_missing) (simp_all add: omap_ok_def)
  then show ?thesis by (simp add: OnMessage_join_group assms HandlerJoinGroup_def id)
qed

section \<open>Messages that run together\<close>

text \<open>At the server, the messages after the first in one buffer are dropped.\<close>

lemma OnMessage_first_only:
  assumes "printable j" and "float_free j"
  shows "OnMessage api rapi conn (message_bytes j @ rest) s = OnMessage api rapi conn (message_bytes j) s"
  using json_parse_text_end [OF assms, of "CHR 0x00 # rest"] json_parse_text_end [OF assms, of "[CHR 0x00]"]
  by (simp add: OnMessage_def message_bytes_def)

text \<open>The server writes no null character: two of its messages in one \<open>recv\<close> end the client.\<close>

lemma two_messages_end_client:
  assumes "printable j" and "float_free j" and "j' = Object m'"
  shows "\<exists>pos w. handle_received (json_text j @ json_text j') s = (Inl (parse_error_create 101 pos w), s)"
proof -
  obtain r where "json_text j' = CHR ''{'' # r" using assms(3) by simp
  then obtain pos w where "json_parse (recv_buffer (json_text j @ json_text j')) = Inl (parse_error_create 101 pos w)"
    using json_parse_text_twice [OF assms(1,2), of "r @ replicate (1024 - length (json_text j @ json_text j')) (CHR 0x00)"]
    by (auto simp: recv_buffer_def)
  then have "handle_received (json_text j @ json_text j') s = (Inl (parse_error_create 101 pos w), s)"
    by (simp add: handle_received_def)
  then show ?thesis by blast
qed

section \<open>Delivery\<close>

text \<open>What the operating system delivers in one \<open>recv\<close> of the reader thread.\<close>

definition delivers :: "'n socket_api \<Rightarrow> 'n client_state \<Rightarrow> string \<Rightarrow> 'n \<Rightarrow> bool" where
  "delivers api s text n \<longleftrightarrow>
     sock_recv api (clientfd s) 1023 (net s) = ((int (length text), text), n) \<and> 0 < length text \<and> length text \<le> 1023"

lemma reader_delivers:
  "delivers api s text n \<Longrightarrow> ReadTaskHandler_once api s = handle_received text (s\<lparr>net := n\<rparr>)"
  by (simp add: delivers_def ReadTaskHandler_once_def bindC_run)

section \<open>A chat message from end to end\<close>

lemma field_toid:
  assumes "is_int32 j"
  shows "field_int ''toid'' (reparse (chat_message i name j msg time)) = Inr (j, reparse (chat_message i name j msg time))"
proof -
  obtain m where m: "chat_message i name j msg time = Object m" "omap_ok m" "map_of m ''toid'' = Some (json_of_int j)"
    using omap_ok_messages [of i name j msg time] by blast
  show ?thesis unfolding m(1) by (rule field_int_reparse [OF m(2,3)]) (simp add: assms)
qed

lemma chat_forwarded:
  fixes s :: "('d, 'r) server_state"
  assumes "chat_ok (i, name, j, msg, time)" and "\<not> conn_mtx s" and "map_of (user_conn_map s) j = Some to_conn"
  shows "OnMessage api rapi conn (message_bytes (chat_message i name j msg time)) s =
    (Inr (), s\<lparr>sends := sends s @ [(to_conn, json_text (chat_message i name j msg time))]\<rparr>)"
proof -
  have ok: "json_ok (chat_message i name j msg time)" using assms(1) by (simp add: json_ok_messages)
  have "printable (reparse (chat_message i name j msg time))"
    using printable_reparse(1) [OF ok] assms(1) by (simp add: printable_messages)
  then show ?thesis
    using assms direct_chat_local [OF field_toid _ assms(2,3), of i name msg time]
    by (simp add: OnMessage_chat json_text_reparse(1) [OF ok])
qed

text \<open>\<open>chat:j:msg\<close> at one client appears at the client of user \<open>j\<close>, with the name and id of the sender.\<close>

lemma chat_end_to_end:
  fixes a :: "'n client_state" and b :: "'m client_state" and s :: "('d, 'r) server_state"
  assumes "menus_ok a" and "main_at a = Chat_menu" and "user_ok (g_current_user a)"
    and "cin a = istream_of (''chat:'' @ show_int j @ CHR '':'' # msg @ lf # rest)"
    and "line_ok 1024 (''chat:'' @ show_int j @ CHR '':'' # msg)" and "is_int32 j" and "utf8_valid msg"
    and "GetCurrentTime t = Inr time"
  defines "m \<equiv> chat_of (g_current_user a) j msg time"
  assumes "sent_ok api (clientfd a) (message_bytes m) (net a)"
    and "\<not> conn_mtx s" and "map_of (user_conn_map s) j = Some to_conn" and "delivers bapi b (json_text m) n"
  shows "main_step api t a = (Inr (), (with_net api (clientfd a) m a)\<lparr>cin := istream_of rest\<rparr>) \<and>
    OnMessage sapi rapi conn (message_bytes m) s = (Inr (), s\<lparr>sends := sends s @ [(to_conn, json_text m)]\<rparr>) \<and>
    ReadTaskHandler_once bapi b = (Inr (), b\<lparr>net := n,
      cout := cout b @ shown_chat (user_id (g_current_user a)) (user_name (g_current_user a)) msg time\<rparr>)"
proof (intro conjI)
  let ?a1 = "a\<lparr>cin := istream_of rest\<rparr>"
  have ok: "chat_ok (user_id (g_current_user a), user_name (g_current_user a), j, msg, time)"
    using assms(3,6,7) GetCurrentTime_utf8 [OF assms(8)] by (simp add: user_ok_def)
  have "Chat api t (clientfd ?a1) (show_int j @ CHR '':'' # msg) ?a1 = (Inr (), with_net api (clientfd a) m ?a1)"
    unfolding m_def using assms(3,6-8,10) by (subst Chat_run) (simp_all add: m_def)
  moreover have "run_command api t (''chat'' @ CHR '':'' # show_int j @ CHR '':'' # msg) ?a1 =
      Chat api t (clientfd ?a1) (show_int j @ CHR '':'' # msg) ?a1"
    by (rule run_command_simps(1)) (simp_all add: command_handlers_def)
  ultimately have run: "run_command api t (''chat:'' @ show_int j @ CHR '':'' # msg) ?a1 =
      (Inr (), with_net api (clientfd a) m ?a1)" by simp
  have "chat_menu_step api t a = (Inr (), with_net api (clientfd a) m ?a1)"
    using chat_menu_line [OF _ assms(5) run] assms(1,2,4) by (simp add: menus_ok_def with_net_def)
  then show "main_step api t a = (Inr (), (with_net api (clientfd a) m a)\<lparr>cin := istream_of rest\<rparr>)"
    using assms(2) by (simp add: main_step_def with_net_def)
  show "OnMessage sapi rapi conn (message_bytes m) s = (Inr (), s\<lparr>sends := sends s @ [(to_conn, json_text m)]\<rparr>)"
    unfolding m_def by (rule chat_forwarded [OF ok assms(11,12)])
  have "handle_received (json_text m) (b\<lparr>net := n\<rparr>) = (Inr (), b\<lparr>net := n,
      cout := cout b @ shown_chat (user_id (g_current_user a)) (user_name (g_current_user a)) msg time\<rparr>)"
    unfolding m_def using ok by (subst received_chat) (simp_all add: printable_messages)
  then show "ReadTaskHandler_once bapi b = (Inr (), b\<lparr>net := n,
      cout := cout b @ shown_chat (user_id (g_current_user a)) (user_name (g_current_user a)) msg time\<rparr>)"
    by (simp add: reader_delivers [OF assms(13)])
qed

section \<open>A login from end to end\<close>

lemma login_response_fields:
  assumes "is_int32 i"
  obtains m where "login_response i t = Object m" "omap_ok m" "map_of m ''errno'' = Some (json_of_int 0)"
    "map_of m ''id'' = Some (json_of_int i)" "map_of m ''msgid'' = Some (json_of_int 2)"
    "map_of m ''name'' = Some (json_of_string (user_name (find_user i t)))"
    "map_of m ''friends'' = None" "map_of m ''groups'' = None"
    "map_of m ''offlinemsg'' = (if offline_of i t = [] then None else Some (json_of_strings (offline_of i t)))"
  by (cases "friends_of i t = []"; cases "offline_of i t = []")
     (use that in \<open>simp_all add: login_response_def optional_field_def omap_ok_def\<close>)

lemma float_free_response: "float_free (login_response i t)"
proof -
  have "elems_float_free (map json_of_string ss)" for ss
    by (induction ss) (simp_all add: json_of_string_def)
  then show ?thesis by (simp add: login_response_def optional_field_def json_of_strings_def del: map_map)
qed

lemma contains_reparse: "omap_ok m \<Longrightarrow> contains k (reparse (Object m)) \<longleftrightarrow> map_of m k \<noteq> None"
  by (simp add: contains_def reparse_Object is_object_def map_of_reparse del: reparse.simps)

lemma field_strings_reparse:
  "omap_ok m \<Longrightarrow> map_of m k = Some (json_of_strings ss) \<Longrightarrow>
     field_strings k (reparse (Object m)) = Inr (ss, reparse (Object m))"
  by (simp add: field_strings_def json_index_reparse reparse_strings get_string_vector_of_strings del: reparse.simps)

text \<open>
  What the client makes of a login answer. The friends are in \<open>friendinfo\<close>, which the client does not read,
  and the server sends no groups: both lists stay as they were.
\<close>

lemma received_login:
  fixes b :: "'n client_state"
  assumes "is_int32 i" and "texts_ok i t"
    and "offline_of i t = map (\<lambda>c. json_text (chat_json c)) cs" and "\<forall>c \<in> set cs. chat_ok c"
  defines "user \<equiv> (g_current_user b)\<lparr>user_id := i, user_name := user_name (find_user i t)\<rparr>"
  shows "handle_received (json_text (login_response i t)) b =
    (Inr (), b\<lparr>g_current_user := user, g_is_login_success := True, g_read_write_mutex := Suc (g_read_write_mutex b),
       cout := cout b @ text_of_lines (user_data_lines user (g_current_user_friend_list b)
         (g_current_user_group_list b)) @ concat (map shown cs)\<rparr>)"
proof -
  obtain m where m: "login_response i t = Object m" "omap_ok m" "map_of m ''errno'' = Some (json_of_int 0)"
    "map_of m ''id'' = Some (json_of_int i)" "map_of m ''msgid'' = Some (json_of_int 2)"
    "map_of m ''name'' = Some (json_of_string (user_name (find_user i t)))"
    "map_of m ''friends'' = None" "map_of m ''groups'' = None"
    "map_of m ''offlinemsg'' = (if offline_of i t = [] then None else Some (json_of_strings (offline_of i t)))"
    by (rule login_response_fields [OF assms(1)])
  let ?js = "reparse (Object m)"
  have int: "field_int k ?js = Inr (x, ?js)" if "map_of m k = Some (json_of_int x)" "is_int32 x" for k x
    by (rule field_int_reparse [OF m(2) that(1)]) (simp add: that(2))
  have name: "field_string ''name'' ?js = Inr (user_name (find_user i t), ?js)"
    by (rule field_string_reparse [OF m(2,6)]) simp
  have offline: "if contains ''offlinemsg'' ?js
      then field_strings ''offlinemsg'' ?js = Inr (map (\<lambda>c. json_text (chat_json c)) cs, ?js) else cs = []"
    using m(9) assms(3) field_strings_reparse [OF m(2), of "''offlinemsg''" "offline_of i t"]
    by (cases "cs = []") (simp_all add: contains_reparse [OF m(2)] del: reparse.simps)
  have "HandleLoginResponse ?js b =
      (Inr (), b\<lparr>g_current_user := user, g_is_login_success := True,
         cout := cout b @ text_of_lines (user_data_lines user (g_current_user_friend_list b)
           (g_current_user_group_list b)) @ concat (map shown cs)\<rparr>)"
    unfolding user_def
    by (rule HandleLoginResponse_success [OF int [OF m(3)] int [OF m(4) assms(1)] name _ _ offline assms(4)])
       (simp_all add: contains_reparse [OF m(2)] m(7,8) del: reparse.simps)
  moreover have "json_parse (recv_buffer (json_text (login_response i t))) = Inr ?js"
    using received_parse [OF printable_login_response [OF assms(1,2)] float_free_response] m(1) by simp
  ultimately show ?thesis
    using int [OF m(5)] by (simp add: handle_received_def bindC_run seqC_run sem_post_def del: reparse.simps)
qed

lemma login_request_message:
  assumes "is_int32 i"
  shows "login_request (reparse (login_message i pwd)) i pwd"
proof -
  have "field_int ''id'' (reparse (login_message i pwd)) = Inr (i, reparse (login_message i pwd))"
    unfolding login_message_def by (rule field_int_reparse [where v = "json_of_int i"]) (simp_all add: assms omap_ok_def)
  moreover have "field_string ''password'' (reparse (login_message i pwd)) = Inr (pwd, reparse (login_message i pwd))"
    unfolding login_message_def
    by (rule field_string_reparse [where v = "json_of_string pwd"]) (simp_all add: omap_ok_def)
  ultimately show ?thesis by (simp add: login_request_def)
qed

text \<open>The main thread after the post.\<close>

definition help_text :: string where
  "help_text = text_of_lines ([''show command list >>> ''] @ map (\<lambda>(c, d). c @ '' : '' @ d) command_descriptions @ [[]])"

lemma Help_run: "Help api t fd str s = (Inr (), s\<lparr>cout := cout s @ help_text\<rparr>)"
proof -
  have "forC cds (\<lambda>(c, d). out_line (c @ '' : '' @ d)) s' =
      (Inr (), s'\<lparr>cout := cout s' @ text_of_lines (map (\<lambda>(c, d). c @ '' : '' @ d) cds)\<rparr>)"
    for cds and s' :: "'a client_state"
    by (induction cds arbitrary: s') (auto simp: text_of_lines_def seqC_run)
  then show ?thesis by (simp add: Help_def seqC_run help_text_def text_of_lines_def)
qed

lemma login_answered_enters:
  assumes "main_at s = Wait_login" and "g_is_login_success s"
  shows "main_step api t s = (Inr (), s\<lparr>g_read_write_mutex := g_read_write_mutex s - 1, g_is_main_menu_running := True,
    main_at := Chat_menu, cout := cout s @ help_text\<rparr>)"
  using assms by (simp add: main_step_def login_answered_def sem_wait_def bindC_run seqC_run Help_run)

text \<open>
  A login: the client asks, the server accepts, the reader thread takes the answer, the main thread enters the chat
  menu as that user.
\<close>

lemma login_end_to_end:
  fixes c :: "'n client_state" and s :: "('d, 'r) server_state"
  assumes db: "sql_server api view" "tables_ok (view (db s))" "\<not> conn_mtx s"
    and user: "user_id (find_user i (view (db s))) = i" "user_password (find_user i (view (db s))) = pwd"
      "user_state (find_user i (view (db s))) \<noteq> ''online''"
    and texts: "texts_ok i (stmt_update (Update_state ''online'' i) (view (db s)))"
    and stored: "offline_of i (view (db s)) = map (\<lambda>c. json_text (chat_json c)) cs" "\<forall>c \<in> set cs. chat_ok c"
    and client: "main_at c = Start_menu" "cin c = istream_of (show_int 1 @ lf # show_int i @ lf # pwd @ lf # rest)"
      "is_int32 i" "line_ok 50 pwd" "utf8_valid pwd"
      "sent_ok capi (clientfd c) (message_bytes (login_message i pwd)) (net c)"
  defines "answer \<equiv> json_text (login_response i (stmt_update (Update_state ''online'' i) (view (db s))))"
  assumes delivered: "delivers capi ((with_net capi (clientfd c) (login_message i pwd) c)) answer n"
  shows "\<exists>c1 s1 c2 c3. main_step capi t c = (Inr (), c1) \<and>
    net c1 = snd (sock_send capi (clientfd c) (message_bytes (login_message i pwd)) (net c)) \<and>
    OnMessage api rapi conn (message_bytes (login_message i pwd)) s = (Inr (), s1) \<and>
    sends s1 = sends s @ [(conn, answer)] \<and> user_conn_map s1 = umap_insert i conn (user_conn_map s) \<and>
    ReadTaskHandler_once capi c1 = (Inr (), c2) \<and> main_at c2 = Wait_login \<and> g_read_write_mutex c2 = Suc (g_read_write_mutex c) \<and>
    main_step capi t c2 = (Inr (), c3) \<and>
    main_at c3 = Chat_menu \<and> user_id (g_current_user c3) = i \<and>
    user_name (g_current_user c3) = user_name (find_user i (stmt_update (Update_state ''online'' i) (view (db s)))) \<and>
    g_read_write_mutex c3 = g_read_write_mutex c \<and>
    g_current_user_friend_list c3 = g_current_user_friend_list c \<and> cin c3 = istream_of rest"
proof -
  let ?t1 = "stmt_update (Update_state ''online'' i) (view (db s))" and ?lm = "login_message i pwd"
  let ?c1 = "(with_net capi (clientfd c) ?lm c)\<lparr>g_is_login_success := False, main_at := Wait_login, cin := istream_of rest,
    cout := cout c @ menu_text @ ''user id:'' @ ''user password:''\<rparr>"
  have c1: "main_step capi t c = (Inr (), ?c1)"
    using start_menu_login [OF client(2-6)] client(1) by (simp add: main_step_def)
  have "login_request (reparse ?lm) i pwd" by (rule login_request_message [OF client(3)])
  note server = chat_database.login_success_run [OF chat_database.intro [OF db(1)] this client(3) db(2,3) user texts]
  have offline: "offline_of i ?t1 = map (\<lambda>c. json_text (chat_json c)) cs"
    by (simp add: friends_of_update stored(1))
  define c2 where "c2 = snd (ReadTaskHandler_once capi ?c1)"
  have "delivers capi ?c1 answer n" using delivered by (simp add: delivers_def with_net_def)
  then have "ReadTaskHandler_once capi ?c1 = handle_received answer (?c1\<lparr>net := n\<rparr>)"
    by (rule reader_delivers)
  then have read: "ReadTaskHandler_once capi ?c1 = (Inr (), c2)" and
    c2: "user_id (g_current_user c2) = i" "user_name (g_current_user c2) = user_name (find_user i ?t1)"
      "g_is_login_success c2" "main_at c2 = Wait_login" "g_read_write_mutex c2 = Suc (g_read_write_mutex c)"
      "g_current_user_friend_list c2 = g_current_user_friend_list c" "cin c2 = istream_of rest"
    using received_login [OF client(3) texts offline stored(2), of "?c1\<lparr>net := n\<rparr>"]
    by (simp_all add: c2_def answer_def with_net_def)
  show ?thesis
    using c1 server read c2 login_answered_enters [OF c2(4,3), of capi t]
    by (intro exI [of _ ?c1] exI [of _ "snd (OnMessage api rapi conn (message_bytes ?lm) s)"] exI [of _ c2]
        exI [of _ "snd (main_step capi t c2)"])
       (simp add: OnMessage_login client(3,5) answer_def with_net_def prod_eq_iff)
qed

end
