(* ===== verification/Chat_System_Example.thy ===== *)
theory Chat_System_Example
  imports Chat_Example Chat_System
begin

text \<open>
  Concrete clients for the witnesses: sockets that record what is sent and deliver given messages, and users of the
  example server.
\<close>

record ex_net =
  sent :: "(int \<times> string) list"
  incoming :: "string list"

definition ex_sockets :: "ex_net socket_api" where
  "ex_sockets =
     \<lparr>sock_socket = (\<lambda>n. (3, n)), sock_inet_pton = (\<lambda>_. (1, 0)), sock_connect = (\<lambda>_ _ _ n. (0, n)),
      sock_close = (\<lambda>_ n. n),
      sock_send = (\<lambda>fd m n. (int (length m), n\<lparr>sent := sent n @ [(fd, m)]\<rparr>)),
      sock_recv = (\<lambda>_ k n. case incoming n of
         [] \<Rightarrow> ((0, []), n)
       | m # ms \<Rightarrow> ((int (length m), m), n\<lparr>incoming := ms\<rparr>)),
      sock_strerror = (\<lambda>_. [])\<rparr>"

definition ex_user :: UserEntity where
  "ex_user = \<lparr>user_id = 1, user_name = ''ann'', user_password = [], user_state = ''offline''\<rparr>"

text \<open>Ann in the chat menu with the given console input; a client at the start menu.\<close>

definition ex_client :: "string \<Rightarrow> string list \<Rightarrow> ex_net client_state" where
  "ex_client input msgs =
     (client_init (istream_of input) \<lparr>sent = [], incoming = msgs\<rparr>)
       \<lparr>g_current_user := ex_user, g_is_main_menu_running := True, clientfd := 3, main_at := Chat_menu\<rparr>"

text \<open>A client that was started with an address.\<close>

definition ex_argv :: "string list" where
  "ex_argv = [''client'', ''127.0.0.1'', ''6000'']"

definition ex_start :: "string \<Rightarrow> string list \<Rightarrow> ex_net client_state" where
  "ex_start input msgs =
     snd (client_main ex_sockets ex_argv (client_init (istream_of input) \<lparr>sent = [], incoming = msgs\<rparr>))"

definition ex_tm :: tm where
  "ex_tm = \<lparr>tm_year = 125, tm_mon = 0, tm_mday = 2, tm_hour = 3, tm_min = 4, tm_sec = 5\<rparr>"

definition ex_time :: string where
  "ex_time = ''2025-01-02 03:04:05''"

lemma ex_time: "GetCurrentTime ex_tm = Inr ex_time"
  by code_simp

lemma utf8_ex_time [simp]: "utf8_valid ex_time"
  by (rule GetCurrentTime_utf8 [OF ex_time])

lemma ex_sent_ok [simp]: "sent_ok ex_sockets fd m n"
  by (simp add: sent_ok_def ex_sockets_def)

lemma ex_client_simps [simp]:
  "menus_ok (ex_client i ms)" "main_at (ex_client i ms) = Chat_menu" "g_current_user (ex_client i ms) = ex_user"
  "cin (ex_client i ms) = istream_of i" "clientfd (ex_client i ms) = 3" "user_ok ex_user"
  "incoming (net (ex_client i ms)) = ms" "cout (ex_client i ms) = []"
  by (simp_all add: ex_client_def client_init_def menus_ok_def user_ok_def ex_user_def utf8_valid_ascii)

lemma ex_start_run:
  "client_main ex_sockets ex_argv (client_init (istream_of input) \<lparr>sent = [], incoming = msgs\<rparr>) =
    (Inr (), (client_init (istream_of input) \<lparr>sent = [], incoming = msgs\<rparr>)
       \<lparr>clientfd := 3, sin_port := 6000, sin_addr := 0, g_read_write_mutex := 0,
        cout := msg_connected @ ''127.0.0.1'' @ '':'' @ show_int 6000 @ endl\<rparr>)"
proof -
  have "atoi ''6000'' = 6000" by code_simp
  then show ?thesis
    by (simp add: client_main_def ConnectToServer_def seqC_run bindC_run ex_sockets_def ex_argv_def client_init_def)
qed

lemma ex_start_simps [simp]:
  "main_at (ex_start i ms) = Start_menu" "cin (ex_start i ms) = istream_of i" "clientfd (ex_start i ms) = 3"
  "net (ex_start i ms) = \<lparr>sent = [], incoming = ms\<rparr>" "\<not> g_is_login_success (ex_start i ms)"
  unfolding ex_start_def ex_start_run by (simp_all add: client_init_def)

lemma ex_started: "client_started ex_sockets (ex_start i ms)"
  unfolding client_started_def ex_start_def using ex_start_run by (metis snd_conv)

lemma ex_delivers:
  "incoming (net s) = m # ms \<Longrightarrow> 0 < length m \<Longrightarrow> length m \<le> 1023 \<Longrightarrow>
     delivers ex_sockets s m ((net s)\<lparr>incoming := ms\<rparr>)"
  by (simp add: delivers_def ex_sockets_def)

lemma ex_send [simp]: "snd (sock_send ex_sockets fd m n) = n\<lparr>sent := sent n @ [(fd, m)]\<rparr>"
  by (simp add: ex_sockets_def)

text \<open>A server where Dan (4) is offline and nothing is stored for him.\<close>

definition ex_tables4 :: tables where
  "ex_tables4 = \<lparr>t_user = [(4, ''dan'', ''pd'', ''offline'')], t_friend = [], t_offline = []\<rparr>"

definition ex_state4 :: "(ref_db, redis_log) server_state" where
  "ex_state4 = ex_state\<lparr>db := \<lparr>rd_tables = ex_tables4, rd_result = None\<rparr>\<rparr>"

definition ex_answer :: string where
  "ex_answer = json_text (login_response 4 (stmt_update (Update_state ''online'' 4) ex_tables4))"

lemma ex_state4_simps [simp]:
  "rd_tables (db ex_state4) = ex_tables4" "\<not> conn_mtx ex_state4" "tables_ok ex_tables4" "offline_of 4 ex_tables4 = []"
  by (simp_all add: ex_state4_def ex_tables4_def tables_ok_def is_int32_def offline_of_def)

lemma ex_user4 [simp]:
  "find_user 4 ex_tables4 = \<lparr>user_id = 4, user_name = ''dan'', user_password = ''pd'', user_state = ''offline''\<rparr>"
  by (simp add: find_user_def ex_tables4_def)

lemma ex_texts4: "texts_ok 4 (stmt_update (Update_state ''online'' 4) ex_tables4)"
  by (simp add: texts_ok_def ex_tables4_def stmt_update.simps find_user_def friends_of_def offline_of_def utf8_valid_ascii)

lemma ex_answer_length: "0 < length ex_answer" "length ex_answer \<le> 1023"
  by code_simp+

text \<open>Dan logs in.\<close>

definition ex_login :: "ex_net client_state" where
  "ex_login = ex_start (show_int 1 @ lf # show_int 4 @ lf # ''pd'' @ [lf]) [ex_answer]"

lemma ex_login_deliver:
  "delivers ex_sockets (with_net ex_sockets (clientfd ex_login) (login_message 4 ''pd'') ex_login)
     (json_text (login_response 4 (stmt_update (Update_state ''online'' 4) (rd_tables (db ex_state4)))))
     ((net (with_net ex_sockets (clientfd ex_login) (login_message 4 ''pd'') ex_login))\<lparr>incoming := []\<rparr>)"
  unfolding ex_state4_simps(1) ex_answer_def [symmetric]
  by (rule ex_delivers) (use ex_answer_length in \<open>simp_all add: with_net_def ex_login_def\<close>)

lemma ex_pwd: "line_ok 50 ''pd''" "utf8_valid ''pd''" "is_int32 4"
  by (simp_all add: line_ok_def lf_def utf8_valid_ascii)

lemma ex_login_premises:
  "tables_ok (rd_tables (db ex_state4))" "\<not> conn_mtx ex_state4"
  "user_id (find_user 4 (rd_tables (db ex_state4))) = 4" "user_password (find_user 4 (rd_tables (db ex_state4))) = ''pd''"
  "user_state (find_user 4 (rd_tables (db ex_state4))) \<noteq> ''online''"
  "texts_ok 4 (stmt_update (Update_state ''online'' 4) (rd_tables (db ex_state4)))"
  "offline_of 4 (rd_tables (db ex_state4)) = map (\<lambda>c. json_text (chat_json c)) []" "\<forall>c \<in> set []. chat_ok c"
  "main_at ex_login = Start_menu" "cin ex_login = istream_of (show_int 1 @ lf # show_int 4 @ lf # ''pd'' @ lf # [])"
  "is_int32 4" "line_ok 50 ''pd''" "utf8_valid ''pd''"
  "sent_ok ex_sockets (clientfd ex_login) (message_bytes (login_message 4 ''pd'')) (net ex_login)"
  using ex_texts4 ex_pwd by (simp_all add: ex_login_def del: stmt_update.simps)

lemma ex_login_run:
  obtains c1 c2 c3 where "main_step ex_sockets ex_tm ex_login = (Inr (), c1)"
    "ReadTaskHandler_once ex_sockets c1 = (Inr (), c2)" "main_step ex_sockets ex_tm c2 = (Inr (), c3)" "main_at c3 = Chat_menu"
    "main_at c2 = Wait_login" "0 < g_read_write_mutex c2"
  using login_end_to_end [OF ref_server ex_login_premises ex_login_deliver, of ex_tm log_redis 0] that
  by (metis zero_less_Suc)

lemma ex_answer_received: "g_is_login_success (snd (handle_received ex_answer ex_login))"
proof -
  have "offline_of 4 (stmt_update (Update_state ''online'' 4) ex_tables4) = map (\<lambda>c. json_text (chat_json c)) []"
    by (simp add: friends_of_update del: stmt_update.simps)
  from received_login [OF ex_pwd(3) ex_texts4 this, of ex_login] show ?thesis
    by (simp add: ex_answer_def del: stmt_update.simps)
qed

end
