(* ===== verification/Json_Number.thy ===== *)
theory Json_Number
  imports Json_Token_Inv
begin

text \<open>
  Integer tokens are exact: the text that \<open>scan_number\<close> collects is the decimal representation of the
  value it stores, so \<open>strtoull\<close> and \<open>strtoll\<close> read all of it (the \<open>assert\<close> after them).
\<close>

section \<open>Decimal texts\<close>

definition decimal :: "string \<Rightarrow> bool" where
  "decimal ds \<longleftrightarrow> ds \<noteq> [] \<and> (\<forall>c \<in> set ds. is_digit c) \<and> (hd ds = CHR ''0'' \<longrightarrow> ds = ''0'')"

lemma decimal_zero: "decimal ''0''"
  by (simp add: decimal_def is_digit_def)

lemma decimal_one: "is_digit d \<Longrightarrow> d \<noteq> CHR ''0'' \<Longrightarrow> decimal [d]"
  by (simp add: decimal_def)

lemma decimal_snoc: "decimal ds \<Longrightarrow> hd ds \<noteq> CHR ''0'' \<Longrightarrow> is_digit d \<Longrightarrow> decimal (ds @ [d]) \<and> hd (ds @ [d]) \<noteq> CHR ''0''"
  by (cases ds) (auto simp: decimal_def)

lemma digit_val_zero: "is_digit c \<Longrightarrow> digit_val c = 0 \<Longrightarrow> c = CHR ''0''"
proof -
  assume "is_digit c" "digit_val c = 0"
  then have "c = digit_char 0" using digit_char_digit_val [of c] by simp
  also have "\<dots> = CHR ''0''" by code_simp
  finally show ?thesis .
qed

lemma read_digits_positive:
  "\<forall>c \<in> set ds. is_digit c \<Longrightarrow> ds \<noteq> [] \<Longrightarrow> hd ds \<noteq> CHR ''0'' \<Longrightarrow> 0 < read_digits 0 ds"
proof (induction ds rule: rev_induct)
  case (snoc d ds)
  then show ?case
    using digit_val_zero [of d] by (cases ds) (auto simp: read_digits_append)
qed simp

lemma show_nat_read_digits: "decimal ds \<Longrightarrow> show_nat (read_digits 0 ds) = ds"
proof (induction ds rule: rev_induct)
  case (snoc d ds)
  then have d: "digit_val d < 10" "digit_char (digit_val d) = d"
    by (simp_all add: decimal_def digit_val_less digit_char_digit_val)
  show ?case
  proof (cases "ds = []")
    case True
    then show ?thesis using d by (simp add: show_nat.simps)
  next
    case False
    then have dec: "decimal ds" and hd: "hd ds \<noteq> CHR ''0''"
      using snoc.prems by (auto simp: decimal_def)
    then have "0 < read_digits 0 ds" using read_digits_positive [of ds] by (simp add: decimal_def)
    then have "\<not> 10 * read_digits 0 ds + digit_val d < 10" by simp
    moreover have "(10 * read_digits 0 ds + digit_val d) div 10 = read_digits 0 ds" using d by simp
    moreover have "(10 * read_digits 0 ds + digit_val d) mod 10 = digit_val d" using d by simp
    ultimately show ?thesis
      using snoc.IH [OF dec] d by (simp add: read_digits_append show_nat.simps [of "10 * read_digits 0 ds + digit_val d"])
  qed
qed (simp add: decimal_def)

section \<open>The collected text\<close>

fun number_buffer_ok :: "token_type \<Rightarrow> string \<Rightarrow> bool" where
  "number_buffer_ok value_unsigned_tok b \<longleftrightarrow> decimal b"
| "number_buffer_ok value_integer_tok b \<longleftrightarrow> (\<exists>ds. b = CHR ''-'' # ds \<and> decimal ds)"
| "number_buffer_ok t b \<longleftrightarrow> t = value_float_tok"

text \<open>Before label \<open>st\<close>; the labels of the fraction and of the exponent do not come back.\<close>

definition unsigned_digits :: "token_type \<Rightarrow> string \<Rightarrow> string option" where
  "unsigned_digits ty b =
     (if ty = value_unsigned_tok then Some b
      else if ty = value_integer_tok \<and> b \<noteq> [] \<and> hd b = CHR ''-'' then Some (tl b) else None)"

fun label_ok :: "number_state \<Rightarrow> token_type \<Rightarrow> string \<Rightarrow> bool" where
  "label_ok Minus ty b \<longleftrightarrow> b = ''-''"
| "label_ok Zero ty b \<longleftrightarrow> unsigned_digits ty b = Some ''0''"
| "label_ok Any1 ty b \<longleftrightarrow> (\<exists>ds. unsigned_digits ty b = Some ds \<and> decimal ds \<and> hd ds \<noteq> CHR ''0'')"
| "label_ok Decimal1 ty b \<longleftrightarrow> True"
| "label_ok Exponent ty b \<longleftrightarrow> True"
| "label_ok st ty b \<longleftrightarrow> ty = value_float_tok"

lemma unsigned_digits_ok: "unsigned_digits ty b = Some ds \<Longrightarrow> decimal ds \<Longrightarrow> number_buffer_ok ty b"
  by (cases b) (auto simp: unsigned_digits_def split: if_splits)

lemma label_ok_step:
  assumes "label_ok st ty b" and "number_step st c = Goto st' d"
  shows "label_ok st' (label_type st ty) (b @ [d])"
proof (cases st)
  case Any1
  then obtain ds where ds: "unsigned_digits ty b = Some ds" "decimal ds" "hd ds \<noteq> CHR ''0''" using assms(1) by auto
  then have snoc: "unsigned_digits ty (b @ [d]) = Some (ds @ [d])"
    by (cases b) (auto simp: unsigned_digits_def split: if_splits)
  show ?thesis
    using assms(2) Any1 snoc decimal_snoc [OF ds(2,3), of d]
    by (auto simp: label_type_def split: option.splits if_splits)
qed (use assms in \<open>auto simp: label_type_def unsigned_digits_def decimal_one split: option.splits if_splits\<close>)

lemma label_ok_done:
  assumes "label_ok st ty b" and "number_step st c = Done"
  shows "number_buffer_ok (label_type st ty) b"
  using assms
  by (cases st)
     (auto simp: label_type_def decimal_zero intro: unsigned_digits_ok split: option.splits if_splits)

definition number_exact :: "token_type \<Rightarrow> lexer \<Rightarrow> bool" where
  "number_exact t lx \<longleftrightarrow>
     (t = value_unsigned_tok \<longrightarrow> token_buffer lx = show_int (value_unsigned lx)) \<and>
     (t = value_integer_tok \<longrightarrow> token_buffer lx = CHR ''-'' # show_int (- value_integer lx))"

lemma show_int_read: "decimal ds \<Longrightarrow> show_int (int (read_digits 0 (takeWhile is_digit ds))) = ds"
  by (simp add: decimal_def [of ds] show_int_def show_nat_read_digits takeWhile_eq_all_conv [THEN iffD2])

lemma number_exact_done:
  assumes "number_buffer_ok ty (token_buffer (lex_unget lx))" and "scan_number_done ty lx = (t, lx')"
  shows "number_exact t lx'"
  using assms
  by (cases ty)
     (auto simp: scan_number_done_def scan_number_float_def Let_def number_exact_def strtoull_def strtoll_def
       show_int_read split: if_splits option.splits)


lemma token_buffer_unget: "token_buffer (lex_unget lx) = token_buffer lx"
  by (simp add: lex_unget_def)

lemma token_buffer_get: "token_buffer (lex_get lx) = token_buffer lx"
  by (simp add: lex_get_def Let_def split: option.splits prod.splits)

lemma number_exact_loop:
  "label_ok st ty (token_buffer lx) \<Longrightarrow> scan_number_loop st ty lx = (t, lx') \<Longrightarrow> number_exact t lx'"
proof (induction st ty lx rule: scan_number_loop.induct)
  case (1 st ty lx)
  show ?case
  proof (cases "number_step st (current (lex_get lx))")
    case (Goto st' c)
    then have "label_ok st' (label_type st ty) (token_buffer (lex_add c (lex_get lx)))"
      using label_ok_step [OF "1.prems"(1) Goto] by (simp add: lex_add_def token_buffer_get)
    then show ?thesis using "1.IH" [OF refl refl Goto] "1.prems"(2) Goto by (simp add: scan_number_loop.simps [of st])
  next
    case Done
    then show ?thesis
      using number_exact_done [of "label_type st ty" "lex_get lx"] label_ok_done [OF "1.prems"(1) Done] "1.prems"(2)
      by (simp add: scan_number_loop.simps [of st] token_buffer_get token_buffer_unget)
  next
    case (Fail m)
    then show ?thesis using "1.prems"(2) by (auto simp: scan_number_loop.simps [of st] number_exact_def)
  qed
qed

lemma number_exact_number:
  assumes "scan_number lx = (t, lx')" and "current lx = Some c" and "c = CHR ''-'' \<or> is_digit c"
  shows "number_exact t lx'"
proof -
  have "label_ok (if c = CHR ''-'' then Minus else if c = CHR ''0'' then Zero else Any1) value_unsigned_tok [c]"
    using assms(3) by (auto simp: unsigned_digits_def decimal_one)
  then show ?thesis
    using number_exact_loop [of _ value_unsigned_tok "lx\<lparr>token_string := [c], token_buffer := [c]\<rparr>" t lx'] assms(1,2)
    by (simp add: scan_number_def Let_def lex_add_def lex_reset_def split: if_splits)
qed

lemma number_exact_other: "t \<notin> {value_unsigned_tok, value_integer_tok} \<Longrightarrow> number_exact t lx"
  by (simp add: number_exact_def)

lemma number_exact_if:
  "number_exact (fst a) (snd a) \<Longrightarrow> number_exact (fst b) (snd b) \<Longrightarrow>
     number_exact (fst (if c then a else b)) (snd (if c then a else b))"
  by simp

lemma number_exact_scan_token: "number_exact (fst (scan_token lx)) (snd (scan_token lx))"
proof (cases "current lx")
  case (Some c)
  have lit: "number_exact (fst (scan_literal cs t lx)) (snd (scan_literal cs t lx))"
    if "t \<in> {literal_true, literal_false, literal_null}" for cs t
    using scan_literal_loop_result [of "tl cs" t lx] that by (auto simp: scan_literal_def number_exact_def)
  have str: "number_exact (fst (scan_string lx)) (snd (scan_string lx))"
    using scan_string_loop_result [of "lex_reset lx"] by (auto simp: scan_string_def number_exact_def)
  show ?thesis
    using lit str number_exact_number [OF prod.collapse [symmetric] Some] Some
    by (simp add: scan_token_def number_exact_other split: if_split)
qed (simp add: scan_token_def number_exact_other)

lemma number_exact_scan: "scan lx = (t, lx') \<Longrightarrow> number_exact t lx'"
  using number_exact_scan_token
  by (auto simp: scan_def number_exact_other split: prod.splits if_splits) (metis fst_conv snd_conv)+

end
