(* ===== verification/Json_Access.thy ===== *)
theory Json_Access
  imports Json_Dom
begin

text \<open>
  Element access and modifiers of \<open>basic_json\<close>. A function that changes the value is a command over it: the
  state is the value, changes made before an exception stay. A function that returns a reference into the
  value returns the step to the element; a const one returns the element.
\<close>

section \<open>\<open>std::map\<close>\<close>

definition omap_erase :: "'k \<Rightarrow> ('k \<times> 'v) list \<Rightarrow> ('k \<times> 'v) list" where
  "omap_erase k m = filter (\<lambda>e. fst e \<noteq> k) m"

text \<open>\<open>insert\<close> and \<open>emplace\<close> keep an entry that is already there.\<close>

definition omap_insert :: "'k::linorder \<Rightarrow> 'v \<Rightarrow> ('k \<times> 'v) list \<Rightarrow> ('k \<times> 'v) list" where
  "omap_insert k v m = (case map_of m k of None \<Rightarrow> omap_update k v m | Some _ \<Rightarrow> m)"

lemma map_of_omap_erase [simp]: "map_of (omap_erase k m) = (map_of m)(k := None)"
  by (induction m) (auto simp: omap_erase_def)

lemma omap_ok_erase: "omap_ok m \<Longrightarrow> omap_ok (omap_erase k m)"
  by (induction m) (auto simp: omap_ok_Cons omap_erase_def)

lemma set_omap_erase: "set (omap_erase k m) = {e \<in> set m. fst e \<noteq> k}"
  by (auto simp: omap_erase_def)

lemma map_of_omap_insert:
  "map_of (omap_insert k v m) = (if k \<in> dom (map_of m) then map_of m else (map_of m)(k \<mapsto> v))"
  by (auto simp: omap_insert_def split: option.splits)

lemma omap_ok_insert: "omap_ok m \<Longrightarrow> omap_ok (omap_insert k v m)"
  by (auto simp: omap_insert_def omap_ok_update split: option.splits)

lemma omap_update_same: "omap_ok m \<Longrightarrow> map_of m k = Some v \<Longrightarrow> omap_update k v m = m"
proof (induction m)
  case (Cons e m)
  obtain k' v' where e: "e = (k', v')" by force
  show ?case
  proof (cases "k = k'")
    case False
    with Cons.prems have m: "map_of m k = Some v" by (simp add: e)
    then have "k \<in> fst ` set m" by (force dest: map_of_SomeD)
    with Cons.prems(1) have "k' < k" "omap_ok m" by (auto simp: e omap_ok_Cons)
    with Cons.IH m False show ?thesis by (auto simp: e)
  qed (use Cons.prems in \<open>simp add: e\<close>)
qed simp

text \<open>Entries in order are determined by the lookup.\<close>

lemma omap_entries:
  assumes "omap_ok m"
  shows "m = map (\<lambda>k. (k, the (map_of m k))) (sorted_list_of_set (dom (map_of m)))"
proof -
  have "sorted_list_of_set (set (map fst m)) = map fst m"
    using assms by (metis omap_ok_def strict_sorted_iff sorted_list_of_set.idem_if_sorted_distinct)
  then have "sorted_list_of_set (dom (map_of m)) = map fst m" by (simp add: dom_map_of_conv_image_fst)
  moreover have "map (\<lambda>k. (k, the (map_of m k))) (map fst m) = m"
    unfolding map_map by (rule map_idI) (use omap_ok_distinct [OF assms] in auto)
  ultimately show ?thesis by simp
qed

lemma omap_ext: "omap_ok m \<Longrightarrow> omap_ok n \<Longrightarrow> map_of m = map_of n \<Longrightarrow> m = n"
  by (metis omap_entries)

section \<open>Size\<close>

fun json_size :: "json \<Rightarrow> nat" where
  "json_size Null = 0"
| "json_size (Array a) = length a"
| "json_size (Object m) = length m"
| "json_size _ = 1"

fun json_empty :: "json \<Rightarrow> bool" where
  "json_empty Null = True"
| "json_empty (Array a) = (a = [])"
| "json_empty (Object m) = (m = [])"
| "json_empty _ = False"

text \<open>The containers of libstdc++ on a 64-bit machine: nodes of 80 and elements of 16 bytes.\<close>

definition json_max_size :: "value_t \<Rightarrow> nat" where
  "json_max_size t = (case t of array_t \<Rightarrow> (2 ^ 63 - 1) div 16 | object_t \<Rightarrow> (2 ^ 63 - 1) div 80
     | null_t \<Rightarrow> 0 | _ \<Rightarrow> 1)"

section \<open>\<open>at()\<close>\<close>

definition at_index :: "nat \<Rightarrow> json \<Rightarrow> exn + json" where
  "at_index idx j =
     (case j of
        Array a \<Rightarrow>
          if idx < length a then Inr (a ! idx)
          else Inl (out_of_range_create 401 (''array index '' @ show_nat idx @ '' is out of range''))
      | _ \<Rightarrow> Inl (type_error_create 304 (''cannot use at() with '' @ type_name j)))"

definition at_key :: "string \<Rightarrow> json \<Rightarrow> exn + json" where
  "at_key key j =
     (case j of
        Object m \<Rightarrow>
          (case map_of m key of
             Some v \<Rightarrow> Inr v
           | None \<Rightarrow> Inl (out_of_range_create 403 (''key '' @ squote @ key @ squote @ '' not found'')))
      | _ \<Rightarrow> Inl (type_error_create 304 (''cannot use at() with '' @ type_name j)))"

section \<open>\<open>operator[]\<close>\<close>

text \<open>
  With a \<open>size_type\<close>, not const: the array is filled up with null. The number of new elements is a 64-bit
  number; \<open>std::vector::insert\<close> throws if the result would be too long.
\<close>

definition array_slot :: "nat \<Rightarrow> (json, exn, ptr_step) cmd" where
  "array_slot idx j =
     (let j' = (if json_type j = null_t then json_of_type array_t else j) in
      case j' of
        Array a \<Rightarrow>
          if idx < length a then (Inr (Index idx), j')
          else let n = (idx - length a + 1) mod 2 ^ 64; b = a @ replicate n Null in
            if n > json_max_size array_t - length a then (Inl (Length_error ''vector::_M_fill_insert''), j')
            else (if idx < length b then Inr (Index idx) else Inl (Undefined_behaviour ''operator[] of a vector''),
                  Array b)
      | _ \<Rightarrow> (Inl (type_error_create 305 (''cannot use operator[] with a numeric argument with '' @ type_name j)), j'))"

definition key_slot :: "string \<Rightarrow> (json, exn, ptr_step) cmd" where
  "key_slot key j =
     (let j' = (if json_type j = null_t then json_of_type object_t else j) in
      case j' of
        Object m \<Rightarrow> (Inr (Key key), case map_of m key of Some _ \<Rightarrow> j' | None \<Rightarrow> Object (omap_update key Null m))
      | _ \<Rightarrow> (Inl (type_error_create 305 (''cannot use operator[] with a string argument with '' @ type_name j)), j'))"

definition index_const :: "nat \<Rightarrow> json \<Rightarrow> exn + json" where
  "index_const idx j =
     (case j of
        Array a \<Rightarrow> if idx < length a then Inr (a ! idx) else Inl (Undefined_behaviour ''operator[] of a vector'')
      | _ \<Rightarrow> Inl (type_error_create 305 (''cannot use operator[] with a numeric argument with '' @ type_name j)))"

definition key_const :: "string \<Rightarrow> json \<Rightarrow> exn + json" where
  "key_const key j =
     (case j of
        Object m \<Rightarrow>
          (case map_of m key of
             Some v \<Rightarrow> Inr v
           | None \<Rightarrow> Inl (Assertion_failed ''m_value.object->find(key) != m_value.object->end()''))
      | _ \<Rightarrow> Inl (type_error_create 305 (''cannot use operator[] with a string argument with '' @ type_name j)))"

section \<open>Lookup\<close>

text \<open>\<open>find\<close> of a value that is no object gives \<open>end()\<close>.\<close>

definition json_find :: "string \<Rightarrow> json \<Rightarrow> json option" where
  "json_find key j = (case j of Object m \<Rightarrow> map_of m key | _ \<Rightarrow> None)"

definition json_count :: "string \<Rightarrow> json \<Rightarrow> nat" where
  "json_count key j = (case j of Object m \<Rightarrow> (if map_of m key = None then 0 else 1) | _ \<Rightarrow> 0)"

definition value_or :: "string \<Rightarrow> json \<Rightarrow> json \<Rightarrow> exn + json" where
  "value_or key default_value j =
     (if is_object j then Inr (case json_find key j of Some v \<Rightarrow> v | None \<Rightarrow> default_value)
      else Inl (type_error_create 306 (''cannot use value() with '' @ type_name j)))"

section \<open>Modifiers\<close>

definition erase_key :: "string \<Rightarrow> (json, exn, nat) cmd" where
  "erase_key key j =
     (case j of
        Object m \<Rightarrow> (Inr (json_count key j), Object (omap_erase key m))
      | _ \<Rightarrow> (Inl (type_error_create 307 (''cannot use erase() with '' @ type_name j)), j))"

definition erase_index :: "nat \<Rightarrow> (json, exn, unit) cmd" where
  "erase_index idx j =
     (case j of
        Array a \<Rightarrow>
          if length a \<le> idx
          then (Inl (out_of_range_create 401 (''array index '' @ show_nat idx @ '' is out of range'')), j)
          else (Inr (), Array (take idx a @ drop (Suc idx) a))
      | _ \<Rightarrow> (Inl (type_error_create 307 (''cannot use erase() with '' @ type_name j)), j))"

fun json_clear :: "json \<Rightarrow> json" where
  "json_clear (Number_integer i) = Number_integer 0"
| "json_clear (Number_unsigned i) = Number_unsigned 0"
| "json_clear (Number_float d) = Number_float 0"
| "json_clear (Boolean b) = Boolean False"
| "json_clear (String s) = String []"
| "json_clear (Array a) = Array []"
| "json_clear (Object m) = Object []"
| "json_clear j = j"

definition push_back :: "json \<Rightarrow> (json, exn, unit) cmd" where
  "push_back v j =
     (case j of
        Null \<Rightarrow> (Inr (), Array [v])
      | Array a \<Rightarrow> (Inr (), Array (a @ [v]))
      | _ \<Rightarrow> (Inl (type_error_create 308 (''cannot use push_back() with '' @ type_name j)), j))"

definition push_back_pair :: "string \<Rightarrow> json \<Rightarrow> (json, exn, unit) cmd" where
  "push_back_pair k v j =
     (case j of
        Null \<Rightarrow> (Inr (), Object [(k, v)])
      | Object m \<Rightarrow> (Inr (), Object (omap_insert k v m))
      | _ \<Rightarrow> (Inl (type_error_create 308 (''cannot use push_back() with '' @ type_name j)), j))"

definition emplace_back :: "json \<Rightarrow> (json, exn, ptr_step) cmd" where
  "emplace_back v j =
     (case j of
        Null \<Rightarrow> (Inr (Index 0), Array [v])
      | Array a \<Rightarrow> (Inr (Index (length a)), Array (a @ [v]))
      | _ \<Rightarrow> (Inl (type_error_create 311 (''cannot use emplace_back() with '' @ type_name j)), j))"

text \<open>The result says whether the entry was inserted; the iterator that is returned points to the key.\<close>

definition json_emplace :: "string \<Rightarrow> json \<Rightarrow> (json, exn, ptr_step \<times> bool) cmd" where
  "json_emplace k v j =
     (case j of
        Null \<Rightarrow> (Inr (Key k, True), Object [(k, v)])
      | Object m \<Rightarrow> (Inr (Key k, map_of m k = None), Object (omap_insert k v m))
      | _ \<Rightarrow> (Inl (type_error_create 311 (''cannot use emplace() with '' @ type_name j)), j))"

definition json_update :: "json \<Rightarrow> (json, exn, unit) cmd" where
  "json_update other j =
     (let j' = (if json_type j = null_t then json_of_type object_t else j) in
      case j' of
        Object m \<Rightarrow>
          (case other of
             Object n \<Rightarrow> (Inr (), Object (foldl (\<lambda>m (k, v). omap_update k v m) m n))
           | _ \<Rightarrow> (Inl (type_error_create 312 (''cannot use update() with '' @ type_name other)), j'))
      | _ \<Rightarrow> (Inl (type_error_create 312 (''cannot use update() with '' @ type_name j')), j'))"

definition json_swap :: "json \<times> json \<Rightarrow> json \<times> json" where
  "json_swap p = (snd p, fst p)"

definition swap_array :: "json \<times> json list \<Rightarrow> (exn + unit) \<times> json \<times> json list" where
  "swap_array p =
     (case p of
        (Array a, other) \<Rightarrow> (Inr (), Array other, a)
      | (j, other) \<Rightarrow> (Inl (type_error_create 310 (''cannot use swap() with '' @ type_name j)), j, other))"

section \<open>The data invariant\<close>

lemma json_ok_at_index: "at_index i j = Inr v \<Longrightarrow> json_ok j \<Longrightarrow> json_ok v"
  by (auto simp: at_index_def elems_ok_iff split: json.splits if_splits)

lemma json_ok_at_key: "at_key k j = Inr v \<Longrightarrow> json_ok j \<Longrightarrow> json_ok v"
  by (auto simp: at_key_def members_ok_iff dest!: map_of_SomeD split: json.splits option.splits)

lemma json_ok_slots:
  "json_ok j \<Longrightarrow> json_ok (snd (array_slot i j))"
  "json_ok j \<Longrightarrow> json_ok (snd (key_slot k j))"
  by (cases j; auto simp: array_slot_def key_slot_def Let_def elems_ok_iff members_ok_iff omap_ok_update omap_ok_Cons
      dest!: set_omap_update split: option.splits)+

lemma json_ok_erase:
  "json_ok j \<Longrightarrow> json_ok (snd (erase_key k j))"
  "json_ok j \<Longrightarrow> json_ok (snd (erase_index i j))"
  by (cases j; auto simp: erase_key_def erase_index_def members_ok_iff elems_ok_iff omap_ok_erase set_omap_erase
      dest: in_set_takeD in_set_dropD)+

lemma json_ok_push:
  "json_ok j \<Longrightarrow> json_ok v \<Longrightarrow> json_ok (snd (push_back v j))"
  "json_ok j \<Longrightarrow> json_ok v \<Longrightarrow> json_ok (snd (emplace_back v j))"
  "json_ok j \<Longrightarrow> json_ok v \<Longrightarrow> json_ok (snd (push_back_pair k v j))"
  "json_ok j \<Longrightarrow> json_ok v \<Longrightarrow> json_ok (snd (json_emplace k v j))"
  by (cases j; auto simp: push_back_def emplace_back_def push_back_pair_def json_emplace_def elems_ok_iff members_ok_iff
      omap_insert_def omap_ok_update omap_ok_Cons dest!: set_omap_update split: option.splits)+

lemma members_ok_foldl:
  "omap_ok m \<Longrightarrow> members_ok m \<Longrightarrow> members_ok n \<Longrightarrow>
     omap_ok (foldl (\<lambda>m (k, v). omap_update k v m) m n) \<and> members_ok (foldl (\<lambda>m (k, v). omap_update k v m) m n)"
proof (induction n arbitrary: m)
  case (Cons e n)
  obtain k v where e: "e = (k, v)" by force
  have "omap_ok (omap_update k v m)" "members_ok (omap_update k v m)"
    using Cons.prems by (auto simp: e members_ok_iff omap_ok_update dest!: set_omap_update)
  with Cons.IH [of "omap_update k v m"] Cons.prems show ?case by (simp add: e)
qed simp

lemma json_ok_update: "json_ok j \<Longrightarrow> json_ok other \<Longrightarrow> json_ok (snd (json_update other j))"
  by (cases j; cases other; auto simp: json_update_def members_ok_foldl)

end
