(* ===== verification/Json_Binary.thy ===== *)
theory Json_Binary
  imports Json_Access
begin

text \<open>
  What the readers and writers of the binary formats share: the private state and the utility functions of
  class \<open>binary_reader\<close>, \<open>write_number\<close> of class \<open>binary_writer\<close>, and the recursion of the readers. The
  reader owns a \<open>json_sax_dom_parser\<close>, so its state extends \<open>sax_dom\<close>; the input adapter is the rest of
  the bytes.
\<close>

section \<open>Numbers as bytes\<close>

definition is_little_endian :: bool where
  "is_little_endian = True"

fun le_bytes :: "nat \<Rightarrow> nat \<Rightarrow> string" where
  "le_bytes 0 n = []"
| "le_bytes (Suc k) n = char_of n # le_bytes k (n div 256)"

fun le_value :: "string \<Rightarrow> nat" where
  "le_value [] = 0"
| "le_value (c # cs) = of_char c + 256 * le_value cs"

text \<open>
  \<open>write_number<NumberType, OutputIsLittleEndian>\<close> for a type of \<open>k\<close> bytes; the argument is converted to
  that type first. \<open>memcpy\<close> copies the bytes in the order of the machine.
\<close>

definition write_number :: "nat \<Rightarrow> bool \<Rightarrow> int \<Rightarrow> string" where
  "write_number k output_is_little_endian n =
     (let vec = le_bytes k (nat (n mod 256 ^ k))
      in if is_little_endian \<noteq> output_is_little_endian then rev vec else vec)"

definition to_char_type :: "nat \<Rightarrow> char" where
  "to_char_type x = char_of x"

text \<open>The value of a signed type with \<open>k\<close> bytes.\<close>

definition signed_of :: "nat \<Rightarrow> nat \<Rightarrow> int" where
  "signed_of k n = (if n < 2 ^ (8 * k - 1) then int n else int n - 2 ^ (8 * k))"

lemma length_le_bytes [simp]: "length (le_bytes k n) = k"
  by (induction k arbitrary: n) simp_all

lemma le_value_bytes [simp]: "n < 256 ^ k \<Longrightarrow> le_value (le_bytes k n) = n"
proof (induction k arbitrary: n)
  case (Suc k)
  then have "n div 256 < 256 ^ k" by (simp add: div_less_iff_less_mult)
  then show ?case using Suc.IH by simp
qed simp

lemma length_write_number [simp]: "length (write_number k le n) = k"
  by (simp add: write_number_def Let_def)

section \<open>The reader\<close>

datatype input_format_t = json_fmt | cbor_fmt | msgpack_fmt | ubjson_fmt | bson_fmt

record breader = sax_dom +
  bin_input :: string
  bin_current :: "char option"    \<comment> \<open>\<open>None\<close> is the end of the input\<close>
  bin_chars_read :: nat

type_synonym 'a read = "(breader, exn, 'a) cmd"

definition bin_get :: "char option read" where
  "bin_get = (\<lambda>s.
     let (c, rest) = (case bin_input s of [] \<Rightarrow> (None, []) | x # xs \<Rightarrow> (Some x, xs)) in
     (Inr c, s\<lparr>bin_input := rest, bin_current := c, bin_chars_read := bin_chars_read s + 1\<rparr>))"

text \<open>\<open>static_cast<unsigned char>(current)\<close>\<close>

definition current_byte :: "breader \<Rightarrow> nat" where
  "current_byte s = (case bin_current s of Some c \<Rightarrow> of_char c | None \<Rightarrow> 255)"

definition bin_token_string :: "breader \<Rightarrow> string" where
  "bin_token_string s = hex2_upper (current_byte s)"

fun format_name :: "input_format_t \<Rightarrow> string" where
  "format_name cbor_fmt = ''CBOR''"
| "format_name msgpack_fmt = ''MessagePack''"
| "format_name ubjson_fmt = ''UBJSON''"
| "format_name bson_fmt = ''BSON''"
| "format_name json_fmt = []"

definition bin_exception_message :: "input_format_t \<Rightarrow> string \<Rightarrow> string \<Rightarrow> string" where
  "bin_exception_message format detail context =
     ''syntax error while parsing '' @ format_name format @ '' '' @ context @ '': '' @ detail"

section \<open>Commands with a \<open>bool\<close> result\<close>

text \<open>
  \<open>m and n\<close>. A function with an out parameter returns \<open>Some\<close> its value where the code returns \<open>true\<close>, and
  \<open>f(out) and n(out)\<close> is \<open>optC f n\<close>.
\<close>

definition andC :: "bool read \<Rightarrow> bool read \<Rightarrow> bool read" where
  "andC m n = bindC m (\<lambda>b. if b then n else returnC False)"

definition optC :: "'a option read \<Rightarrow> ('a \<Rightarrow> bool read) \<Rightarrow> bool read" where
  "optC m f = bindC m (\<lambda>r. case r of Some x \<Rightarrow> f x | None \<Rightarrow> returnC False)"

text \<open>The events of the SAX interface; each returns \<open>true\<close> or throws.\<close>

definition saxC :: "(breader \<Rightarrow> exn + breader) \<Rightarrow> bool read" where
  "saxC f = (\<lambda>s. case f s of Inl e \<Rightarrow> (Inl e, s) | Inr s' \<Rightarrow> (Inr True, s'))"

definition bin_parse_error :: "(breader \<Rightarrow> exn) \<Rightarrow> bool read" where
  "bin_parse_error ex = (\<lambda>s.
     case sax_parse_error (ex s) s of Inl e \<Rightarrow> (Inl e, s) | Inr (b, s') \<Rightarrow> (Inr b, s'))"

text \<open>The errors that report the last byte read.\<close>

definition bin_fail :: "nat \<Rightarrow> input_format_t \<Rightarrow> string \<Rightarrow> string \<Rightarrow> bool read" where
  "bin_fail i format detail context =
     bin_parse_error (\<lambda>s. parse_error_at i (bin_chars_read s)
       (bin_exception_message format (detail @ ''0x'' @ bin_token_string s) context))"

definition unexpect_eof :: "input_format_t \<Rightarrow> string \<Rightarrow> bool read" where
  "unexpect_eof format context = (\<lambda>s.
     if bin_current s = None
     then bin_parse_error (\<lambda>s. parse_error_at 110 (bin_chars_read s)
            (bin_exception_message format ''unexpected end of input'' context)) s
     else (Inr True, s))"

text \<open>
  \<open>start_object(len)\<close> and \<open>start_array(len)\<close>; the length \<open>std::size_t(-1)\<close> stands for an unknown one.
\<close>

definition npos :: nat where
  "npos = 2 ^ 64 - 1"

definition start_sized_object :: "nat \<Rightarrow> 'a sax_dom_scheme \<Rightarrow> exn + 'a sax_dom_scheme" where
  "start_sized_object len p =
     bindR (start_object p) (\<lambda>p'.
       if len \<noteq> npos \<and> len > json_max_size object_t
       then Inl (out_of_range_create 408 (''excessive object size: '' @ show_nat len)) else Inr p')"

definition start_sized_array :: "nat \<Rightarrow> 'a sax_dom_scheme \<Rightarrow> exn + 'a sax_dom_scheme" where
  "start_sized_array len p =
     bindR (start_array p) (\<lambda>p'.
       if len \<noteq> npos \<and> len > json_max_size array_t
       then Inl (out_of_range_create 408 (''excessive array size: '' @ show_nat len)) else Inr p')"

section \<open>Reading numbers and strings\<close>

fun get_bytes :: "nat \<Rightarrow> input_format_t \<Rightarrow> string option read" where
  "get_bytes 0 format = returnC (Some [])"
| "get_bytes (Suc k) format =
     bindC bin_get (\<lambda>c. bindC (unexpect_eof format ''number'') (\<lambda>ok.
       if ok then bindC (get_bytes k format) (\<lambda>r. returnC (map_option ((#) (the c)) r))
       else returnC None))"

text \<open>\<open>get_number\<close> for a type of \<open>k\<close> bytes; the result is the bit pattern.\<close>

definition get_number :: "nat \<Rightarrow> bool \<Rightarrow> input_format_t \<Rightarrow> nat option read" where
  "get_number k input_is_little_endian format =
     bindC (get_bytes k format) (\<lambda>r. returnC (map_option (\<lambda>bs.
       le_value (if is_little_endian \<noteq> input_is_little_endian then rev bs else bs)) r))"

text \<open>The generator of \<open>get_string\<close> goes on after an error; the characters are appended to \<open>result\<close>.\<close>

fun get_string_loop :: "nat \<Rightarrow> bool \<Rightarrow> string \<Rightarrow> input_format_t \<Rightarrow> (bool \<times> string) read" where
  "get_string_loop 0 success result format = returnC (success, result)"
| "get_string_loop (Suc n) success result format =
     bindC bin_get (\<lambda>c. bindC (unexpect_eof format ''string'') (\<lambda>ok. bindC (getC current_byte) (\<lambda>b.
       get_string_loop n (success \<and> ok) (result @ [char_of b]) format)))"

definition get_chars :: "input_format_t \<Rightarrow> int \<Rightarrow> string \<Rightarrow> string option read" where
  "get_chars format len result =
     bindC (get_string_loop (nat len) True result format) (\<lambda>(success, r).
       returnC (if success then Some r else None))"

text \<open>\<open>for (i = 0; i < len; ++i) if (not m) return false;\<close>\<close>

fun repeatC :: "nat \<Rightarrow> bool read \<Rightarrow> bool read" where
  "repeatC 0 m = returnC True"
| "repeatC (Suc n) m = andC m (repeatC n m)"

definition bindO :: "'a option read \<Rightarrow> ('a \<Rightarrow> 'b option read) \<Rightarrow> 'b option read" where
  "bindO m f = bindC m (\<lambda>r. case r of Some x \<Rightarrow> f x | None \<Rightarrow> returnC None)"

text \<open>A string after its length, which is an unsigned number of \<open>k\<close> bytes.\<close>

definition counted_string :: "nat \<Rightarrow> input_format_t \<Rightarrow> string option read" where
  "counted_string k format = bindO (get_number k False format) (\<lambda>len. get_chars format (int len) [])"

section \<open>Reading a document\<close>

text \<open>\<open>sax_parse\<close>; the reader of the format is an argument.\<close>

definition bin_sax_parse :: "input_format_t \<Rightarrow> bool read \<Rightarrow> char option read \<Rightarrow> bool \<Rightarrow> bool read" where
  "bin_sax_parse format parse next_char only =
     bindC parse (\<lambda>result.
       if result \<and> only
       then seqC next_char (bindC (getC bin_current) (\<lambda>c.
              if c \<noteq> None then bin_fail 110 format ''expected end of input; last byte: '' ''value''
              else returnC result))
       else returnC result)"

definition breader_init :: "bool \<Rightarrow> string \<Rightarrow> breader" where
  "breader_init allow adapter =
     \<lparr>root = Null, ref_stack = [], object_element = None, errored = False, allow_exceptions = allow,
      bin_input = adapter, bin_current = None, bin_chars_read = 0\<rparr>"

text \<open>\<open>from_cbor\<close>, \<open>from_msgpack\<close>, \<open>from_ubjson\<close> and \<open>from_bson\<close> differ in the format only.\<close>

definition from_binary :: "bool read \<Rightarrow> bool \<Rightarrow> string \<Rightarrow> exn + json" where
  "from_binary sax_parse allow i =
     (case sax_parse (breader_init allow i) of
        (Inl e, _) \<Rightarrow> Inl e
      | (Inr res, s) \<Rightarrow> Inr (if res then root s else Discarded))"

section \<open>Recursion\<close>

text \<open>
  The readers are recursive and have loops that end at a byte of the input. \<open>fixC \<mu> F\<close> runs such a
  recursion to the depth \<open>\<mu>\<close> of the state it starts in; deeper calls overflow the stack. Where every
  recursive call comes after a byte was consumed (\<open>guarded\<close>), this bound is never reached, and \<open>fixC \<mu> F\<close>
  is a fixed point of \<open>F\<close>.
\<close>

definition fixC :: "('x \<Rightarrow> breader \<Rightarrow> nat) \<Rightarrow> (('x \<Rightarrow> 'a read) \<Rightarrow> 'x \<Rightarrow> 'a read) \<Rightarrow> 'x \<Rightarrow> 'a read" where
  "fixC \<mu> F x = (\<lambda>s. (F ^^ Suc (\<mu> x s)) (\<lambda>_. throwC (Undefined_behaviour ''stack overflow'')) x s)"

definition remaining :: "'x \<Rightarrow> breader \<Rightarrow> nat" where
  "remaining x s = length (bin_input s)"

definition same :: "nat \<Rightarrow> 'a read \<Rightarrow> 'a read \<Rightarrow> bool" where
  "same n m m' \<longleftrightarrow>
     (\<forall>s. length (bin_input s) < n \<longrightarrow>
        m' s = m s \<and> length (bin_input (snd (m s))) \<le> length (bin_input s))"

definition agree :: "('x \<Rightarrow> breader \<Rightarrow> nat) \<Rightarrow> nat \<Rightarrow> ('x \<Rightarrow> 'a read) \<Rightarrow> ('x \<Rightarrow> 'a read) \<Rightarrow> bool" where
  "agree \<mu> n f f' \<longleftrightarrow>
     (\<forall>x s. \<mu> x s < n \<longrightarrow>
        f' x s = f x s \<and> length (bin_input (snd (f x s))) \<le> length (bin_input s))"

definition guarded :: "('x \<Rightarrow> breader \<Rightarrow> nat) \<Rightarrow> (('x \<Rightarrow> 'a read) \<Rightarrow> 'x \<Rightarrow> 'a read) \<Rightarrow> bool" where
  "guarded \<mu> F \<longleftrightarrow> (\<forall>n f f'. agree \<mu> n f f' \<longrightarrow> agree \<mu> (Suc n) (F f) (F f'))"

lemma guarded_funpow:
  assumes "guarded \<mu> F"
  shows "agree \<mu> n ((F ^^ n) f) ((F ^^ n) g)"
proof (induction n)
  case (Suc n)
  then show ?case using assms by (simp add: guarded_def)
qed (simp add: agree_def)

lemma guarded_funpow_le:
  assumes "guarded \<mu> F" and "n \<le> k"
  shows "agree \<mu> n ((F ^^ n) f) ((F ^^ k) f)"
proof -
  obtain j where "k = n + j" using assms(2) le_Suc_ex by blast
  then show ?thesis using guarded_funpow [OF assms(1), of n f "(F ^^ j) f"] by (simp add: funpow_add)
qed

lemma fixC_agree:
  assumes "guarded \<mu> F"
  shows "agree \<mu> n (fixC \<mu> F) ((F ^^ n) f)"
  unfolding agree_def
proof (intro allI impI)
  fix x s
  assume "\<mu> x s < n"
  let ?b = "\<lambda>_. throwC (Undefined_behaviour ''stack overflow'')"
  have "agree \<mu> (Suc (\<mu> x s)) ((F ^^ Suc (\<mu> x s)) ?b) ((F ^^ Suc (\<mu> x s)) f)"
    by (rule guarded_funpow [OF assms])
  moreover have "agree \<mu> (Suc (\<mu> x s)) ((F ^^ Suc (\<mu> x s)) f) ((F ^^ n) f)"
    using \<open>\<mu> x s < n\<close> by (intro guarded_funpow_le [OF assms]) simp
  ultimately show "(F ^^ n) f x s = fixC \<mu> F x s \<and>
      length (bin_input (snd (fixC \<mu> F x s))) \<le> length (bin_input s)"
    using \<open>\<mu> x s < n\<close> unfolding agree_def fixC_def by (auto dest!: spec [of _ x] spec [of _ s])
qed

theorem fixC_unfold:
  assumes "guarded \<mu> F"
  shows "fixC \<mu> F x = F (fixC \<mu> F) x"
proof
  fix s
  have "agree \<mu> (Suc (\<mu> x s)) (F (fixC \<mu> F)) (F ((F ^^ \<mu> x s) undefined))"
    using fixC_agree [OF assms] assms unfolding guarded_def by blast
  then have "F (fixC \<mu> F) x s = (F ^^ Suc (\<mu> x s)) undefined x s"
    by (simp add: agree_def)
  moreover have "fixC \<mu> F x s = (F ^^ Suc (\<mu> x s)) undefined x s"
    using fixC_agree [OF assms, of "Suc (\<mu> x s)" undefined] unfolding agree_def by simp
  ultimately show "fixC \<mu> F x s = F (fixC \<mu> F) x s" by simp
qed

text \<open>What happens at the bound is irrelevant.\<close>

lemma fixC_bound: "guarded \<mu> F \<Longrightarrow> fixC \<mu> F x s = (F ^^ Suc (\<mu> x s)) b x s"
  using fixC_agree [of \<mu> F "Suc (\<mu> x s)" b] by (simp add: agree_def)

subsection \<open>Rules for \<open>guarded\<close>\<close>

named_theorems same_intros \<open>commands that agree as long as less than a number of bytes remain\<close>

lemma same_remaining: "agree remaining n f f' \<longleftrightarrow> (\<forall>x. same n (f x) (f' x))"
  by (auto simp: agree_def same_def remaining_def)

lemma same_mono: "same n m m' \<Longrightarrow> k \<le> n \<Longrightarrow> same k m m'"
  unfolding same_def using less_le_trans by blast

lemma same_basic [same_intros]:
  "same n (returnC x) (returnC x)" "same n (throwC e) (throwC e)" "same n (getC f) (getC f)"
  by (simp_all add: same_def)

lemma same_bindC [same_intros]:
  "same n m m' \<Longrightarrow> (\<And>x. same n (f x) (f' x)) \<Longrightarrow> same n (bindC m f) (bindC m' f')"
  unfolding same_def bindC_def
  by (auto split: prod.splits sum.splits) (metis fst_conv le_trans le_less_trans snd_conv)+

lemma guarded_same: "guarded remaining F \<Longrightarrow> same n (fixC remaining F x) (fixC remaining F x)"
  using fixC_agree [of remaining F n undefined] by (auto simp: agree_def same_def remaining_def)

lemma same_bin_get [same_intros]: "same n bin_get bin_get"
  by (auto simp: same_def bin_get_def split: list.splits)

text \<open>
  After a byte was read, less input remains. At the end of the input a recursive call may follow, which
  fails at once: \<open>same_eof\<close>.
\<close>

definition same_eof :: "'a read \<Rightarrow> 'a read \<Rightarrow> bool" where
  "same_eof m m' \<longleftrightarrow>
     (\<forall>s. bin_input s = [] \<longrightarrow> bin_current s = None \<longrightarrow> m' s = m s \<and> bin_input (snd (m s)) = [])"

lemma same_eofI: "same n m m' \<Longrightarrow> 0 < n \<Longrightarrow> same_eof m m'"
  unfolding same_def same_eof_def by (metis le_zero_eq length_0_conv list.size(3))

lemma same_get_eof:
  assumes "0 < n \<Longrightarrow> same_eof (f None) (f' None)" and "\<And>c. same (n - 1) (f (Some c)) (f' (Some c))"
  shows "same n (bindC bin_get f) (bindC bin_get f')"
  unfolding same_def
proof (intro allI impI)
  fix s :: breader
  assume less: "length (bin_input s) < n"
  show "bindC bin_get f' s = bindC bin_get f s \<and>
    length (bin_input (snd (bindC bin_get f s))) \<le> length (bin_input s)"
  proof (cases "bin_input s")
    case Nil
    let ?s = "s\<lparr>bin_input := [], bin_current := None, bin_chars_read := bin_chars_read s + 1\<rparr>"
    have "f' None ?s = f None ?s \<and> bin_input (snd (f None ?s)) = []"
      using assms(1) less unfolding same_eof_def by (auto dest!: spec [of _ ?s])
    then show ?thesis using Nil by (auto simp: bindC_def bin_get_def)
  next
    case (Cons c cs)
    let ?s = "s\<lparr>bin_input := cs, bin_current := Some c, bin_chars_read := bin_chars_read s + 1\<rparr>"
    have "f' (Some c) ?s = f (Some c) ?s \<and> length (bin_input (snd (f (Some c) ?s))) \<le> length cs"
      using assms(2) [of c] less Cons unfolding same_def by (auto dest!: spec [of _ ?s])
    then show ?thesis using Cons by (auto simp: bindC_def bin_get_def)
  qed
qed

lemma same_get [same_intros]:
  assumes "same n (f None) (f' None)" and "\<And>c. same (n - 1) (f (Some c)) (f' (Some c))"
  shows "same n (bindC bin_get f) (bindC bin_get f')"
  using assms by (intro same_get_eof) (auto intro: same_eofI)

lemma same_if [same_intros]:
  "same n m1 m1' \<Longrightarrow> same n m2 m2' \<Longrightarrow> same n (if b then m1 else m2) (if b then m1' else m2')"
  by simp

lemma same_option [same_intros]:
  "same n m m' \<Longrightarrow> (\<And>x. same n (f x) (f' x)) \<Longrightarrow>
     same n (case r of None \<Rightarrow> m | Some x \<Rightarrow> f x) (case r of None \<Rightarrow> m' | Some x \<Rightarrow> f' x)"
  by (cases r) simp_all

lemma same_prod [same_intros]:
  "(\<And>a b. same n (f a b) (f' a b)) \<Longrightarrow> same n (case r of (a, b) \<Rightarrow> f a b) (case r of (a, b) \<Rightarrow> f' a b)"
  by (cases r) simp

lemma same_andC [same_intros]:
  "same n m m' \<Longrightarrow> same n k k' \<Longrightarrow> same n (andC m k) (andC m' k')"
  unfolding andC_def by (intro same_intros)

lemma same_optC [same_intros]:
  "same n m m' \<Longrightarrow> (\<And>x. same n (f x) (f' x)) \<Longrightarrow> same n (optC m f) (optC m' f')"
  unfolding optC_def by (intro same_intros)

lemma same_seqC [same_intros]: "same n m m' \<Longrightarrow> same n k k' \<Longrightarrow> same n (seqC m k) (seqC m' k')"
  unfolding seqC_def by (intro same_bindC)

lemma same_bindO [same_intros]:
  "same n m m' \<Longrightarrow> (\<And>x. same n (f x) (f' x)) \<Longrightarrow> same n (bindO m f) (bindO m' f')"
  unfolding bindO_def by (intro same_intros)

lemma same_repeatC [same_intros]: "same n m m' \<Longrightarrow> same n (repeatC k m) (repeatC k m')"
  by (induction k) (simp_all add: same_intros)

lemma handle_value_input: "handle_value v s = Inr (q, s') \<Longrightarrow> bin_input s' = bin_input s"
  by (auto simp: handle_value_def split: list.splits option.splits json.splits)

lemma sax_input:
  "sax_value v s = Inr s' \<Longrightarrow> bin_input s' = bin_input s"
  "start_object s = Inr s' \<Longrightarrow> bin_input s' = bin_input s"
  "start_array s = Inr s' \<Longrightarrow> bin_input s' = bin_input s"
  "start_sized_object len s = Inr s' \<Longrightarrow> bin_input s' = bin_input s"
  "start_sized_array len s = Inr s' \<Longrightarrow> bin_input s' = bin_input s"
  "sax_key k s = Inr s' \<Longrightarrow> bin_input s' = bin_input s"
  "sax_end s = Inr s' \<Longrightarrow> bin_input s' = bin_input s"
  "sax_parse_error e s = Inr (b, s') \<Longrightarrow> bin_input s' = bin_input s"
  by (auto simp: sax_value_def start_object_def start_array_def start_sized_object_def start_sized_array_def
      sax_key_def sax_end_def sax_parse_error_def mapR_eq_Inr bindR_eq_Inr Let_def
      dest: handle_value_input split: list.splits option.splits json.splits if_splits)

lemma same_eof_bindC:
  assumes "same_eof m m'" and "\<And>x. same n (f x) (f' x)" and "0 < n"
  shows "same_eof (bindC m f) (bindC m' f')"
  unfolding same_eof_def
proof (intro allI impI)
  fix s :: breader
  assume "bin_input s = []" and "bin_current s = None"
  then have m: "m' s = m s" "bin_input (snd (m s)) = []" using assms(1) by (auto simp: same_eof_def)
  have "f' x t = f x t \<and> bin_input (snd (f x t)) = []" if "bin_input t = []" for x t
    using assms(2) [of x] assms(3) that unfolding same_def by (auto dest!: spec [of _ t])
  then show "bindC m' f' s = bindC m f s \<and> bin_input (snd (bindC m f s)) = []"
    using m by (cases "m s"; cases "fst (m s)") (auto simp: bindC_def)
qed

lemma same_saxC: "(\<And>s s'. f s = Inr s' \<Longrightarrow> bin_input s' = bin_input s) \<Longrightarrow> same n (saxC f) (saxC f)"
  by (auto simp: same_def saxC_def split: sum.splits)

lemmas same_sax [same_intros] =
  same_saxC [OF sax_input(1)] same_saxC [OF sax_input(2)] same_saxC [OF sax_input(3)]
  same_saxC [OF sax_input(4)] same_saxC [OF sax_input(5)] same_saxC [OF sax_input(6)]
  same_saxC [OF sax_input(7)]

lemma same_errors [same_intros]:
  "same n (bin_parse_error ex) (bin_parse_error ex)"
  "same n (bin_fail i fmt detail ctx) (bin_fail i fmt detail ctx)"
  "same n (unexpect_eof fmt ctx) (unexpect_eof fmt ctx)"
  by (auto simp: same_def bin_fail_def bin_parse_error_def unexpect_eof_def split: sum.splits
      dest: sax_input(8))

text \<open>Nothing follows an \<open>unexpect_eof\<close> at the end of the input.\<close>

lemma same_eof_stop:
  "same_eof (bindC (unexpect_eof fmt ctx) (\<lambda>ok. if \<not> ok then returnC v else k ok))
     (bindC (unexpect_eof fmt ctx) (\<lambda>ok. if \<not> ok then returnC v else k' ok))"
  "same_eof (andC (unexpect_eof fmt ctx) m) (andC (unexpect_eof fmt ctx) m')"
  by (auto simp: same_eof_def andC_def bindC_def unexpect_eof_def bin_parse_error_def sax_parse_error_def)

lemma same_get_bytes: "same n (get_bytes k fmt) (get_bytes k fmt)"
  by (induction k) (simp_all only: get_bytes.simps same_basic same_bindC same_bin_get same_errors same_if)

lemma same_get_number [same_intros]: "same n (get_number k le fmt) (get_number k le fmt)"
  unfolding get_number_def by (intro same_basic same_bindC same_get_bytes)

lemma same_get_string_loop: "same n (get_string_loop k b r fmt) (get_string_loop k b r fmt)"
  by (induction k arbitrary: b r) (simp_all only: get_string_loop.simps same_basic same_bindC same_bin_get same_errors)

lemma same_get_chars [same_intros]: "same n (get_chars fmt len r) (get_chars fmt len r)"
  unfolding get_chars_def by (intro same_basic same_bindC same_get_string_loop same_prod)

lemma same_counted_string [same_intros]: "same n (counted_string k fmt) (counted_string k fmt)"
  unfolding counted_string_def by (intro same_intros)

text \<open>Where a recursive call looks at the current byte again, this byte counts as input.\<close>

definition pending :: "'x \<Rightarrow> breader \<Rightarrow> nat" where
  "pending x s = (case bin_current s of None \<Rightarrow> 0 | Some c \<Rightarrow> Suc (length (bin_input s)))"

lemma agree_pending:
  assumes "agree pending n f f'"
  shows "same (n - 1) (f x) (f' x)" and "0 < n \<Longrightarrow> same_eof (f x) (f' x)"
proof -
  have "pending x s < n" if "length (bin_input s) < n - 1" for s
    using that by (auto simp: pending_def split: option.split)
  then show "same (n - 1) (f x) (f' x)" using assms unfolding agree_def same_def by blast
  show "0 < n \<Longrightarrow> same_eof (f x) (f' x)"
    using assms unfolding agree_def same_eof_def pending_def by (metis le_zero_eq list.size(3) length_0_conv option.case(1))
qed

lemma agree_pendingI:
  fixes f f' :: "'a \<Rightarrow> 'b read"
  assumes "\<And>x. same n (f x) (f' x)"
    and "\<And>x s. bin_current s = None \<Longrightarrow>
      f' x s = f x s \<and> length (bin_input (snd (f x s))) \<le> length (bin_input s)"
  shows "agree pending (Suc n) f f'"
  unfolding agree_def
proof (intro allI impI)
  fix x :: 'a and s :: breader
  assume "pending x s < Suc n"
  then show "f' x s = f x s \<and> length (bin_input (snd (f x s))) \<le> length (bin_input s)"
    using assms(1) [of x] assms(2) [of s x] by (cases "bin_current s") (auto simp: pending_def same_def)
qed

text \<open>A loop inside the body of the recursion.\<close>

lemma same_fixC:
  assumes "\<And>f f' x. (\<And>x. same n (f x) (f' x)) \<Longrightarrow> same n (L f x) (L' f' x)"
  shows "same n (fixC \<mu> L x) (fixC \<mu> L' x)"
proof -
  have *: "same n ((L ^^ k) (\<lambda>_. throwC e) x) ((L' ^^ k) (\<lambda>_. throwC e) x)" for k e x
    by (induction k arbitrary: x) (simp_all add: same_intros assms)
  show ?thesis
    unfolding same_def fixC_def
  proof (intro allI impI)
    fix s :: breader
    assume "length (bin_input s) < n"
    with * [of "Suc (\<mu> x s)"]
    show "(L' ^^ Suc (\<mu> x s)) (\<lambda>_. throwC (Undefined_behaviour ''stack overflow'')) x s =
        (L ^^ Suc (\<mu> x s)) (\<lambda>_. throwC (Undefined_behaviour ''stack overflow'')) x s \<and>
      length (bin_input (snd ((L ^^ Suc (\<mu> x s)) (\<lambda>_. throwC (Undefined_behaviour ''stack overflow'')) x s)))
        \<le> length (bin_input s)"
      unfolding same_def by blast
  qed
qed

end
