(* ===== verification/Json_Binary_Laws.thy ===== *)
theory Json_Binary_Laws
  imports Json_Binary Json_Reparse
begin

text \<open>
  The laws of the binary reader on the bytes that the writer produces: numbers and strings are read back,
  and reading the elements of an array or the members of an object builds them in place.
\<close>

section \<open>Numbers\<close>

lemma write_number_1: "write_number (Suc 0) False n = [char_of (nat (n mod 256))]"
  by (simp add: write_number_def Let_def is_little_endian_def)

lemma mod_neg: "- m \<le> n \<Longrightarrow> n < 0 \<Longrightarrow> n mod m = n + m" for m n :: int
  using mod_pos_pos_trivial [of "n + m" m] by simp

lemma signed_of_mod:
  assumes "- (2 ^ (8 * k - 1)) \<le> n" and "n < 0" and "0 < k"
  shows "signed_of k (nat (n mod 256 ^ k)) = n"
proof -
  obtain j where j: "8 * k = Suc j" using assms(3) by (cases "8 * k") auto
  have "(256 :: int) ^ k = 2 ^ (8 * k)" by (simp add: power_mult)
  then have p: "(256 :: int) ^ k = 2 * 2 ^ j" using j by simp
  have ge: "- (2 ^ j) \<le> n" using assms(1) j by simp
  then have "- (2 * 2 ^ j) \<le> n" by (rule order_trans [rotated]) simp
  then have "n mod (2 * 2 ^ j) = n + 2 * 2 ^ j" using assms(2) by (rule mod_neg)
  then show ?thesis using j p ge assms(2) by (simp add: signed_of_def nat_less_iff)
qed

lemmas signed_eval =
  signed_of_mod [where k = 1, simplified] signed_of_mod [where k = 2, simplified]
  signed_of_mod [where k = 4, simplified] signed_of_mod [where k = 8, simplified]

section \<open>Reading\<close>

text \<open>\<open>moved s rest s'\<close>: only the input has moved, to \<open>rest\<close>.\<close>

definition moved :: "breader \<Rightarrow> string \<Rightarrow> breader \<Rightarrow> bool" where
  "moved s rest s' \<longleftrightarrow>
     bin_input s' = rest \<and> root s' = root s \<and> ref_stack s' = ref_stack s \<and>
     object_element s' = object_element s \<and> errored s' = errored s \<and> allow_exceptions s' = allow_exceptions s"

lemma moved_trans: "moved s r s1 \<Longrightarrow> moved s1 r' s2 \<Longrightarrow> moved s r' s2"
  by (auto simp: moved_def)

lemma moved_input: "moved s rest s' \<Longrightarrow> bin_input s' = rest"
  by (auto simp: moved_def)

lemma bin_get_Cons:
  "bin_input s = c # rest \<Longrightarrow> bin_get s = (Inr (Some c), s\<lparr>bin_input := rest, bin_current := Some c,
     bin_chars_read := Suc (bin_chars_read s)\<rparr>)"
  by (simp add: bin_get_def)

lemma moved_get: "moved s rest (s\<lparr>bin_input := rest, bin_current := c, bin_chars_read := n\<rparr>)"
  by (simp add: moved_def)

lemma get_bytes_run:
  "bin_input s = bs @ rest \<Longrightarrow> \<exists>s'. get_bytes (length bs) fmt s = (Inr (Some bs), s') \<and> moved s rest s'"
proof (induction bs arbitrary: s)
  case Nil
  then show ?case by (simp add: moved_def)
next
  case (Cons c bs)
  let ?s = "s\<lparr>bin_input := bs @ rest, bin_current := Some c, bin_chars_read := Suc (bin_chars_read s)\<rparr>"
  obtain s' where s': "get_bytes (length bs) fmt ?s = (Inr (Some bs), s')" "moved ?s rest s'"
    using Cons.IH [of ?s] by auto
  have "get_bytes (length (c # bs)) fmt s = (Inr (Some (c # bs)), s')"
    using Cons.prems s'(1) by (simp add: bindC_def bin_get_Cons unexpect_eof_def)
  then show ?case using s'(2) by (auto simp: moved_def)
qed

lemma get_number_run:
  assumes "bin_input s = write_number k le n @ rest"
  shows "\<exists>s'. get_number k le fmt s = (Inr (Some (nat (n mod 256 ^ k))), s') \<and> moved s rest s'"
proof -
  have "nat (n mod 256 ^ k) < 256 ^ k" by (simp add: nat_less_iff)
  then have "le_value (if is_little_endian \<noteq> le then rev (write_number k le n) else write_number k le n) =
      nat (n mod 256 ^ k)"
    by (simp add: write_number_def Let_def)
  moreover obtain s' where "get_bytes k fmt s = (Inr (Some (write_number k le n)), s')" "moved s rest s'"
    using get_bytes_run [OF assms] by auto
  ultimately show ?thesis by (intro exI [of _ s']) (simp add: get_number_def bindC_def)
qed

lemma get_string_loop_run:
  "bin_input s = str @ rest \<Longrightarrow>
     \<exists>s'. get_string_loop (length str) b acc fmt s = (Inr (b, acc @ str), s') \<and> moved s rest s'"
proof (induction str arbitrary: s acc)
  case Nil
  then show ?case by (simp add: moved_def)
next
  case (Cons c str)
  let ?s = "s\<lparr>bin_input := str @ rest, bin_current := Some c, bin_chars_read := Suc (bin_chars_read s)\<rparr>"
  obtain s' where s': "get_string_loop (length str) b (acc @ [c]) fmt ?s = (Inr (b, acc @ c # str), s')"
    "moved ?s rest s'"
    using Cons.IH [of ?s "acc @ [c]"] by auto
  have "get_string_loop (length (c # str)) b acc fmt s = (Inr (b, acc @ c # str), s')"
    using Cons.prems s'(1) by (simp add: bindC_def bin_get_Cons unexpect_eof_def current_byte_def)
  then show ?case using s'(2) by (auto simp: moved_def)
qed

lemma get_chars_run:
  "bin_input s = str @ rest \<Longrightarrow> len = int (length str) \<Longrightarrow>
     \<exists>s'. get_chars fmt len acc s = (Inr (Some (acc @ str)), s') \<and> moved s rest s'"
  using get_string_loop_run [of s str rest True acc fmt] by (auto simp: get_chars_def bindC_def)

lemma optC_Some: "m s = (Inr (Some x), s') \<Longrightarrow> optC m f s = f x s'"
  by (simp add: optC_def bindC_def)

lemma andC_True: "m s = (Inr True, s') \<Longrightarrow> andC m n s = n s'"
  by (simp add: andC_def bindC_def)

section \<open>Building\<close>

text \<open>
  \<open>built s rest j s'\<close>: the input has moved to \<open>rest\<close>, and the value under construction has become \<open>j\<close>.
\<close>

definition built :: "breader \<Rightarrow> string \<Rightarrow> json \<Rightarrow> breader \<Rightarrow> bool" where
  "built s rest j s' \<longleftrightarrow>
     bin_input s' = rest \<and> root s' = j \<and> ref_stack s' = ref_stack s \<and>
     errored s' = errored s \<and> allow_exceptions s' = allow_exceptions s"

lemma built_trans: "built s r j s1 \<Longrightarrow> built s1 r' j' s2 \<Longrightarrow> built s r' j' s2"
  by (auto simp: built_def)

lemma moved_built: "moved s r s1 \<Longrightarrow> built s1 r' j s2 \<Longrightarrow> built s r' j s2"
  by (auto simp: moved_def built_def)

lemma handle_value_reader:
  "handle_value w (s\<lparr>bin_input := r, bin_current := c, bin_chars_read := n\<rparr>) =
     mapR (\<lambda>(q, p'). (q, p'\<lparr>bin_input := r, bin_current := c, bin_chars_read := n\<rparr>)) (handle_value w s)"
  by (simp add: handle_value_def split: list.split option.split json.split)

lemma slot_moved: "slot s ptr R \<Longrightarrow> moved s rest s' \<Longrightarrow> slot s' ptr R"
proof -
  assume slot: "slot s ptr R" and "moved s rest s'"
  then have "s' = s\<lparr>bin_input := bin_input s', bin_current := bin_current s', bin_chars_read := bin_chars_read s'\<rparr>"
    by (cases s; cases s') (simp add: moved_def)
  moreover have "slot (s\<lparr>bin_input := r, bin_current := c, bin_chars_read := n\<rparr>) ptr R" for r c n
    using slot by (simp add: slot_def handle_value_reader)
  ultimately show "slot s' ptr R" by metis
qed

text \<open>\<open>reads m out v\<close>: on the bytes \<open>out\<close>, the command \<open>m\<close> stores \<open>v\<close> where the next value goes.\<close>

definition reads :: "bool read \<Rightarrow> string \<Rightarrow> json \<Rightarrow> bool" where
  "reads m out v \<longleftrightarrow>
     (\<forall>s ptr R rest. bin_input s = out @ rest \<longrightarrow> slot s ptr R \<longrightarrow>
        (\<exists>s'. m s = (Inr True, s') \<and> built s rest (R v) s'))"

lemma readsD:
  "reads m out v \<Longrightarrow> bin_input s = out @ rest \<Longrightarrow> slot s ptr R \<Longrightarrow>
     \<exists>s'. m s = (Inr True, s') \<and> built s rest (R v) s'"
  by (auto simp: reads_def)

lemma reads_sax_value:
  assumes "moved s rest s1" and "slot s ptr R"
  shows "\<exists>s'. saxC (sax_value v) s1 = (Inr True, s') \<and> built s rest (R v) s'"
proof -
  have "saxC (sax_value v) s1 = (Inr True, s1\<lparr>root := R v\<rparr>)"
    using slot_sax_value [OF slot_moved [OF assms(2,1)]] by (simp add: saxC_def)
  moreover have "built s rest (R v) (s1\<lparr>root := R v\<rparr>)"
    using assms(1) by (simp add: moved_def built_def)
  ultimately show ?thesis by blast
qed

text \<open>A document that is one value.\<close>

lemma reads_document:
  assumes "reads parse out v"
  shows "from_binary (bin_sax_parse fmt parse bin_get only) allow out = Inr v"
proof -
  let ?s = "breader_init allow out"
  have slot: "slot ?s [] (\<lambda>w. w)" by (rule slot_root) (simp add: breader_init_def)
  have "bin_input ?s = out @ []" by (simp add: breader_init_def)
  then obtain s' where "parse ?s = (Inr True, s')" "built ?s [] v s'" using readsD [OF assms _ slot] by blast
  then show ?thesis
    by (auto simp: from_binary_def bin_sax_parse_def bindC_def seqC_def bin_get_def built_def)
qed

text \<open>The elements of an array.\<close>

lemma elements_read:
  assumes "\<forall>v \<in> set a. reads m (w v) (f v)"
    and "bin_input s = concat (map w a) @ rest" and "ref_stack s = ptr # st" and "hole ptr R"
    and "root s = R (Array pre)"
  shows "\<exists>s'. repeatC (length a) m s = (Inr True, s') \<and> built s rest (R (Array (pre @ map f a))) s'"
  using assms
proof (induction a arbitrary: s pre)
  case Nil
  then show ?case
    by (simp add: built_def)
next
  case (Cons v a)
  have slot: "slot s (ptr @ [Index (length pre)]) (\<lambda>w. R (Array (pre @ [w])))"
    by (rule slot_array [OF Cons.prems(3,4,5)])
  have "bin_input s = w v @ concat (map w a) @ rest" using Cons.prems(2) by simp
  then obtain s1 where s1: "m s = (Inr True, s1)" "built s (concat (map w a) @ rest) (R (Array (pre @ [f v]))) s1"
    using readsD [OF _ _ slot, of m "w v" "f v"] Cons.prems(1) by auto
  then obtain s2 where s2: "repeatC (length a) m s1 = (Inr True, s2)"
    "built s1 rest (R (Array ((pre @ [f v]) @ map f a))) s2"
    using Cons.IH [of s1 "pre @ [f v]"] Cons.prems(1,3,4) by (auto simp: built_def)
  then show ?case using s1(1) built_trans [OF s1(2) s2(2)] by (simp add: andC_True)
qed

text \<open>The members of an object; \<open>key\<close> reads a key and \<open>kw\<close> writes it.\<close>

definition reads_key :: "string option read \<Rightarrow> string \<Rightarrow> string \<Rightarrow> bool" where
  "reads_key key out k \<longleftrightarrow>
     (\<forall>s rest. bin_input s = out @ rest \<longrightarrow> (\<exists>s'. key s = (Inr (Some k), s') \<and> moved s rest s'))"

lemma member_read:
  assumes "key s = (Inr (Some k), s1)" and "moved s (out @ rest) s1" and "reads c out v"
    and "ref_stack s = ptr # st" and "hole ptr R" and "root s = R (Object acc)"
  shows "\<exists>s'. andC (optC key (\<lambda>k. saxC (sax_key k))) c s = (Inr True, s') \<and>
    built s rest (R (Object (omap_update k v acc))) s'"
proof -
  have s1: "ref_stack s1 = ptr # st" "root s1 = R (Object acc)"
    using assms(2,4,6) by (auto simp: moved_def)
  then obtain acc' where acc': "sax_key k s1 = Inr (s1\<lparr>root := R (Object acc'), object_element := Some (ptr @ [Key k])\<rparr>)"
    "map_of acc' k \<noteq> None" "\<And>w. omap_update k w acc' = omap_update k w acc"
    using sax_key_run [OF _ assms(5)] by metis
  let ?s2 = "s1\<lparr>root := R (Object acc'), object_element := Some (ptr @ [Key k])\<rparr>"
  obtain x where "map_of acc' k = Some x" using acc'(2) by blast
  then have "slot ?s2 (ptr @ [Key k]) (\<lambda>w. R (Object (omap_update k w acc')))"
    using s1(1) by (intro slot_object [OF _ assms(5), where v = x and st = st]) simp_all
  then have slot: "slot ?s2 (ptr @ [Key k]) (\<lambda>w. R (Object (omap_update k w acc)))" unfolding acc'(3) .
  have "bin_input ?s2 = out @ rest" using moved_input [OF assms(2)] by simp
  then obtain s3 where s3: "c ?s2 = (Inr True, s3)" "built ?s2 rest (R (Object (omap_update k v acc))) s3"
    using readsD [OF assms(3) _ slot] by blast
  have "andC (optC key (\<lambda>k. saxC (sax_key k))) c s = (Inr True, s3)"
    using assms(1) acc'(1) s3(1) by (simp add: andC_def optC_def bindC_def saxC_def)
  moreover have "built s rest (R (Object (omap_update k v acc))) s3"
    using assms(2) s3(2) by (auto simp: moved_def built_def)
  ultimately show ?thesis by blast
qed

lemma members_read:
  assumes "\<forall>(k, v) \<in> set m. reads_key key (kw k) k \<and> reads c (w v) (f v)"
    and "bin_input s = concat (map (\<lambda>(k, v). kw k @ w v) m) @ rest" and "ref_stack s = ptr # st" and "hole ptr R"
    and "root s = R (Object acc)"
  shows "\<exists>s'. repeatC (length m) (andC (optC key (\<lambda>k. saxC (sax_key k))) c) s = (Inr True, s') \<and>
    built s rest (R (Object (foldl (\<lambda>acc (k, v). omap_update k (f v) acc) acc m))) s'"
  using assms
proof (induction m arbitrary: s acc)
  case Nil
  then show ?case
    by (simp add: built_def)
next
  case (Cons e m)
  obtain k v where e: "e = (k, v)" by force
  let ?rest = "concat (map (\<lambda>(k, v). kw k @ w v) m) @ rest"
  have "bin_input s = kw k @ w v @ ?rest" "reads_key key (kw k) k" "reads c (w v) (f v)"
    using Cons.prems(1,2) by (simp_all add: e)
  then obtain s1 where s1: "key s = (Inr (Some k), s1)" "moved s (w v @ ?rest) s1" "reads c (w v) (f v)"
    unfolding reads_key_def by blast
  obtain s3 where s3: "andC (optC key (\<lambda>k. saxC (sax_key k))) c s = (Inr True, s3)"
    "built s ?rest (R (Object (omap_update k (f v) acc))) s3"
    using member_read [where R = R and key = key and s = s, OF s1 Cons.prems(3-5)] by blast
  then obtain s4 where s4: "repeatC (length m) (andC (optC key (\<lambda>k. saxC (sax_key k))) c) s3 = (Inr True, s4)"
    "built s3 rest (R (Object (foldl (\<lambda>acc (k, v). omap_update k (f v) acc) (omap_update k (f v) acc) m))) s4"
    using Cons.IH [of s3 "omap_update k (f v) acc"] Cons.prems(1,3,4) by (auto simp: built_def)
  have "repeatC (length (e # m)) (andC (optC key (\<lambda>k. saxC (sax_key k))) c) s = (Inr True, s4)"
    using s3(1) s4(1) by (simp add: andC_True)
  with built_trans [OF s3(2) s4(2)] show ?case by (auto simp: e)
qed

text \<open>A whole array or object after its header has been read.\<close>

lemma array_body_read:
  assumes "moved s out s1" and "slot s ptr R" and "start s1 = start_array s1"
    and "\<And>s2. bin_input s2 = out \<Longrightarrow> bin_current s2 = bin_current s1 \<Longrightarrow> ref_stack s2 = ptr # ref_stack s1 \<Longrightarrow>
      hole ptr R \<Longrightarrow> root s2 = R (Array []) \<Longrightarrow> \<exists>s3. loop s2 = (Inr True, s3) \<and> built s2 rest (R (Array a)) s3"
  shows "\<exists>s'. andC (saxC start) (andC loop (saxC sax_end)) s1 = (Inr True, s') \<and> built s rest (R (Array a)) s'"
proof -
  have slot: "slot s1 ptr R" by (rule slot_moved [OF assms(2,1)])
  let ?s2 = "s1\<lparr>root := R (Array []), ref_stack := ptr # ref_stack s1\<rparr>"
  have start: "saxC start s1 = (Inr True, ?s2)"
    using slot_start(2) [OF slot] assms(3) by (simp add: saxC_def)
  obtain s3 where s3: "loop ?s2 = (Inr True, s3)" "built ?s2 rest (R (Array a)) s3"
    using assms(4) [of ?s2] moved_input [OF assms(1)] slot by (auto simp: slot_def)
  have "saxC sax_end s3 = (Inr True, s3\<lparr>ref_stack := ref_stack s1\<rparr>)"
    using s3(2) by (auto simp: built_def saxC_def sax_end_def)
  moreover have "built s rest (R (Array a)) (s3\<lparr>ref_stack := ref_stack s1\<rparr>)"
    using s3(2) assms(1) by (auto simp: built_def moved_def)
  ultimately show ?thesis using start s3(1) by (auto simp: andC_True)
qed

lemma object_body_read:
  assumes "moved s out s1" and "slot s ptr R" and "start s1 = start_object s1"
    and "\<And>s2. bin_input s2 = out \<Longrightarrow> bin_current s2 = bin_current s1 \<Longrightarrow> ref_stack s2 = ptr # ref_stack s1 \<Longrightarrow>
      hole ptr R \<Longrightarrow> root s2 = R (Object []) \<Longrightarrow> \<exists>s3. loop s2 = (Inr True, s3) \<and> built s2 rest (R (Object m)) s3"
  shows "\<exists>s'. andC (saxC start) (andC loop (saxC sax_end)) s1 = (Inr True, s') \<and> built s rest (R (Object m)) s'"
proof -
  have slot: "slot s1 ptr R" by (rule slot_moved [OF assms(2,1)])
  let ?s2 = "s1\<lparr>root := R (Object []), ref_stack := ptr # ref_stack s1\<rparr>"
  have start: "saxC start s1 = (Inr True, ?s2)"
    using slot_start(1) [OF slot] assms(3) by (simp add: saxC_def)
  obtain s3 where s3: "loop ?s2 = (Inr True, s3)" "built ?s2 rest (R (Object m)) s3"
    using assms(4) [of ?s2] moved_input [OF assms(1)] slot by (auto simp: slot_def)
  have "saxC sax_end s3 = (Inr True, s3\<lparr>ref_stack := ref_stack s1\<rparr>)"
    using s3(2) by (auto simp: built_def saxC_def sax_end_def)
  moreover have "built s rest (R (Object m)) (s3\<lparr>ref_stack := ref_stack s1\<rparr>)"
    using s3(2) assms(1) by (auto simp: built_def moved_def)
  ultimately show ?thesis using start s3(1) by (auto simp: andC_True)
qed

lemma array_read:
  assumes "moved s (concat (map w a) @ rest) s1" and "slot s ptr R" and "\<forall>v \<in> set a. reads m (w v) (f v)"
    and "start s1 = start_array s1"
  shows "\<exists>s'. andC (saxC start) (andC (repeatC (length a) m) (saxC sax_end)) s1 = (Inr True, s') \<and>
    built s rest (R (Array (map f a))) s'"
  using elements_read [OF assms(3), where pre = "[]" and R = R]
  by (intro array_body_read [where R = R and start = start, OF assms(1,2,4)]) simp

lemma object_read:
  assumes "moved s (concat (map (\<lambda>(k, v). kw k @ w v) m) @ rest) s1" and "slot s ptr R"
    and "\<forall>(k, v) \<in> set m. reads_key key (kw k) k \<and> reads c (w v) (f v)"
    and "start s1 = start_object s1"
  shows "\<exists>s'. andC (saxC start) (andC (repeatC (length m) (andC (optC key (\<lambda>k. saxC (sax_key k))) c))
      (saxC sax_end)) s1 = (Inr True, s') \<and>
    built s rest (R (Object (foldl (\<lambda>acc (k, v). omap_update k (f v) acc) [] m))) s'"
  by (rule object_body_read [where R = R and start = start, OF assms(1,2,4)])
    (rule members_read [where R = R, OF assms(3)])

lemma foldl_omap:
  "omap_ok (acc @ m) \<Longrightarrow> foldl (\<lambda>acc (k, w). omap_update k w acc) acc m = acc @ m"
proof (induction m arbitrary: acc)
  case (Cons e m)
  obtain k v where e: "e = (k, v)" by force
  have less: "\<forall>k' \<in> fst ` set acc. k' < k" and ok: "omap_ok ((acc @ [(k, v)]) @ m)"
    using Cons.prems by (auto simp: e omap_ok_def sorted_wrt_append)
  show ?case using Cons.IH [OF ok] by (simp add: e omap_update_notin_append [OF less])
qed simp

lemma reparse_members_foldl:
  "reparse_members m acc = foldl (\<lambda>acc (k, v). omap_update k (reparse v) acc) acc m"
  by (induction m arbitrary: acc) auto

lemma bindO_Some: "m s = (Inr (Some x), s') \<Longrightarrow> bindO m f s = f x s'"
  by (simp add: bindO_def bindC_def)

lemma counted_string_run:
  assumes "bin_input s = write_number k False (int (length str)) @ str @ rest" and "length str < 256 ^ k"
  shows "\<exists>s'. counted_string k fmt s = (Inr (Some str), s') \<and> moved s rest s'"
proof -
  have "nat (int (length str) mod 256 ^ k) = length str"
    using assms(2) by (metis nat_int of_nat_mod of_nat_numeral of_nat_power mod_less)
  then obtain s1 where s1: "get_number k False fmt s = (Inr (Some (length str)), s1)" "moved s (str @ rest) s1"
    using get_number_run [OF assms(1), of fmt] by auto
  obtain s2 where "get_chars fmt (int (length str)) [] s1 = (Inr (Some ([] @ str)), s2)" "moved s1 rest s2"
    using get_chars_run [OF moved_input [OF s1(2)] refl, of fmt "[]"] by blast
  then show ?thesis using s1 moved_trans by (auto simp: counted_string_def bindO_Some)
qed

section \<open>Formats with counted containers\<close>

text \<open>
  MessagePack and CBOR write a value as a tag, which holds the length of a string, an array or an object,
  followed by the contents. \<open>sized lim\<close>: the lengths are at most \<open>lim\<close>.
\<close>

fun sized :: "nat \<Rightarrow> json \<Rightarrow> bool" and members_sized :: "nat \<Rightarrow> (string \<times> json) list \<Rightarrow> bool"
  and elems_sized :: "nat \<Rightarrow> json list \<Rightarrow> bool" where
  "sized lim (Object m) \<longleftrightarrow> length m \<le> lim \<and> members_sized lim m"
| "sized lim (Array a) \<longleftrightarrow> length a \<le> lim \<and> elems_sized lim a"
| "sized lim (String s) \<longleftrightarrow> length s \<le> lim"
| "sized lim Discarded \<longleftrightarrow> False"
| "sized lim _ \<longleftrightarrow> True"
| "members_sized lim [] \<longleftrightarrow> True"
| "members_sized lim ((k, v) # m) \<longleftrightarrow> length k \<le> lim \<and> sized lim v \<and> members_sized lim m"
| "elems_sized lim [] \<longleftrightarrow> True"
| "elems_sized lim (v # a) \<longleftrightarrow> sized lim v \<and> elems_sized lim a"

definition is_scalar :: "json \<Rightarrow> bool" where
  "is_scalar v \<longleftrightarrow> \<not> is_object v \<and> \<not> is_array v"

text \<open>After the header \<open>hdr\<close> of a container, the reader goes on with \<open>m\<close>.\<close>

definition enters :: "bool read \<Rightarrow> string \<Rightarrow> bool read \<Rightarrow> bool" where
  "enters p hdr m \<longleftrightarrow> (\<forall>s rest. bin_input s = hdr @ rest \<longrightarrow> (\<exists>s1. moved s rest s1 \<and> p s = m s1))"

lemma enters_reads:
  assumes "enters p hdr (saxC (sax_value v))"
  shows "reads p hdr v"
  unfolding reads_def
proof (intro allI impI)
  fix s :: breader and ptr R rest
  assume "bin_input s = hdr @ rest" and slot: "slot s ptr R"
  then obtain s1 where "moved s rest s1" "p s = saxC (sax_value v) s1"
    using assms unfolding enters_def by blast
  then show "\<exists>s'. p s = (Inr True, s') \<and> built s rest (R v) s'"
    using reads_sax_value [OF _ slot] by simp
qed

text \<open>A reader that gets a byte and then dispatches on it.\<close>

locale tagged_reader =
  fixes parse :: "bool read" and dispatch :: "nat \<Rightarrow> bool read" and fmt :: input_format_t
  assumes first_byte: "bin_input s = c # rest \<Longrightarrow> parse s =
    dispatch (of_char c) (s\<lparr>bin_input := rest, bin_current := Some c, bin_chars_read := Suc (bin_chars_read s)\<rparr>)"
begin

text \<open>A value or header that is the first byte alone, and one with a number after the first byte.\<close>

lemma enters_byte:
  assumes "dispatch (of_char c) = m"
  shows "enters parse [c] m"
  unfolding enters_def
proof (intro allI impI)
  fix s :: breader and rest
  assume "bin_input s = [c] @ rest"
  then show "\<exists>s1. moved s rest s1 \<and> parse s = m s1"
    using first_byte [of s c rest] assms by (intro exI conjI) (auto intro: moved_get)
qed

lemma enters_tagged:
  assumes "dispatch (of_char c) = optC (get_number k False fmt) f" and "f (nat (n mod 256 ^ k)) = m"
  shows "enters parse (c # write_number k False n) m"
  unfolding enters_def
proof (intro allI impI)
  fix s :: breader and rest
  assume "bin_input s = (c # write_number k False n) @ rest"
  then have input: "bin_input s = c # write_number k False n @ rest" by simp
  let ?s = "s\<lparr>bin_input := write_number k False n @ rest, bin_current := Some c, bin_chars_read := Suc (bin_chars_read s)\<rparr>"
  obtain s1 where s1: "get_number k False fmt ?s = (Inr (Some (nat (n mod 256 ^ k))), s1)" "moved ?s rest s1"
    using get_number_run [of ?s k False n rest fmt] by auto
  then have "parse s = m s1" using first_byte [OF input] assms by (simp add: optC_Some)
  moreover have "moved s rest s1" by (rule moved_trans [OF moved_get s1(2)])
  ultimately show "\<exists>s1. moved s rest s1 \<and> parse s = m s1" by blast
qed

lemma enters_double:
  assumes "dispatch (of_char c) = optC (get_number 8 False fmt) (\<lambda>n. saxC (sax_value (Number_float (of_nat n))))"
  shows "enters parse (c # write_number 8 False (int (unat d))) (saxC (sax_value (Number_float d)))"
proof (rule enters_tagged [OF assms])
  have "nat (int (unat d) mod 256 ^ 8) = unat d"
    using unat_double_less [of d] by (simp add: nat_mod_distrib)
  then show "saxC (sax_value (Number_float (of_nat (nat (int (unat d) mod 256 ^ 8))))) = saxC (sax_value (Number_float d))"
    by simp
qed

lemma read_string:
  assumes "out = c # out'" and "dispatch (of_char c) = optC str (\<lambda>s. saxC (sax_value (String s)))"
    and "reads_key (seqC bin_get str) out k"
  shows "reads parse out (String k)"
proof (rule enters_reads, unfold enters_def, intro allI impI)
  fix s :: breader and rest
  assume *: "bin_input s = out @ rest"
  then have input: "bin_input s = c # out' @ rest" by (simp add: assms(1))
  obtain s' where s': "seqC bin_get str s = (Inr (Some k), s')" "moved s rest s'"
    using assms(3) * unfolding reads_key_def by blast
  then have "parse s = saxC (sax_value (String k)) s'"
    using first_byte [OF input] assms(2) by (simp add: seqC_def bindC_def bin_get_Cons [OF input] optC_Some)
  then show "\<exists>s1. moved s rest s1 \<and> parse s = saxC (sax_value (String k)) s1" using s'(2) by blast
qed

end

locale counted_format = tagged_reader parse dispatch fmt
  for parse :: "bool read" and dispatch :: "nat \<Rightarrow> bool read" and fmt :: input_format_t +
  fixes key :: "string option read" and encode :: "json \<Rightarrow> string" and encode_key :: "string \<Rightarrow> string"
    and array_header :: "nat \<Rightarrow> string" and object_header :: "nat \<Rightarrow> string" and lim :: nat
  assumes encode_array: "encode (Array a) = array_header (length a) @ concat (map encode a)"
    and encode_object: "encode (Object m) =
      object_header (length m) @ concat (map (\<lambda>(k, v). encode_key k @ encode v) m)"
    and scalar: "is_scalar v \<Longrightarrow> json_ok v \<Longrightarrow> sized lim v \<Longrightarrow> reads parse (encode v) (reparse v)"
    and array: "n \<le> lim \<Longrightarrow> enters parse (array_header n)
      (andC (saxC (start_sized_array n)) (andC (repeatC n parse) (saxC sax_end)))"
    and object: "n \<le> lim \<Longrightarrow> enters parse (object_header n)
      (andC (saxC (start_sized_object n))
        (andC (repeatC n (andC (optC key (\<lambda>k. saxC (sax_key k))) parse)) (saxC sax_end)))"
    and key: "length k \<le> lim \<Longrightarrow> reads_key key (encode_key k) k"
    and lim: "lim \<le> json_max_size object_t"
begin

lemma start_sized:
  "n \<le> lim \<Longrightarrow> start_sized_array n s = start_array s"
  "n \<le> lim \<Longrightarrow> start_sized_object n s = start_object s"
  using lim by (auto simp: start_sized_array_def start_sized_object_def json_max_size_def bindR_def split: sum.split)

lemma read_array:
  assumes "length a \<le> lim" and "\<forall>v \<in> set a. reads parse (encode v) (f v)"
  shows "reads parse (encode (Array a)) (Array (map f a))"
  unfolding reads_def
proof (intro allI impI)
  fix s :: breader and ptr R rest
  assume input: "bin_input s = encode (Array a) @ rest" and slot: "slot s ptr R"
  obtain s1 where s1: "moved s (concat (map encode a) @ rest) s1"
    "parse s = andC (saxC (start_sized_array (length a))) (andC (repeatC (length a) parse) (saxC sax_end)) s1"
    using array [OF assms(1)] input unfolding enters_def by (auto simp: encode_array)
  then show "\<exists>s'. parse s = (Inr True, s') \<and> built s rest (R (Array (map f a))) s'"
    using array_read [where w = encode and start = "start_sized_array (length a)", OF s1(1) slot assms(2) start_sized(1) [OF assms(1)]]
    by simp
qed

lemma read_object:
  assumes "length m \<le> lim" and "\<forall>(k, v) \<in> set m. length k \<le> lim \<and> reads parse (encode v) (f v)"
  shows "reads parse (encode (Object m)) (Object (foldl (\<lambda>acc (k, v). omap_update k (f v) acc) [] m))"
  unfolding reads_def
proof (intro allI impI)
  fix s :: breader and ptr R rest
  assume input: "bin_input s = encode (Object m) @ rest" and slot: "slot s ptr R"
  obtain s1 where s1: "moved s (concat (map (\<lambda>(k, v). encode_key k @ encode v) m) @ rest) s1"
    "parse s = andC (saxC (start_sized_object (length m)))
       (andC (repeatC (length m) (andC (optC key (\<lambda>k. saxC (sax_key k))) parse)) (saxC sax_end)) s1"
    using object [OF assms(1)] input unfolding enters_def by (auto simp: encode_object)
  moreover have "\<forall>(k, v) \<in> set m. reads_key key (encode_key k) k \<and> reads parse (encode v) (f v)"
    using assms(2) key by auto
  ultimately show "\<exists>s'. parse s = (Inr True, s') \<and>
      built s rest (R (Object (foldl (\<lambda>acc (k, v). omap_update k (f v) acc) [] m))) s'"
    using object_read [where w = encode and kw = encode_key and start = "start_sized_object (length m)",
        OF s1(1) slot _ start_sized(2) [OF assms(1)]]
    by simp
qed

lemma read_value:
  shows "json_ok v \<Longrightarrow> sized lim v \<Longrightarrow> reads parse (encode v) (reparse v)"
    and "members_ok m \<Longrightarrow> members_sized lim m \<Longrightarrow>
      \<forall>(k, v) \<in> set m. length k \<le> lim \<and> reads parse (encode v) (reparse v)"
    and "elems_ok a \<Longrightarrow> elems_sized lim a \<Longrightarrow> \<forall>v \<in> set a. reads parse (encode v) (reparse v)"
proof (induction v and m and a rule: json_ok_members_ok_elems_ok.induct)
  case (1 m)
  then show ?case using read_object [of m reparse] by (simp add: reparse_members_foldl)
next
  case (2 a)
  then show ?case using read_array [of a reparse] by (simp add: reparse_elems_map)
qed (auto simp: is_scalar_def is_object_def is_array_def simp del: reparse.simps intro: scalar)

lemma document:
  "json_ok v \<Longrightarrow> sized lim v \<Longrightarrow>
     from_binary (bin_sax_parse format parse bin_get only) allow (encode v) = Inr (reparse v)"
  by (intro reads_document read_value)

end

end
