(* ===== verification/Json_Msgpack.thy ===== *)
theory Json_Msgpack
  imports Json_Binary_Laws
begin

text \<open>
  MessagePack: \<open>write_msgpack\<close> of class \<open>binary_writer\<close>, \<open>parse_msgpack_internal\<close> and its helpers of
  class \<open>binary_reader\<close>, and \<open>to_msgpack\<close> and \<open>from_msgpack\<close> of \<open>basic_json\<close>. The last section proves that
  the reader undoes the writer.
\<close>

unbundle bit_operations_syntax

section \<open>Writer\<close>

text \<open>
  The output is the list of bytes. \<open>number_unsigned\<close> and \<open>number_integer\<close> share their storage; the code
  reads the one through the other for non-negative numbers, which have the same bits in both.
\<close>

definition msgpack_unsigned :: "int \<Rightarrow> string" where
  "msgpack_unsigned n =
     (if n < 128 then write_number 1 False n
      else if n \<le> 2 ^ 8 - 1 then to_char_type 0xCC # write_number 1 False n
      else if n \<le> 2 ^ 16 - 1 then to_char_type 0xCD # write_number 2 False n
      else if n \<le> 2 ^ 32 - 1 then to_char_type 0xCE # write_number 4 False n
      else if n \<le> 2 ^ 64 - 1 then to_char_type 0xCF # write_number 8 False n
      else [])"

definition msgpack_integer :: "int \<Rightarrow> string" where
  "msgpack_integer n =
     (if 0 \<le> n then msgpack_unsigned n
      else if - 32 \<le> n then write_number 1 False n
      else if - (2 ^ 7) \<le> n \<and> n \<le> 2 ^ 7 - 1 then to_char_type 0xD0 # write_number 1 False n
      else if - (2 ^ 15) \<le> n \<and> n \<le> 2 ^ 15 - 1 then to_char_type 0xD1 # write_number 2 False n
      else if - (2 ^ 31) \<le> n \<and> n \<le> 2 ^ 31 - 1 then to_char_type 0xD2 # write_number 4 False n
      else if - (2 ^ 63) \<le> n \<and> n \<le> 2 ^ 63 - 1 then to_char_type 0xD3 # write_number 8 False n
      else [])"

definition msgpack_string :: "string \<Rightarrow> string" where
  "msgpack_string s =
     (let N = length s in
      (if N \<le> 31 then write_number 1 False (int (0xA0 OR N))
       else if N \<le> 2 ^ 8 - 1 then to_char_type 0xD9 # write_number 1 False (int N)
       else if N \<le> 2 ^ 16 - 1 then to_char_type 0xDA # write_number 2 False (int N)
       else if N \<le> 2 ^ 32 - 1 then to_char_type 0xDB # write_number 4 False (int N)
       else []) @ s)"

definition msgpack_array_size :: "nat \<Rightarrow> string" where
  "msgpack_array_size N =
     (if N \<le> 15 then write_number 1 False (int (0x90 OR N))
      else if N \<le> 2 ^ 16 - 1 then to_char_type 0xDC # write_number 2 False (int N)
      else if N \<le> 2 ^ 32 - 1 then to_char_type 0xDD # write_number 4 False (int N)
      else [])"

definition msgpack_object_size :: "nat \<Rightarrow> string" where
  "msgpack_object_size N =
     (if N \<le> 15 then write_number 1 False (int (0x80 OR (N AND 0xF)))
      else if N \<le> 2 ^ 16 - 1 then to_char_type 0xDE # write_number 2 False (int N)
      else if N \<le> 2 ^ 32 - 1 then to_char_type 0xDF # write_number 4 False (int N)
      else [])"

fun write_msgpack :: "json \<Rightarrow> string" and write_msgpack_members :: "(string \<times> json) list \<Rightarrow> string"
  and write_msgpack_elems :: "json list \<Rightarrow> string" where
  "write_msgpack Null = [to_char_type 0xC0]"
| "write_msgpack (Boolean b) = [if b then to_char_type 0xC3 else to_char_type 0xC2]"
| "write_msgpack (Number_integer i) = msgpack_integer i"
| "write_msgpack (Number_unsigned i) = msgpack_unsigned i"
| "write_msgpack (Number_float d) = to_char_type 0xCB # write_number 8 False (int (unat d))"
| "write_msgpack (String s) = msgpack_string s"
| "write_msgpack (Array a) = msgpack_array_size (length a) @ write_msgpack_elems a"
| "write_msgpack (Object m) = msgpack_object_size (length m) @ write_msgpack_members m"
| "write_msgpack Discarded = []"
| "write_msgpack_members [] = []"
| "write_msgpack_members ((k, v) # m) = msgpack_string k @ write_msgpack v @ write_msgpack_members m"
| "write_msgpack_elems [] = []"
| "write_msgpack_elems (v # a) = write_msgpack v @ write_msgpack_elems a"

definition to_msgpack :: "json \<Rightarrow> string" where
  "to_msgpack j = write_msgpack j"

section \<open>Reader\<close>

definition get_msgpack_string :: "string option read" where
  "get_msgpack_string =
     bindC (unexpect_eof msgpack_fmt ''string'') (\<lambda>ok.
       if \<not> ok then returnC None
       else bindC (getC current_byte) (\<lambda>b.
         if 0xA0 \<le> b \<and> b \<le> 0xBF then get_chars msgpack_fmt (int (b AND 0x1F)) []
         else if b = 0xD9 then counted_string 1 msgpack_fmt
         else if b = 0xDA then counted_string 2 msgpack_fmt
         else if b = 0xDB then counted_string 4 msgpack_fmt
         else seqC (bin_fail 113 msgpack_fmt
                ''expected length specification (0xA0-0xBF, 0xD9-0xDB); last byte: '' ''string'')
              (returnC None)))"

definition get_msgpack_array :: "bool read \<Rightarrow> nat \<Rightarrow> bool read" where
  "get_msgpack_array parse len =
     andC (saxC (start_sized_array len)) (andC (repeatC len parse) (saxC sax_end))"

definition get_msgpack_object :: "bool read \<Rightarrow> nat \<Rightarrow> bool read" where
  "get_msgpack_object parse len =
     andC (saxC (start_sized_object len))
       (andC (repeatC len (andC (optC (seqC bin_get get_msgpack_string) (\<lambda>key. saxC (sax_key key))) parse))
         (saxC sax_end))"

text \<open>The cases of \<open>parse_msgpack_internal\<close> for floats and integers of fixed size.\<close>

definition msgpack_number :: "nat \<Rightarrow> bool read" where
  "msgpack_number b =
     (if b = 0xCA then optC (get_number 4 False msgpack_fmt)
        (\<lambda>n. saxC (sax_value (Number_float (float_to_double (of_nat n)))))
      else if b = 0xCB then optC (get_number 8 False msgpack_fmt)
        (\<lambda>n. saxC (sax_value (Number_float (of_nat n))))
      else if b \<le> 0xCF then optC (get_number (2 ^ (b - 0xCC)) False msgpack_fmt)
        (\<lambda>n. saxC (sax_value (Number_unsigned (int n))))
      else optC (get_number (2 ^ (b - 0xD0)) False msgpack_fmt)
        (\<lambda>n. saxC (sax_value (Number_integer (signed_of (2 ^ (b - 0xD0)) n)))))"

definition msgpack_value :: "bool read \<Rightarrow> nat \<Rightarrow> bool read" where
  "msgpack_value parse b =
     (if b \<le> 0x7F then saxC (sax_value (Number_unsigned (int b)))
      else if b \<le> 0x8F then get_msgpack_object parse (b AND 0x0F)
      else if b \<le> 0x9F then get_msgpack_array parse (b AND 0x0F)
      else if b \<le> 0xBF then optC get_msgpack_string (\<lambda>s. saxC (sax_value (String s)))
      else if b = 0xC0 then saxC (sax_value Null)
      else if b = 0xC2 then saxC (sax_value (Boolean False))
      else if b = 0xC3 then saxC (sax_value (Boolean True))
      else if 0xCA \<le> b \<and> b \<le> 0xD3 then msgpack_number b
      else if 0xD9 \<le> b \<and> b \<le> 0xDB then optC get_msgpack_string (\<lambda>s. saxC (sax_value (String s)))
      else if b = 0xDC then optC (get_number 2 False msgpack_fmt) (get_msgpack_array parse)
      else if b = 0xDD then optC (get_number 4 False msgpack_fmt) (get_msgpack_array parse)
      else if b = 0xDE then optC (get_number 2 False msgpack_fmt) (get_msgpack_object parse)
      else if b = 0xDF then optC (get_number 4 False msgpack_fmt) (get_msgpack_object parse)
      else if 0xE0 \<le> b then saxC (sax_value (Number_integer (signed_of 1 b)))
      else bin_fail 112 msgpack_fmt ''invalid byte: '' ''value'')"

definition msgpack_body :: "(unit \<Rightarrow> bool read) \<Rightarrow> unit \<Rightarrow> bool read" where
  "msgpack_body parse x =
     bindC bin_get (\<lambda>c. case c of
         None \<Rightarrow> unexpect_eof msgpack_fmt ''value''
       | Some c \<Rightarrow> msgpack_value (parse ()) (of_char c))"

definition parse_msgpack_internal :: "bool read" where
  "parse_msgpack_internal = fixC remaining msgpack_body ()"

definition from_msgpack :: "bool \<Rightarrow> bool \<Rightarrow> string \<Rightarrow> exn + json" where
  "from_msgpack only allow i = from_binary (bin_sax_parse msgpack_fmt parse_msgpack_internal bin_get only) allow i"

section \<open>The recursion ends\<close>

lemma same_msgpack_string [same_intros]: "same n get_msgpack_string get_msgpack_string"
  unfolding get_msgpack_string_def by (intro same_intros)

lemma same_msgpack_container [same_intros]:
  "same n p p' \<Longrightarrow> same n (get_msgpack_array p len) (get_msgpack_array p' len)"
  "same n p p' \<Longrightarrow> same n (get_msgpack_object p len) (get_msgpack_object p' len)"
  unfolding get_msgpack_array_def get_msgpack_object_def by (intro same_intros same_bin_get; assumption)+

lemma same_msgpack_number [same_intros]: "same n (msgpack_number b) (msgpack_number b)"
  unfolding msgpack_number_def by (intro same_intros)

lemma same_msgpack_value:
  "same n p p' \<Longrightarrow> same n (msgpack_value p b) (msgpack_value p' b)"
  unfolding msgpack_value_def by (intro same_intros; assumption)

lemma guarded_msgpack: "guarded remaining msgpack_body"
  unfolding guarded_def same_remaining
proof (intro allI impI)
  fix n x and f f' :: "unit \<Rightarrow> bool read"
  assume "\<forall>x. same n (f x) (f' x)"
  then show "same (Suc n) (msgpack_body f x) (msgpack_body f' x)"
    unfolding msgpack_body_def by (intro same_get) (simp_all add: same_errors same_msgpack_value)
qed

lemma parse_msgpack_unfold:
  "parse_msgpack_internal =
     bindC bin_get (\<lambda>c. case c of
         None \<Rightarrow> unexpect_eof msgpack_fmt ''value''
       | Some c \<Rightarrow> msgpack_value parse_msgpack_internal (of_char c))"
  using fixC_unfold [OF guarded_msgpack, of "()"] unfolding parse_msgpack_internal_def msgpack_body_def .

section \<open>Reading what was written\<close>

text \<open>The first byte decides; \<open>msgpack_value\<close> goes on after it.\<close>

lemma parse_msgpack_Cons:
  assumes "bin_input s = c # rest"
  shows "parse_msgpack_internal s = msgpack_value parse_msgpack_internal (of_char c)
    (s\<lparr>bin_input := rest, bin_current := Some c, bin_chars_read := Suc (bin_chars_read s)\<rparr>)"
  by (subst parse_msgpack_unfold) (simp add: bindC_def bin_get_Cons [OF assms])

interpretation msgpack_reader: tagged_reader parse_msgpack_internal "msgpack_value parse_msgpack_internal" msgpack_fmt
  by unfold_locales (rule parse_msgpack_Cons)

lemma or_tag:
  "N \<le> 31 \<Longrightarrow> (0xA0 :: nat) OR N = 0xA0 + N" "N \<le> 15 \<Longrightarrow> (0x90 :: nat) OR N = 0x90 + N"
  "N \<le> 15 \<Longrightarrow> (0x80 :: nat) OR (N AND 0xF) = 0x80 + N"
proof -
  have "\<forall>N \<in> {..< 32}. (0xA0 :: nat) OR N = 0xA0 + N" by code_simp
  then show "N \<le> 31 \<Longrightarrow> (0xA0 :: nat) OR N = 0xA0 + N" by simp
  have "\<forall>N \<in> {..< 16}. (0x90 :: nat) OR N = 0x90 + N \<and> (0x80 :: nat) OR (N AND 0xF) = 0x80 + N" by code_simp
  then show "N \<le> 15 \<Longrightarrow> (0x90 :: nat) OR N = 0x90 + N" "N \<le> 15 \<Longrightarrow> (0x80 :: nat) OR (N AND 0xF) = 0x80 + N"
    by simp_all
qed

lemma and_tag:
  "N \<le> 31 \<Longrightarrow> (0xA0 + N) AND 0x1F = (N :: nat)" "N \<le> 15 \<Longrightarrow> (0x90 + N) AND 0x0F = (N :: nat)"
  "N \<le> 15 \<Longrightarrow> (0x80 + N) AND 0x0F = (N :: nat)"
proof -
  have "\<forall>N \<in> {..< 32}. (0xA0 + N) AND 0x1F = (N :: nat)" by code_simp
  then show "N \<le> 31 \<Longrightarrow> (0xA0 + N) AND 0x1F = (N :: nat)" by simp
  have "\<forall>N \<in> {..< 16}. (0x90 + N) AND 0x0F = (N :: nat) \<and> (0x80 + N) AND 0x0F = (N :: nat)" by code_simp
  then show "N \<le> 15 \<Longrightarrow> (0x90 + N) AND 0x0F = (N :: nat)" "N \<le> 15 \<Longrightarrow> (0x80 + N) AND 0x0F = (N :: nat)"
    by simp_all
qed

lemmas msgpack_eval = msgpack_value_def msgpack_number_def to_char_type_def

lemma read_msgpack_unsigned:
  assumes "is_uint64 n"
  shows "reads parse_msgpack_internal (msgpack_unsigned n) (Number_unsigned n)"
proof (rule enters_reads)
  have n: "0 \<le> n" "n < 2 ^ 64" using assms by (simp_all add: is_uint64_def)
  consider "n < 128" | "128 \<le> n" "n \<le> 2 ^ 8 - 1" | "2 ^ 8 - 1 < n" "n \<le> 2 ^ 16 - 1"
    | "2 ^ 16 - 1 < n" "n \<le> 2 ^ 32 - 1" | "2 ^ 32 - 1 < n" by linarith
  then show "enters parse_msgpack_internal (msgpack_unsigned n) (saxC (sax_value (Number_unsigned n)))"
  proof cases
    case 1
    with n show ?thesis by (auto simp: msgpack_unsigned_def msgpack_eval write_number_1 intro!: msgpack_reader.enters_byte)
  qed (use n in \<open>auto simp: msgpack_unsigned_def msgpack_eval intro!: msgpack_reader.enters_tagged\<close>)
qed

lemma read_msgpack_integer:
  assumes "is_int64 n"
  shows "reads parse_msgpack_internal (msgpack_integer n) (reparse (Number_integer n))"
proof (cases "0 \<le> n")
  case True
  then show ?thesis using assms read_msgpack_unsigned [of n] by (simp add: msgpack_integer_def is_int64_def is_uint64_def)
next
  case False
  have n: "- (2 ^ 63) \<le> n" using assms by (simp add: is_int64_def)
  consider "- 32 \<le> n" | "- (2 ^ 7) \<le> n" "n < - 32" | "- (2 ^ 15) \<le> n" "n < - (2 ^ 7)"
    | "- (2 ^ 31) \<le> n" "n < - (2 ^ 15)" | "n < - (2 ^ 31)" by linarith
  then have "enters parse_msgpack_internal (msgpack_integer n) (saxC (sax_value (Number_integer n)))"
  proof cases
    case 1
    with False mod_neg [of 256 n] show ?thesis
      by (auto simp: msgpack_integer_def msgpack_eval signed_of_def write_number_1 nat_less_iff intro!: msgpack_reader.enters_byte)
  qed (use n False in \<open>auto simp: msgpack_integer_def msgpack_eval signed_eval intro!: msgpack_reader.enters_tagged\<close>)
  then show ?thesis using False enters_reads by simp
qed

text \<open>Strings, as values and as keys.\<close>

lemma msgpack_string_after:
  assumes "bin_current s = Some c" and "bin_input s = str @ rest"
    and "of_char c = (0xA0 :: nat) + length str" and "length str \<le> 31"
  shows "\<exists>s'. get_msgpack_string s = (Inr (Some str), s') \<and> moved s rest s'"
  using get_chars_run [OF assms(2) refl, of msgpack_fmt "[]"] assms(1,3,4) and_tag(1) [OF assms(4)]
  by (auto simp: get_msgpack_string_def bindC_def unexpect_eof_def current_byte_def)

lemma msgpack_string_counted:
  assumes "bin_current s = Some (char_of (b :: nat))" and "b = 0xD9 \<and> k = 1 \<or> b = 0xDA \<and> k = 2 \<or> b = 0xDB \<and> k = 4"
    and "bin_input s = write_number k False (int (length str)) @ str @ rest" and "length str < 256 ^ k"
  shows "\<exists>s'. get_msgpack_string s = (Inr (Some str), s') \<and> moved s rest s'"
proof -
  have "get_msgpack_string s = counted_string k msgpack_fmt s"
    using assms(1,2) by (auto simp: get_msgpack_string_def bindC_def unexpect_eof_def current_byte_def)
  then show ?thesis using counted_string_run [OF assms(3,4)] by simp
qed

lemma msgpack_string_first:
  assumes "length str \<le> 2 ^ 32 - 1"
  shows "\<exists>c out. msgpack_string str = c # out \<and> (0xA0 \<le> (of_char c :: nat) \<and> of_char c \<le> (0xBF :: nat) \<or>
      0xD9 \<le> (of_char c :: nat) \<and> of_char c \<le> (0xDB :: nat)) \<and>
    (\<forall>s rest. bin_current s = Some c \<longrightarrow> bin_input s = out @ rest \<longrightarrow>
       (\<exists>s'. get_msgpack_string s = (Inr (Some str), s') \<and> moved s rest s'))"
proof -
  consider "length str \<le> 31" | "31 < length str" "length str \<le> 2 ^ 8 - 1"
    | "2 ^ 8 - 1 < length str" "length str \<le> 2 ^ 16 - 1" | "2 ^ 16 - 1 < length str" by linarith
  then show ?thesis
  proof cases
    case 1
    then have "msgpack_string str = char_of (0xA0 + length str) # str"
      by (simp add: msgpack_string_def Let_def or_tag write_number_1 nat_add_distrib)
    then show ?thesis using 1 by (intro exI conjI) (auto intro!: msgpack_string_after)
  next
    case 2
    then have "msgpack_string str = char_of (0xD9 :: nat) # write_number 1 False (int (length str)) @ str"
      by (simp add: msgpack_string_def Let_def to_char_type_def)
    then show ?thesis using 2
      by (intro exI conjI) (auto intro!: msgpack_string_counted [where b = "0xD9 :: nat" and k = 1])
  next
    case 3
    then have "msgpack_string str = char_of (0xDA :: nat) # write_number 2 False (int (length str)) @ str"
      by (simp add: msgpack_string_def Let_def to_char_type_def)
    then show ?thesis using 3
      by (intro exI conjI) (auto intro!: msgpack_string_counted [where b = "0xDA :: nat" and k = 2])
  next
    case 4
    then have "msgpack_string str = char_of (0xDB :: nat) # write_number 4 False (int (length str)) @ str"
      using assms by (simp add: msgpack_string_def Let_def to_char_type_def)
    then show ?thesis using assms
      by (intro exI conjI) (auto intro!: msgpack_string_counted [where b = "0xDB :: nat" and k = 4])
  qed
qed

lemma msgpack_key:
  assumes "length k \<le> 2 ^ 32 - 1"
  shows "reads_key (seqC bin_get get_msgpack_string) (msgpack_string k) k"
  unfolding reads_key_def
proof (intro allI impI)
  fix s :: breader and rest
  obtain c out where c: "msgpack_string k = c # out" and run: "\<And>s rest. bin_current s = Some c \<Longrightarrow>
      bin_input s = out @ rest \<Longrightarrow> \<exists>s'. get_msgpack_string s = (Inr (Some k), s') \<and> moved s rest s'"
    using msgpack_string_first [OF assms] by metis
  assume "bin_input s = msgpack_string k @ rest"
  then have input: "bin_input s = c # out @ rest" by (simp add: c)
  let ?s = "s\<lparr>bin_input := out @ rest, bin_current := Some c, bin_chars_read := Suc (bin_chars_read s)\<rparr>"
  obtain s' where "get_msgpack_string ?s = (Inr (Some k), s')" "moved ?s rest s'"
    using run [of ?s rest] by auto
  then show "\<exists>s'. seqC bin_get get_msgpack_string s = (Inr (Some k), s') \<and> moved s rest s'"
    using moved_trans [OF moved_get] by (auto simp: seqC_def bindC_def bin_get_Cons [OF input])
qed

lemma read_msgpack_string:
  assumes "length str \<le> 2 ^ 32 - 1"
  shows "reads parse_msgpack_internal (msgpack_string str) (String str)"
proof -
  obtain c out where c: "msgpack_string str = c # out"
    "0xA0 \<le> (of_char c :: nat) \<and> of_char c \<le> (0xBF :: nat) \<or> 0xD9 \<le> (of_char c :: nat) \<and> of_char c \<le> (0xDB :: nat)"
    using msgpack_string_first [OF assms] by metis
  then have "msgpack_value parse_msgpack_internal (of_char c) = optC get_msgpack_string (\<lambda>s. saxC (sax_value (String s)))"
    by (auto simp: msgpack_value_def)
  then show ?thesis by (rule msgpack_reader.read_string [OF c(1) _ msgpack_key [OF assms]])
qed

text \<open>The headers of arrays and objects.\<close>

lemma enters_msgpack_array:
  assumes "N \<le> 2 ^ 32 - 1"
  shows "enters parse_msgpack_internal (msgpack_array_size N) (get_msgpack_array parse_msgpack_internal N)"
proof -
  consider "N \<le> 15" | "15 < N" "N \<le> 2 ^ 16 - 1" | "2 ^ 16 - 1 < N" by linarith
  then show ?thesis
  proof cases
    case 1
    then show ?thesis
      by (auto simp: msgpack_array_size_def or_tag and_tag msgpack_eval write_number_1 nat_add_distrib intro!: msgpack_reader.enters_byte)
  qed (use assms in \<open>auto simp: msgpack_array_size_def msgpack_eval nat_mod_distrib intro!: msgpack_reader.enters_tagged\<close>)
qed

lemma enters_msgpack_object:
  assumes "N \<le> 2 ^ 32 - 1"
  shows "enters parse_msgpack_internal (msgpack_object_size N) (get_msgpack_object parse_msgpack_internal N)"
proof -
  consider "N \<le> 15" | "15 < N" "N \<le> 2 ^ 16 - 1" | "2 ^ 16 - 1 < N" by linarith
  then show ?thesis
  proof cases
    case 1
    then show ?thesis
      by (auto simp: msgpack_object_size_def or_tag and_tag msgpack_eval write_number_1 nat_add_distrib intro!: msgpack_reader.enters_byte)
  qed (use assms in \<open>auto simp: msgpack_object_size_def msgpack_eval nat_mod_distrib intro!: msgpack_reader.enters_tagged\<close>)
qed

lemma msgpack_scalar:
  assumes "is_scalar v" and "json_ok v" and "sized (2 ^ 32 - 1) v"
  shows "reads parse_msgpack_internal (write_msgpack v) (reparse v)"
proof (cases v)
  case (Number_float d)
  have "enters parse_msgpack_internal (to_char_type 0xCB # write_number 8 False (int (unat d))) (saxC (sax_value (Number_float d)))"
    by (rule msgpack_reader.enters_double) (simp add: msgpack_eval)
  then show ?thesis using Number_float enters_reads by simp
qed (use assms in \<open>auto simp: is_scalar_def is_object_def is_array_def read_msgpack_string read_msgpack_unsigned
      read_msgpack_integer msgpack_eval simp del: reparse.simps(3) intro!: enters_reads msgpack_reader.enters_byte\<close>)

lemma write_msgpack_elems: "write_msgpack_elems a = concat (map write_msgpack a)"
  by (induction a) simp_all

lemma write_msgpack_members:
  "write_msgpack_members m = concat (map (\<lambda>(k, v). msgpack_string k @ write_msgpack v) m)"
  by (induction m) auto

interpretation msgpack: counted_format parse_msgpack_internal "msgpack_value parse_msgpack_internal" msgpack_fmt "seqC bin_get get_msgpack_string"
  write_msgpack msgpack_string msgpack_array_size msgpack_object_size "2 ^ 32 - 1"
proof (unfold_locales, goal_cases)
  case (3 v)
  then show ?case by (rule msgpack_scalar)
next
  case (4 n)
  then show ?case using enters_msgpack_array by (simp add: get_msgpack_array_def)
next
  case (5 n)
  then show ?case using enters_msgpack_object by (simp add: get_msgpack_object_def)
next
  case (6 k)
  then show ?case by (rule msgpack_key)
qed (simp_all add: write_msgpack_elems write_msgpack_members json_max_size_def)

lemma from_to_msgpack:
  "json_ok v \<Longrightarrow> sized (2 ^ 32 - 1) v \<Longrightarrow> from_msgpack only allow (to_msgpack v) = Inr (reparse v)"
  unfolding from_msgpack_def to_msgpack_def by (rule msgpack.document)

end
