(* ===== verification/Json_Cbor.thy ===== *)
theory Json_Cbor
  imports Json_Binary_Laws
begin

text \<open>
  CBOR: \<open>write_cbor\<close> of class \<open>binary_writer\<close>, \<open>parse_cbor_internal\<close> and its helpers of class
  \<open>binary_reader\<close>, and \<open>to_cbor\<close> and \<open>from_cbor\<close> of \<open>basic_json\<close>. The reader also accepts what the writer
  never produces: half- and single-precision floats, strings in chunks, arrays and objects of unknown length.
  The last section proves that the reader undoes the writer.
\<close>

unbundle bit_operations_syntax

section \<open>Writer\<close>

text \<open>
  A non-negative number with the initial byte \<open>b\<close> of its major type; the code repeats these five cases for
  unsigned and negative numbers and for the lengths of strings, arrays and objects.
\<close>

definition cbor_head :: "nat \<Rightarrow> int \<Rightarrow> string" where
  "cbor_head b n =
     (if n \<le> 0x17 then write_number 1 False (int b + n)
      else if n \<le> 2 ^ 8 - 1 then to_char_type (b + 0x18) # write_number 1 False n
      else if n \<le> 2 ^ 16 - 1 then to_char_type (b + 0x19) # write_number 2 False n
      else if n \<le> 2 ^ 32 - 1 then to_char_type (b + 0x1A) # write_number 4 False n
      else to_char_type (b + 0x1B) # write_number 8 False n)"

definition cbor_unsigned :: "int \<Rightarrow> string" where
  "cbor_unsigned n = cbor_head 0x00 n"

definition cbor_integer :: "int \<Rightarrow> string" where
  "cbor_integer n = (if 0 \<le> n then cbor_head 0x00 n else let positive_number = - 1 - n in cbor_head 0x20 positive_number)"

definition cbor_string :: "string \<Rightarrow> string" where
  "cbor_string s = cbor_head 0x60 (int (length s)) @ s"

definition cbor_array_size :: "nat \<Rightarrow> string" where
  "cbor_array_size N = cbor_head 0x80 (int N)"

definition cbor_object_size :: "nat \<Rightarrow> string" where
  "cbor_object_size N = cbor_head 0xA0 (int N)"

fun write_cbor :: "json \<Rightarrow> string" and write_cbor_members :: "(string \<times> json) list \<Rightarrow> string"
  and write_cbor_elems :: "json list \<Rightarrow> string" where
  "write_cbor Null = [to_char_type 0xF6]"
| "write_cbor (Boolean b) = [if b then to_char_type 0xF5 else to_char_type 0xF4]"
| "write_cbor (Number_integer i) = cbor_integer i"
| "write_cbor (Number_unsigned i) = cbor_unsigned i"
| "write_cbor (Number_float d) = to_char_type 0xFB # write_number 8 False (int (unat d))"
| "write_cbor (String s) = cbor_string s"
| "write_cbor (Array a) = cbor_array_size (length a) @ write_cbor_elems a"
| "write_cbor (Object m) = cbor_object_size (length m) @ write_cbor_members m"
| "write_cbor Discarded = []"
| "write_cbor_members [] = []"
| "write_cbor_members ((k, v) # m) = cbor_string k @ write_cbor v @ write_cbor_members m"
| "write_cbor_elems [] = []"
| "write_cbor_elems (v # a) = write_cbor v @ write_cbor_elems a"

definition to_cbor :: "json \<Rightarrow> string" where
  "to_cbor j = write_cbor j"

section \<open>Reader\<close>

text \<open>
  \<open>while (get() != 0xFF)\<close>: the loop of a string in chunks, with the result so far, and the loop of an array
  or object of unknown length.
\<close>

definition cbor_chunks :: "string option read \<Rightarrow> string \<Rightarrow> string option read" where
  "cbor_chunks chunk = fixC remaining (\<lambda>loop result.
     bindC bin_get (\<lambda>c. if c = Some (CHR 0xFF) then returnC (Some result)
       else bindO chunk (\<lambda>r. loop (result @ r))))"

definition cbor_until_break :: "bool read \<Rightarrow> bool read" where
  "cbor_until_break m = fixC remaining (\<lambda>loop x.
     bindC bin_get (\<lambda>c. if c = Some (CHR 0xFF) then returnC True else andC m (loop ()))) ()"

definition cbor_string_body :: "(unit \<Rightarrow> string option read) \<Rightarrow> unit \<Rightarrow> string option read" where
  "cbor_string_body self x =
     bindC (unexpect_eof cbor_fmt ''string'') (\<lambda>ok.
       if \<not> ok then returnC None
       else bindC (getC current_byte) (\<lambda>b.
         if 0x60 \<le> b \<and> b \<le> 0x77 then get_chars cbor_fmt (int (b AND 0x1F)) []
         else if 0x78 \<le> b \<and> b \<le> 0x7B then counted_string (2 ^ (b - 0x78)) cbor_fmt
         else if b = 0x7F then cbor_chunks (self ()) []
         else seqC (bin_fail 113 cbor_fmt
                ''expected length specification (0x60-0x7B) or indefinite string type (0x7F); last byte: '' ''string'')
              (returnC None)))"

definition get_cbor_string :: "string option read" where
  "get_cbor_string = fixC pending cbor_string_body ()"

text \<open>The argument of \<open>parse\<close> is \<open>get_char\<close>.\<close>

definition get_cbor_array :: "(bool \<Rightarrow> bool read) \<Rightarrow> nat \<Rightarrow> bool read" where
  "get_cbor_array parse len =
     andC (saxC (start_sized_array len))
       (andC (if len \<noteq> npos then repeatC len (parse True) else cbor_until_break (parse False))
         (saxC sax_end))"

definition get_cbor_object :: "(bool \<Rightarrow> bool read) \<Rightarrow> nat \<Rightarrow> bool read" where
  "get_cbor_object parse len =
     andC (saxC (start_sized_object len))
       (andC (if len \<noteq> npos
              then repeatC len (andC (optC (seqC bin_get get_cbor_string) (\<lambda>key. saxC (sax_key key))) (parse True))
              else cbor_until_break (andC (optC get_cbor_string (\<lambda>key. saxC (sax_key key))) (parse True)))
         (saxC sax_end))"

text \<open>A half-precision float, from its two bytes.\<close>

definition cbor_half :: "nat \<Rightarrow> nat \<Rightarrow> double" where
  "cbor_half byte1 byte2 =
     (let half = byte1 * 256 + byte2;
          exp = drop_bit 10 half AND 0x1F;
          mant = half AND 0x3FF;
          val = (if exp = 0 then round_double False mant (2 ^ 24)
                 else if exp = 31 then (if mant = 0 then double_inf False else make_double False (2047 * 2 ^ 52 + 2 ^ 51))
                 else round_double False ((mant + 1024) * 2 ^ (exp - 25)) (2 ^ (25 - exp)))
      in if half AND 0x8000 \<noteq> 0 then double_neg val else val)"

definition cbor_get_half :: "bool read" where
  "cbor_get_half =
     bindC bin_get (\<lambda>_. andC (unexpect_eof cbor_fmt ''number'') (bindC (getC current_byte) (\<lambda>byte1.
     bindC bin_get (\<lambda>_. andC (unexpect_eof cbor_fmt ''number'') (bindC (getC current_byte) (\<lambda>byte2.
       saxC (sax_value (Number_float (cbor_half byte1 byte2)))))))))"

text \<open>The number cases of \<open>parse_cbor_internal\<close>.\<close>

definition cbor_integers :: "nat \<Rightarrow> bool read" where
  "cbor_integers b =
     (if b \<le> 0x17 then saxC (sax_value (Number_unsigned (int b)))
      else if b \<le> 0x1B then optC (get_number (2 ^ (b - 0x18)) False cbor_fmt)
        (\<lambda>n. saxC (sax_value (Number_unsigned (int n))))
      else if 0x20 \<le> b \<and> b \<le> 0x37 then saxC (sax_value (Number_integer (0x20 - 1 - int b)))
      else if 0x38 \<le> b \<and> b \<le> 0x3A then optC (get_number (2 ^ (b - 0x38)) False cbor_fmt)
        (\<lambda>n. saxC (sax_value (Number_integer (- 1 - int n))))
      else if b = 0x3B then optC (get_number 8 False cbor_fmt)
        (\<lambda>n. saxC (sax_value (Number_integer (- 1 - signed_of 8 n))))
      else bin_fail 112 cbor_fmt ''invalid byte: '' ''value'')"

definition cbor_simple :: "nat \<Rightarrow> bool read" where
  "cbor_simple b =
     (if b = 0xF4 then saxC (sax_value (Boolean False))
      else if b = 0xF5 then saxC (sax_value (Boolean True))
      else if b = 0xF6 then saxC (sax_value Null)
      else if b = 0xF9 then cbor_get_half
      else if b = 0xFA then optC (get_number 4 False cbor_fmt)
        (\<lambda>n. saxC (sax_value (Number_float (float_to_double (of_nat n)))))
      else if b = 0xFB then optC (get_number 8 False cbor_fmt)
        (\<lambda>n. saxC (sax_value (Number_float (of_nat n))))
      else bin_fail 112 cbor_fmt ''invalid byte: '' ''value'')"

definition cbor_value :: "(bool \<Rightarrow> bool read) \<Rightarrow> nat \<Rightarrow> bool read" where
  "cbor_value parse b =
     (if b \<le> 0x3F then cbor_integers b
      else if 0x60 \<le> b \<and> b \<le> 0x7B \<or> b = 0x7F then optC get_cbor_string (\<lambda>s. saxC (sax_value (String s)))
      else if 0x80 \<le> b \<and> b \<le> 0x97 then get_cbor_array parse (b AND 0x1F)
      else if 0x98 \<le> b \<and> b \<le> 0x9B then optC (get_number (2 ^ (b - 0x98)) False cbor_fmt) (get_cbor_array parse)
      else if b = 0x9F then get_cbor_array parse npos
      else if 0xA0 \<le> b \<and> b \<le> 0xB7 then get_cbor_object parse (b AND 0x1F)
      else if 0xB8 \<le> b \<and> b \<le> 0xBB then optC (get_number (2 ^ (b - 0xB8)) False cbor_fmt) (get_cbor_object parse)
      else if b = 0xBF then get_cbor_object parse npos
      else cbor_simple b)"

definition cbor_body :: "(bool \<Rightarrow> bool read) \<Rightarrow> bool \<Rightarrow> bool read" where
  "cbor_body parse get_char =
     bindC (if get_char then bin_get else getC bin_current) (\<lambda>c. case c of
         None \<Rightarrow> unexpect_eof cbor_fmt ''value''
       | Some c \<Rightarrow> cbor_value parse (of_char c))"

definition cbor_remaining :: "bool \<Rightarrow> breader \<Rightarrow> nat" where
  "cbor_remaining get_char s = (if get_char then remaining () s else pending () s)"

definition parse_cbor_internal :: "bool \<Rightarrow> bool read" where
  "parse_cbor_internal = fixC cbor_remaining cbor_body"

definition from_cbor :: "bool \<Rightarrow> bool \<Rightarrow> string \<Rightarrow> exn + json" where
  "from_cbor only allow i = from_binary (bin_sax_parse cbor_fmt (parse_cbor_internal True) bin_get only) allow i"

section \<open>The recursion ends\<close>

lemma same_until_break:
  assumes "same (n - 1) m m'" and "0 < n \<Longrightarrow> same_eof m m'"
  shows "same n (cbor_until_break m) (cbor_until_break m')"
  unfolding cbor_until_break_def
proof (rule same_fixC)
  fix f f' :: "unit \<Rightarrow> bool read" and x
  assume loop: "\<And>x. same n (f x) (f' x)"
  then have less: "same (n - 1) (f ()) (f' ())" by (rule same_mono) simp
  show "same n (bindC bin_get (\<lambda>c. if c = Some (CHR 0xFF) then returnC True else andC m (f ())))
      (bindC bin_get (\<lambda>c. if c = Some (CHR 0xFF) then returnC True else andC m' (f' ())))"
  proof (rule same_get_eof)
    assume "0 < n"
    then have "same_eof (andC m (f ())) (andC m' (f' ()))"
      unfolding andC_def using \<open>0 < n\<close> by (intro same_eof_bindC [where n = n] assms) (simp_all add: same_intros loop)
    then show "same_eof (if None = Some (CHR 0xFF) then returnC True else andC m (f ()))
      (if None = Some (CHR 0xFF) then returnC True else andC m' (f' ()))" by simp
  qed (intro same_intros assms less)
qed

lemma same_chunks:
  assumes "same (n - 1) m m'" and "0 < n \<Longrightarrow> same_eof m m'"
  shows "same n (cbor_chunks m r) (cbor_chunks m' r)"
  unfolding cbor_chunks_def
proof (rule same_fixC)
  fix f f' :: "string \<Rightarrow> string option read" and result
  assume loop: "\<And>x. same n (f x) (f' x)"
  then have less: "\<And>x. same (n - 1) (f x) (f' x)" by (rule same_mono) simp
  show "same n (bindC bin_get (\<lambda>c. if c = Some (CHR 0xFF) then returnC (Some result) else bindO m (\<lambda>r. f (result @ r))))
      (bindC bin_get (\<lambda>c. if c = Some (CHR 0xFF) then returnC (Some result) else bindO m' (\<lambda>r. f' (result @ r))))"
  proof (rule same_get_eof)
    assume "0 < n"
    then have "same_eof (bindO m (\<lambda>r. f (result @ r))) (bindO m' (\<lambda>r. f' (result @ r)))"
      unfolding bindO_def using \<open>0 < n\<close> by (intro same_eof_bindC [where n = n] assms) (simp_all add: same_intros loop)
    then show "same_eof (if None = Some (CHR 0xFF) then returnC (Some result) else bindO m (\<lambda>r. f (result @ r)))
      (if None = Some (CHR 0xFF) then returnC (Some result) else bindO m' (\<lambda>r. f' (result @ r)))" by simp
  qed (intro same_intros assms less)
qed

lemma unexpect_eof_stops:
  "bin_current s = None \<Longrightarrow> bindC (unexpect_eof fmt ctx) (\<lambda>ok. if \<not> ok then m else k) s =
     bindC (unexpect_eof fmt ctx) (\<lambda>ok. m) s"
  by (auto simp: bindC_def unexpect_eof_def bin_parse_error_def sax_parse_error_def)

lemma guarded_cbor_string: "guarded pending cbor_string_body"
  unfolding guarded_def
proof (intro allI impI agree_pendingI)
  fix n x and f f' :: "unit \<Rightarrow> string option read"
  assume "agree pending n f f'"
  note self = agree_pending [OF this, where x = "()"]
  show "same n (cbor_string_body f x) (cbor_string_body f' x)"
    unfolding cbor_string_body_def by (intro same_intros same_chunks self)
next
  fix n x and s :: breader and f f' :: "unit \<Rightarrow> string option read"
  assume "bin_current s = None"
  then have "cbor_string_body g x s = bindC (unexpect_eof cbor_fmt ''string'') (\<lambda>ok. returnC None) s" for g
    by (simp add: cbor_string_body_def unexpect_eof_stops)
  moreover have "same (Suc (length (bin_input s))) (bindC (unexpect_eof cbor_fmt ''string'') (\<lambda>ok. returnC None))
     (bindC (unexpect_eof cbor_fmt ''string'') (\<lambda>ok. returnC None :: string option read))"
    by (intro same_intros)
  ultimately show "cbor_string_body f' x s = cbor_string_body f x s \<and>
    length (bin_input (snd (cbor_string_body f x s))) \<le> length (bin_input s)"
    by (simp add: same_def)
qed

lemma get_cbor_string_unfold: "get_cbor_string = cbor_string_body (\<lambda>_. get_cbor_string) ()"
proof -
  have "(\<lambda>_. get_cbor_string) = fixC pending cbor_string_body" by (simp add: get_cbor_string_def fun_eq_iff)
  then show ?thesis using fixC_unfold [OF guarded_cbor_string, of "()"] by (simp add: get_cbor_string_def)
qed

lemma same_get_cbor_string [same_intros]: "same n get_cbor_string get_cbor_string"
proof -
  have "same (Suc n - 1) get_cbor_string ((cbor_string_body ^^ Suc n) undefined ())"
    unfolding get_cbor_string_def
    by (rule agree_pending(1) [OF fixC_agree [OF guarded_cbor_string]])
  then show ?thesis by (auto simp: same_def)
qed

lemma same_cbor_container:
  assumes "same n (f True) (f' True)" and "same (n - 1) (f False) (f' False)"
    and "0 < n \<Longrightarrow> same_eof (f False) (f' False)"
  shows "same n (get_cbor_array f len) (get_cbor_array f' len)"
    and "same n (get_cbor_object f len) (get_cbor_object f' len)"
proof -
  show "same n (get_cbor_array f len) (get_cbor_array f' len)"
    unfolding get_cbor_array_def by (intro same_intros same_until_break assms)
  let ?m = "\<lambda>f. andC (optC get_cbor_string (\<lambda>key. saxC (sax_key key))) (f True)"
  have "same n (?m f) (?m f')" by (intro same_intros assms)
  then have "same n (cbor_until_break (?m f)) (cbor_until_break (?m f'))"
    by (intro same_until_break) (auto intro: same_mono same_eofI)
  then show "same n (get_cbor_object f len) (get_cbor_object f' len)"
    unfolding get_cbor_object_def by (intro same_intros same_bin_get assms)
qed

lemma same_cbor_get_half [same_intros]: "same n cbor_get_half cbor_get_half"
  unfolding cbor_get_half_def by (intro same_intros same_bin_get)

lemma same_cbor_integers [same_intros]: "same n (cbor_integers b) (cbor_integers b)"
  unfolding cbor_integers_def by (intro same_intros)

lemma same_cbor_simple [same_intros]: "same n (cbor_simple b) (cbor_simple b)"
  unfolding cbor_simple_def by (intro same_intros)

lemma guarded_cbor: "guarded cbor_remaining cbor_body"
  unfolding guarded_def
proof (intro allI impI)
  fix n and f f' :: "bool \<Rightarrow> bool read"
  assume *: "agree cbor_remaining n f f'"
  then have "agree remaining n (\<lambda>x::unit. f True) (\<lambda>x::unit. f' True)"
    and pend: "agree pending n (\<lambda>x::unit. f False) (\<lambda>x::unit. f' False)"
    by (auto simp: agree_def cbor_remaining_def)
  then have "same n (f True) (f' True)" by (simp add: same_remaining)
  moreover note agree_pending [OF pend]
  ultimately have v: "same n (cbor_value f b) (cbor_value f' b)" for b
    unfolding cbor_value_def by (intro same_intros same_cbor_container)
  have "agree remaining (Suc n) (\<lambda>x::unit. cbor_body f True) (\<lambda>x::unit. cbor_body f' True)"
    unfolding same_remaining cbor_body_def if_True by (intro allI same_get) (simp_all add: same_errors v)
  moreover have "agree pending (Suc n) (\<lambda>x::unit. cbor_body f False) (\<lambda>x::unit. cbor_body f' False)"
  proof (rule agree_pendingI)
    show "same n (cbor_body f False) (cbor_body f' False)"
      unfolding cbor_body_def if_False by (intro same_intros v)
    fix s :: breader
    assume "bin_current s = None"
    then have "cbor_body g False s = unexpect_eof cbor_fmt ''value'' s" for g by (simp add: cbor_body_def)
    moreover have "same (Suc (length (bin_input s))) (unexpect_eof cbor_fmt ''value'') (unexpect_eof cbor_fmt ''value'')"
      by (intro same_intros)
    ultimately show "cbor_body f' False s = cbor_body f False s \<and>
        length (bin_input (snd (cbor_body f False s))) \<le> length (bin_input s)"
      by (simp add: same_def)
  qed
  ultimately show "agree cbor_remaining (Suc n) (cbor_body f) (cbor_body f')"
    unfolding agree_def cbor_remaining_def by auto
qed

lemma parse_cbor_unfold: "parse_cbor_internal get_char = cbor_body parse_cbor_internal get_char"
  using fixC_unfold [OF guarded_cbor] by (simp add: parse_cbor_internal_def)

section \<open>Reading what was written\<close>

lemma parse_cbor_Cons:
  assumes "bin_input s = c # rest"
  shows "parse_cbor_internal True s = cbor_value parse_cbor_internal (of_char c)
    (s\<lparr>bin_input := rest, bin_current := Some c, bin_chars_read := Suc (bin_chars_read s)\<rparr>)"
  by (subst parse_cbor_unfold) (simp add: cbor_body_def bindC_def bin_get_Cons [OF assms])

interpretation cbor_reader: tagged_reader "parse_cbor_internal True" "cbor_value parse_cbor_internal" cbor_fmt
  by unfold_locales (rule parse_cbor_Cons)

lemma cbor_head_cases:
  assumes "0 \<le> n" and "n < 2 ^ 64"
  obtains (byte) "n \<le> 0x17" "cbor_head b n = [char_of (b + nat n)]"
    | (tagged) k where "k \<le> 3" "n < 256 ^ (2 ^ k)" "cbor_head b n = char_of (b + 0x18 + k) # write_number (2 ^ k) False n"
proof -
  consider "n \<le> 0x17" | "0x17 < n" "n \<le> 2 ^ 8 - 1" | "2 ^ 8 - 1 < n" "n \<le> 2 ^ 16 - 1"
    | "2 ^ 16 - 1 < n" "n \<le> 2 ^ 32 - 1" | "2 ^ 32 - 1 < n" by linarith
  then show ?thesis
  proof cases
    case 1
    have "char_of (nat ((int b + n) mod 256)) = (char_of (b + nat n) :: char)"
      using assms(1) by (simp add: nat_mod_distrib nat_add_distrib)
    with 1 show ?thesis by (intro byte) (simp_all add: cbor_head_def write_number_1)
  next
    case 2
    then show ?thesis by (intro tagged [of 0]) (simp_all add: cbor_head_def to_char_type_def)
  next
    case 3
    then show ?thesis by (intro tagged [of 1]) (simp_all add: cbor_head_def to_char_type_def, simp add: add.commute)
  next
    case 4
    then show ?thesis by (intro tagged [of 2]) (simp_all add: cbor_head_def to_char_type_def, simp add: add.commute)
  next
    case 5
    then show ?thesis using assms(2) by (intro tagged [of 3]) (simp_all add: cbor_head_def to_char_type_def, simp add: add.commute)
  qed
qed

lemma enters_cbor_head:
  assumes "0 \<le> n" and "n < 2 ^ 64" and "b + 0x1B < 256"
    and "n \<le> 0x17 \<Longrightarrow> cbor_value parse_cbor_internal (b + nat n) = m"
    and "\<And>k. k \<le> 3 \<Longrightarrow> cbor_value parse_cbor_internal (b + 0x18 + k) = optC (get_number (2 ^ k) False cbor_fmt) (f k)"
    and "\<And>k. k \<le> 3 \<Longrightarrow> f k (nat n) = m"
  shows "enters (parse_cbor_internal True) (cbor_head b n) m"
  using assms(1,2)
proof (cases rule: cbor_head_cases [where b = b])
  case byte
  then show ?thesis using assms(1,3,4) by (auto intro!: cbor_reader.enters_byte)
next
  case (tagged k)
  have "nat (n mod 256 ^ (2 ^ k)) = nat n" using tagged(2) assms(1) by simp
  then show ?thesis unfolding tagged(3) using assms(3,5,6) tagged(1)
    by (intro cbor_reader.enters_tagged [where f = "f k"]) simp_all
qed

lemma k_cases: "k \<le> (3 :: nat) \<Longrightarrow> k = 0 \<or> k = 1 \<or> k = 2 \<or> k = 3"
  by auto

lemma read_cbor_unsigned:
  assumes "is_uint64 n"
  shows "reads (parse_cbor_internal True) (cbor_unsigned n) (Number_unsigned n)"
  unfolding cbor_unsigned_def
  by (rule enters_reads, rule enters_cbor_head [where f = "\<lambda>_ n. saxC (sax_value (Number_unsigned (int n)))"])
    (use assms in \<open>auto simp: is_uint64_def cbor_value_def cbor_integers_def\<close>)

lemma read_cbor_integer:
  assumes "is_int64 n"
  shows "reads (parse_cbor_internal True) (cbor_integer n) (reparse (Number_integer n))"
proof (cases "0 \<le> n")
  case True
  then show ?thesis using assms read_cbor_unsigned [of n]
    by (simp add: cbor_integer_def cbor_unsigned_def is_int64_def is_uint64_def)
next
  case False
  have pos: "0 \<le> - 1 - n" "- 1 - n < 2 ^ 63" using False assms by (simp_all add: is_int64_def)
  have "signed_of 8 (nat (- 1 - n)) = - 1 - n" using pos by (simp add: signed_of_def nat_less_iff)
  then have "enters (parse_cbor_internal True) (cbor_head 0x20 (- 1 - n)) (saxC (sax_value (Number_integer n)))"
    using pos
    by (intro enters_cbor_head [where f = "\<lambda>k n. saxC (sax_value (Number_integer (- 1 - (if k = 3 then signed_of 8 n else int n))))"])
      (auto simp: cbor_value_def cbor_integers_def dest!: k_cases)
  then show ?thesis using False enters_reads by (simp add: cbor_integer_def Let_def)
qed

lemma enters_cbor_array:
  assumes "N < npos"
  shows "enters (parse_cbor_internal True) (cbor_array_size N)
    (andC (saxC (start_sized_array N)) (andC (repeatC N (parse_cbor_internal True)) (saxC sax_end)))"
proof -
  have "(0x80 + j) AND 0x1F = j" if "j \<le> 0x17" for j :: nat
  proof -
    have "\<forall>j \<in> {..< 0x18}. (0x80 + j) AND 0x1F = (j :: nat)" by code_simp
    then show ?thesis using that by simp
  qed
  then have "enters (parse_cbor_internal True) (cbor_array_size N) (get_cbor_array parse_cbor_internal N)"
    unfolding cbor_array_size_def using assms
    by (intro enters_cbor_head [where f = "\<lambda>k. get_cbor_array parse_cbor_internal"])
      (auto simp: npos_def cbor_value_def)
  then show ?thesis using assms by (simp add: get_cbor_array_def)
qed

lemma enters_cbor_object:
  assumes "N < npos"
  shows "enters (parse_cbor_internal True) (cbor_object_size N)
    (andC (saxC (start_sized_object N))
      (andC (repeatC N (andC (optC (seqC bin_get get_cbor_string) (\<lambda>key. saxC (sax_key key))) (parse_cbor_internal True)))
        (saxC sax_end)))"
proof -
  have "(0xA0 + j) AND 0x1F = j" if "j \<le> 0x17" for j :: nat
  proof -
    have "\<forall>j \<in> {..< 0x18}. (0xA0 + j) AND 0x1F = (j :: nat)" by code_simp
    then show ?thesis using that by simp
  qed
  then have "enters (parse_cbor_internal True) (cbor_object_size N) (get_cbor_object parse_cbor_internal N)"
    unfolding cbor_object_size_def using assms
    by (intro enters_cbor_head [where f = "\<lambda>k. get_cbor_object parse_cbor_internal"])
      (auto simp: npos_def cbor_value_def)
  then show ?thesis using assms by (simp add: get_cbor_object_def)
qed

text \<open>Strings, as values and as keys.\<close>

lemma cbor_string_run:
  assumes "bin_current s = Some c"
  shows "0x60 \<le> (of_char c :: nat) \<Longrightarrow> of_char c \<le> (0x77 :: nat) \<Longrightarrow>
      get_cbor_string s = get_chars cbor_fmt (int (of_char c AND 0x1F)) [] s"
    and "0x78 \<le> (of_char c :: nat) \<Longrightarrow> of_char c \<le> (0x7B :: nat) \<Longrightarrow>
      get_cbor_string s = counted_string (2 ^ (of_char c - 0x78)) cbor_fmt s"
  by (subst get_cbor_string_unfold,
      simp add: cbor_string_body_def bindC_def unexpect_eof_def current_byte_def assms)+

lemma cbor_key:
  assumes "length str < 2 ^ 64"
  shows "reads_key (seqC bin_get get_cbor_string) (cbor_string str) str"
  unfolding reads_key_def
proof (intro allI impI)
  fix s :: breader and rest
  assume input: "bin_input s = cbor_string str @ rest"
  have len: "0 \<le> int (length str)" "int (length str) < 2 ^ 64" using assms by simp_all
  from len show "\<exists>s'. seqC bin_get get_cbor_string s = (Inr (Some str), s') \<and> moved s rest s'"
  proof (cases rule: cbor_head_cases [where b = "0x60"])
    case byte
    then have j: "length str \<le> 0x17" by simp
    have "\<forall>j \<in> {..< 0x18}. (0x60 + j) AND 0x1F = (j :: nat)" by code_simp
    then have andj: "(0x60 + length str) AND 0x1F = length str" using j by simp
    have "bin_input s = char_of (0x60 + length str) # str @ rest"
      using input byte(2) by (simp add: cbor_string_def)
    note get = bin_get_Cons [OF this]
    let ?s = "s\<lparr>bin_input := str @ rest, bin_current := Some (char_of (0x60 + length str)), bin_chars_read := Suc (bin_chars_read s)\<rparr>"
    have "get_cbor_string ?s = get_chars cbor_fmt (int (length str)) [] ?s"
      using cbor_string_run(1) [of ?s "char_of (0x60 + length str)"] j andj by simp
    moreover obtain s' where "get_chars cbor_fmt (int (length str)) [] ?s = (Inr (Some ([] @ str)), s')" "moved ?s rest s'"
      using get_chars_run [of ?s str rest "int (length str)" cbor_fmt "[]"] by auto
    ultimately show ?thesis using get moved_trans [OF moved_get] by (auto simp: seqC_def bindC_def)
  next
    case (tagged k)
    have "bin_input s = char_of (0x78 + k) # write_number (2 ^ k) False (int (length str)) @ str @ rest"
      using input tagged(3) by (simp add: cbor_string_def add.commute)
    note get = bin_get_Cons [OF this]
    let ?s = "s\<lparr>bin_input := write_number (2 ^ k) False (int (length str)) @ str @ rest,
      bin_current := Some (char_of (0x78 + k)), bin_chars_read := Suc (bin_chars_read s)\<rparr>"
    have "get_cbor_string ?s = counted_string (2 ^ k) cbor_fmt ?s"
      using cbor_string_run(2) [of ?s "char_of (0x78 + k)"] tagged(1) by simp
    moreover have "length str < 256 ^ (2 ^ k)"
      using tagged(2) by (metis of_nat_less_iff of_nat_numeral of_nat_power)
    then obtain s' where "counted_string (2 ^ k) cbor_fmt ?s = (Inr (Some str), s')" "moved ?s rest s'"
      using counted_string_run [of ?s "2 ^ k" str rest cbor_fmt] by auto
    ultimately show ?thesis using get moved_trans [OF moved_get] by (auto simp: seqC_def bindC_def)
  qed
qed

lemma read_cbor_string:
  assumes "length str < 2 ^ 64"
  shows "reads (parse_cbor_internal True) (cbor_string str) (String str)"
proof -
  have len: "0 \<le> int (length str)" "int (length str) < 2 ^ 64" using assms by simp_all
  from len have "\<exists>c out. cbor_string str = c # out \<and> 0x60 \<le> (of_char c :: nat) \<and> of_char c \<le> (0x7B :: nat)"
    by (cases rule: cbor_head_cases [where b = "0x60"]) (auto simp: cbor_string_def)
  then obtain c out where c: "cbor_string str = c # out" "0x60 \<le> (of_char c :: nat)" "of_char c \<le> (0x7B :: nat)"
    by blast
  then have "cbor_value parse_cbor_internal (of_char c) = optC get_cbor_string (\<lambda>s. saxC (sax_value (String s)))"
    by (simp add: cbor_value_def)
  then show ?thesis by (rule cbor_reader.read_string [OF c(1) _ cbor_key [OF assms]])
qed

lemma cbor_scalar:
  assumes "is_scalar v" and "json_ok v" and "sized (json_max_size object_t) v"
  shows "reads (parse_cbor_internal True) (write_cbor v) (reparse v)"
proof (cases v)
  case (Number_float d)
  have "enters (parse_cbor_internal True) (to_char_type 0xFB # write_number 8 False (int (unat d))) (saxC (sax_value (Number_float d)))"
    by (rule cbor_reader.enters_double) (simp add: cbor_value_def cbor_simple_def to_char_type_def)
  then show ?thesis using Number_float enters_reads by simp
next
  case (String s)
  then show ?thesis using assms(3) read_cbor_string [of s] by (simp add: json_max_size_def)
qed (use assms in \<open>auto simp: is_scalar_def is_object_def is_array_def read_cbor_unsigned
      read_cbor_integer cbor_value_def cbor_simple_def to_char_type_def simp del: reparse.simps(3)
      intro!: enters_reads cbor_reader.enters_byte\<close>)

lemma write_cbor_elems: "write_cbor_elems a = concat (map write_cbor a)"
  by (induction a) simp_all

lemma write_cbor_members:
  "write_cbor_members m = concat (map (\<lambda>(k, v). cbor_string k @ write_cbor v) m)"
  by (induction m) auto

interpretation cbor: counted_format "parse_cbor_internal True" "cbor_value parse_cbor_internal" cbor_fmt
  "seqC bin_get get_cbor_string" write_cbor cbor_string cbor_array_size cbor_object_size "json_max_size object_t"
proof (unfold_locales, goal_cases)
  case (3 v)
  then show ?case by (rule cbor_scalar)
next
  case (4 n)
  then show ?case by (intro enters_cbor_array) (simp add: json_max_size_def npos_def)
next
  case (5 n)
  then show ?case by (intro enters_cbor_object) (simp add: json_max_size_def npos_def)
next
  case (6 k)
  then show ?case by (intro cbor_key) (simp add: json_max_size_def)
qed (simp_all add: write_cbor_elems write_cbor_members)

lemma from_to_cbor:
  "json_ok v \<Longrightarrow> sized (json_max_size object_t) v \<Longrightarrow> from_cbor only allow (to_cbor v) = Inr (reparse v)"
  unfolding from_cbor_def to_cbor_def by (rule cbor.document)

text \<open>A negative number below the range of \<open>int64_t\<close> wraps around.\<close>

lemma read_cbor_large_negative:
  assumes "2 ^ 63 \<le> n" and "n < 2 ^ 64"
  shows "reads (parse_cbor_internal True) (to_char_type 0x3B # write_number 8 False n) (Number_integer (2 ^ 64 - 1 - n))"
proof (rule enters_reads, rule cbor_reader.enters_tagged)
  have "n mod 256 ^ 8 = n" using assms by simp
  then have "signed_of 8 (nat (n mod 256 ^ 8)) = n - 2 ^ 64"
    using assms by (simp add: signed_of_def)
  then show "saxC (sax_value (Number_integer (- 1 - signed_of 8 (nat (n mod 256 ^ 8))))) =
      saxC (sax_value (Number_integer (2 ^ 64 - 1 - n)))" by simp
qed (simp add: cbor_value_def cbor_integers_def to_char_type_def)

end
