(* ===== verification/Json_Bson.thy ===== *)
theory Json_Bson
  imports Json_Binary_Laws
begin

text \<open>
  BSON: \<open>write_bson\<close> of class \<open>binary_writer\<close> with the functions that compute the size of a document,
  \<open>parse_bson_internal\<close> and its helpers of class \<open>binary_reader\<close>, and \<open>to_bson\<close> and \<open>from_bson\<close> of
  \<open>basic_json\<close>. The document is an object; its numbers are little endian.
\<close>

section \<open>Sizes\<close>

definition calc_bson_entry_header_size :: "string \<Rightarrow> exn + nat" where
  "calc_bson_entry_header_size name =
     (let it = length (takeWhile (\<lambda>c. c \<noteq> CHR 0x00) name) in
      if it < length name
      then Inl (out_of_range_create 409
             (''BSON key cannot contain code point U+0000 (at byte '' @ show_nat it @ '')''))
      else Inr (1 + length name + 1))"

definition calc_bson_string_size :: "string \<Rightarrow> nat" where
  "calc_bson_string_size value = 4 + length value + 1"

definition calc_bson_integer_size :: "int \<Rightarrow> nat" where
  "calc_bson_integer_size value = (if - (2 ^ 31) \<le> value \<and> value \<le> 2 ^ 31 - 1 then 4 else 8)"

definition calc_bson_unsigned_size :: "int \<Rightarrow> nat" where
  "calc_bson_unsigned_size value = (if value \<le> 2 ^ 31 - 1 then 4 else 8)"

text \<open>The sums over the members of an object and over the elements of an array from index \<open>i\<close> on.\<close>

fun calc_bson_element_size :: "string \<Rightarrow> json \<Rightarrow> exn + nat"
  and bson_members_size :: "(string \<times> json) list \<Rightarrow> exn + nat"
  and bson_elems_size :: "nat \<Rightarrow> json list \<Rightarrow> exn + nat" where
  "calc_bson_element_size name (Object m) =
     bindR (calc_bson_entry_header_size name) (\<lambda>h. mapR (\<lambda>n. h + (4 + n + 1)) (bson_members_size m))"
| "calc_bson_element_size name (Array a) =
     bindR (calc_bson_entry_header_size name) (\<lambda>h. mapR (\<lambda>n. h + (4 + n + 1)) (bson_elems_size 0 a))"
| "calc_bson_element_size name (Boolean b) = mapR (\<lambda>h. h + 1) (calc_bson_entry_header_size name)"
| "calc_bson_element_size name (Number_float d) = mapR (\<lambda>h. h + 8) (calc_bson_entry_header_size name)"
| "calc_bson_element_size name (Number_integer i) =
     mapR (\<lambda>h. h + calc_bson_integer_size i) (calc_bson_entry_header_size name)"
| "calc_bson_element_size name (Number_unsigned i) =
     mapR (\<lambda>h. h + calc_bson_unsigned_size i) (calc_bson_entry_header_size name)"
| "calc_bson_element_size name (String s) =
     mapR (\<lambda>h. h + calc_bson_string_size s) (calc_bson_entry_header_size name)"
| "calc_bson_element_size name Null = mapR (\<lambda>h. h + 0) (calc_bson_entry_header_size name)"
| "calc_bson_element_size name Discarded =
     bindR (calc_bson_entry_header_size name) (\<lambda>_. Inl (Assertion_failed ''false''))"
| "bson_members_size [] = Inr 0"
| "bson_members_size ((k, v) # m) = bindR (calc_bson_element_size k v) (\<lambda>n. mapR (\<lambda>r. n + r) (bson_members_size m))"
| "bson_elems_size i [] = Inr 0"
| "bson_elems_size i (v # a) =
     bindR (calc_bson_element_size (show_nat i) v) (\<lambda>n. mapR (\<lambda>r. n + r) (bson_elems_size (Suc i) a))"

definition calc_bson_object_size :: "(string \<times> json) list \<Rightarrow> exn + nat" where
  "calc_bson_object_size m = mapR (\<lambda>n. 4 + n + 1) (bson_members_size m)"

definition calc_bson_array_size :: "json list \<Rightarrow> exn + nat" where
  "calc_bson_array_size a = mapR (\<lambda>n. 4 + n + 1) (bson_elems_size 0 a)"

section \<open>Writer\<close>

definition write_bson_entry_header :: "string \<Rightarrow> nat \<Rightarrow> string" where
  "write_bson_entry_header name element_type = to_char_type element_type # name @ [CHR 0x00]"

definition write_bson_boolean :: "string \<Rightarrow> bool \<Rightarrow> string" where
  "write_bson_boolean name b = write_bson_entry_header name 0x08 @ [if b then to_char_type 0x01 else to_char_type 0x00]"

definition write_bson_double :: "string \<Rightarrow> double \<Rightarrow> string" where
  "write_bson_double name d = write_bson_entry_header name 0x01 @ write_number 8 True (int (unat d))"

definition write_bson_string :: "string \<Rightarrow> string \<Rightarrow> string" where
  "write_bson_string name s =
     write_bson_entry_header name 0x02 @ write_number 4 True (int (length s) + 1) @ s @ [CHR 0x00]"

definition write_bson_null :: "string \<Rightarrow> string" where
  "write_bson_null name = write_bson_entry_header name 0x0A"

definition write_bson_integer :: "string \<Rightarrow> int \<Rightarrow> string" where
  "write_bson_integer name value =
     (if - (2 ^ 31) \<le> value \<and> value \<le> 2 ^ 31 - 1
      then write_bson_entry_header name 0x10 @ write_number 4 True value
      else write_bson_entry_header name 0x12 @ write_number 8 True value)"

definition write_bson_unsigned :: "string \<Rightarrow> int \<Rightarrow> exn + string" where
  "write_bson_unsigned name value =
     (if value \<le> 2 ^ 31 - 1 then Inr (write_bson_entry_header name 0x10 @ write_number 4 True value)
      else if value \<le> 2 ^ 63 - 1 then Inr (write_bson_entry_header name 0x12 @ write_number 8 True value)
      else Inl (out_of_range_create 407
             (''integer number '' @ show_int value @ '' cannot be represented by BSON as it does not fit int64'')))"

text \<open>
  An exception discards the output. \<open>write_bson_object\<close> and \<open>write_bson_array\<close> write the size, the entries
  and a zero byte.
\<close>

definition bson_document :: "exn + nat \<Rightarrow> exn + string \<Rightarrow> exn + string" where
  "bson_document doc_size entries =
     bindR doc_size (\<lambda>n. mapR (\<lambda>out. write_number 4 True (int n) @ out @ [to_char_type 0x00]) entries)"

fun write_bson_element :: "string \<Rightarrow> json \<Rightarrow> exn + string"
  and bson_members :: "(string \<times> json) list \<Rightarrow> exn + string"
  and bson_elems :: "nat \<Rightarrow> json list \<Rightarrow> exn + string" where
  "write_bson_element name (Object m) =
     mapR (\<lambda>out. write_bson_entry_header name 0x03 @ out) (bson_document (calc_bson_object_size m) (bson_members m))"
| "write_bson_element name (Array a) =
     mapR (\<lambda>out. write_bson_entry_header name 0x04 @ out) (bson_document (calc_bson_array_size a) (bson_elems 0 a))"
| "write_bson_element name (Boolean b) = Inr (write_bson_boolean name b)"
| "write_bson_element name (Number_float d) = Inr (write_bson_double name d)"
| "write_bson_element name (Number_integer i) = Inr (write_bson_integer name i)"
| "write_bson_element name (Number_unsigned i) = write_bson_unsigned name i"
| "write_bson_element name (String s) = Inr (write_bson_string name s)"
| "write_bson_element name Null = Inr (write_bson_null name)"
| "write_bson_element name Discarded = Inl (Assertion_failed ''false'')"
| "bson_members [] = Inr []"
| "bson_members ((k, v) # m) = bindR (write_bson_element k v) (\<lambda>out. mapR (\<lambda>r. out @ r) (bson_members m))"
| "bson_elems i [] = Inr []"
| "bson_elems i (v # a) =
     bindR (write_bson_element (show_nat i) v) (\<lambda>out. mapR (\<lambda>r. out @ r) (bson_elems (Suc i) a))"

definition write_bson_object :: "(string \<times> json) list \<Rightarrow> exn + string" where
  "write_bson_object m = bson_document (calc_bson_object_size m) (bson_members m)"

definition to_bson :: "json \<Rightarrow> exn + string" where
  "to_bson j =
     (case j of
        Object m \<Rightarrow> write_bson_object m
      | _ \<Rightarrow> Inl (type_error_create 317
              (''to serialize to BSON, top-level type must be object, but is '' @ type_name j)))"

section \<open>Reader\<close>

definition get_bson_cstr :: "string \<Rightarrow> string option read" where
  "get_bson_cstr = fixC remaining (\<lambda>loop result.
     bindC bin_get (\<lambda>_. bindC (unexpect_eof bson_fmt ''cstring'') (\<lambda>ok.
       if \<not> ok then returnC None
       else bindC (getC current_byte) (\<lambda>b.
         if b = 0 then returnC (Some result) else loop (result @ [char_of b])))))"

definition get_bson_string :: "int \<Rightarrow> string option read" where
  "get_bson_string len =
     (if len < 1
      then seqC (bin_parse_error (\<lambda>s. parse_error_at 112 (bin_chars_read s)
                  (bin_exception_message bson_fmt (''string length must be at least 1, is '' @ show_int len) ''string'')))
             (returnC None)
      else bindO (get_chars bson_fmt (len - 1) []) (\<lambda>s.
             bindC bin_get (\<lambda>c. returnC (if c \<noteq> None then Some s else None))))"

text \<open>The argument \<open>elements\<close> is \<open>parse_bson_element_list\<close>, a function of \<open>is_array\<close>.\<close>

definition bson_object :: "(bool \<Rightarrow> bool read) \<Rightarrow> bool read" where
  "bson_object elements =
     seqC (get_number 4 True bson_fmt) (andC (saxC start_object) (andC (elements False) (saxC sax_end)))"

definition bson_array :: "(bool \<Rightarrow> bool read) \<Rightarrow> bool read" where
  "bson_array elements =
     seqC (get_number 4 True bson_fmt) (andC (saxC start_array) (andC (elements True) (saxC sax_end)))"

definition parse_bson_element_internal :: "(bool \<Rightarrow> bool read) \<Rightarrow> nat \<Rightarrow> nat \<Rightarrow> bool read" where
  "parse_bson_element_internal elements element_type position =
     (if element_type = 0x01 then optC (get_number 8 True bson_fmt) (\<lambda>n. saxC (sax_value (Number_float (of_nat n))))
      else if element_type = 0x02 then
        optC (get_number 4 True bson_fmt) (\<lambda>n. optC (get_bson_string (signed_of 4 n)) (\<lambda>s. saxC (sax_value (String s))))
      else if element_type = 0x03 then bson_object elements
      else if element_type = 0x04 then bson_array elements
      else if element_type = 0x08 then bindC bin_get (\<lambda>c. saxC (sax_value (Boolean (c \<noteq> Some (CHR 0x00)))))
      else if element_type = 0x0A then saxC (sax_value Null)
      else if element_type = 0x10 then
        optC (get_number 4 True bson_fmt) (\<lambda>n. saxC (sax_value (Number_integer (signed_of 4 n))))
      else if element_type = 0x12 then
        optC (get_number 8 True bson_fmt) (\<lambda>n. saxC (sax_value (Number_integer (signed_of 8 n))))
      else bin_parse_error (\<lambda>_. parse_error_at 114 position (''Unsupported BSON record type 0x'' @ hex2_upper element_type)))"

text \<open>One iteration of the loop of \<open>parse_bson_element_list\<close>; the last call is the next iteration.\<close>

definition bson_element_body :: "(bool \<Rightarrow> bool read) \<Rightarrow> bool \<Rightarrow> bool read" where
  "bson_element_body elements arr =
     bindC bin_get (\<lambda>c.
       if c = Some (CHR 0x00) then returnC True
       else andC (unexpect_eof bson_fmt ''element list'') (bindC (getC bin_chars_read) (\<lambda>position.
         optC (get_bson_cstr []) (\<lambda>key.
           andC (if arr then returnC True else saxC (sax_key key))
             (andC (parse_bson_element_internal elements (case c of Some c \<Rightarrow> of_char c | None \<Rightarrow> 0) position)
               (elements arr))))))"

definition parse_bson_element_list :: "bool \<Rightarrow> bool read" where
  "parse_bson_element_list = fixC remaining bson_element_body"

definition parse_bson_internal :: "bool read" where
  "parse_bson_internal = bson_object parse_bson_element_list"

definition from_bson :: "bool \<Rightarrow> bool \<Rightarrow> string \<Rightarrow> exn + json" where
  "from_bson only allow i = from_binary (bin_sax_parse bson_fmt parse_bson_internal bin_get only) allow i"

section \<open>The recursion ends\<close>

lemma guarded_bson_cstr:
  "guarded remaining (\<lambda>loop result.
     bindC bin_get (\<lambda>_. bindC (unexpect_eof bson_fmt ''cstring'') (\<lambda>ok.
       if \<not> ok then returnC None
       else bindC (getC current_byte) (\<lambda>b.
         if b = 0 then returnC (Some result) else loop (result @ [char_of b])))))"
  unfolding guarded_def same_remaining
proof (intro allI impI)
  fix n r and f f' :: "string \<Rightarrow> string option read"
  assume self: "\<forall>x. same n (f x) (f' x)"
  let ?k = "\<lambda>f ok. if \<not> ok then returnC None
       else bindC (getC current_byte) (\<lambda>b. if b = 0 then returnC (Some r) else f (r @ [char_of b]))"
  show "same (Suc n) (bindC bin_get (\<lambda>_. bindC (unexpect_eof bson_fmt ''cstring'') (?k f)))
      (bindC bin_get (\<lambda>_. bindC (unexpect_eof bson_fmt ''cstring'') (?k f')))"
  proof (rule same_get_eof)
    show "same_eof (bindC (unexpect_eof bson_fmt ''cstring'') (?k f)) (bindC (unexpect_eof bson_fmt ''cstring'') (?k f'))"
      by (rule same_eof_stop)
    show "same (Suc n - 1) (bindC (unexpect_eof bson_fmt ''cstring'') (?k f)) (bindC (unexpect_eof bson_fmt ''cstring'') (?k f'))" for c
      using self by (intro same_intros) simp
  qed
qed

lemma get_bson_cstr_unfold:
  "get_bson_cstr result =
     bindC bin_get (\<lambda>_. bindC (unexpect_eof bson_fmt ''cstring'') (\<lambda>ok.
       if \<not> ok then returnC None
       else bindC (getC current_byte) (\<lambda>b.
         if b = 0 then returnC (Some result) else get_bson_cstr (result @ [char_of b]))))"
  unfolding get_bson_cstr_def by (rule fixC_unfold [OF guarded_bson_cstr])

lemma same_bson_cstr [same_intros]: "same n (get_bson_cstr r) (get_bson_cstr r)"
  unfolding get_bson_cstr_def by (rule guarded_same [OF guarded_bson_cstr])

lemma same_bson_string [same_intros]: "same n (get_bson_string len) (get_bson_string len)"
  unfolding get_bson_string_def by (intro same_intros)

lemma same_bson_containers [same_intros]:
  "same n (f False) (f' False) \<Longrightarrow> same n (bson_object f) (bson_object f')"
  "same n (f True) (f' True) \<Longrightarrow> same n (bson_array f) (bson_array f')"
  unfolding bson_object_def bson_array_def by (simp_all add: same_intros)

lemma same_bson_element:
  assumes "\<And>x. same n (f x) (f' x)"
  shows "same n (parse_bson_element_internal f ty pos) (parse_bson_element_internal f' ty pos)"
  unfolding parse_bson_element_internal_def by (simp add: same_intros assms)

lemma guarded_bson: "guarded remaining bson_element_body"
  unfolding guarded_def same_remaining
proof (intro allI impI)
  fix n arr and f f' :: "bool \<Rightarrow> bool read"
  assume "\<forall>x. same n (f x) (f' x)"
  then have self: "same n (f x) (f' x)" for x by simp
  show "same (Suc n) (bson_element_body f arr) (bson_element_body f' arr)"
    unfolding bson_element_body_def
  proof (rule same_get_eof, goal_cases)
    case 1
    show ?case by (simp add: same_eof_stop)
  next
    case (2 c)
    show ?case unfolding diff_Suc_1 by (intro same_intros same_bson_element self)
  qed
qed

lemma bson_list_unfold: "parse_bson_element_list arr = bson_element_body parse_bson_element_list arr"
  unfolding parse_bson_element_list_def by (rule fixC_unfold [OF guarded_bson])

section \<open>Reading what was written\<close>

text \<open>What a value becomes: BSON has signed integers only.\<close>

fun bson_form :: "json \<Rightarrow> json" and bson_form_members :: "(string \<times> json) list \<Rightarrow> (string \<times> json) list"
  and bson_form_elems :: "json list \<Rightarrow> json list" where
  "bson_form (Object m) = Object (bson_form_members m)"
| "bson_form (Array a) = Array (bson_form_elems a)"
| "bson_form (Number_unsigned i) = Number_integer i"
| "bson_form v = v"
| "bson_form_members [] = []"
| "bson_form_members ((k, v) # m) = (k, bson_form v) # bson_form_members m"
| "bson_form_elems [] = []"
| "bson_form_elems (v # a) = bson_form v # bson_form_elems a"

text \<open>The values that BSON can hold.\<close>

fun bson_fits :: "json \<Rightarrow> bool" and bson_members_fit :: "(string \<times> json) list \<Rightarrow> bool"
  and bson_elems_fit :: "json list \<Rightarrow> bool" where
  "bson_fits (Object m) \<longleftrightarrow> bson_members_fit m"
| "bson_fits (Array a) \<longleftrightarrow> bson_elems_fit a"
| "bson_fits (String s) \<longleftrightarrow> length s < 2 ^ 31 - 1"
| "bson_fits (Number_unsigned i) \<longleftrightarrow> i < 2 ^ 63"
| "bson_fits Discarded \<longleftrightarrow> False"
| "bson_fits _ \<longleftrightarrow> True"
| "bson_members_fit [] \<longleftrightarrow> True"
| "bson_members_fit ((k, v) # m) \<longleftrightarrow> CHR 0x00 \<notin> set k \<and> bson_fits v \<and> bson_members_fit m"
| "bson_elems_fit [] \<longleftrightarrow> True"
| "bson_elems_fit (v # a) \<longleftrightarrow> bson_fits v \<and> bson_elems_fit a"

lemma bson_form_members_map: "bson_form_members m = map (\<lambda>(k, v). (k, bson_form v)) m"
  by (induction m) auto

lemma bson_form_elems_map: "bson_form_elems a = map bson_form a"
  by (induction a) auto

lemma header_size: "CHR 0x00 \<notin> set name \<Longrightarrow> calc_bson_entry_header_size name = Inr (length name + 2)"
proof -
  assume "CHR 0x00 \<notin> set name"
  then have "takeWhile (\<lambda>c. c \<noteq> CHR 0x00) name = name" by (auto simp: takeWhile_eq_all_conv)
  then have "length (takeWhile (\<lambda>c. c \<noteq> CHR 0x00) name) = length name" by (rule arg_cong)
  then show ?thesis by (simp add: calc_bson_entry_header_size_def Let_def)
qed

lemma get_bson_cstr_run:
  "bin_input s = name @ CHR 0x00 # rest \<Longrightarrow> CHR 0x00 \<notin> set name \<Longrightarrow>
     \<exists>s'. get_bson_cstr acc s = (Inr (Some (acc @ name)), s') \<and> moved s rest s'"
proof (induction name arbitrary: s acc)
  case Nil
  then show ?case
    by (subst get_bson_cstr_unfold) (simp add: bindC_def bin_get_Cons unexpect_eof_def current_byte_def moved_get)
next
  case (Cons c name)
  let ?s = "s\<lparr>bin_input := name @ CHR 0x00 # rest, bin_current := Some c, bin_chars_read := Suc (bin_chars_read s)\<rparr>"
  obtain s' where s': "get_bson_cstr (acc @ [c]) ?s = (Inr (Some (acc @ c # name)), s')" "moved ?s rest s'"
    using Cons.IH [of ?s "acc @ [c]"] Cons.prems(2) by auto
  have "of_char c \<noteq> (0 :: nat)"
  proof
    assume "of_char c = (0 :: nat)"
    then have "c = char_of (0 :: nat)" by (metis char_of_char)
    with Cons.prems(2) show False by (simp add: char_of_def)
  qed
  then have "get_bson_cstr acc s = (Inr (Some (acc @ c # name)), s')"
    using Cons.prems(1) s'(1)
    by (subst get_bson_cstr_unfold) (simp add: bindC_def bin_get_Cons unexpect_eof_def current_byte_def)
  then show ?case using moved_trans [OF moved_get s'(2)] by auto
qed

text \<open>An entry of the list, and its end.\<close>

lemma bson_list_step:
  assumes "bin_input s = char_of t # name @ CHR 0x00 # r" and "0 < t" and "t < (256 :: nat)" and "CHR 0x00 \<notin> set name"
  shows "\<exists>s1 pos. moved s r s1 \<and> parse_bson_element_list arr s =
    andC (if arr then returnC True else saxC (sax_key name))
      (andC (parse_bson_element_internal parse_bson_element_list t pos) (parse_bson_element_list arr)) s1"
proof -
  let ?s = "s\<lparr>bin_input := name @ CHR 0x00 # r, bin_current := Some (char_of t), bin_chars_read := Suc (bin_chars_read s)\<rparr>"
  obtain s1 where s1: "get_bson_cstr [] ?s = (Inr (Some name), s1)" "moved ?s r s1"
    using get_bson_cstr_run [of ?s name r "[]"] assms(4) by auto
  have "(char_of t :: char) \<noteq> CHR 0x00"
  proof
    assume "(char_of t :: char) = CHR 0x00"
    then have "of_char (char_of t :: char) = (0 :: nat)" by simp
    with assms(2,3) show False by simp
  qed
  then have "parse_bson_element_list arr s =
    andC (if arr then returnC True else saxC (sax_key name))
      (andC (parse_bson_element_internal parse_bson_element_list t (Suc (bin_chars_read s))) (parse_bson_element_list arr)) s1"
    using assms s1(1)
    by (subst bson_list_unfold) (simp add: bson_element_body_def bindC_def bin_get_Cons unexpect_eof_def andC_True optC_Some)
  then show ?thesis using moved_trans [OF moved_get s1(2)] by blast
qed

lemma bson_list_end:
  "bin_input s = CHR 0x00 # rest \<Longrightarrow> \<exists>s'. parse_bson_element_list arr s = (Inr True, s') \<and> moved s rest s'"
  by (subst bson_list_unfold) (simp add: bson_element_body_def bindC_def bin_get_Cons moved_get)

text \<open>The rest of a list of members or elements, which is built into the container on the stack.\<close>

definition list_reads :: "bool \<Rightarrow> (string \<times> json) list \<Rightarrow> string \<Rightarrow> bool" where
  "list_reads arr m out \<longleftrightarrow>
     (\<forall>s rest ptr st R. bin_input s = out @ CHR 0x00 # rest \<longrightarrow> ref_stack s = ptr # st \<longrightarrow> hole ptr R \<longrightarrow>
        (if arr
         then \<forall>pre. root s = R (Array pre) \<longrightarrow> (\<exists>s'. parse_bson_element_list True s = (Inr True, s') \<and>
                built s rest (R (Array (pre @ map snd m))) s')
         else \<forall>acc. root s = R (Object acc) \<longrightarrow> (\<exists>s'. parse_bson_element_list False s = (Inr True, s') \<and>
                built s rest (R (Object (foldl (\<lambda>acc (k, w). omap_update k w acc) acc m))) s')))"

lemma list_reads_Nil: "list_reads arr [] []"
proof -
  have "\<exists>s'. parse_bson_element_list arr s = (Inr True, s') \<and> built s rest (root s) s'"
    if "bin_input s = [] @ CHR 0x00 # rest" for s rest
    using bson_list_end [of s rest arr] that by (auto simp: moved_def built_def)
  then show ?thesis unfolding list_reads_def by fastforce
qed

lemma list_readsD:
  assumes "list_reads arr m out" and "bin_input s = out @ CHR 0x00 # rest" and "ref_stack s = ptr # st" and "hole ptr R"
  shows "arr \<Longrightarrow> root s = R (Array pre) \<Longrightarrow>
      \<exists>s'. parse_bson_element_list True s = (Inr True, s') \<and> built s rest (R (Array (pre @ map snd m))) s'"
    and "\<not> arr \<Longrightarrow> root s = R (Object acc) \<Longrightarrow>
      \<exists>s'. parse_bson_element_list False s = (Inr True, s') \<and>
        built s rest (R (Object (foldl (\<lambda>acc (k, w). omap_update k w acc) acc m))) s'"
  using assms unfolding list_reads_def by simp_all

lemma list_reads_Cons:
  assumes "0 < t" and "t < (256 :: nat)" and "CHR 0x00 \<notin> set k"
    and elt: "\<And>pos. reads (parse_bson_element_internal parse_bson_element_list t pos) body w"
    and rest: "list_reads arr m out"
  shows "list_reads arr ((k, w) # m) (char_of t # k @ CHR 0x00 # body @ out)"
proof (cases arr)
  case True
  have "\<exists>s'. parse_bson_element_list True s = (Inr True, s') \<and> built s r (R (Array (pre @ w # map snd m))) s'"
    if in_s: "bin_input s = (char_of t # k @ CHR 0x00 # body @ out) @ CHR 0x00 # r" and st: "ref_stack s = ptr # st" "hole ptr R"
      "root s = R (Array pre)" for s :: breader and r ptr st R pre
  proof -
    obtain s1 pos where s1: "moved s (body @ out @ CHR 0x00 # r) s1" "parse_bson_element_list True s =
        andC (parse_bson_element_internal parse_bson_element_list t pos) (parse_bson_element_list True) s1"
      using bson_list_step [OF _ assms(1-3), of s "body @ out @ CHR 0x00 # r" True] in_s by (auto simp: andC_def)
    have slot: "slot s1 (ptr @ [Index (length pre)]) (\<lambda>x. R (Array (pre @ [x])))"
      using st s1(1) by (intro slot_array) (auto simp: moved_def)
    obtain s2 where s2: "parse_bson_element_internal parse_bson_element_list t pos s1 = (Inr True, s2)"
      "built s1 (out @ CHR 0x00 # r) (R (Array (pre @ [w]))) s2"
      using readsD [OF elt moved_input [OF s1(1)] slot] by blast
    have "ref_stack s2 = ptr # st" "bin_input s2 = out @ CHR 0x00 # r" "root s2 = R (Array (pre @ [w]))"
      using s2(2) s1(1) st(1) by (simp_all add: built_def moved_def)
    then obtain s3 where s3: "parse_bson_element_list True s2 = (Inr True, s3)"
      "built s2 r (R (Array ((pre @ [w]) @ map snd m))) s3"
      using list_readsD(1) [OF rest _ _ st(2) True] by blast
    have "parse_bson_element_list True s = (Inr True, s3)" using s1(2) s2(1) s3(1) by (simp add: andC_True)
    moreover have "built s r (R (Array (pre @ w # map snd m))) s3"
      using moved_built [OF s1(1) built_trans [OF s2(2) s3(2)]] by simp
    ultimately show ?thesis by blast
  qed
  then show ?thesis using True by (auto simp: list_reads_def)
next
  case False
  have "\<exists>s'. parse_bson_element_list False s = (Inr True, s') \<and>
      built s r (R (Object (foldl (\<lambda>acc (k, w). omap_update k w acc) (omap_update k w acc) m))) s'"
    if in_s: "bin_input s = (char_of t # k @ CHR 0x00 # body @ out) @ CHR 0x00 # r" and st: "ref_stack s = ptr # st" "hole ptr R"
      "root s = R (Object acc)" for s :: breader and r ptr st R acc
  proof -
    obtain s1 pos where s1: "moved s (body @ out @ CHR 0x00 # r) s1" "parse_bson_element_list False s =
        andC (saxC (sax_key k)) (andC (parse_bson_element_internal parse_bson_element_list t pos) (parse_bson_element_list False)) s1"
      using bson_list_step [OF _ assms(1-3), of s "body @ out @ CHR 0x00 # r" False] in_s by auto
    have s1st: "ref_stack s1 = ptr # st" "root s1 = R (Object acc)" using s1(1) st by (simp_all add: moved_def)
    obtain acc' where acc': "sax_key k s1 = Inr (s1\<lparr>root := R (Object acc'), object_element := Some (ptr @ [Key k])\<rparr>)"
      "map_of acc' k \<noteq> None" "\<And>w. omap_update k w acc' = omap_update k w acc"
      using sax_key_run [OF s1st(1) st(2) s1st(2)] by metis
    let ?s2 = "s1\<lparr>root := R (Object acc'), object_element := Some (ptr @ [Key k])\<rparr>"
    obtain x where x: "map_of acc' k = Some x" using acc'(2) by blast
    have "slot ?s2 (ptr @ [Key k]) (\<lambda>w. R (Object (omap_update k w acc')))"
      by (rule slot_object [OF _ st(2) _ _ x, where st = st]) (simp_all add: s1st)
    then have slot: "slot ?s2 (ptr @ [Key k]) (\<lambda>w. R (Object (omap_update k w acc)))" unfolding acc'(3) .
    have "bin_input ?s2 = body @ out @ CHR 0x00 # r" using moved_input [OF s1(1)] by simp
    then obtain s3 where s3: "parse_bson_element_internal parse_bson_element_list t pos ?s2 = (Inr True, s3)"
      "built ?s2 (out @ CHR 0x00 # r) (R (Object (omap_update k w acc))) s3"
      using readsD [OF elt _ slot] by blast
    have "ref_stack s3 = ptr # st" "bin_input s3 = out @ CHR 0x00 # r" "root s3 = R (Object (omap_update k w acc))"
      using s3(2) s1st by (simp_all add: built_def)
    then obtain s4 where s4: "parse_bson_element_list False s3 = (Inr True, s4)"
      "built s3 r (R (Object (foldl (\<lambda>acc (k, w). omap_update k w acc) (omap_update k w acc) m))) s4"
      using list_readsD(2) [OF rest _ _ st(2) False] by blast
    have "parse_bson_element_list False s = (Inr True, s4)"
      using s1(2) acc'(1) s3(1) s4(1) by (simp add: andC_True andC_def bindC_def saxC_def)
    moreover have "built s r (R (Object (foldl (\<lambda>acc (k, w). omap_update k w acc) (omap_update k w acc) m))) s4"
      using s1(1) s3(2) s4(2) by (auto simp: built_def moved_def)
    ultimately show ?thesis by blast
  qed
  then show ?thesis using False by (auto simp: list_reads_def)
qed

lemma after_size:
  assumes "bin_input s = write_number 4 True n @ rest"
  shows "\<exists>s1. moved s rest s1 \<and> seqC (get_number 4 True bson_fmt) m s = m s1"
  using get_number_run [OF assms, of bson_fmt] by (auto simp: seqC_def bindC_def)

lemma reads_bson_object:
  assumes "list_reads False m out"
  shows "reads (bson_object parse_bson_element_list) (write_number 4 True n @ out @ [CHR 0x00])
    (Object (foldl (\<lambda>acc (k, w). omap_update k w acc) [] m))"
  unfolding reads_def
proof (intro allI impI)
  fix s :: breader and ptr R rest
  assume "bin_input s = (write_number 4 True n @ out @ [CHR 0x00]) @ rest" and slot0: "slot s ptr R"
  then obtain s1 where s1: "moved s (out @ CHR 0x00 # rest) s1" "bson_object parse_bson_element_list s =
      andC (saxC start_object) (andC (parse_bson_element_list False) (saxC sax_end)) s1"
    using after_size [of s n "out @ CHR 0x00 # rest"] by (auto simp: bson_object_def)
  have "\<exists>s'. andC (saxC start_object) (andC (parse_bson_element_list False) (saxC sax_end)) s1 = (Inr True, s') \<and>
      built s rest (R (Object (foldl (\<lambda>acc (k, w). omap_update k w acc) [] m))) s'"
    by (rule object_body_read [where R = R and start = start_object, OF s1(1) slot0 refl])
      (simp add: list_readsD(2) [where R = R, OF assms])
  then show "\<exists>s'. bson_object parse_bson_element_list s = (Inr True, s') \<and>
      built s rest (R (Object (foldl (\<lambda>acc (k, w). omap_update k w acc) [] m))) s'"
    by (simp add: s1(2))
qed

lemma reads_bson_array:
  assumes "list_reads True m out"
  shows "reads (bson_array parse_bson_element_list) (write_number 4 True n @ out @ [CHR 0x00]) (Array (map snd m))"
  unfolding reads_def
proof (intro allI impI)
  fix s :: breader and ptr R rest
  assume "bin_input s = (write_number 4 True n @ out @ [CHR 0x00]) @ rest" and slot0: "slot s ptr R"
  then obtain s1 where s1: "moved s (out @ CHR 0x00 # rest) s1" "bson_array parse_bson_element_list s =
      andC (saxC start_array) (andC (parse_bson_element_list True) (saxC sax_end)) s1"
    using after_size [of s n "out @ CHR 0x00 # rest"] by (auto simp: bson_array_def)
  have "\<exists>s'. andC (saxC start_array) (andC (parse_bson_element_list True) (saxC sax_end)) s1 = (Inr True, s') \<and>
      built s rest (R (Array (map snd m))) s'"
    using list_readsD(1) [where R = R and pre = "[]", OF assms]
    by (intro array_body_read [where R = R and start = start_array, OF s1(1) slot0 refl]) simp
  then show "\<exists>s'. bson_array parse_bson_element_list s = (Inr True, s') \<and> built s rest (R (Array (map snd m))) s'"
    by (simp add: s1(2))
qed

text \<open>The scalar types.\<close>

lemma reads_bson_number:
  assumes "f (nat (n mod 256 ^ k)) = saxC (sax_value w)"
  shows "reads (optC (get_number k True bson_fmt) f) (write_number k True n) w"
proof (rule enters_reads, unfold enters_def, intro allI impI)
  fix s :: breader and rest
  assume "bin_input s = write_number k True n @ rest"
  then obtain s1 where "get_number k True bson_fmt s = (Inr (Some (nat (n mod 256 ^ k))), s1)" "moved s rest s1"
    using get_number_run [of s k True n rest bson_fmt] by blast
  then show "\<exists>s1. moved s rest s1 \<and> optC (get_number k True bson_fmt) f s = saxC (sax_value w) s1"
    using assms by (intro exI [of _ s1]) (simp add: optC_Some)
qed

lemma reads_bson_string:
  assumes "length str < 2 ^ 31 - 1"
  shows "reads (optC (get_number 4 True bson_fmt) (\<lambda>n. optC (get_bson_string (signed_of 4 n)) (\<lambda>s. saxC (sax_value (String s)))))
    (write_number 4 True (int (length str) + 1) @ str @ [CHR 0x00]) (String str)"
proof (rule enters_reads, unfold enters_def, intro allI impI)
  fix s :: breader and rest
  assume "bin_input s = (write_number 4 True (int (length str) + 1) @ str @ [CHR 0x00]) @ rest"
  then have "bin_input s = write_number 4 True (int (length str) + 1) @ str @ CHR 0x00 # rest" by simp
  moreover have "signed_of 4 (nat ((int (length str) + 1) mod 256 ^ 4)) = int (length str) + 1"
    using assms by (simp add: signed_of_def nat_less_iff)
  ultimately obtain s1 where s1: "get_number 4 True bson_fmt s = (Inr (Some (nat ((int (length str) + 1) mod 256 ^ 4))), s1)"
    "moved s (str @ CHR 0x00 # rest) s1" and len: "signed_of 4 (nat ((int (length str) + 1) mod 256 ^ 4)) = int (length str) + 1"
    using get_number_run [of s 4 True _ _ bson_fmt] by blast
  obtain s2 where s2: "get_chars bson_fmt (int (length str)) [] s1 = (Inr (Some ([] @ str)), s2)" "moved s1 (CHR 0x00 # rest) s2"
    using get_chars_run [OF moved_input [OF s1(2)] refl, of bson_fmt "[]"] by blast
  let ?s3 = "s2\<lparr>bin_input := rest, bin_current := Some (CHR 0x00), bin_chars_read := Suc (bin_chars_read s2)\<rparr>"
  have "get_bson_string (int (length str) + 1) s1 = (Inr (Some str), ?s3)"
    using s2(1) bin_get_Cons [OF moved_input [OF s2(2)]] by (simp add: get_bson_string_def bindO_Some bindC_def)
  moreover have "moved s rest ?s3" using s1(2) s2(2) by (simp add: moved_def)
  ultimately show "\<exists>s1. moved s rest s1 \<and>
      optC (get_number 4 True bson_fmt) (\<lambda>n. optC (get_bson_string (signed_of 4 n)) (\<lambda>s. saxC (sax_value (String s)))) s =
      saxC (sax_value (String str)) s1"
    using s1(1) len by (intro exI [of _ ?s3]) (simp add: optC_Some)
qed

lemma reads_bson_boolean:
  "reads (bindC bin_get (\<lambda>c. saxC (sax_value (Boolean (c \<noteq> Some (CHR 0x00))))))
    [if b then to_char_type 0x01 else to_char_type 0x00] (Boolean b)"
proof (rule enters_reads, unfold enters_def, intro allI impI)
  fix s :: breader and rest
  assume "bin_input s = [if b then to_char_type 0x01 else to_char_type 0x00] @ rest"
  then have "bin_input s = (if b then to_char_type 0x01 else to_char_type 0x00) # rest" by simp
  note get = bin_get_Cons [OF this]
  have "to_char_type 1 \<noteq> CHR 0x00" "to_char_type 0 = CHR 0x00" by code_simp+
  then show "\<exists>s1. moved s rest s1 \<and>
      bindC bin_get (\<lambda>c. saxC (sax_value (Boolean (c \<noteq> Some (CHR 0x00))))) s = saxC (sax_value (Boolean b)) s1"
    using get
    by (intro exI [of _ "s\<lparr>bin_input := rest, bin_current := Some (if b then to_char_type 0x01 else to_char_type 0x00),
        bin_chars_read := Suc (bin_chars_read s)\<rparr>"] conjI moved_get) (simp add: bindC_def)
qed

lemma reads_nothing: "reads (saxC (sax_value v)) [] v"
  by (rule enters_reads) (auto simp: enters_def moved_def)

text \<open>
  An entry as it is written: its type \<open>t\<close>, its name and its body; the size is computed as written, and
  the body is read back.
\<close>

definition bson_entry :: "string \<Rightarrow> json \<Rightarrow> nat \<Rightarrow> string \<Rightarrow> bool" where
  "bson_entry name v t body \<longleftrightarrow>
     write_bson_element name v = Inr (char_of t # name @ CHR 0x00 # body) \<and> 0 < t \<and> t < 256 \<and>
     (CHR 0x00 \<notin> set name \<longrightarrow> calc_bson_element_size name v = Inr (length name + 2 + length body)) \<and>
     (\<forall>pos. reads (parse_bson_element_internal parse_bson_element_list t pos) body (bson_form v))"

lemmas bson_eval = bson_entry_def parse_bson_element_internal_def write_bson_entry_header_def to_char_type_def header_size

lemma scalar_entries:
  "bson_entry name Null 0x0A []"
  "bson_entry name (Boolean b) 0x08 [if b then to_char_type 0x01 else to_char_type 0x00]"
  "bson_entry name (Number_float d) 0x01 (write_number 8 True (int (unat d)))"
  "length s < 2 ^ 31 - 1 \<Longrightarrow>
     bson_entry name (String s) 0x02 (write_number 4 True (int (length s) + 1) @ s @ [CHR 0x00])"
proof -
  have "nat (int (unat d) mod 256 ^ 8) = unat d" using unat_double_less [of d] by (simp add: nat_mod_distrib)
  then show "bson_entry name (Number_float d) 0x01 (write_number 8 True (int (unat d)))"
    by (auto simp: bson_eval write_bson_double_def intro!: reads_bson_number)
  show "bson_entry name (Boolean b) 0x08 [if b then to_char_type 0x01 else to_char_type 0x00]"
    using reads_bson_boolean [of b] by (simp add: bson_eval write_bson_boolean_def)
  show "length s < 2 ^ 31 - 1 \<Longrightarrow>
     bson_entry name (String s) 0x02 (write_number 4 True (int (length s) + 1) @ s @ [CHR 0x00])"
    using reads_bson_string [of s] by (simp add: bson_eval write_bson_string_def calc_bson_string_size_def)
qed (simp add: bson_eval write_bson_null_def reads_nothing)

lemma signed_of_id:
  assumes "- (2 ^ (8 * k - 1)) \<le> n" and "n < 2 ^ (8 * k - 1)" and "0 < k"
  shows "signed_of k (nat (n mod 256 ^ k)) = n"
proof (cases "n < 0")
  case True
  then show ?thesis using signed_of_mod assms by blast
next
  case False
  have "(2 :: int) ^ (8 * k - 1) \<le> 2 ^ (8 * k)" by (rule power_increasing) simp_all
  also have "\<dots> = 256 ^ k" by (simp add: power_mult)
  finally have "n mod 256 ^ k = n" using False assms(2) by simp
  moreover have "nat n < 2 ^ (8 * k - 1)" using False assms(2) by (simp add: nat_less_iff)
  ultimately show ?thesis using False by (simp add: signed_of_def)
qed

lemma integer_entry:
  assumes "is_int64 i"
  shows "\<exists>t body. bson_entry name (Number_integer i) t body"
proof (cases "- (2 ^ 31) \<le> i \<and> i \<le> 2 ^ 31 - 1")
  case True
  then have "signed_of 4 (nat (i mod 256 ^ 4)) = i" by (intro signed_of_id) auto
  then have "bson_entry name (Number_integer i) 0x10 (write_number 4 True i)"
    using True by (auto simp: bson_eval write_bson_integer_def calc_bson_integer_size_def intro!: reads_bson_number)
  then show ?thesis by blast
next
  case False
  have "signed_of 8 (nat (i mod 256 ^ 8)) = i" using assms by (intro signed_of_id) (auto simp: is_int64_def)
  then have "bson_entry name (Number_integer i) 0x12 (write_number 8 True i)"
    using False by (auto simp: bson_eval write_bson_integer_def calc_bson_integer_size_def intro!: reads_bson_number)
  then show ?thesis by blast
qed

lemma unsigned_entry:
  assumes "is_uint64 i" and "i < 2 ^ 63"
  shows "\<exists>t body. bson_entry name (Number_unsigned i) t body"
proof -
  have "is_int64 i" using assms by (simp add: is_uint64_def is_int64_def)
  then obtain t body where e: "bson_entry name (Number_integer i) t body" using integer_entry by blast
  have "write_bson_element name (Number_unsigned i) = write_bson_element name (Number_integer i)"
    "calc_bson_element_size name (Number_unsigned i) = calc_bson_element_size name (Number_integer i)"
    using assms by (auto simp: is_uint64_def write_bson_unsigned_def write_bson_integer_def calc_bson_unsigned_size_def
        calc_bson_integer_size_def)
  with e have "bson_entry name (Number_unsigned i) t body"
    by (simp add: bson_entry_def del: write_bson_element.simps calc_bson_element_size.simps)
  then show ?thesis by blast
qed

lemma no_nul_index: "CHR 0x00 \<notin> set (show_nat i)"
  using show_nat_digits [of i] by (auto simp: is_digit_def)

lemma omap_ok_form: "omap_ok m \<Longrightarrow> omap_ok (bson_form_members m)"
  by (simp add: bson_form_members_map omap_ok_def sorted_wrt_map case_prod_beta)

text \<open>The members of an object and the elements of an array from an index on.\<close>

definition members_entry :: "(string \<times> json) list \<Rightarrow> string \<Rightarrow> bool" where
  "members_entry m out \<longleftrightarrow>
     bson_members m = Inr out \<and> bson_members_size m = Inr (length out) \<and> list_reads False (bson_form_members m) out"

definition elems_entry :: "nat \<Rightarrow> json list \<Rightarrow> string \<Rightarrow> bool" where
  "elems_entry i a out \<longleftrightarrow>
     bson_elems i a = Inr out \<and> bson_elems_size i a = Inr (length out) \<and>
     (\<exists>m. list_reads True m out \<and> map snd m = bson_form_elems a)"

lemma object_entry:
  assumes "members_entry m out" and "omap_ok m"
  shows "bson_entry name (Object m) 0x03 (write_number 4 True (int (4 + length out + 1)) @ out @ [CHR 0x00])"
proof -
  have "foldl (\<lambda>acc (k, w). omap_update k w acc) [] (bson_form_members m) = bson_form_members m"
    using foldl_omap [of "[]"] omap_ok_form [OF assms(2)] by simp
  then have "reads (bson_object parse_bson_element_list) (write_number 4 True n @ out @ [CHR 0x00]) (bson_form (Object m))" for n
    using reads_bson_object [of "bson_form_members m" out n] assms(1) by (simp add: members_entry_def)
  moreover have "char_of (0 :: nat) = CHR 0x00" by code_simp
  ultimately show ?thesis
    using assms(1) by (simp add: bson_eval members_entry_def bson_document_def calc_bson_object_size_def)
qed

lemma array_entry:
  assumes "elems_entry 0 a out"
  shows "bson_entry name (Array a) 0x04 (write_number 4 True (int (4 + length out + 1)) @ out @ [CHR 0x00])"
proof -
  obtain m where "list_reads True m out" "map snd m = bson_form_elems a" using assms by (auto simp: elems_entry_def)
  then have "reads (bson_array parse_bson_element_list) (write_number 4 True n @ out @ [CHR 0x00]) (bson_form (Array a))" for n
    using reads_bson_array [of m out n] by simp
  moreover have "char_of (0 :: nat) = CHR 0x00" by code_simp
  ultimately show ?thesis
    using assms by (simp add: bson_eval elems_entry_def bson_document_def calc_bson_array_size_def)
qed

lemma empty_entries: "members_entry [] []" "elems_entry i [] []"
  using list_reads_Nil by (auto simp: members_entry_def elems_entry_def)

lemma bson_written:
  shows "json_ok v \<Longrightarrow> bson_fits v \<Longrightarrow> \<exists>t body. bson_entry name v t body"
    and "members_ok m \<Longrightarrow> bson_members_fit m \<Longrightarrow> \<exists>out. members_entry m out"
    and "elems_ok a \<Longrightarrow> bson_elems_fit a \<Longrightarrow> \<exists>out. elems_entry i a out"
proof (induction v and m and a arbitrary: name and and i rule: bson_fits_bson_members_fit_bson_elems_fit.induct)
  case (1 m)
  then show ?case using object_entry by force
next
  case (2 a)
  then show ?case using array_entry by force
next
  case (3 s)
  then have "length s < 2 ^ 31 - 1" by simp
  then show ?case using scalar_entries(4) by blast
next
  case (8 k v m)
  then obtain t body out where e: "bson_entry k v t body" and m: "members_entry m out" by fastforce
  then have "members_entry ((k, v) # m) (char_of t # k @ CHR 0x00 # body @ out)"
    using 8(4) by (auto simp: bson_entry_def members_entry_def intro!: list_reads_Cons)
  then show ?case by blast
next
  case (10 v a)
  then obtain t body out where e: "bson_entry (show_nat i) v t body" and a: "elems_entry (Suc i) a out" by fastforce
  then obtain m where "list_reads True m out" "map snd m = bson_form_elems a" by (auto simp: elems_entry_def)
  then have "list_reads True ((show_nat i, bson_form v) # m) (char_of t # show_nat i @ CHR 0x00 # body @ out)"
    "map snd ((show_nat i, bson_form v) # m) = bson_form_elems (v # a)"
    using e no_nul_index by (auto simp: bson_entry_def intro!: list_reads_Cons)
  then have "elems_entry i (v # a) (char_of t # show_nat i @ CHR 0x00 # body @ out)"
    using e a no_nul_index unfolding bson_entry_def elems_entry_def by fastforce
  then show ?case by blast
qed (auto intro: scalar_entries integer_entry unsigned_entry empty_entries)

section \<open>Documents\<close>

lemma to_bson_written:
  assumes "json_ok (Object m)" and "bson_fits (Object m)"
  shows "\<exists>out. to_bson (Object m) = Inr out \<and> calc_bson_object_size m = Inr (length out) \<and>
    from_bson only allow out = Inr (bson_form (Object m))"
proof -
  obtain out where out: "members_entry m out" using bson_written(2) assms by auto
  let ?doc = "write_number 4 True (int (4 + length out + 1)) @ out @ [CHR 0x00]"
  have zero: "char_of (0 :: nat) = CHR 0x00" by code_simp
  have doc: "to_bson (Object m) = Inr ?doc" "calc_bson_object_size m = Inr (length ?doc)"
    using out zero by (simp_all add: to_bson_def write_bson_object_def members_entry_def bson_document_def
        calc_bson_object_size_def to_char_type_def)
  have "reads parse_bson_internal ?doc (bson_form (Object m))"
    using object_entry [OF out, of "[]"] assms(1) by (auto simp: bson_entry_def parse_bson_internal_def
        parse_bson_element_internal_def dest!: spec)
  then have "from_bson only allow ?doc = Inr (bson_form (Object m))"
    unfolding from_bson_def by (rule reads_document)
  then show ?thesis using doc by blast
qed

text \<open>The result compares equal.\<close>

lemma json_eq_bson_form:
  shows "comparable v \<Longrightarrow> json_ok v \<Longrightarrow> bson_fits v \<Longrightarrow> json_eq v (bson_form v)"
    and "members_comparable m \<Longrightarrow> members_ok m \<Longrightarrow> bson_members_fit m \<Longrightarrow> members_eq m (bson_form_members m)"
    and "elems_comparable a \<Longrightarrow> elems_ok a \<Longrightarrow> bson_elems_fit a \<Longrightarrow> elems_eq a (bson_form_elems a)"
  by (induction v and m and a rule: comparable_members_comparable_elems_comparable.induct)
    (auto simp: double_eq_refl to_int64_id is_int64_def is_uint64_def)

end
