(* ===== verification/Json_Ubjson.thy ===== *)
theory Json_Ubjson
  imports Json_Binary_Laws
begin

text \<open>
  UBJSON: \<open>write_ubjson\<close> of class \<open>binary_writer\<close>, \<open>parse_ubjson_internal\<close> and its helpers of class
  \<open>binary_reader\<close>, and \<open>to_ubjson\<close> and \<open>from_ubjson\<close> of \<open>basic_json\<close>. A container is written with its
  closing bracket, with the number of its elements, or with that number and the type of all elements.
  \<open>N\<close> (no operation) may stand between values.
\<close>

section \<open>Writer\<close>

definition ubjson_no_int64 :: "int \<Rightarrow> exn" where
  "ubjson_no_int64 n = out_of_range_create 407
     (''integer number '' @ show_int n @ '' cannot be represented by UBJSON as it does not fit int64'')"

text \<open>\<open>write_number_with_ubjson_prefix\<close> for floating-point, unsigned and signed numbers.\<close>

definition ubjson_float :: "double \<Rightarrow> bool \<Rightarrow> string" where
  "ubjson_float d add_prefix = (if add_prefix then [CHR ''D''] else []) @ write_number 8 False (int (unat d))"

definition ubjson_unsigned :: "int \<Rightarrow> bool \<Rightarrow> exn + string" where
  "ubjson_unsigned n add_prefix =
     (if n \<le> 2 ^ 7 - 1 then Inr ((if add_prefix then [CHR ''i''] else []) @ write_number 1 False n)
      else if n \<le> 2 ^ 8 - 1 then Inr ((if add_prefix then [CHR ''U''] else []) @ write_number 1 False n)
      else if n \<le> 2 ^ 15 - 1 then Inr ((if add_prefix then [CHR ''I''] else []) @ write_number 2 False n)
      else if n \<le> 2 ^ 31 - 1 then Inr ((if add_prefix then [CHR ''l''] else []) @ write_number 4 False n)
      else if n \<le> 2 ^ 63 - 1 then Inr ((if add_prefix then [CHR ''L''] else []) @ write_number 8 False n)
      else Inl (ubjson_no_int64 n))"

definition ubjson_signed :: "int \<Rightarrow> bool \<Rightarrow> exn + string" where
  "ubjson_signed n add_prefix =
     (if - (2 ^ 7) \<le> n \<and> n \<le> 2 ^ 7 - 1 then Inr ((if add_prefix then [CHR ''i''] else []) @ write_number 1 False n)
      else if 0 \<le> n \<and> n \<le> 2 ^ 8 - 1 then Inr ((if add_prefix then [CHR ''U''] else []) @ write_number 1 False n)
      else if - (2 ^ 15) \<le> n \<and> n \<le> 2 ^ 15 - 1 then Inr ((if add_prefix then [CHR ''I''] else []) @ write_number 2 False n)
      else if - (2 ^ 31) \<le> n \<and> n \<le> 2 ^ 31 - 1 then Inr ((if add_prefix then [CHR ''l''] else []) @ write_number 4 False n)
      else if - (2 ^ 63) \<le> n \<and> n \<le> 2 ^ 63 - 1 then Inr ((if add_prefix then [CHR ''L''] else []) @ write_number 8 False n)
      else Inl (ubjson_no_int64 n))"

fun ubjson_prefix :: "json \<Rightarrow> char" where
  "ubjson_prefix Null = CHR ''Z''"
| "ubjson_prefix (Boolean b) = (if b then CHR ''T'' else CHR ''F'')"
| "ubjson_prefix (Number_integer n) =
     (if - (2 ^ 7) \<le> n \<and> n \<le> 2 ^ 7 - 1 then CHR ''i''
      else if 0 \<le> n \<and> n \<le> 2 ^ 8 - 1 then CHR ''U''
      else if - (2 ^ 15) \<le> n \<and> n \<le> 2 ^ 15 - 1 then CHR ''I''
      else if - (2 ^ 31) \<le> n \<and> n \<le> 2 ^ 31 - 1 then CHR ''l'' else CHR ''L'')"
| "ubjson_prefix (Number_unsigned n) =
     (if n \<le> 2 ^ 7 - 1 then CHR ''i'' else if n \<le> 2 ^ 8 - 1 then CHR ''U''
      else if n \<le> 2 ^ 15 - 1 then CHR ''I'' else if n \<le> 2 ^ 31 - 1 then CHR ''l'' else CHR ''L'')"
| "ubjson_prefix (Number_float d) = CHR ''D''"
| "ubjson_prefix (String s) = CHR ''S''"
| "ubjson_prefix (Array a) = CHR ''[''"
| "ubjson_prefix (Object m) = CHR ''{''"
| "ubjson_prefix Discarded = CHR ''N''"

text \<open>
  What arrays and objects share; \<open>vs\<close> are the values, and \<open>contents\<close> writes the elements or members, with or
  without prefixes of the values. An exception discards the output.
\<close>

definition ubjson_container ::
  "char \<Rightarrow> char \<Rightarrow> bool \<Rightarrow> bool \<Rightarrow> bool \<Rightarrow> json list \<Rightarrow> (bool \<Rightarrow> exn + string) \<Rightarrow> exn + string" where
  "ubjson_container opening closing use_count use_type add_prefix vs contents =
     (let typed = (use_type \<and> vs \<noteq> []);
          first_prefix = ubjson_prefix (hd vs);
          same_prefix = (typed \<and> list_all (\<lambda>v. ubjson_prefix v = first_prefix) vs)
      in if typed \<and> \<not> use_count then Inl (Assertion_failed ''use_count'')
         else bindR (if use_count then mapR ((#) (CHR ''#'')) (ubjson_unsigned (int (length vs)) True) else Inr [])
           (\<lambda>count. mapR (\<lambda>body.
              (if add_prefix then [opening] else []) @ (if same_prefix then [CHR ''$'', first_prefix] else []) @
              count @ body @ (if use_count then [] else [closing])) (contents (\<not> same_prefix))))"

definition ubjson_text :: "string \<Rightarrow> exn + string" where
  "ubjson_text s = mapR (\<lambda>len. len @ s) (ubjson_unsigned (int (length s)) True)"

fun write_ubjson :: "bool \<Rightarrow> bool \<Rightarrow> json \<Rightarrow> bool \<Rightarrow> exn + string"
  and ubjson_members :: "bool \<Rightarrow> bool \<Rightarrow> (string \<times> json) list \<Rightarrow> bool \<Rightarrow> exn + string"
  and ubjson_elems :: "bool \<Rightarrow> bool \<Rightarrow> json list \<Rightarrow> bool \<Rightarrow> exn + string" where
  "write_ubjson use_count use_type Null add_prefix = Inr (if add_prefix then [CHR ''Z''] else [])"
| "write_ubjson use_count use_type (Boolean b) add_prefix =
     Inr (if add_prefix then [if b then CHR ''T'' else CHR ''F''] else [])"
| "write_ubjson use_count use_type (Number_integer n) add_prefix = ubjson_signed n add_prefix"
| "write_ubjson use_count use_type (Number_unsigned n) add_prefix = ubjson_unsigned n add_prefix"
| "write_ubjson use_count use_type (Number_float d) add_prefix = Inr (ubjson_float d add_prefix)"
| "write_ubjson use_count use_type (String s) add_prefix =
     mapR (\<lambda>out. (if add_prefix then [CHR ''S''] else []) @ out) (ubjson_text s)"
| "write_ubjson use_count use_type (Array a) add_prefix =
     ubjson_container (CHR ''['') (CHR '']'') use_count use_type add_prefix a
       (\<lambda>prefix_required. ubjson_elems use_count use_type a prefix_required)"
| "write_ubjson use_count use_type (Object m) add_prefix =
     ubjson_container (CHR ''{'') (CHR ''}'') use_count use_type add_prefix (map snd m)
       (\<lambda>prefix_required. ubjson_members use_count use_type m prefix_required)"
| "write_ubjson use_count use_type Discarded add_prefix = Inr []"
| "ubjson_members use_count use_type [] prefix_required = Inr []"
| "ubjson_members use_count use_type ((k, v) # m) prefix_required =
     bindR (ubjson_text k) (\<lambda>key. bindR (write_ubjson use_count use_type v prefix_required) (\<lambda>out.
       mapR (\<lambda>r. key @ out @ r) (ubjson_members use_count use_type m prefix_required)))"
| "ubjson_elems use_count use_type [] prefix_required = Inr []"
| "ubjson_elems use_count use_type (v # a) prefix_required =
     bindR (write_ubjson use_count use_type v prefix_required) (\<lambda>out.
       mapR (\<lambda>r. out @ r) (ubjson_elems use_count use_type a prefix_required))"

definition to_ubjson :: "json \<Rightarrow> bool \<Rightarrow> bool \<Rightarrow> exn + string" where
  "to_ubjson j use_size use_type = write_ubjson use_size use_type j True"

section \<open>Reader\<close>

definition get_ignore_noop :: "char option read" where
  "get_ignore_noop = fixC remaining (\<lambda>loop x.
     bindC bin_get (\<lambda>c. if c = Some (CHR ''N'') then loop () else returnC c)) ()"

text \<open>The number of bytes and the signedness of the integer type that a byte stands for.\<close>

definition ubjson_int_type :: "char \<Rightarrow> (nat \<times> bool) option" where
  "ubjson_int_type c =
     (if c = CHR ''U'' then Some (1, False)
      else if c = CHR ''i'' then Some (1, True)
      else if c = CHR ''I'' then Some (2, True)
      else if c = CHR ''l'' then Some (4, True)
      else if c = CHR ''L'' then Some (8, True)
      else None)"

definition get_ubjson_int :: "nat \<times> bool \<Rightarrow> int option read" where
  "get_ubjson_int t =
     bindC (get_number (fst t) False ubjson_fmt) (\<lambda>r.
       returnC (map_option (\<lambda>n. if snd t then signed_of (fst t) n else int n) r))"

definition get_ubjson_string :: "bool \<Rightarrow> string option read" where
  "get_ubjson_string get_char =
     seqC (if get_char then bin_get else getC bin_current)
       (bindC (unexpect_eof ubjson_fmt ''value'') (\<lambda>ok.
          if \<not> ok then returnC None
          else bindC (getC bin_current) (\<lambda>c. case Option.bind c ubjson_int_type of
                Some t \<Rightarrow> bindO (get_ubjson_int t) (\<lambda>len. get_chars ubjson_fmt len [])
              | None \<Rightarrow> seqC (bin_fail 113 ubjson_fmt
                  ''expected length type specification (U, i, I, l, L); last byte: '' ''string'') (returnC None))))"

text \<open>The number is converted to \<open>std::size_t\<close>.\<close>

definition get_ubjson_size_value :: "nat option read" where
  "get_ubjson_size_value =
     bindC get_ignore_noop (\<lambda>c. case Option.bind c ubjson_int_type of
         Some t \<Rightarrow> bindC (get_ubjson_int t) (\<lambda>r. returnC (map_option (\<lambda>n. nat (n mod 2 ^ 64)) r))
       | None \<Rightarrow> seqC (bin_fail 113 ubjson_fmt
           (''expected length type specification (U, i, I, l, L) after '' @ squote @ ''#'' @ squote @ ''; last byte: '')
           ''size'') (returnC None))"

text \<open>The size, \<open>npos\<close> if there is none, and the type, 0 if there is none.\<close>

definition get_ubjson_size_type :: "(nat \<times> char) option read" where
  "get_ubjson_size_type =
     bindC get_ignore_noop (\<lambda>c.
       if c = Some (CHR ''$'')
       then bindC bin_get (\<lambda>t. bindC (unexpect_eof ubjson_fmt ''type'') (\<lambda>ok.
              if \<not> ok then returnC None
              else bindC get_ignore_noop (\<lambda>c.
                if c \<noteq> Some (CHR ''#'')
                then bindC (unexpect_eof ubjson_fmt ''value'') (\<lambda>ok.
                       if \<not> ok then returnC None
                       else seqC (bin_fail 112 ubjson_fmt
                              (''expected '' @ squote @ ''#'' @ squote @ '' after type information; last byte: '') ''size'')
                            (returnC None))
                else bindO get_ubjson_size_value (\<lambda>n. returnC (Some (n, the t))))))
       else if c = Some (CHR ''#'') then bindO get_ubjson_size_value (\<lambda>n. returnC (Some (n, CHR 0x00)))
       else returnC (Some (npos, CHR 0x00)))"

text \<open>\<open>while (current != closing)\<close>, with \<open>get_ignore_noop()\<close> at the end of the body.\<close>

definition ubjson_until :: "char \<Rightarrow> bool read \<Rightarrow> bool read" where
  "ubjson_until closing m = fixC pending (\<lambda>loop x.
     bindC (getC bin_current) (\<lambda>c.
       if c = Some closing then returnC True else andC m (seqC get_ignore_noop (loop ())))) ()"

text \<open>In what follows \<open>self\<close> is \<open>get_ubjson_value\<close>; its argument is the prefix.\<close>

definition ubjson_internal :: "(char option \<Rightarrow> bool read) \<Rightarrow> bool \<Rightarrow> bool read" where
  "ubjson_internal self get_char = bindC (if get_char then get_ignore_noop else getC bin_current) self"

definition get_ubjson_array :: "(char option \<Rightarrow> bool read) \<Rightarrow> bool read" where
  "get_ubjson_array self =
     optC get_ubjson_size_type (\<lambda>(size, type).
       andC (saxC (start_sized_array size))
         (andC (if size \<noteq> npos
                then if type \<noteq> CHR 0x00
                     then if type \<noteq> CHR ''N'' then repeatC size (self (Some type)) else returnC True
                     else repeatC size (ubjson_internal self True)
                else ubjson_until (CHR '']'') (ubjson_internal self False))
           (saxC sax_end)))"

definition ubjson_member :: "bool \<Rightarrow> bool read \<Rightarrow> bool read" where
  "ubjson_member get_char m = andC (optC (get_ubjson_string get_char) (\<lambda>key. saxC (sax_key key))) m"

definition get_ubjson_object :: "(char option \<Rightarrow> bool read) \<Rightarrow> bool read" where
  "get_ubjson_object self =
     optC get_ubjson_size_type (\<lambda>(size, type).
       andC (saxC (start_sized_object size))
         (andC (if size \<noteq> npos
                then repeatC size (ubjson_member True
                       (if type \<noteq> CHR 0x00 then self (Some type) else ubjson_internal self True))
                else ubjson_until (CHR ''}'') (ubjson_member False (ubjson_internal self True)))
           (saxC sax_end)))"

definition ubjson_char :: "bool read" where
  "ubjson_char =
     bindC bin_get (\<lambda>c. andC (unexpect_eof ubjson_fmt ''char'')
       (bindC (getC current_byte) (\<lambda>b.
          if b > 127
          then bin_fail 113 ubjson_fmt (''byte after '' @ squote @ ''C'' @ squote @ '' must be in range 0x00..0x7F; last byte: '') ''char''
          else saxC (sax_value (String [char_of b])))))"

definition ubjson_value :: "(char option \<Rightarrow> bool read) \<Rightarrow> char \<Rightarrow> bool read" where
  "ubjson_value self c =
     (if c = CHR ''T'' then saxC (sax_value (Boolean True))
      else if c = CHR ''F'' then saxC (sax_value (Boolean False))
      else if c = CHR ''Z'' then saxC (sax_value Null)
      else if c = CHR ''U'' then optC (get_ubjson_int (1, False)) (\<lambda>n. saxC (sax_value (Number_unsigned n)))
      else if c = CHR ''i'' then optC (get_ubjson_int (1, True)) (\<lambda>n. saxC (sax_value (Number_integer n)))
      else if c = CHR ''I'' then optC (get_ubjson_int (2, True)) (\<lambda>n. saxC (sax_value (Number_integer n)))
      else if c = CHR ''l'' then optC (get_ubjson_int (4, True)) (\<lambda>n. saxC (sax_value (Number_integer n)))
      else if c = CHR ''L'' then optC (get_ubjson_int (8, True)) (\<lambda>n. saxC (sax_value (Number_integer n)))
      else if c = CHR ''d'' then optC (get_number 4 False ubjson_fmt)
        (\<lambda>n. saxC (sax_value (Number_float (float_to_double (of_nat n)))))
      else if c = CHR ''D'' then optC (get_number 8 False ubjson_fmt) (\<lambda>n. saxC (sax_value (Number_float (of_nat n))))
      else if c = CHR ''C'' then ubjson_char
      else if c = CHR ''S'' then optC (get_ubjson_string True) (\<lambda>s. saxC (sax_value (String s)))
      else if c = CHR ''['' then get_ubjson_array self
      else if c = CHR ''{'' then get_ubjson_object self
      else bin_fail 112 ubjson_fmt ''invalid byte: '' ''value'')"

definition ubjson_body :: "(char option \<Rightarrow> bool read) \<Rightarrow> char option \<Rightarrow> bool read" where
  "ubjson_body self prefix =
     (case prefix of None \<Rightarrow> unexpect_eof ubjson_fmt ''value'' | Some c \<Rightarrow> ubjson_value self c)"

definition ubjson_remaining :: "char option \<Rightarrow> breader \<Rightarrow> nat" where
  "ubjson_remaining prefix s = (case prefix of None \<Rightarrow> 0 | Some c \<Rightarrow> Suc (length (bin_input s)))"

definition get_ubjson_value :: "char option \<Rightarrow> bool read" where
  "get_ubjson_value = fixC ubjson_remaining ubjson_body"

definition parse_ubjson_internal :: "bool read" where
  "parse_ubjson_internal = ubjson_internal get_ubjson_value True"

definition from_ubjson :: "bool \<Rightarrow> bool \<Rightarrow> string \<Rightarrow> exn + json" where
  "from_ubjson only allow i =
     from_binary (bin_sax_parse ubjson_fmt parse_ubjson_internal get_ignore_noop only) allow i"

section \<open>The recursion ends\<close>

lemma guarded_noop:
  "guarded remaining (\<lambda>loop (x :: unit). bindC bin_get (\<lambda>c. if c = Some (CHR ''N'') then loop () else returnC c))"
  unfolding guarded_def same_remaining
proof (intro allI impI)
  fix n and x :: unit and f f' :: "unit \<Rightarrow> char option read"
  assume *: "\<forall>x. same n (f x) (f' x)"
  show "same (Suc n) (bindC bin_get (\<lambda>c. if c = Some (CHR ''N'') then f () else returnC c))
      (bindC bin_get (\<lambda>c. if c = Some (CHR ''N'') then f' () else returnC c))"
    by (rule same_get) (simp_all add: same_basic *)
qed

lemma get_ignore_noop_unfold:
  "get_ignore_noop = bindC bin_get (\<lambda>c. if c = Some (CHR ''N'') then get_ignore_noop else returnC c)"
  using fixC_unfold [OF guarded_noop, of "()"] unfolding get_ignore_noop_def .

lemma noop_Nil:
  "bin_input s = [] \<Longrightarrow> get_ignore_noop s =
     (Inr None, s\<lparr>bin_input := [], bin_current := None, bin_chars_read := Suc (bin_chars_read s)\<rparr>)"
  by (subst get_ignore_noop_unfold) (simp add: bindC_def bin_get_def returnC_def)

lemma noop_Cons:
  "bin_input s = c # rest \<Longrightarrow> c \<noteq> CHR ''N'' \<Longrightarrow> get_ignore_noop s =
     (Inr (Some c), s\<lparr>bin_input := rest, bin_current := Some c, bin_chars_read := Suc (bin_chars_read s)\<rparr>)"
  by (subst get_ignore_noop_unfold) (simp add: bindC_def bin_get_Cons returnC_def)

lemma noop_cases:
  obtains (eof) s' where "get_ignore_noop s = (Inr None, s')" "bin_input s' = []" "bin_current s' = None"
    | (char) c s' where "get_ignore_noop s = (Inr (Some c), s')" "length (bin_input s') < length (bin_input s)"
proof -
  have "(\<exists>s'. get_ignore_noop s = (Inr None, s') \<and> bin_input s' = [] \<and> bin_current s' = None) \<or>
      (\<exists>c s'. get_ignore_noop s = (Inr (Some c), s') \<and> length (bin_input s') < length (bin_input s))"
  proof (induction "bin_input s" arbitrary: s)
    case Nil
    then show ?case by (simp add: noop_Nil)
  next
    case (Cons c cs)
    let ?s = "s\<lparr>bin_input := cs, bin_current := Some c, bin_chars_read := Suc (bin_chars_read s)\<rparr>"
    note input = Cons.hyps(2) [symmetric]
    show ?case
    proof (cases "c = CHR ''N''")
      case True
      then have "get_ignore_noop s = get_ignore_noop ?s"
        by (subst get_ignore_noop_unfold) (simp add: bindC_def bin_get_Cons [OF input])
      then show ?thesis using Cons.hyps(1) [of ?s] input by auto
    next
      case False
      then show ?thesis using noop_Cons [OF input] input by auto
    qed
  qed
  then show ?thesis using that by blast
qed

lemma same_noop:
  assumes "0 < n \<Longrightarrow> same_eof (g None) (g' None)" and "\<And>c. same (n - 1) (g (Some c)) (g' (Some c))"
  shows "same n (bindC get_ignore_noop g) (bindC get_ignore_noop g')"
  unfolding same_def
proof (intro allI impI)
  fix s :: breader
  assume less: "length (bin_input s) < n"
  show "bindC get_ignore_noop g' s = bindC get_ignore_noop g s \<and>
    length (bin_input (snd (bindC get_ignore_noop g s))) \<le> length (bin_input s)"
  proof (cases rule: noop_cases [of s])
    case (eof s')
    then have "g' None s' = g None s' \<and> bin_input (snd (g None s')) = []"
      using assms(1) less unfolding same_eof_def by auto
    then show ?thesis using eof by (simp add: bindC_def)
  next
    case (char c s')
    then have "length (bin_input s') < n - 1" using less by linarith
    then have "g' (Some c) s' = g (Some c) s' \<and> length (bin_input (snd (g (Some c) s'))) \<le> length (bin_input s')"
      using assms(2) unfolding same_def by blast
    then show ?thesis using char by (simp add: bindC_def)
  qed
qed

lemma same_get_ignore_noop [same_intros]: "same n get_ignore_noop get_ignore_noop"
  unfolding same_def by (metis noop_cases order_refl le_zero_eq less_imp_le list.size(3) snd_conv zero_le)

lemma same_ubjson_int [same_intros]: "same n (get_ubjson_int t) (get_ubjson_int t)"
  unfolding get_ubjson_int_def by (intro same_intros)

lemma same_ubjson_string [same_intros]: "same n (get_ubjson_string get_char) (get_ubjson_string get_char)"
  unfolding get_ubjson_string_def by (intro same_intros)

lemma same_size_value [same_intros]: "same n get_ubjson_size_value get_ubjson_size_value"
  unfolding get_ubjson_size_value_def by (intro same_intros)

lemma optC_bindC: "optC (bindC m h) g = bindC m (\<lambda>c. optC (h c) g)"
  by (auto simp: optC_def bindC_def fun_eq_iff split: prod.split sum.split)

lemma optC_return [simp]: "optC (returnC (Some x)) g = g x"
  by (simp add: optC_def bindC_def returnC_def fun_eq_iff)

text \<open>Once a size was read, a byte was read, or the input has ended and there is no size.\<close>

lemma same_size_type:
  assumes "0 < n \<Longrightarrow> same_eof (g (npos, CHR 0x00)) (g' (npos, CHR 0x00))" and "\<And>p. same (n - 1) (g p) (g' p)"
  shows "same n (optC get_ubjson_size_type g) (optC get_ubjson_size_type g')"
  unfolding get_ubjson_size_type_def optC_bindC
proof (rule same_noop, goal_cases)
  case 1
  then show ?case using assms(1) by simp
next
  case (2 c)
  show ?case by (intro same_optC same_intros assms(2) same_bin_get)
qed

lemma same_eof_throw: "same_eof (throwC e) (throwC e)"
  by (simp add: same_eof_def throwC_def)

lemma same_eof_fixC:
  assumes "\<And>f f' x. (\<And>x. same_eof (f x) (f' x)) \<Longrightarrow> same_eof (L f x) (L' f' x)"
  shows "same_eof (fixC \<mu> L x) (fixC \<mu> L' x)"
proof -
  have *: "same_eof ((L ^^ k) (\<lambda>_. throwC e) x) ((L' ^^ k) (\<lambda>_. throwC e) x)" for k e x
    by (induction k arbitrary: x) (simp_all add: assms same_eof_throw)
  show ?thesis
    unfolding same_eof_def fixC_def
  proof (intro allI impI)
    fix s :: breader
    assume "bin_input s = []" and "bin_current s = None"
    with * [of "Suc (\<mu> x s)"]
    show "(L' ^^ Suc (\<mu> x s)) (\<lambda>_. throwC (Undefined_behaviour ''stack overflow'')) x s =
        (L ^^ Suc (\<mu> x s)) (\<lambda>_. throwC (Undefined_behaviour ''stack overflow'')) x s \<and>
      bin_input (snd ((L ^^ Suc (\<mu> x s)) (\<lambda>_. throwC (Undefined_behaviour ''stack overflow'')) x s)) = []"
      unfolding same_eof_def by blast
  qed
qed

lemma same_until: "same n m m' \<Longrightarrow> same n (ubjson_until closing m) (ubjson_until closing m')"
  unfolding ubjson_until_def by (rule same_fixC) (intro same_intros; assumption)

lemma same_eof_until:
  assumes "same_eof m m'"
  shows "same_eof (ubjson_until closing m) (ubjson_until closing m')"
  unfolding ubjson_until_def
proof (rule same_eof_fixC)
  fix f f' :: "unit \<Rightarrow> bool read" and x
  assume f: "\<And>x. same_eof (f x) (f' x)"
  have "same 1 (seqC get_ignore_noop (f ())) (seqC get_ignore_noop (f' ()))"
    unfolding seqC_def by (rule same_noop) (simp_all add: f same_def)
  then have "same_eof (andC m (seqC get_ignore_noop (f ()))) (andC m' (seqC get_ignore_noop (f' ())))"
    unfolding andC_def by (intro same_eof_bindC [where n = 1] assms) (simp_all add: same_intros)
  then show "same_eof (bindC (getC bin_current) (\<lambda>c. if c = Some closing then returnC True else andC m (seqC get_ignore_noop (f ()))))
      (bindC (getC bin_current) (\<lambda>c. if c = Some closing then returnC True else andC m' (seqC get_ignore_noop (f' ()))))"
    by (simp add: same_eof_def bindC_def getC_def)
qed

lemma same_eof_sax:
  assumes "\<And>s s'. g s = Inr s' \<Longrightarrow> bin_input s' = bin_input s \<and> bin_current s' = bin_current s" and "same_eof m m'"
  shows "same_eof (andC (saxC g) m) (andC (saxC g) m')"
  using assms by (fastforce simp: same_eof_def andC_def bindC_def saxC_def split: sum.split)

lemma sax_current:
  fixes s s' :: breader
  shows "start_sized_object len s = Inr s' \<Longrightarrow> bin_input s' = bin_input s \<and> bin_current s' = bin_current s"
    and "start_sized_array len s = Inr s' \<Longrightarrow> bin_input s' = bin_input s \<and> bin_current s' = bin_current s"
proof -
  have *: "bin_current p' = bin_current p" if "handle_value v p = Inr (q, p')" for v q and p p' :: breader
    using that by (auto simp: handle_value_def split: list.splits option.splits json.splits)
  show "start_sized_object len s = Inr s' \<Longrightarrow> bin_input s' = bin_input s \<and> bin_current s' = bin_current s"
    "start_sized_array len s = Inr s' \<Longrightarrow> bin_input s' = bin_input s \<and> bin_current s' = bin_current s"
    by (auto simp: start_object_def start_array_def start_sized_object_def start_sized_array_def mapR_eq_Inr
        bindR_eq_Inr dest: handle_value_input * split: if_splits)
qed

lemma same_eof_loop:
  assumes "same_eof m m'"
  shows "same_eof (andC (saxC (start_sized_array len)) (andC (ubjson_until closing m) (saxC sax_end)))
     (andC (saxC (start_sized_array len)) (andC (ubjson_until closing m') (saxC sax_end)))"
    and "same_eof (andC (saxC (start_sized_object len)) (andC (ubjson_until closing m) (saxC sax_end)))
     (andC (saxC (start_sized_object len)) (andC (ubjson_until closing m') (saxC sax_end)))"
proof -
  have "same_eof (andC (ubjson_until closing m) (saxC sax_end)) (andC (ubjson_until closing m') (saxC sax_end))"
    unfolding andC_def by (rule same_eof_bindC [where n = 1, OF same_eof_until [OF assms]]) (simp_all add: same_intros)
  then show "same_eof (andC (saxC (start_sized_array len)) (andC (ubjson_until closing m) (saxC sax_end)))
      (andC (saxC (start_sized_array len)) (andC (ubjson_until closing m') (saxC sax_end)))"
    "same_eof (andC (saxC (start_sized_object len)) (andC (ubjson_until closing m) (saxC sax_end)))
      (andC (saxC (start_sized_object len)) (andC (ubjson_until closing m') (saxC sax_end)))"
    by (simp_all add: same_eof_sax sax_current)
qed

lemma agree_ubjson:
  assumes "agree ubjson_remaining n f f'" and "0 < n"
  shows "same k (f None) (f' None)" and "same (n - 1) (f (Some c)) (f' (Some c))"
    and "same n (ubjson_internal f True) (ubjson_internal f' True)"
    and "same (n - 1) (ubjson_internal f False) (ubjson_internal f' False)"
    and "same_eof (ubjson_internal f False) (ubjson_internal f' False)"
proof -
  have *: "\<forall>x s. ubjson_remaining x s < n \<longrightarrow> f' x s = f x s \<and> length (bin_input (snd (f x s))) \<le> length (bin_input s)"
    using assms(1) by (simp add: agree_def)
  have none: "same k (f None) (f' None)" for k using * assms(2) by (simp add: same_def ubjson_remaining_def)
  then show "same k (f None) (f' None)" .
  have some: "same (n - 1) (f (Some c)) (f' (Some c))" for c using * by (simp add: same_def ubjson_remaining_def)
  then show "same (n - 1) (f (Some c)) (f' (Some c))" .
  show "same n (ubjson_internal f True) (ubjson_internal f' True)"
    unfolding ubjson_internal_def if_True
    using some by (intro same_noop same_eofI [OF none zero_less_one])
  show "same (n - 1) (ubjson_internal f False) (ubjson_internal f' False)"
    using none some unfolding ubjson_internal_def if_False same_def
    by (simp add: bindC_def getC_def) (metis not_None_eq)
  show "same_eof (ubjson_internal f False) (ubjson_internal f' False)"
    using same_eofI [OF none zero_less_one] unfolding ubjson_internal_def same_eof_def
    by (simp add: bindC_def getC_def)
qed

lemma same_ubjson_container:
  assumes "agree ubjson_remaining n f f'"
  shows "same n (get_ubjson_array f) (get_ubjson_array f')" and "same n (get_ubjson_object f) (get_ubjson_object f')"
proof -
  have "same n (get_ubjson_array f) (get_ubjson_array f') \<and> same n (get_ubjson_object f) (get_ubjson_object f')"
  proof (cases "0 < n")
    case True
    note self = agree_ubjson [OF assms True]
    have key: "same k (ubjson_member b m) (ubjson_member b m')" if "same k m m'" for k b m m'
      unfolding ubjson_member_def by (intro same_intros that)
    have int: "same (n - 1) (ubjson_internal f True) (ubjson_internal f' True)"
      using self(3) by (rule same_mono) simp
    have "same n (get_ubjson_array f) (get_ubjson_array f')"
      unfolding get_ubjson_array_def
    proof (rule same_size_type, goal_cases)
      case 1
      then show ?case using same_eof_loop(1) [OF self(5)] by simp
    next
      case (2 p)
      show ?case by (intro same_intros self same_until int)
    qed
    moreover have "same n (get_ubjson_object f) (get_ubjson_object f')"
      unfolding get_ubjson_object_def
    proof (rule same_size_type, goal_cases)
      case 1
      have "same_eof (ubjson_member False (ubjson_internal f True)) (ubjson_member False (ubjson_internal f' True))"
        using key [OF self(3)] True by (rule same_eofI)
      then show ?case using same_eof_loop(2) by simp
    next
      case (2 p)
      show ?case by (intro same_intros self same_until int key)
    qed
    ultimately show ?thesis by blast
  qed (simp add: same_def)
  then show "same n (get_ubjson_array f) (get_ubjson_array f')" "same n (get_ubjson_object f) (get_ubjson_object f')"
    by simp_all
qed

lemma same_ubjson_char [same_intros]: "same n ubjson_char ubjson_char"
  unfolding ubjson_char_def by (intro same_intros same_bin_get)

lemma same_ubjson_value:
  assumes "agree ubjson_remaining n f f'"
  shows "same n (ubjson_value f c) (ubjson_value f' c)"
  unfolding ubjson_value_def by (intro same_intros same_ubjson_container assms)

lemma guarded_ubjson: "guarded ubjson_remaining ubjson_body"
  unfolding guarded_def
proof (intro allI impI)
  fix n and f f' :: "char option \<Rightarrow> bool read"
  assume f: "agree ubjson_remaining n f f'"
  have "ubjson_body f' x s = ubjson_body f x s \<and> length (bin_input (snd (ubjson_body f x s))) \<le> length (bin_input s)"
    if "ubjson_remaining x s < Suc n" for x s
  proof (cases x)
    case None
    have "same (Suc (length (bin_input s))) (unexpect_eof ubjson_fmt ''value'') (unexpect_eof ubjson_fmt ''value'')"
      by (intro same_intros)
    then show ?thesis using None by (simp add: ubjson_body_def same_def)
  next
    case (Some c)
    then show ?thesis using same_ubjson_value [OF f, of c] that
      by (simp add: ubjson_body_def ubjson_remaining_def same_def)
  qed
  then show "agree ubjson_remaining (Suc n) (ubjson_body f) (ubjson_body f')" by (simp add: agree_def)
qed

lemma get_ubjson_value_unfold: "get_ubjson_value x = ubjson_body get_ubjson_value x"
  unfolding get_ubjson_value_def by (rule fixC_unfold [OF guarded_ubjson])

end
