(* ===== verification/Json_Ubjson_Laws.thy ===== *)
theory Json_Ubjson_Laws
  imports Json_Ubjson
begin

text \<open>
  The UBJSON reader on what the writer produces, for the three ways to write containers.
\<close>

section \<open>The loop of a container without a size\<close>

lemma same_get_ubjson_value [same_intros]: "same n (get_ubjson_value x) (get_ubjson_value x)"
proof -
  have "length (bin_input (snd (get_ubjson_value x s))) \<le> length (bin_input s)" for s
    using fixC_agree [OF guarded_ubjson, of "Suc (ubjson_remaining x s)" undefined]
    unfolding agree_def get_ubjson_value_def by auto
  then show ?thesis by (simp add: same_def)
qed

lemma same_ubjson_internal [same_intros]:
  "same n (ubjson_internal get_ubjson_value get_char) (ubjson_internal get_ubjson_value get_char)"
  unfolding ubjson_internal_def by (intro same_intros)

lemma same_ubjson_member [same_intros]: "same n m m' \<Longrightarrow> same n (ubjson_member get_char m) (ubjson_member get_char m')"
  unfolding ubjson_member_def by (intro same_intros)

text \<open>A body that reads on and fails at the end of the input.\<close>

definition stops :: "bool read \<Rightarrow> bool" where
  "stops m \<longleftrightarrow> (\<forall>n. same n m m) \<and> (\<forall>s. bin_current s = None \<longrightarrow> fst (m s) \<noteq> Inr True)"

lemma bindC_getC: "bindC (getC g) f s = f (g s) s"
  by (simp add: bindC_def getC_def)

lemma guarded_until:
  assumes "stops m"
  shows "guarded pending (\<lambda>loop (x :: unit). bindC (getC bin_current) (\<lambda>c.
    if c = Some closing then returnC True else andC m (seqC get_ignore_noop (loop ()))))"
  unfolding guarded_def
proof (intro allI impI agree_pendingI)
  fix n x and f f' :: "unit \<Rightarrow> bool read"
  assume "agree pending n f f'"
  note loop = agree_pending [OF this, where x = "()"]
  have "same n (seqC get_ignore_noop (f ())) (seqC get_ignore_noop (f' ()))"
    unfolding seqC_def by (rule same_noop) (simp_all add: loop loop [simplified])
  moreover have "same n m m" using assms by (simp add: stops_def)
  ultimately show "same n (bindC (getC bin_current) (\<lambda>c. if c = Some closing then returnC True else andC m (seqC get_ignore_noop (f ()))))
      (bindC (getC bin_current) (\<lambda>c. if c = Some closing then returnC True else andC m (seqC get_ignore_noop (f' ()))))"
    by - (intro same_bindC same_if same_basic same_andC; assumption)
next
  fix n x and s :: breader and f f' :: "unit \<Rightarrow> bool read"
  assume none: "bin_current s = None"
  then have "fst (m s) \<noteq> Inr True" "same (Suc (length (bin_input s))) m m" using assms by (simp_all add: stops_def)
  then have "andC m k s = (case m s of (Inl e, s') \<Rightarrow> (Inl e, s') | (Inr b, s') \<Rightarrow> (Inr False, s'))"
    "length (bin_input (snd (m s))) \<le> length (bin_input s)" for k
    by (auto simp: andC_def bindC_def returnC_def same_def split: prod.split sum.split)
  then show "bindC (getC bin_current) (\<lambda>c. if c = Some closing then returnC True else andC m (seqC get_ignore_noop (f' ()))) s =
      bindC (getC bin_current) (\<lambda>c. if c = Some closing then returnC True else andC m (seqC get_ignore_noop (f ()))) s \<and>
    length (bin_input (snd (bindC (getC bin_current) (\<lambda>c. if c = Some closing then returnC True else andC m (seqC get_ignore_noop (f ()))) s)))
      \<le> length (bin_input s)"
    using none by (auto simp: bindC_getC split: prod.split sum.split)
qed

lemma until_step:
  assumes "stops m"
  shows "ubjson_until closing m s =
    (if bin_current s = Some closing then (Inr True, s) else andC m (seqC get_ignore_noop (ubjson_until closing m)) s)"
  unfolding ubjson_until_def
  by (subst fixC_unfold [OF guarded_until [OF assms]]) (simp add: bindC_def getC_def returnC_def)

lemma ubjson_value_eof: "fst (get_ubjson_value None s) \<noteq> Inr True \<or> bin_current s \<noteq> None"
  by (subst get_ubjson_value_unfold)
    (simp add: ubjson_body_def unexpect_eof_def bin_parse_error_def sax_parse_error_def)

lemma stops_element: "stops (ubjson_internal get_ubjson_value False)"
proof -
  have "fst (ubjson_internal get_ubjson_value False s) \<noteq> Inr True" if "bin_current s = None" for s
    using that ubjson_value_eof [of s] by (simp add: ubjson_internal_def bindC_def getC_def)
  then show ?thesis by (simp add: stops_def same_intros)
qed

lemma stops_member:
  assumes "\<And>n. same n m m"
  shows "stops (ubjson_member False m)"
proof -
  have "fst (ubjson_member False m s) \<noteq> Inr True" if "bin_current s = None" for s
    using that by (simp add: ubjson_member_def get_ubjson_string_def andC_def optC_def seqC_def
      bindC_def getC_def unexpect_eof_def bin_parse_error_def sax_parse_error_def returnC_def)
  then show ?thesis by (simp add: stops_def same_intros assms)
qed

text \<open>\<open>reads_from m c out v\<close>: as \<open>reads\<close>, where the first character \<open>c\<close> was read before.\<close>

definition reads_from :: "bool read \<Rightarrow> char \<Rightarrow> string \<Rightarrow> json \<Rightarrow> bool" where
  "reads_from m c out v \<longleftrightarrow>
     (\<forall>s ptr R rest. bin_current s = Some c \<longrightarrow> bin_input s = out @ rest \<longrightarrow> slot s ptr R \<longrightarrow>
        (\<exists>s'. m s = (Inr True, s') \<and> built s rest (R v) s'))"

text \<open>The next character after an element.\<close>

lemma noop_moved:
  assumes "bin_input s = c # rest" and "c \<noteq> CHR ''N''"
  shows "\<exists>s'. get_ignore_noop s = (Inr (Some c), s') \<and> moved s rest s' \<and> bin_current s' = Some c"
  using noop_Cons [OF assms] by (simp add: moved_def)

lemma until_elements:
  assumes "stops m" and "\<forall>v \<in> set a. \<exists>c out. w v = c # out \<and> c \<noteq> CHR ''N'' \<and> c \<noteq> closing \<and> reads_from m c out (f v)"
    and "closing \<noteq> CHR ''N''" and "bin_current s = Some c" and "c # bin_input s = concat (map w a) @ closing # rest"
    and "ref_stack s = ptr # st" and "hole ptr R" and "root s = R (Array pre)"
  shows "\<exists>s'. ubjson_until closing m s = (Inr True, s') \<and> built s rest (R (Array (pre @ map f a))) s'"
  using assms(2,4-)
proof (induction a arbitrary: s c pre)
  case Nil
  then show ?case by (subst until_step [OF assms(1)]) (auto simp: built_def)
next
  case (Cons v a)
  let ?next = "concat (map w a) @ closing # rest"
  obtain d ds where d: "?next = d # ds" "d \<noteq> CHR ''N''"
    using Cons.prems(1) assms(3) by (cases a) auto
  obtain out where v: "w v = c # out" "c \<noteq> closing" "reads_from m c out (f v)"
    using Cons.prems(1,3) by auto
  then have "bin_input s = out @ ?next" using Cons.prems(3) by simp
  moreover have "slot s (ptr @ [Index (length pre)]) (\<lambda>w. R (Array (pre @ [w])))"
    by (rule slot_array [OF Cons.prems(4,5,6)])
  ultimately obtain s1 where s1: "m s = (Inr True, s1)" "built s ?next (R (Array (pre @ [f v]))) s1"
    using v(3) Cons.prems(2) unfolding reads_from_def by blast
  then have "bin_input s1 = d # ds" using d by (simp add: built_def)
  then obtain s2 where s2: "get_ignore_noop s1 = (Inr (Some d), s2)" "moved s1 ds s2" "bin_current s2 = Some d"
    using noop_moved d(2) by blast
  then obtain s3 where s3: "ubjson_until closing m s2 = (Inr True, s3)"
    "built s2 rest (R (Array ((pre @ [f v]) @ map f a))) s3"
    using Cons.IH [of s2 d "pre @ [f v]"] Cons.prems(1,4,5) s1(2) d(1) by (auto simp: built_def moved_def)
  have "ubjson_until closing m s = (Inr True, s3)"
    using Cons.prems(2) v(2) s1(1) s2(1) s3(1)
    by (subst until_step [OF assms(1)]) (simp add: andC_True seqC_def bindC_def)
  moreover have "built s rest (R (Array ((pre @ [f v]) @ map f a))) s3"
    using s1(2) s2(2) s3(2) by (auto simp: built_def moved_def)
  ultimately show ?case by auto
qed

text \<open>A key after its first character.\<close>

definition key_from :: "string option read \<Rightarrow> char \<Rightarrow> string \<Rightarrow> string \<Rightarrow> bool" where
  "key_from key c out k \<longleftrightarrow>
     (\<forall>s rest. bin_current s = Some c \<longrightarrow> bin_input s = out @ rest \<longrightarrow>
        (\<exists>s'. key s = (Inr (Some k), s') \<and> moved s rest s'))"

lemma until_members:
  assumes "\<And>n. same n b b"
    and "\<forall>(k, v) \<in> set m. \<exists>c out. kw k = c # out \<and> c \<noteq> CHR ''N'' \<and> c \<noteq> closing \<and>
      key_from (get_ubjson_string False) c out k \<and> reads b (w v) (f v)"
    and "closing \<noteq> CHR ''N''" and "bin_current s = Some c"
    and "c # bin_input s = concat (map (\<lambda>(k, v). kw k @ w v) m) @ closing # rest"
    and "ref_stack s = ptr # st" and "hole ptr R" and "root s = R (Object acc)"
  shows "\<exists>s'. ubjson_until closing (ubjson_member False b) s = (Inr True, s') \<and>
    built s rest (R (Object (foldl (\<lambda>acc (k, v). omap_update k (f v) acc) acc m))) s'"
  using assms(2,4-)
proof (induction m arbitrary: s c acc)
  case Nil
  then show ?case by (subst until_step [OF stops_member [OF assms(1)]]) (auto simp: built_def)
next
  case (Cons e m)
  obtain k v where e: "e = (k, v)" by force
  let ?next = "concat (map (\<lambda>(k, v). kw k @ w v) m) @ closing # rest"
  obtain d ds where d: "?next = d # ds" "d \<noteq> CHR ''N''"
    using Cons.prems(1) assms(3) by (cases m) auto
  obtain out where v: "kw k = c # out" "c \<noteq> closing" "key_from (get_ubjson_string False) c out k" "reads b (w v) (f v)"
    using Cons.prems(1,3) by (auto simp: e)
  then have "bin_input s = out @ w v @ ?next" using Cons.prems(3) by (simp add: e)
  then obtain s0 where s0: "get_ubjson_string False s = (Inr (Some k), s0)" "moved s (w v @ ?next) s0"
    using v(3) Cons.prems(2) unfolding key_from_def by blast
  obtain s1 where s1: "ubjson_member False b s = (Inr True, s1)" "built s ?next (R (Object (omap_update k (f v) acc))) s1"
    using member_read [where R = R and key = "get_ubjson_string False" and s = s, OF s0 v(4) Cons.prems(4-6)]
    unfolding ubjson_member_def by blast
  then have "bin_input s1 = d # ds" using d by (simp add: built_def)
  then obtain s2 where s2: "get_ignore_noop s1 = (Inr (Some d), s2)" "moved s1 ds s2" "bin_current s2 = Some d"
    using noop_moved d(2) by blast
  then obtain s3 where s3: "ubjson_until closing (ubjson_member False b) s2 = (Inr True, s3)"
    "built s2 rest (R (Object (foldl (\<lambda>acc (k, v). omap_update k (f v) acc) (omap_update k (f v) acc) m))) s3"
    using Cons.IH [of s2 d "omap_update k (f v) acc"] Cons.prems(1,4,5) s1(2) d(1) by (auto simp: built_def moved_def)
  have "ubjson_until closing (ubjson_member False b) s = (Inr True, s3)"
    using Cons.prems(2) v(2) s1(1) s2(1) s3(1)
    by (subst until_step [OF stops_member [OF assms(1)]]) (simp add: andC_True seqC_def bindC_def)
  moreover have "built s rest (R (Object (foldl (\<lambda>acc (k, v). omap_update k (f v) acc) acc (e # m)))) s3"
    using s1(2) s2(2) s3(2) by (auto simp: e built_def moved_def)
  ultimately show ?case by blast
qed

section \<open>Numbers and strings\<close>

text \<open>The values of an integer type.\<close>

definition int_range :: "nat \<times> bool \<Rightarrow> int \<Rightarrow> bool" where
  "int_range t n \<longleftrightarrow>
     (if snd t then - (2 ^ (8 * fst t - 1)) \<le> n \<and> n < 2 ^ (8 * fst t - 1) else 0 \<le> n \<and> n < 2 ^ (8 * fst t))"

lemma get_ubjson_int_run:
  assumes "bin_input s = write_number (fst t) False n @ rest" and "int_range t n" and "0 < fst t"
  shows "\<exists>s'. get_ubjson_int t s = (Inr (Some n), s') \<and> moved s rest s'"
proof -
  let ?k = "fst t"
  have p: "(256 :: int) ^ ?k = 2 ^ (8 * ?k)" by (simp add: power_mult)
  have less: "(2 :: int) ^ (8 * ?k - 1) \<le> 2 ^ (8 * ?k)" by (rule power_increasing) simp_all
  have id: "nat (n mod 256 ^ ?k) = nat n" if "0 \<le> n" "n < 2 ^ (8 * ?k)" using that p by simp
  have "(if snd t then signed_of ?k (nat (n mod 256 ^ ?k)) else int (nat (n mod 256 ^ ?k))) = n"
  proof (cases "snd t \<and> n < 0")
    case True
    then show ?thesis using assms(2,3) by (simp add: int_range_def signed_of_mod)
  next
    case False
    then have n: "0 \<le> n" "n < 2 ^ (8 * ?k)" using assms(2) less_le_trans [OF _ less, of n]
      by (auto simp: int_range_def split: if_splits)
    have "snd t \<Longrightarrow> nat n < 2 ^ (8 * ?k - 1)" using assms(2) n by (simp add: int_range_def nat_less_iff)
    then show ?thesis using n id [OF n] by (simp add: signed_of_def)
  qed
  moreover obtain s' where "get_number ?k False ubjson_fmt s = (Inr (Some (nat (n mod 256 ^ ?k))), s')" "moved s rest s'"
    using get_number_run [OF assms(1)] by blast
  ultimately show ?thesis by (intro exI [of _ s']) (simp add: get_ubjson_int_def bindC_def returnC_def)
qed

lemma ubjson_unsigned_cases:
  assumes "0 \<le> n" and "n < 2 ^ 63"
  obtains t k where "\<And>p. ubjson_unsigned n p = Inr ((if p then [t] else []) @ write_number (fst k) False n)"
    "ubjson_int_type t = Some k" "t = ubjson_prefix (Number_unsigned n)" "int_range k n" "0 < fst k"
    "t = CHR ''U'' \<longleftrightarrow> 128 \<le> n \<and> n \<le> 255" "t \<in> set ''UiIlL''"
proof -
  consider "n \<le> 127" | "127 < n" "n \<le> 255" | "255 < n" "n \<le> 2 ^ 15 - 1" | "2 ^ 15 - 1 < n" "n \<le> 2 ^ 31 - 1"
    | "2 ^ 31 - 1 < n" by linarith
  then show ?thesis
  proof cases
    case 1
    with assms show ?thesis by (intro that [of "CHR ''i''" "(1, True)"]) (simp_all add: ubjson_unsigned_def ubjson_int_type_def int_range_def)
  next
    case 2
    with assms show ?thesis by (intro that [of "CHR ''U''" "(1, False)"]) (simp_all add: ubjson_unsigned_def ubjson_int_type_def int_range_def)
  next
    case 3
    with assms show ?thesis by (intro that [of "CHR ''I''" "(2, True)"]) (simp_all add: ubjson_unsigned_def ubjson_int_type_def int_range_def)
  next
    case 4
    with assms show ?thesis by (intro that [of "CHR ''l''" "(4, True)"]) (simp_all add: ubjson_unsigned_def ubjson_int_type_def int_range_def)
  next
    case 5
    with assms show ?thesis by (intro that [of "CHR ''L''" "(8, True)"]) (simp_all add: ubjson_unsigned_def ubjson_int_type_def int_range_def)
  qed
qed

text \<open>A non-negative number is written as the unsigned one, a negative one with a signed type.\<close>

lemma ubjson_signed_nonneg:
  "0 \<le> n \<Longrightarrow> ubjson_signed n p = ubjson_unsigned n p"
  "0 \<le> n \<Longrightarrow> ubjson_prefix (Number_integer n) = ubjson_prefix (Number_unsigned n)"
  by (simp_all add: ubjson_signed_def ubjson_unsigned_def)

lemma ubjson_signed_cases:
  assumes "is_int64 n" and "n < 0"
  obtains t k where "\<And>p. ubjson_signed n p = Inr ((if p then [t] else []) @ write_number (fst k) False n)"
    "ubjson_int_type t = Some k" "t = ubjson_prefix (Number_integer n)" "int_range k n" "0 < fst k"
    "t \<noteq> CHR ''U''" "t \<in> set ''UiIlL''"
proof -
  have n: "- (2 ^ 63) \<le> n" using assms(1) by (simp add: is_int64_def)
  consider "- 128 \<le> n" | "- (2 ^ 15) \<le> n" "n < - 128" | "- (2 ^ 31) \<le> n" "n < - (2 ^ 15)" | "n < - (2 ^ 31)" by linarith
  then show ?thesis
  proof cases
    case 1
    with assms(2) show ?thesis by (intro that [of "CHR ''i''" "(1, True)"]) (simp_all add: ubjson_signed_def ubjson_int_type_def int_range_def)
  next
    case 2
    with assms(2) show ?thesis by (intro that [of "CHR ''I''" "(2, True)"]) (simp_all add: ubjson_signed_def ubjson_int_type_def int_range_def)
  next
    case 3
    with assms(2) show ?thesis by (intro that [of "CHR ''l''" "(4, True)"]) (simp_all add: ubjson_signed_def ubjson_int_type_def int_range_def)
  next
    case 4
    with n show ?thesis by (intro that [of "CHR ''L''" "(8, True)"]) (simp_all add: ubjson_signed_def ubjson_int_type_def int_range_def)
  qed
qed

text \<open>Strings: the tag of the length, and what \<open>get_ubjson_string\<close> reads after it.\<close>

lemma ubjson_text_from:
  assumes "length str < 2 ^ 63"
  shows "\<exists>c out. ubjson_text str = Inr (c # out) \<and> c \<in> set ''UiIlL'' \<and> key_from (get_ubjson_string False) c out str"
proof -
  have len: "0 \<le> int (length str)" "int (length str) < 2 ^ 63" using assms by simp_all
  obtain t k where t: "\<And>p. ubjson_unsigned (int (length str)) p = Inr ((if p then [t] else []) @ write_number (fst k) False (int (length str)))"
    "ubjson_int_type t = Some k" "int_range k (int (length str))" "0 < fst k" "t \<in> set ''UiIlL''"
    by (rule ubjson_unsigned_cases [OF len]) (rule that)
  have "key_from (get_ubjson_string False) t (write_number (fst k) False (int (length str)) @ str) str"
    unfolding key_from_def
  proof (intro allI impI)
    fix s :: breader and rest
    assume s: "bin_current s = Some t" "bin_input s = (write_number (fst k) False (int (length str)) @ str) @ rest"
    then obtain s1 where s1: "get_ubjson_int k s = (Inr (Some (int (length str))), s1)" "moved s (str @ rest) s1"
      using get_ubjson_int_run [OF _ t(3,4), of s "str @ rest"] by auto
    obtain s2 where s2: "get_chars ubjson_fmt (int (length str)) [] s1 = (Inr (Some ([] @ str)), s2)" "moved s1 rest s2"
      using get_chars_run [OF moved_input [OF s1(2)] refl] by blast
    have "get_ubjson_string False s = (Inr (Some str), s2)"
      using s(1) s1(1) s2(1) t(2)
      by (simp add: get_ubjson_string_def seqC_def bindC_def getC_def unexpect_eof_def bindO_Some)
    with moved_trans [OF s1(2) s2(2)]
    show "\<exists>s'. get_ubjson_string False s = (Inr (Some str), s') \<and> moved s rest s'" by blast
  qed
  moreover have "ubjson_text str = Inr (t # write_number (fst k) False (int (length str)) @ str)"
    by (simp add: ubjson_text_def t(1))
  ultimately show ?thesis using t(5) by blast
qed

lemma get_ubjson_string_True:
  "bin_input s = c # rest \<Longrightarrow> get_ubjson_string True s =
     get_ubjson_string False (s\<lparr>bin_input := rest, bin_current := Some c, bin_chars_read := Suc (bin_chars_read s)\<rparr>)"
  by (simp add: get_ubjson_string_def seqC_def bindC_def bin_get_Cons getC_def)

lemma key_from_reads:
  assumes "key_from (get_ubjson_string False) c out k"
  shows "reads_key (get_ubjson_string True) (c # out) k"
  unfolding reads_key_def
proof (intro allI impI)
  fix s :: breader and rest
  assume "bin_input s = (c # out) @ rest"
  then have input: "bin_input s = c # out @ rest" by simp
  let ?s = "s\<lparr>bin_input := out @ rest, bin_current := Some c, bin_chars_read := Suc (bin_chars_read s)\<rparr>"
  obtain s' where "get_ubjson_string False ?s = (Inr (Some k), s')" "moved ?s rest s'"
    using assms unfolding key_from_def by (auto dest!: spec [of _ ?s])
  then show "\<exists>s'. get_ubjson_string True s = (Inr (Some k), s') \<and> moved s rest s'"
    using get_ubjson_string_True [OF input] moved_trans [OF moved_get] by auto
qed

section \<open>Sizes and types\<close>

lemma size_value_run:
  assumes "bin_input s = cnt @ rest" and "ubjson_unsigned (int N) True = Inr cnt" and "N < 2 ^ 63"
  shows "\<exists>s'. get_ubjson_size_value s = (Inr (Some N), s') \<and> moved s rest s'"
proof -
  have len: "0 \<le> int N" "int N < 2 ^ 63" using assms(3) by simp_all
  obtain t k where t: "\<And>p. ubjson_unsigned (int N) p = Inr ((if p then [t] else []) @ write_number (fst k) False (int N))"
    "ubjson_int_type t = Some k" "int_range k (int N)" "0 < fst k" "t \<in> set ''UiIlL''"
    by (rule ubjson_unsigned_cases [OF len]) (rule that)
  then have "bin_input s = t # write_number (fst k) False (int N) @ rest" "t \<noteq> CHR ''N''"
    using assms(1,2) by auto
  then obtain s1 where s1: "get_ignore_noop s = (Inr (Some t), s1)" "moved s (write_number (fst k) False (int N) @ rest) s1"
    using noop_moved by blast
  then obtain s2 where s2: "get_ubjson_int k s1 = (Inr (Some (int N)), s2)" "moved s1 rest s2"
    using get_ubjson_int_run [OF moved_input [OF s1(2)] t(3,4)] by blast
  have "nat (int N mod 2 ^ 64) = N" using assms(3) by (simp add: nat_mod_distrib)
  then have "get_ubjson_size_value s = (Inr (Some N), s2)"
    using s1(1) s2(1) t(2) by (simp add: get_ubjson_size_value_def bindC_def returnC_def)
  with moved_trans [OF s1(2) s2(2)] show ?thesis by blast
qed

lemma size_type_none:
  assumes "bin_input s = c # rest" and "c \<notin> set ''$#N''"
  shows "\<exists>s'. get_ubjson_size_type s = (Inr (Some (npos, CHR 0x00)), s') \<and> moved s rest s' \<and> bin_current s' = Some c"
  using noop_moved [OF assms(1)] assms(2) by (auto simp: get_ubjson_size_type_def bindC_def returnC_def)

lemma size_type_count:
  assumes "bin_input s = CHR ''#'' # cnt @ rest" and "ubjson_unsigned (int N) True = Inr cnt" and "N < 2 ^ 63"
  shows "\<exists>s'. get_ubjson_size_type s = (Inr (Some (N, CHR 0x00)), s') \<and> moved s rest s'"
proof -
  obtain s1 where s1: "get_ignore_noop s = (Inr (Some (CHR ''#'')), s1)" "moved s (cnt @ rest) s1"
    using noop_moved [OF assms(1)] by auto
  then obtain s2 where s2: "get_ubjson_size_value s1 = (Inr (Some N), s2)" "moved s1 rest s2"
    using size_value_run [OF moved_input [OF s1(2)] assms(2,3)] by blast
  have "get_ubjson_size_type s = (Inr (Some (N, CHR 0x00)), s2)"
    using s1(1) s2(1) by (simp add: get_ubjson_size_type_def bindC_def bindO_def returnC_def)
  with moved_trans [OF s1(2) s2(2)] show ?thesis by blast
qed

lemma size_type_typed:
  assumes "bin_input s = CHR ''$'' # t # CHR ''#'' # cnt @ rest" and "ubjson_unsigned (int N) True = Inr cnt" and "N < 2 ^ 63"
  shows "\<exists>s'. get_ubjson_size_type s = (Inr (Some (N, t)), s') \<and> moved s rest s'"
proof -
  obtain s1 where s1: "get_ignore_noop s = (Inr (Some (CHR ''$'')), s1)" "moved s (t # CHR ''#'' # cnt @ rest) s1"
    using noop_moved [OF assms(1)] by auto
  note get = bin_get_Cons [OF moved_input [OF s1(2)]]
  let ?s2 = "s1\<lparr>bin_input := CHR ''#'' # cnt @ rest, bin_current := Some t, bin_chars_read := Suc (bin_chars_read s1)\<rparr>"
  obtain s3 where s3: "get_ignore_noop ?s2 = (Inr (Some (CHR ''#'')), s3)" "moved ?s2 (cnt @ rest) s3"
    using noop_moved [of ?s2 "CHR ''#''" "cnt @ rest"] by auto
  then obtain s4 where s4: "get_ubjson_size_value s3 = (Inr (Some N), s4)" "moved s3 rest s4"
    using size_value_run [OF moved_input [OF s3(2)] assms(2,3)] by blast
  have "get_ubjson_size_type s = (Inr (Some (N, t)), s4)"
    using s1(1) get s3(1) s4(1) by (simp add: get_ubjson_size_type_def bindC_def bindO_def returnC_def unexpect_eof_def)
  moreover have "moved s rest s4"
    using s1(2) s3(2) s4(2) by (auto simp: moved_def)
  ultimately show ?thesis by blast
qed

section \<open>Values\<close>

text \<open>
  What a value becomes: the type of an integer depends on its value, and 128 to 255 are the only ones that are
  written with an unsigned type.
\<close>

definition ubjson_number :: "int \<Rightarrow> json" where
  "ubjson_number n = (if 128 \<le> n \<and> n \<le> 255 then Number_unsigned n else Number_integer n)"

fun ubjson_form :: "json \<Rightarrow> json" and ubjson_form_members :: "(string \<times> json) list \<Rightarrow> (string \<times> json) list"
  and ubjson_form_elems :: "json list \<Rightarrow> json list" where
  "ubjson_form (Object m) = Object (ubjson_form_members m)"
| "ubjson_form (Array a) = Array (ubjson_form_elems a)"
| "ubjson_form (Number_integer n) = ubjson_number n"
| "ubjson_form (Number_unsigned n) = ubjson_number n"
| "ubjson_form v = v"
| "ubjson_form_members [] = []"
| "ubjson_form_members ((k, v) # m) = (k, ubjson_form v) # ubjson_form_members m"
| "ubjson_form_elems [] = []"
| "ubjson_form_elems (v # a) = ubjson_form v # ubjson_form_elems a"

lemma ubjson_form_map:
  "ubjson_form_members m = map (\<lambda>(k, v). (k, ubjson_form v)) m" "ubjson_form_elems a = map ubjson_form a"
  by (induction m; auto) (induction a; auto)

text \<open>What the format can represent.\<close>

fun ubjson_fits :: "json \<Rightarrow> bool" and ubjson_members_fit :: "(string \<times> json) list \<Rightarrow> bool"
  and ubjson_elems_fit :: "json list \<Rightarrow> bool" where
  "ubjson_fits (Object m) \<longleftrightarrow> length m \<le> json_max_size object_t \<and> ubjson_members_fit m"
| "ubjson_fits (Array a) \<longleftrightarrow> length a \<le> json_max_size array_t \<and> ubjson_elems_fit a"
| "ubjson_fits (String s) \<longleftrightarrow> length s < 2 ^ 63"
| "ubjson_fits (Number_unsigned n) \<longleftrightarrow> n < 2 ^ 63"
| "ubjson_fits Discarded \<longleftrightarrow> False"
| "ubjson_fits _ \<longleftrightarrow> True"
| "ubjson_members_fit [] \<longleftrightarrow> True"
| "ubjson_members_fit ((k, v) # m) \<longleftrightarrow> length k < 2 ^ 63 \<and> ubjson_fits v \<and> ubjson_members_fit m"
| "ubjson_elems_fit [] \<longleftrightarrow> True"
| "ubjson_elems_fit (v # a) \<longleftrightarrow> ubjson_fits v \<and> ubjson_elems_fit a"

text \<open>\<open>v\<close> is written as its prefix and \<open>b\<close>, and after the prefix, \<open>b\<close> is read as \<open>w\<close>.\<close>

definition value_prefix :: "char \<Rightarrow> bool" where
  "value_prefix c \<longleftrightarrow> c \<in> set ''ZTFiUIlLDS[{''"

lemma value_prefix_neq: "value_prefix c \<Longrightarrow> c \<notin> set ''$#N]}'' \<and> c \<noteq> CHR 0x00"
  by (auto simp: value_prefix_def)

definition ubjson_written :: "bool \<Rightarrow> bool \<Rightarrow> json \<Rightarrow> json \<Rightarrow> string \<Rightarrow> bool" where
  "ubjson_written c t v w b \<longleftrightarrow>
     (\<forall>p. write_ubjson c t v p = Inr ((if p then [ubjson_prefix v] else []) @ b)) \<and>
     reads (get_ubjson_value (Some (ubjson_prefix v))) b w \<and> value_prefix (ubjson_prefix v)"

lemma written_from:
  "ubjson_written c t v w b \<Longrightarrow> reads_from (ubjson_internal get_ubjson_value False) (ubjson_prefix v) b w"
  by (simp add: ubjson_written_def reads_from_def reads_def ubjson_internal_def bindC_getC)

lemma written_reads:
  assumes "ubjson_written c t v w b"
  shows "reads (ubjson_internal get_ubjson_value True) (ubjson_prefix v # b) w"
  unfolding reads_def
proof (intro allI impI)
  fix s :: breader and ptr R rest
  assume s: "bin_input s = (ubjson_prefix v # b) @ rest" "slot s ptr R"
  moreover have "ubjson_prefix v \<noteq> CHR ''N''" using assms value_prefix_neq by (auto simp: ubjson_written_def)
  ultimately obtain s1 where s1: "get_ignore_noop s = (Inr (Some (ubjson_prefix v)), s1)" "moved s (b @ rest) s1"
    using noop_moved [of s "ubjson_prefix v" "b @ rest"] by auto
  have "reads (get_ubjson_value (Some (ubjson_prefix v))) b w" using assms by (simp add: ubjson_written_def)
  then obtain s2 where "get_ubjson_value (Some (ubjson_prefix v)) s1 = (Inr True, s2)" "built s1 rest (R w) s2"
    using readsD [OF _ moved_input [OF s1(2)] slot_moved [OF s(2) s1(2)]] by blast
  with s1 moved_built [OF s1(2)] show "\<exists>s'. ubjson_internal get_ubjson_value True s = (Inr True, s') \<and> built s rest (R w) s'"
    by (auto simp: ubjson_internal_def bindC_def)
qed

lemma ubjson_elems_written:
  "\<forall>v \<in> set a. ubjson_written c t v (f v) (bs v) \<Longrightarrow>
     ubjson_elems c t a p = Inr (concat (map (\<lambda>v. (if p then [ubjson_prefix v] else []) @ bs v) a))"
  by (induction a) (simp_all add: ubjson_written_def)

lemma ubjson_members_written:
  "\<forall>(k, v) \<in> set m. ubjson_text k = Inr (ks k) \<and> ubjson_written c t v (f v) (bs v) \<Longrightarrow>
     ubjson_members c t m p = Inr (concat (map (\<lambda>(k, v). ks k @ (if p then [ubjson_prefix v] else []) @ bs v) m))"
  by (induction m) (auto simp: ubjson_written_def)

lemma ubjson_container_cases:
  assumes "t \<longrightarrow> c" and "\<And>p. contents p = Inr (body p)" and "length vs < 2 ^ 63"
  obtains (closed) "\<And>p. ubjson_container b e c t p vs contents = Inr ((if p then [b] else []) @ body True @ [e])"
    | (counted) cnt where "ubjson_unsigned (int (length vs)) True = Inr cnt"
        "\<And>p. ubjson_container b e c t p vs contents = Inr ((if p then [b] else []) @ CHR ''#'' # cnt @ body True)"
    | (typed) cnt x where "ubjson_unsigned (int (length vs)) True = Inr cnt" "vs \<noteq> []" "\<forall>v \<in> set vs. ubjson_prefix v = x"
        "\<And>p. ubjson_container b e c t p vs contents =
           Inr ((if p then [b] else []) @ CHR ''$'' # x # CHR ''#'' # cnt @ body False)"
proof -
  have len: "0 \<le> int (length vs)" "int (length vs) < 2 ^ 63" using assms(3) by simp_all
  obtain cnt where cnt: "ubjson_unsigned (int (length vs)) True = Inr cnt"
    by (rule ubjson_unsigned_cases [OF len]) (rule that)
  define x where "x = ubjson_prefix (hd vs)"
  let ?same = "t \<and> vs \<noteq> [] \<and> (\<forall>v \<in> set vs. ubjson_prefix v = x)"
  show ?thesis
  proof (cases c)
    case False
    then show ?thesis using assms(1,2) by (intro closed) (auto simp: ubjson_container_def Let_def)
  next
    case c: True
    show ?thesis
    proof (cases ?same)
      case True
      then have eq: "ubjson_container b e c t p vs contents =
          Inr ((if p then [b] else []) @ CHR ''$'' # x # CHR ''#'' # cnt @ body False)" for p
        using c by (simp add: ubjson_container_def Let_def list_all_iff cnt assms(2) flip: x_def)
      show ?thesis by (rule typed [OF cnt _ _ eq]) (use True in simp_all)
    next
      case False
      then have same: "((t \<and> vs \<noteq> []) \<and> list_all (\<lambda>v. ubjson_prefix v = x) vs) = False"
        by (auto simp: list_all_iff)
      have eq: "ubjson_container b e c t p vs contents = Inr ((if p then [b] else []) @ CHR ''#'' # cnt @ body True)" for p
        unfolding ubjson_container_def Let_def x_def [symmetric] same using c by (simp add: cnt assms(2))
      show ?thesis by (rule counted [OF cnt eq])
    qed
  qed
qed

lemma get_ubjson_value_bracket:
  "get_ubjson_value (Some (CHR ''['')) = get_ubjson_array get_ubjson_value"
  "get_ubjson_value (Some (CHR ''{'')) = get_ubjson_object get_ubjson_value"
  by (subst get_ubjson_value_unfold, simp add: ubjson_body_def ubjson_value_def)+

lemma start_sized_ubjson:
  "N = npos \<or> N \<le> json_max_size array_t \<Longrightarrow> start_sized_array N s = start_array s"
  "N = npos \<or> N \<le> json_max_size object_t \<Longrightarrow> start_sized_object N s = start_object s"
  by (auto simp: start_sized_array_def start_sized_object_def bindR_def split: sum.split)

subsection \<open>Arrays\<close>

lemma ubjson_array_run:
  "get_ubjson_size_type s = (Inr (Some (N, x)), s1) \<Longrightarrow> get_ubjson_array self s =
     andC (saxC (start_sized_array N))
       (andC (if N \<noteq> npos
              then if x \<noteq> CHR 0x00 then if x \<noteq> CHR ''N'' then repeatC N (self (Some x)) else returnC True
                   else repeatC N (ubjson_internal self True)
              else ubjson_until (CHR '']'') (ubjson_internal self False)) (saxC sax_end)) s1"
  by (simp add: get_ubjson_array_def optC_def bindC_def)

lemma array_closed:
  assumes "\<forall>v \<in> set a. ubjson_written c t v (f v) (bs v)"
  shows "reads (get_ubjson_array get_ubjson_value) (concat (map (\<lambda>v. ubjson_prefix v # bs v) a) @ [CHR '']'']) (Array (map f a))"
  unfolding reads_def
proof (intro allI impI)
  fix s :: breader and ptr R rest
  let ?w = "\<lambda>v. ubjson_prefix v # bs v"
  assume s: "bin_input s = (concat (map ?w a) @ [CHR '']'']) @ rest" and slot: "slot s ptr R"
  have elt: "\<forall>v \<in> set a. \<exists>c out. ?w v = c # out \<and> c \<noteq> CHR ''N'' \<and> c \<noteq> CHR '']'' \<and>
      reads_from (ubjson_internal get_ubjson_value False) c out (f v)"
    using assms written_from value_prefix_neq by (fastforce simp: ubjson_written_def)
  obtain d ds where d: "concat (map ?w a) @ CHR '']'' # rest = d # ds" "d \<notin> set ''$#N''"
  proof (cases a)
    case (Cons v a')
    then have "value_prefix (ubjson_prefix v)" using assms by (simp add: ubjson_written_def)
    then show ?thesis using that Cons value_prefix_neq by auto
  qed (use that in auto)
  then obtain s1 where s1: "get_ubjson_size_type s = (Inr (Some (npos, CHR 0x00)), s1)" "moved s ds s1" "bin_current s1 = Some d"
    using size_type_none [of s d ds] s by auto
  have "\<exists>s'. andC (saxC (start_sized_array npos)) (andC (ubjson_until (CHR '']'') (ubjson_internal get_ubjson_value False)) (saxC sax_end)) s1 =
      (Inr True, s') \<and> built s rest (R (Array (map f a))) s'"
  proof (rule array_body_read [where R = R and start = "start_sized_array npos", OF s1(2) slot], goal_cases)
    case (2 s2)
    then show ?case
      using until_elements [OF stops_element elt, of s2 d rest ptr "ref_stack s1" R "[]"] d(1) s1(3) by simp
  qed (simp add: start_sized_ubjson)
  then show "\<exists>s'. get_ubjson_array get_ubjson_value s = (Inr True, s') \<and> built s rest (R (Array (map f a))) s'"
    by (simp add: ubjson_array_run [OF s1(1)])
qed

lemma array_counted:
  assumes "\<forall>v \<in> set a. ubjson_written c t v (f v) (bs v)" and "length a \<le> json_max_size array_t"
    and "ubjson_unsigned (int (length a)) True = Inr cnt"
  shows "reads (get_ubjson_array get_ubjson_value) (CHR ''#'' # cnt @ concat (map (\<lambda>v. ubjson_prefix v # bs v) a)) (Array (map f a))"
  unfolding reads_def
proof (intro allI impI)
  fix s :: breader and ptr R rest
  let ?w = "\<lambda>v. ubjson_prefix v # bs v"
  assume "bin_input s = (CHR ''#'' # cnt @ concat (map ?w a)) @ rest" and slot: "slot s ptr R"
  moreover have N: "length a < 2 ^ 63" "length a \<noteq> npos" using assms(2) by (simp_all add: json_max_size_def npos_def)
  ultimately obtain s1 where s1: "get_ubjson_size_type s = (Inr (Some (length a, CHR 0x00)), s1)" "moved s (concat (map ?w a) @ rest) s1"
    using size_type_count [OF _ assms(3), of s "concat (map ?w a) @ rest"] by auto
  have "\<forall>v \<in> set a. reads (ubjson_internal get_ubjson_value True) (?w v) (f v)" using assms(1) written_reads by blast
  then show "\<exists>s'. get_ubjson_array get_ubjson_value s = (Inr True, s') \<and> built s rest (R (Array (map f a))) s'"
    using array_read [where w = ?w and start = "start_sized_array (length a)", OF s1(2) slot] assms(2) N(2)
    by (simp add: ubjson_array_run [OF s1(1)] start_sized_ubjson)
qed

lemma array_typed:
  assumes "\<forall>v \<in> set a. ubjson_written c t v (f v) (bs v) \<and> ubjson_prefix v = x" and "a \<noteq> []"
    and "length a \<le> json_max_size array_t" and "ubjson_unsigned (int (length a)) True = Inr cnt"
  shows "reads (get_ubjson_array get_ubjson_value) (CHR ''$'' # x # CHR ''#'' # cnt @ concat (map bs a)) (Array (map f a))"
  unfolding reads_def
proof (intro allI impI)
  fix s :: breader and ptr R rest
  assume "bin_input s = (CHR ''$'' # x # CHR ''#'' # cnt @ concat (map bs a)) @ rest" and slot: "slot s ptr R"
  moreover have N: "length a < 2 ^ 63" "length a \<noteq> npos" using assms(3) by (simp_all add: json_max_size_def npos_def)
  ultimately obtain s1 where s1: "get_ubjson_size_type s = (Inr (Some (length a, x)), s1)" "moved s (concat (map bs a) @ rest) s1"
    using size_type_typed [OF _ assms(4), of s x "concat (map bs a) @ rest"] by auto
  have "value_prefix x" using assms(1,2) by (cases a) (auto simp: ubjson_written_def)
  then have x: "x \<noteq> CHR 0x00" "x \<noteq> CHR ''N''" using value_prefix_neq by auto
  have "\<forall>v \<in> set a. reads (get_ubjson_value (Some x)) (bs v) (f v)" using assms(1) by (auto simp: ubjson_written_def)
  then show "\<exists>s'. get_ubjson_array get_ubjson_value s = (Inr True, s') \<and> built s rest (R (Array (map f a))) s'"
    using array_read [where w = bs and start = "start_sized_array (length a)", OF s1(2) slot] assms(3) N(2) x
    by (simp add: ubjson_array_run [OF s1(1)] start_sized_ubjson)
qed

lemma array_written:
  assumes "t \<longrightarrow> c" and "\<forall>v \<in> set a. \<exists>b. ubjson_written c t v (f v) b" and "length a \<le> json_max_size array_t"
  shows "\<exists>b. ubjson_written c t (Array a) (Array (map f a)) b"
proof -
  obtain bs where bs: "\<forall>v \<in> set a. ubjson_written c t v (f v) (bs v)" using bchoice [OF assms(2)] by blast
  have "length a < 2 ^ 63" using assms(3) by (simp add: json_max_size_def)
  with assms(1) ubjson_elems_written [OF bs] show ?thesis
  proof (cases rule: ubjson_container_cases [where b = "CHR ''[''" and e = "CHR '']''" and c = c and t = t and vs = a
        and contents = "ubjson_elems c t a" and body = "\<lambda>p. concat (map (\<lambda>v. (if p then [ubjson_prefix v] else []) @ bs v) a)",
        consumes 3, case_names closed counted typed])
    case closed
    then show ?thesis using array_closed [OF bs]
      by (intro exI) (simp add: ubjson_written_def get_ubjson_value_bracket value_prefix_def)
  next
    case (counted cnt)
    then show ?thesis using array_counted [OF bs assms(3)]
      by (intro exI) (auto simp: ubjson_written_def get_ubjson_value_bracket value_prefix_def)
  next
    case (typed cnt x)
    then have "\<forall>v \<in> set a. ubjson_written c t v (f v) (bs v) \<and> ubjson_prefix v = x" using bs by blast
    from array_typed [OF this typed(2) assms(3) typed(1)] typed show ?thesis
      by (intro exI) (auto simp: ubjson_written_def get_ubjson_value_bracket value_prefix_def)
  qed
qed

subsection \<open>Objects\<close>

lemma ubjson_object_run:
  "get_ubjson_size_type s = (Inr (Some (N, x)), s1) \<Longrightarrow> get_ubjson_object self s =
     andC (saxC (start_sized_object N))
       (andC (if N \<noteq> npos
              then repeatC N (ubjson_member True (if x \<noteq> CHR 0x00 then self (Some x) else ubjson_internal self True))
              else ubjson_until (CHR ''}'') (ubjson_member False (ubjson_internal self True))) (saxC sax_end)) s1"
  by (simp add: get_ubjson_object_def optC_def bindC_def)

text \<open>\<open>ks\<close> gives the text of each key.\<close>

definition keys_written :: "(string \<times> json) list \<Rightarrow> (string \<Rightarrow> string) \<Rightarrow> bool" where
  "keys_written m ks \<longleftrightarrow>
     (\<forall>(k, v) \<in> set m. ubjson_text k = Inr (ks k) \<and>
        (\<exists>c out. ks k = c # out \<and> c \<in> set ''UiIlL'' \<and> key_from (get_ubjson_string False) c out k))"

lemma keys_writtenD:
  assumes "keys_written m ks" and "(k, v) \<in> set m"
  shows "ubjson_text k = Inr (ks k)"
    and "\<exists>c out. ks k = c # out \<and> c \<notin> set ''$#N}'' \<and> key_from (get_ubjson_string False) c out k"
    and "reads_key (get_ubjson_string True) (ks k) k"
proof -
  obtain c out where k: "ubjson_text k = Inr (ks k)" "ks k = c # out" "c \<in> set ''UiIlL''"
    "key_from (get_ubjson_string False) c out k"
    using assms unfolding keys_written_def by blast
  then show "ubjson_text k = Inr (ks k)" "reads_key (get_ubjson_string True) (ks k) k" by (simp_all add: key_from_reads)
  from k show "\<exists>c out. ks k = c # out \<and> c \<notin> set ''$#N}'' \<and> key_from (get_ubjson_string False) c out k" by auto
qed

lemma object_closed:
  assumes "keys_written m ks" and "\<forall>(k, v) \<in> set m. ubjson_written c t v (f v) (bs v)"
  shows "reads (get_ubjson_object get_ubjson_value) (concat (map (\<lambda>(k, v). ks k @ ubjson_prefix v # bs v) m) @ [CHR ''}''])
    (Object (foldl (\<lambda>acc (k, v). omap_update k (f v) acc) [] m))"
  unfolding reads_def
proof (intro allI impI)
  fix s :: breader and ptr R rest
  let ?w = "\<lambda>v. ubjson_prefix v # bs v" and ?text = "concat (map (\<lambda>(k, v). ks k @ ubjson_prefix v # bs v) m)"
  let ?m = "Object (foldl (\<lambda>acc (k, v). omap_update k (f v) acc) [] m)"
  assume s: "bin_input s = (?text @ [CHR ''}'']) @ rest" and slot: "slot s ptr R"
  have elt: "\<forall>(k, v) \<in> set m. \<exists>c out. ks k = c # out \<and> c \<noteq> CHR ''N'' \<and> c \<noteq> CHR ''}'' \<and>
      key_from (get_ubjson_string False) c out k \<and> reads (ubjson_internal get_ubjson_value True) (?w v) (f v)"
    using keys_writtenD(2) [OF assms(1)] assms(2) written_reads by fastforce
  obtain d ds where d: "?text @ CHR ''}'' # rest = d # ds" "d \<notin> set ''$#N''"
  proof (cases m)
    case (Cons e m')
    then show ?thesis using that keys_writtenD(2) [OF assms(1), of "fst e" "snd e"] by (auto simp: case_prod_beta)
  qed (use that in auto)
  then obtain s1 where s1: "get_ubjson_size_type s = (Inr (Some (npos, CHR 0x00)), s1)" "moved s ds s1" "bin_current s1 = Some d"
    using size_type_none [of s d ds] s by auto
  have "\<exists>s'. andC (saxC (start_sized_object npos)) (andC (ubjson_until (CHR ''}'') (ubjson_member False
      (ubjson_internal get_ubjson_value True))) (saxC sax_end)) s1 = (Inr True, s') \<and> built s rest (R ?m) s'"
  proof (rule object_body_read [where R = R and start = "start_sized_object npos", OF s1(2) slot], goal_cases)
    case (2 s2)
    then show ?case
      using until_members [OF same_ubjson_internal elt, of s2 d rest ptr "ref_stack s1" R "[]"] d(1) s1(3) by simp
  qed (simp add: start_sized_ubjson)
  then show "\<exists>s'. get_ubjson_object get_ubjson_value s = (Inr True, s') \<and> built s rest (R ?m) s'"
    by (simp add: ubjson_object_run [OF s1(1)])
qed

text \<open>With a size; \<open>b\<close> reads the values, whose texts are \<open>w\<close>, and \<open>type\<close> is their type or 0.\<close>

lemma object_sized:
  assumes "keys_written m ks" and "\<forall>(k, v) \<in> set m. reads b (w v) (f v)" and "length m \<le> json_max_size object_t"
    and "get_ubjson_size_type s = (Inr (Some (length m, x)), s1)"
    and "moved s (concat (map (\<lambda>(k, v). ks k @ w v) m) @ rest) s1" and "slot s ptr R"
    and "b = (if x \<noteq> CHR 0x00 then get_ubjson_value (Some x) else ubjson_internal get_ubjson_value True)"
  shows "\<exists>s'. get_ubjson_object get_ubjson_value s = (Inr True, s') \<and>
    built s rest (R (Object (foldl (\<lambda>acc (k, v). omap_update k (f v) acc) [] m))) s'"
proof -
  have "\<forall>(k, v) \<in> set m. reads_key (get_ubjson_string True) (ks k) k \<and> reads b (w v) (f v)"
    using keys_writtenD(3) [OF assms(1)] assms(2) by auto
  moreover have "length m \<noteq> npos" using assms(3) by (simp add: json_max_size_def npos_def)
  ultimately show ?thesis
    using object_read [where R = R and w = w and kw = ks and start = "start_sized_object (length m)", OF assms(5,6)] assms(3)
    by (simp add: ubjson_object_run [OF assms(4)] start_sized_ubjson ubjson_member_def assms(7))
qed

lemma object_counted:
  assumes "keys_written m ks" and "\<forall>(k, v) \<in> set m. ubjson_written c t v (f v) (bs v)"
    and "length m \<le> json_max_size object_t" and "ubjson_unsigned (int (length m)) True = Inr cnt"
  shows "reads (get_ubjson_object get_ubjson_value) (CHR ''#'' # cnt @ concat (map (\<lambda>(k, v). ks k @ ubjson_prefix v # bs v) m))
    (Object (foldl (\<lambda>acc (k, v). omap_update k (f v) acc) [] m))"
  unfolding reads_def
proof (intro allI impI)
  fix s :: breader and ptr R rest
  let ?text = "concat (map (\<lambda>(k, v). ks k @ ubjson_prefix v # bs v) m)"
  assume "bin_input s = (CHR ''#'' # cnt @ ?text) @ rest" and slot: "slot s ptr R"
  moreover have "length m < 2 ^ 63" using assms(3) by (simp add: json_max_size_def)
  ultimately obtain s1 where s1: "get_ubjson_size_type s = (Inr (Some (length m, CHR 0x00)), s1)" "moved s (?text @ rest) s1"
    using size_type_count [OF _ assms(4), of s "?text @ rest"] by auto
  have "\<forall>(k, v) \<in> set m. reads (ubjson_internal get_ubjson_value True) (ubjson_prefix v # bs v) (f v)"
    using assms(2) written_reads by fastforce
  then show "\<exists>s'. get_ubjson_object get_ubjson_value s = (Inr True, s') \<and>
      built s rest (R (Object (foldl (\<lambda>acc (k, v). omap_update k (f v) acc) [] m))) s'"
    by (rule object_sized [OF assms(1) _ assms(3) s1 slot]) simp
qed

lemma object_typed:
  assumes "keys_written m ks" and "\<forall>(k, v) \<in> set m. ubjson_written c t v (f v) (bs v) \<and> ubjson_prefix v = x"
    and "m \<noteq> []" and "length m \<le> json_max_size object_t" and "ubjson_unsigned (int (length m)) True = Inr cnt"
  shows "reads (get_ubjson_object get_ubjson_value) (CHR ''$'' # x # CHR ''#'' # cnt @ concat (map (\<lambda>(k, v). ks k @ bs v) m))
    (Object (foldl (\<lambda>acc (k, v). omap_update k (f v) acc) [] m))"
  unfolding reads_def
proof (intro allI impI)
  fix s :: breader and ptr R rest
  let ?text = "concat (map (\<lambda>(k, v). ks k @ bs v) m)"
  assume "bin_input s = (CHR ''$'' # x # CHR ''#'' # cnt @ ?text) @ rest" and slot: "slot s ptr R"
  moreover have "length m < 2 ^ 63" using assms(4) by (simp add: json_max_size_def)
  ultimately obtain s1 where s1: "get_ubjson_size_type s = (Inr (Some (length m, x)), s1)" "moved s (?text @ rest) s1"
    using size_type_typed [OF _ assms(5), of s x "?text @ rest"] by auto
  have "value_prefix x" using assms(2,3) by (cases m) (auto simp: ubjson_written_def)
  then have x: "x \<noteq> CHR 0x00" using value_prefix_neq by auto
  have "\<forall>(k, v) \<in> set m. reads (get_ubjson_value (Some x)) (bs v) (f v)" using assms(2) by (auto simp: ubjson_written_def)
  then show "\<exists>s'. get_ubjson_object get_ubjson_value s = (Inr True, s') \<and>
      built s rest (R (Object (foldl (\<lambda>acc (k, v). omap_update k (f v) acc) [] m))) s'"
    by (rule object_sized [OF assms(1) _ assms(4) s1 slot]) (simp add: x)
qed

lemma ball_entries:
  "\<forall>k \<in> fst ` set m. P k \<Longrightarrow> \<forall>(k, v) \<in> set m. P k" "\<forall>v \<in> snd ` set m. Q v \<Longrightarrow> \<forall>(k, v) \<in> set m. Q v"
  by auto

lemma keys_written_ex:
  assumes "\<forall>(k, v) \<in> set m. length k < 2 ^ 63"
  obtains ks where "keys_written m ks"
proof -
  have "\<forall>k \<in> fst ` set m. \<exists>out. ubjson_text k = Inr out \<and>
      (\<exists>c r. out = c # r \<and> c \<in> set ''UiIlL'' \<and> key_from (get_ubjson_string False) c r k)"
  proof
    fix k
    assume "k \<in> fst ` set m"
    then have "length k < 2 ^ 63" using assms by auto
    from ubjson_text_from [OF this] show "\<exists>out. ubjson_text k = Inr out \<and>
        (\<exists>c r. out = c # r \<and> c \<in> set ''UiIlL'' \<and> key_from (get_ubjson_string False) c r k)" by blast
  qed
  from bchoice [OF this] obtain ks where "\<forall>k \<in> fst ` set m. ubjson_text k = Inr (ks k) \<and>
      (\<exists>c r. ks k = c # r \<and> c \<in> set ''UiIlL'' \<and> key_from (get_ubjson_string False) c r k)" ..
  then have "keys_written m ks" unfolding keys_written_def by (rule ball_entries)
  then show ?thesis by (rule that)
qed

lemma object_written:
  assumes "t \<longrightarrow> c" and "\<forall>(k, v) \<in> set m. length k < 2 ^ 63 \<and> (\<exists>b. ubjson_written c t v (f v) b)"
    and "length m \<le> json_max_size object_t"
  shows "\<exists>b. ubjson_written c t (Object m) (Object (foldl (\<lambda>acc (k, v). omap_update k (f v) acc) [] m)) b"
proof -
  have "\<forall>(k, v) \<in> set m. length k < 2 ^ 63" using assms(2) by auto
  then obtain ks where ks: "keys_written m ks" by (rule keys_written_ex)
  have "\<forall>v \<in> snd ` set m. \<exists>b. ubjson_written c t v (f v) b" using assms(2) by auto
  from bchoice [OF this] obtain bs where "\<forall>v \<in> snd ` set m. ubjson_written c t v (f v) (bs v)" ..
  then have bs: "\<forall>(k, v) \<in> set m. ubjson_written c t v (f v) (bs v)" by (rule ball_entries)
  have "\<forall>(k, v) \<in> set m. ubjson_text k = Inr (ks k) \<and> ubjson_written c t v (f v) (bs v)"
    using bs keys_writtenD(1) [OF ks] by auto
  note members = ubjson_members_written [OF this]
  have "length (map snd m) < 2 ^ 63" using assms(3) by (simp add: json_max_size_def)
  with assms(1) members show ?thesis
  proof (cases rule: ubjson_container_cases [where b = "CHR ''{''" and e = "CHR ''}''" and c = c and t = t and vs = "map snd m"
        and contents = "ubjson_members c t m"
        and body = "\<lambda>p. concat (map (\<lambda>(k, v). ks k @ (if p then [ubjson_prefix v] else []) @ bs v) m)",
        consumes 3, case_names closed counted typed])
    case closed
    then show ?thesis using object_closed [OF ks bs]
      by (intro exI) (auto simp: ubjson_written_def get_ubjson_value_bracket value_prefix_def)
  next
    case (counted cnt)
    then show ?thesis using object_counted [OF ks bs assms(3)]
      by (intro exI) (auto simp: ubjson_written_def get_ubjson_value_bracket value_prefix_def)
  next
    case (typed cnt x)
    then have "\<forall>(k, v) \<in> set m. ubjson_written c t v (f v) (bs v) \<and> ubjson_prefix v = x" using bs by auto
    from object_typed [OF ks this _ assms(3)] typed show ?thesis
      by (intro exI) (auto simp: ubjson_written_def get_ubjson_value_bracket value_prefix_def)
  qed
qed

subsection \<open>All values\<close>

lemma get_ubjson_value_int:
  "ubjson_int_type t = Some k \<Longrightarrow> get_ubjson_value (Some t) =
     optC (get_ubjson_int k) (\<lambda>n. saxC (sax_value (if t = CHR ''U'' then Number_unsigned n else Number_integer n)))"
  by (subst get_ubjson_value_unfold)
    (auto simp: ubjson_body_def ubjson_value_def ubjson_int_type_def split: if_splits)

lemma reads_ubjson_int:
  assumes "ubjson_int_type t = Some k" and "int_range k n" and "0 < fst k"
  shows "reads (get_ubjson_value (Some t)) (write_number (fst k) False n)
    (if t = CHR ''U'' then Number_unsigned n else Number_integer n)"
proof (rule enters_reads, unfold enters_def, intro allI impI)
  fix s :: breader and rest
  assume "bin_input s = write_number (fst k) False n @ rest"
  then obtain s1 where s1: "get_ubjson_int k s = (Inr (Some n), s1)" "moved s rest s1"
    using get_ubjson_int_run assms(2,3) by blast
  have "get_ubjson_value (Some t) s = saxC (sax_value (if t = CHR ''U'' then Number_unsigned n else Number_integer n)) s1"
    by (simp add: get_ubjson_value_int [OF assms(1)] optC_Some [where m = "get_ubjson_int k" and s = s, OF s1(1)])
  with s1(2) show "\<exists>s1. moved s rest s1 \<and> get_ubjson_value (Some t) s =
      saxC (sax_value (if t = CHR ''U'' then Number_unsigned n else Number_integer n)) s1" by blast
qed

lemma unsigned_written:
  assumes "0 \<le> n" and "n < 2 ^ 63"
  shows "\<exists>b. ubjson_written c t (Number_unsigned n) (ubjson_number n) b"
proof (rule ubjson_unsigned_cases [OF assms], goal_cases)
  case (1 x k)
  have "value_prefix x" using 1(7) by (auto simp: value_prefix_def)
  moreover have "(if x = CHR ''U'' then Number_unsigned n else Number_integer n) = ubjson_number n"
    using 1(6) by (simp add: ubjson_number_def)
  ultimately show ?case
    using 1(1) reads_ubjson_int [OF 1(2,4,5)] by (intro exI) (simp add: ubjson_written_def del: ubjson_prefix.simps flip: 1(3))
qed

lemma signed_written:
  assumes "is_int64 n"
  shows "\<exists>b. ubjson_written c t (Number_integer n) (ubjson_number n) b"
proof (cases "0 \<le> n")
  case True
  then have "n < 2 ^ 63" using assms by (simp add: is_int64_def)
  moreover have "ubjson_written c t (Number_integer n) w b \<longleftrightarrow> ubjson_written c t (Number_unsigned n) w b" for w b
    unfolding ubjson_written_def write_ubjson.simps ubjson_signed_nonneg [OF True] ..
  ultimately show ?thesis using unsigned_written [OF True] by simp
next
  case False
  then have "n < 0" by simp
  with assms show ?thesis
  proof (rule ubjson_signed_cases, goal_cases)
    case (1 x k)
    have "value_prefix x" using 1(7) by (auto simp: value_prefix_def)
    then show ?case
      using 1(1,6) reads_ubjson_int [OF 1(2,4,5)] False
      by (intro exI) (simp add: ubjson_written_def ubjson_number_def del: ubjson_prefix.simps flip: 1(3))
  qed
qed

lemma string_written:
  assumes "length s < 2 ^ 63"
  shows "\<exists>b. ubjson_written c t (String s) (String s) b"
proof -
  obtain x out where x: "ubjson_text s = Inr (x # out)" "key_from (get_ubjson_string False) x out s"
    using ubjson_text_from [OF assms] by blast
  have get: "get_ubjson_value (Some (CHR ''S'')) = optC (get_ubjson_string True) (\<lambda>s. saxC (sax_value (String s)))"
    by (subst get_ubjson_value_unfold) (simp add: ubjson_body_def ubjson_value_def)
  have "reads (get_ubjson_value (Some (CHR ''S''))) (x # out) (String s)"
  proof (rule enters_reads, unfold enters_def, intro allI impI)
    fix st :: breader and rest
    assume "bin_input st = (x # out) @ rest"
    then obtain s1 where s1: "get_ubjson_string True st = (Inr (Some s), s1)" "moved st rest s1"
      using key_from_reads [OF x(2)] unfolding reads_key_def by blast
    then have "get_ubjson_value (Some (CHR ''S'')) st = saxC (sax_value (String s)) s1"
      by (simp add: get optC_def bindC_def)
    with s1(2) show "\<exists>s1. moved st rest s1 \<and> get_ubjson_value (Some (CHR ''S'')) st = saxC (sax_value (String s)) s1" by blast
  qed
  then show ?thesis by (intro exI [of _ "x # out"]) (simp add: ubjson_written_def x(1) value_prefix_def)
qed

lemma float_written: "\<exists>b. ubjson_written c t (Number_float d) (Number_float d) b"
proof -
  have get: "get_ubjson_value (Some (CHR ''D'')) =
      optC (get_number 8 False ubjson_fmt) (\<lambda>n. saxC (sax_value (Number_float (of_nat n))))"
    by (subst get_ubjson_value_unfold) (simp add: ubjson_body_def ubjson_value_def)
  have id: "nat (int (unat d) mod 256 ^ 8) = unat d" using unat_double_less [of d] by (simp add: nat_mod_distrib)
  have "reads (get_ubjson_value (Some (CHR ''D''))) (write_number 8 False (int (unat d))) (Number_float d)"
  proof (rule enters_reads, unfold enters_def, intro allI impI)
    fix s :: breader and rest
    assume "bin_input s = write_number 8 False (int (unat d)) @ rest"
    then obtain s1 where s1: "get_number 8 False ubjson_fmt s = (Inr (Some (unat d)), s1)" "moved s rest s1"
      using get_number_run [of s 8 False "int (unat d)" rest ubjson_fmt] id by auto
    then have "get_ubjson_value (Some (CHR ''D'')) s = saxC (sax_value (Number_float d)) s1"
      by (simp add: get optC_def bindC_def)
    with s1(2) show "\<exists>s1. moved s rest s1 \<and> get_ubjson_value (Some (CHR ''D'')) s = saxC (sax_value (Number_float d)) s1" by blast
  qed
  then show ?thesis by (intro exI) (simp add: ubjson_written_def ubjson_float_def value_prefix_def)
qed

text \<open>Null and the booleans are their prefixes.\<close>

lemma prefix_only_written:
  assumes "\<And>p. write_ubjson c t v p = Inr (if p then [ubjson_prefix v] else [])" and "value_prefix (ubjson_prefix v)"
    and "ubjson_value get_ubjson_value (ubjson_prefix v) = saxC (sax_value v)"
  shows "\<exists>b. ubjson_written c t v v b"
proof -
  have "get_ubjson_value (Some (ubjson_prefix v)) = saxC (sax_value v)"
    by (subst get_ubjson_value_unfold) (simp add: ubjson_body_def assms(3))
  then have "reads (get_ubjson_value (Some (ubjson_prefix v))) [] v"
    by (intro enters_reads) (auto simp: enters_def moved_def)
  then show ?thesis using assms(1,2) by (intro exI [of _ "[]"]) (simp add: ubjson_written_def)
qed

lemma value_written:
  assumes "t \<longrightarrow> c"
  shows "json_ok v \<Longrightarrow> ubjson_fits v \<Longrightarrow> \<exists>b. ubjson_written c t v (ubjson_form v) b"
    and "members_ok m \<Longrightarrow> ubjson_members_fit m \<Longrightarrow>
      \<forall>(k, v) \<in> set m. length k < 2 ^ 63 \<and> (\<exists>b. ubjson_written c t v (ubjson_form v) b)"
    and "elems_ok a \<Longrightarrow> ubjson_elems_fit a \<Longrightarrow> \<forall>v \<in> set a. \<exists>b. ubjson_written c t v (ubjson_form v) b"
proof (induction v and m and a rule: json_ok_members_ok_elems_ok.induct)
  case (1 m)
  have "foldl (\<lambda>acc (k, v). omap_update k (ubjson_form v) acc) [] m =
      foldl (\<lambda>acc (k, w). omap_update k w acc) [] (ubjson_form_members m)"
    by (simp add: ubjson_form_map foldl_map case_prod_beta')
  also have "\<dots> = ubjson_form_members m"
    using foldl_omap [of "[]" "ubjson_form_members m"] 1(2)
    by (simp add: ubjson_form_map omap_ok_def sorted_wrt_map case_prod_beta)
  finally show ?case using object_written [OF assms, of m ubjson_form] 1 by simp
next
  case (2 a)
  then show ?case using array_written [OF assms, of a ubjson_form] by (simp add: ubjson_form_map)
qed (auto simp: signed_written unsigned_written string_written float_written is_uint64_def ubjson_value_def value_prefix_def
    intro!: prefix_only_written)

section \<open>Documents\<close>

lemma reads_document_noop:
  assumes "reads parse out v"
  shows "from_binary (bin_sax_parse fmt parse get_ignore_noop only) allow out = Inr v"
proof -
  let ?s = "breader_init allow out"
  have slot: "slot ?s [] (\<lambda>w. w)" by (rule slot_root) (simp add: breader_init_def)
  have "bin_input ?s = out @ []" by (simp add: breader_init_def)
  then obtain s' where s': "parse ?s = (Inr True, s')" "built ?s [] v s'" using readsD [OF assms _ slot] by blast
  have "bin_input s' = []" using s'(2) by (simp add: built_def)
  from noop_Nil [OF this] s' show ?thesis
    by (auto simp: from_binary_def bin_sax_parse_def bindC_def seqC_def built_def getC_def returnC_def)
qed

lemma from_to_ubjson:
  assumes "json_ok v" and "ubjson_fits v" and "use_type \<longrightarrow> use_size"
  shows "\<exists>out. to_ubjson v use_size use_type = Inr out \<and> from_ubjson only allow out = Inr (ubjson_form v)"
proof -
  obtain b where b: "ubjson_written use_size use_type v (ubjson_form v) b" using value_written(1) [OF assms(3,1,2)] by blast
  then have "to_ubjson v use_size use_type = Inr (ubjson_prefix v # b)" by (simp add: to_ubjson_def ubjson_written_def)
  then show ?thesis
    using reads_document_noop [OF written_reads [OF b]] by (simp add: from_ubjson_def parse_ubjson_internal_def)
qed

lemma json_eq_ubjson_form:
  shows "comparable v \<Longrightarrow> json_ok v \<Longrightarrow> ubjson_fits v \<Longrightarrow> json_eq v (ubjson_form v)"
    and "members_comparable m \<Longrightarrow> members_ok m \<Longrightarrow> ubjson_members_fit m \<Longrightarrow> members_eq m (ubjson_form_members m)"
    and "elems_comparable a \<Longrightarrow> elems_ok a \<Longrightarrow> ubjson_elems_fit a \<Longrightarrow> elems_eq a (ubjson_form_elems a)"
  by (induction v and m and a rule: comparable_members_comparable_elems_comparable.induct)
    (auto simp: double_eq_refl to_int64_id is_int64_def is_uint64_def ubjson_number_def)

end
