(* ===== verification/Json_Pointer.thy ===== *)
theory Json_Pointer
  imports Json_Access
begin

text \<open>
  Class \<open>json_pointer\<close> (RFC 6901): a pointer is its list of reference tokens. \<open>split\<close> and \<open>to_string\<close>
  convert from and to the textual form; the resolution functions return the path to the element they refer
  to, and \<open>get_unchecked\<close> and \<open>get_and_create\<close> also create what is missing on the way.
\<close>

type_synonym json_pointer = "string list"

section \<open>Text\<close>

text \<open>
  \<open>replace_substring\<close> replaces the occurrences from left to right and goes on behind the replacement; an
  empty search string is an assertion failure, which no call reaches.
\<close>

fun replace_substring :: "string \<Rightarrow> string \<Rightarrow> string \<Rightarrow> string" where
  "replace_substring s f t =
     (if s = [] \<or> f = [] then s
      else if take (length f) s = f then t @ replace_substring (drop (length f) s) f t
      else hd s # replace_substring (tl s) f t)"

declare replace_substring.simps [simp del]

definition escape :: "string \<Rightarrow> string" where
  "escape s = replace_substring (replace_substring s ''~'' ''~0'') ''/'' ''~1''"

definition unescape :: "string \<Rightarrow> string" where
  "unescape s = replace_substring (replace_substring s ''~1'' ''/'') ''~0'' ''~''"

definition to_string :: "json_pointer \<Rightarrow> string" where
  "to_string reference_tokens = foldl (\<lambda>a b. a @ ''/'' @ escape b) [] reference_tokens"

text \<open>The loop over the positions of \<open>~\<close>.\<close>

fun tildes_ok :: "string \<Rightarrow> bool" where
  "tildes_ok [] = True"
| "tildes_ok (c # cs) =
     ((c = CHR ''~'' \<longrightarrow> cs \<noteq> [] \<and> (hd cs = CHR ''0'' \<or> hd cs = CHR ''1'')) \<and> tildes_ok cs)"

text \<open>The text after a slash: the token ends at the next one.\<close>

function split_loop :: "string \<Rightarrow> exn + string list" where
  "split_loop s =
     (let reference_token = takeWhile (\<lambda>c. c \<noteq> CHR ''/'') s; rest = dropWhile (\<lambda>c. c \<noteq> CHR ''/'') s in
      if \<not> tildes_ok reference_token
      then Inl (parse_error_at 108 0
             (''escape character '' @ squote @ ''~'' @ squote @ '' must be followed with '' @
              squote @ ''0'' @ squote @ '' or '' @ squote @ ''1'' @ squote))
      else if rest = [] then Inr [unescape reference_token]
      else mapR ((#) (unescape reference_token)) (split_loop (tl rest)))"
  by auto

termination split_loop
proof (relation "measure length")
  fix s x xa
  assume xa: "xa = dropWhile (\<lambda>c. c \<noteq> CHR ''/'') s" and "xa \<noteq> []"
  then have "length (tl xa) < length xa" by simp
  also have "\<dots> \<le> length s" unfolding xa by (rule length_dropWhile_le)
  finally show "(tl xa, s) \<in> measure length" by simp
qed simp

declare split_loop.simps [simp del]

definition split :: "string \<Rightarrow> exn + json_pointer" where
  "split reference_string =
     (if reference_string = [] then Inr []
      else if hd reference_string \<noteq> CHR ''/''
      then Inl (parse_error_at 107 1
             (''JSON pointer must be empty or begin with '' @ squote @ ''/'' @ squote @ '' - was: '' @
              squote @ reference_string @ squote))
      else split_loop (tl reference_string))"

section \<open>The list of tokens\<close>

definition append_pointer :: "json_pointer \<Rightarrow> json_pointer \<Rightarrow> json_pointer" where
  "append_pointer lhs rhs = lhs @ rhs"

definition append_token :: "json_pointer \<Rightarrow> string \<Rightarrow> json_pointer" where
  "append_token ptr token = ptr @ [token]"

definition append_index :: "json_pointer \<Rightarrow> nat \<Rightarrow> json_pointer" where
  "append_index ptr i = append_token ptr (show_nat i)"

definition no_parent :: exn where
  "no_parent = out_of_range_create 405 ''JSON pointer has no parent''"

definition ptr_pop_back :: "json_pointer \<Rightarrow> exn + json_pointer" where
  "ptr_pop_back ptr = (if ptr = [] then Inl no_parent else Inr (butlast ptr))"

definition ptr_back :: "json_pointer \<Rightarrow> exn + string" where
  "ptr_back ptr = (if ptr = [] then Inl no_parent else Inr (last ptr))"

definition ptr_top :: "json_pointer \<Rightarrow> exn + json_pointer" where
  "ptr_top ptr = (if ptr = [] then Inl no_parent else Inr [hd ptr])"

definition parent_pointer :: "json_pointer \<Rightarrow> json_pointer" where
  "parent_pointer ptr = (if ptr = [] then ptr else butlast ptr)"

section \<open>Array indices\<close>

text \<open>
  \<open>std::stoi\<close> with the number of characters it has read. It throws \<open>std::invalid_argument\<close> when there is no
  digit and \<open>std::out_of_range\<close> when the number does not fit an \<open>int\<close>.
\<close>

definition stoi :: "string \<Rightarrow> exn + (int \<times> nat)" where
  "stoi s =
     (let t = dropWhile is_space s;
          u = (if t \<noteq> [] \<and> (hd t = CHR ''-'' \<or> hd t = CHR ''+'') then tl t else t);
          digits = takeWhile is_digit u;
          n = int (read_digits 0 digits);
          res = (if t \<noteq> [] \<and> hd t = CHR ''-'' then - n else n)
      in if digits = [] then Inl (Invalid_argument ''stoi'')
         else if \<not> is_int32 res then Inl (Std_out_of_range ''stoi'')
         else Inr (res, length s - length u + length digits))"

definition unresolved :: "string \<Rightarrow> exn" where
  "unresolved token = out_of_range_create 404 (''unresolved reference token '' @ squote @ token @ squote)"

definition array_index :: "string \<Rightarrow> exn + int" where
  "array_index s =
     bindR (stoi s) (\<lambda>(res, processed_chars). if processed_chars \<noteq> length s then Inl (unresolved s) else Inr res)"

text \<open>\<open>static_cast<size_type>\<close> of an \<open>int\<close>.\<close>

definition to_size :: "int \<Rightarrow> nat" where
  "to_size i = nat (i mod 2 ^ 64)"

text \<open>The index with the handler for \<open>std::invalid_argument\<close>, and with the check for leading zeros.\<close>

definition caught_index :: "string \<Rightarrow> exn + nat" where
  "caught_index token =
     (case array_index token of
        Inl (Invalid_argument w) \<Rightarrow>
          Inl (parse_error_at 109 0 (''array index '' @ squote @ token @ squote @ '' is not a number''))
      | Inl e \<Rightarrow> Inl e
      | Inr i \<Rightarrow> Inr (to_size i))"

definition token_index :: "string \<Rightarrow> exn + nat" where
  "token_index token =
     (if 1 < length token \<and> hd token = CHR ''0''
      then Inl (parse_error_at 106 0
             (''array index '' @ squote @ token @ squote @ '' must not begin with '' @ squote @ ''0'' @ squote))
      else caught_index token)"

definition dash_error :: "nat \<Rightarrow> exn" where
  "dash_error n =
     out_of_range_create 402 (''array index '' @ squote @ ''-'' @ squote @ '' ('' @ show_nat n @ '') is out of range'')"

section \<open>Resolution\<close>

text \<open>The bodies of the loops over the tokens: one step from a value to an element.\<close>

definition checked_step :: "string \<Rightarrow> json \<Rightarrow> exn + (ptr_step \<times> json)" where
  "checked_step token j =
     (case j of
        Object m \<Rightarrow> mapR (\<lambda>v. (Key token, v)) (at_key token j)
      | Array a \<Rightarrow>
          if token = ''-'' then Inl (dash_error (length a))
          else bindR (token_index token) (\<lambda>i. mapR (\<lambda>v. (Index i, v)) (at_index i j))
      | _ \<Rightarrow> Inl (unresolved token))"

fun get_checked :: "json_pointer \<Rightarrow> json \<Rightarrow> exn + pointer" where
  "get_checked [] j = Inr []"
| "get_checked (token # tokens) j =
     bindR (checked_step token j) (\<lambda>(s, v). mapR ((#) s) (get_checked tokens v))"

fun get_checked_const :: "json_pointer \<Rightarrow> json \<Rightarrow> exn + json" where
  "get_checked_const [] j = Inr j"
| "get_checked_const (token # tokens) j = bindR (checked_step token j) (\<lambda>(s, v). get_checked_const tokens v)"

definition const_step :: "string \<Rightarrow> json \<Rightarrow> exn + json" where
  "const_step token j =
     (case j of
        Object m \<Rightarrow> key_const token j
      | Array a \<Rightarrow>
          if token = ''-'' then Inl (dash_error (length a))
          else bindR (token_index token) (\<lambda>i. index_const i j)
      | _ \<Rightarrow> Inl (unresolved token))"

fun get_unchecked_const :: "json_pointer \<Rightarrow> json \<Rightarrow> exn + json" where
  "get_unchecked_const [] j = Inr j"
| "get_unchecked_const (token # tokens) j = bindR (const_step token j) (get_unchecked_const tokens)"

fun contains_pointer :: "json_pointer \<Rightarrow> json \<Rightarrow> exn + bool" where
  "contains_pointer [] j = Inr True"
| "contains_pointer (token # tokens) j =
     (case j of
        Object m \<Rightarrow>
          if \<not> contains token j then Inr False
          else bindR (key_const token j) (contains_pointer tokens)
      | Array a \<Rightarrow>
          if token = ''-'' then Inr False
          else bindR (token_index token) (\<lambda>i.
            if json_size j \<le> i then Inr False else bindR (index_const i j) (contains_pointer tokens))
      | _ \<Rightarrow> Inr False)"

text \<open>
  \<open>via p m\<close> runs \<open>m\<close> on the element that the pointer \<open>p\<close> refers to. \<open>follow\<close> is a loop over the tokens whose
  steps also change the value.
\<close>

definition via :: "pointer \<Rightarrow> (json, exn, 'a) cmd \<Rightarrow> (json, exn, 'a) cmd" where
  "via p m j =
     (case json_at p j of
        None \<Rightarrow> (Inl (Undefined_behaviour ''element pointer''), j)
      | Some v \<Rightarrow> (fst (m v), json_put p (snd (m v)) j))"

primrec follow :: "(string \<Rightarrow> (json, exn, ptr_step) cmd) \<Rightarrow> json_pointer \<Rightarrow> (json, exn, pointer) cmd" where
  "follow step [] = returnC []"
| "follow step (token # tokens) =
     bindC (step token) (\<lambda>s. bindC (via [s] (follow step tokens)) (\<lambda>p. returnC (s # p)))"

definition unchecked_step :: "string \<Rightarrow> (json, exn, ptr_step) cmd" where
  "unchecked_step token j =
     (let nums = list_all is_digit token;
          j' = (if json_type j = null_t then json_of_type (if nums \<or> token = ''-'' then array_t else object_t) else j)
      in case j' of
           Object m \<Rightarrow> key_slot token j'
         | Array a \<Rightarrow>
             if token = ''-'' then array_slot (length a) j'
             else (case token_index token of Inl e \<Rightarrow> (Inl e, j') | Inr i \<Rightarrow> array_slot i j')
         | _ \<Rightarrow> (Inl (unresolved token), j'))"

definition get_unchecked :: "json_pointer \<Rightarrow> (json, exn, pointer) cmd" where
  "get_unchecked = follow unchecked_step"

definition create_step :: "string \<Rightarrow> (json, exn, ptr_step) cmd" where
  "create_step token j =
     (case j of
        Null \<Rightarrow> if token = ''0'' then array_slot 0 j else key_slot token j
      | Object m \<Rightarrow> key_slot token j
      | Array a \<Rightarrow> (case caught_index token of Inl e \<Rightarrow> (Inl e, j) | Inr i \<Rightarrow> array_slot i j)
      | _ \<Rightarrow> (Inl (type_error_create 313 ''invalid value to unflatten''), j))"

definition get_and_create :: "json_pointer \<Rightarrow> (json, exn, pointer) cmd" where
  "get_and_create = follow create_step"

section \<open>\<open>flatten\<close> and \<open>unflatten\<close>\<close>

fun flatten :: "string \<Rightarrow> json \<Rightarrow> (string \<times> json) list \<Rightarrow> (string \<times> json) list"
  and flatten_elems :: "string \<Rightarrow> nat \<Rightarrow> json list \<Rightarrow> (string \<times> json) list \<Rightarrow> (string \<times> json) list"
  and flatten_members :: "string \<Rightarrow> (string \<times> json) list \<Rightarrow> (string \<times> json) list \<Rightarrow> (string \<times> json) list" where
  "flatten reference_string (Array a) result =
     (if a = [] then omap_update reference_string Null result else flatten_elems reference_string 0 a result)"
| "flatten reference_string (Object m) result =
     (if m = [] then omap_update reference_string Null result else flatten_members reference_string m result)"
| "flatten reference_string v result = omap_update reference_string v result"
| "flatten_elems reference_string i [] result = result"
| "flatten_elems reference_string i (v # a) result =
     flatten_elems reference_string (Suc i) a (flatten (reference_string @ ''/'' @ show_nat i) v result)"
| "flatten_members reference_string [] result = result"
| "flatten_members reference_string ((k, v) # m) result =
     flatten_members reference_string m (flatten (reference_string @ ''/'' @ escape k) v result)"

definition json_flatten :: "json \<Rightarrow> json" where
  "json_flatten j = Object (flatten [] j [])"

definition is_primitive :: "json \<Rightarrow> bool" where
  "is_primitive j \<longleftrightarrow> json_type j \<notin> {object_t, array_t, discarded_t}"

definition unflatten_entry :: "string \<times> json \<Rightarrow> (json, exn, unit) cmd" where
  "unflatten_entry element =
     (if \<not> is_primitive (snd element) then throwC (type_error_create 315 ''values in object must be primitive'')
      else bindC (liftR (split (fst element))) (\<lambda>tokens.
           bindC (get_and_create tokens) (\<lambda>p. modifyC (json_put p (snd element)))))"

definition unflatten :: "json \<Rightarrow> exn + json" where
  "unflatten j =
     (case j of
        Object m \<Rightarrow> (case forC m unflatten_entry Null of (Inl e, _) \<Rightarrow> Inl e | (Inr _, result) \<Rightarrow> Inr result)
      | _ \<Rightarrow> Inl (type_error_create 314 ''only objects can be unflattened''))"

end
