(* ===== verification/Json_Patch.thy ===== *)
theory Json_Patch
  imports Json_Pointer Json_Serializer
begin

text \<open>
  JSON Patch (RFC 6902) and JSON Merge Patch (RFC 7396): the functions \<open>patch\<close>, \<open>diff\<close> and \<open>merge_patch\<close> of
  \<open>basic_json\<close>. The state of an operation is the working copy \<open>result\<close>.
\<close>

section \<open>\<open>patch\<close>\<close>

datatype patch_operations = op_add | op_remove | op_replace | op_move | op_copy | op_test | op_invalid

definition get_op :: "string \<Rightarrow> patch_operations" where
  "get_op op =
     (if op = ''add'' then op_add
      else if op = ''remove'' then op_remove
      else if op = ''replace'' then op_replace
      else if op = ''move'' then op_move
      else if op = ''copy'' then op_copy
      else if op = ''test'' then op_test
      else op_invalid)"

text \<open>\<open>insert(begin() + idx, val)\<close> of an array.\<close>

definition insert_at :: "nat \<Rightarrow> json \<Rightarrow> (json, exn, unit) cmd" where
  "insert_at idx val j =
     (case j of
        Array a \<Rightarrow> (Inr (), Array (take idx a @ val # drop idx a))
      | _ \<Rightarrow> (Inl (type_error_create 309 (''cannot use insert() with '' @ type_name j)), j))"

definition add_to_parent :: "string \<Rightarrow> json \<Rightarrow> (json, exn, unit) cmd" where
  "add_to_parent last_path val parent =
     (if json_type parent = null_t \<or> json_type parent = object_t
      then bindC (key_slot last_path) (\<lambda>s. modifyC (json_put [s] val)) parent
      else if json_type parent = array_t
      then (if last_path = ''-'' then push_back val parent
            else bindC (liftR (array_index last_path)) (\<lambda>idx.
              if to_size idx > json_size parent
              then throwC (out_of_range_create 401 (''array index '' @ show_int idx @ '' is out of range''))
              else insert_at (to_size idx) val) parent)
      else (Inl (Assertion_failed ''false''), parent))"

text \<open>\<open>result.at(ptr)\<close>\<close>

definition result_at :: "json_pointer \<Rightarrow> (json, exn, pointer) cmd" where
  "result_at ptr j = (get_checked ptr j, j)"

definition operation_add :: "json_pointer \<Rightarrow> json \<Rightarrow> (json, exn, unit) cmd" where
  "operation_add ptr val =
     (if ptr = [] then modifyC (\<lambda>_. val)
      else bindC (liftR (ptr_top ptr)) (\<lambda>top_pointer.
        seqC (if top_pointer \<noteq> ptr then seqC (result_at top_pointer) (returnC ()) else returnC ())
          (bindC (liftR (ptr_back ptr)) (\<lambda>last_path.
            bindC (liftR (ptr_pop_back ptr)) (\<lambda>ptr.
              bindC (get_unchecked ptr) (\<lambda>p. via p (add_to_parent last_path val)))))))"

definition remove_child :: "string \<Rightarrow> (json, exn, unit) cmd" where
  "remove_child last_path parent =
     (if is_object parent
      then (if json_find last_path parent \<noteq> None then seqC (erase_key last_path) (returnC ()) parent
            else (Inl (out_of_range_create 403 (''key '' @ squote @ last_path @ squote @ '' not found'')), parent))
      else if is_array parent then bindC (liftR (array_index last_path)) (\<lambda>i. erase_index (to_size i)) parent
      else (Inr (), parent))"

definition operation_remove :: "json_pointer \<Rightarrow> (json, exn, unit) cmd" where
  "operation_remove ptr =
     bindC (liftR (ptr_back ptr)) (\<lambda>last_path.
       bindC (liftR (ptr_pop_back ptr)) (\<lambda>ptr.
         bindC (result_at ptr) (\<lambda>p. via p (remove_child last_path))))"

text \<open>A member of an operation.\<close>

definition patch_member :: "json \<Rightarrow> string \<Rightarrow> string \<Rightarrow> bool \<Rightarrow> exn + json" where
  "patch_member val op member string_type =
     (let error_msg = (if op = ''op'' then ''operation'' else ''operation '' @ squote @ op @ squote) in
      case json_find member val of
        None \<Rightarrow> Inl (parse_error_at 105 0 (error_msg @ '' must have member '' @ squote @ member @ squote))
      | Some v \<Rightarrow>
          if string_type \<and> json_type v \<noteq> string_t
          then Inl (parse_error_at 105 0 (error_msg @ '' must have string member '' @ squote @ member @ squote))
          else Inr v)"

definition patch_string :: "json \<Rightarrow> string \<Rightarrow> string \<Rightarrow> exn + string" where
  "patch_string val op member = bindR (patch_member val op member True) get_string"

text \<open>
  The condition of \<open>test\<close>: only \<open>out_of_range\<close> exceptions are caught. Here and in \<open>replace\<close> the operands are
  evaluated from left to right; C++11 leaves their order open.
\<close>

definition test_success :: "json_pointer \<Rightarrow> json \<Rightarrow> json \<Rightarrow> exn + bool" where
  "test_success ptr val result =
     (case bindR (get_checked_const ptr result) (\<lambda>v. mapR (json_eq v) (patch_member val ''test'' ''value'' False)) of
        Inl (Out_of_range i w) \<Rightarrow> Inr False
      | r \<Rightarrow> r)"

definition apply_operation :: "json \<Rightarrow> (json, exn, unit) cmd" where
  "apply_operation val =
     (if \<not> is_object val then throwC (parse_error_at 104 0 ''JSON patch must be an array of objects'')
      else bindC (liftR (patch_string val ''op'' ''op'')) (\<lambda>op.
        bindC (liftR (patch_string val op ''path'')) (\<lambda>path.
          bindC (liftR (split path)) (\<lambda>ptr.
            case get_op op of
              op_add \<Rightarrow> bindC (liftR (patch_member val ''add'' ''value'' False)) (operation_add ptr)
            | op_remove \<Rightarrow> operation_remove ptr
            | op_replace \<Rightarrow>
                bindC (result_at ptr) (\<lambda>p.
                  bindC (liftR (patch_member val ''replace'' ''value'' False)) (\<lambda>v. modifyC (json_put p v)))
            | op_move \<Rightarrow>
                bindC (liftR (patch_string val ''move'' ''from'')) (\<lambda>from_path.
                  bindC (liftR (split from_path)) (\<lambda>from_ptr.
                    bindC (\<lambda>result. (get_checked_const from_ptr result, result)) (\<lambda>v.
                      seqC (operation_remove from_ptr) (operation_add ptr v))))
            | op_copy \<Rightarrow>
                bindC (liftR (patch_string val ''copy'' ''from'')) (\<lambda>from_path.
                  bindC (liftR (split from_path)) (\<lambda>from_ptr.
                    bindC (\<lambda>result. (get_checked_const from_ptr result, result)) (operation_add ptr)))
            | op_test \<Rightarrow>
                bindC (\<lambda>result. (test_success ptr val result, result)) (\<lambda>success.
                  if success then returnC ()
                  else bindC (liftR (dump_default val)) (\<lambda>text.
                    throwC (other_error_create 501 (''unsuccessful: '' @ text))))
            | op_invalid \<Rightarrow>
                throwC (parse_error_at 105 0 (''operation value '' @ squote @ op @ squote @ '' is invalid''))))))"

definition json_patch :: "json \<Rightarrow> json \<Rightarrow> exn + json" where
  "json_patch p j =
     (case p of
        Array operations \<Rightarrow>
          (case forC operations apply_operation j of (Inl e, _) \<Rightarrow> Inl e | (Inr _, result) \<Rightarrow> Inr result)
      | _ \<Rightarrow> Inl (parse_error_at 104 0 ''JSON patch must be an array of objects''))"

section \<open>\<open>diff\<close>\<close>

text \<open>The operations; the members of an object are in the order of their keys.\<close>

definition add_entry :: "string \<Rightarrow> json \<Rightarrow> json" where
  "add_entry path v = Object [(''op'', String ''add''), (''path'', String path), (''value'', v)]"

definition remove_entry :: "string \<Rightarrow> json" where
  "remove_entry path = Object [(''op'', String ''remove''), (''path'', String path)]"

definition replace_entry :: "string \<Rightarrow> json \<Rightarrow> json" where
  "replace_entry path v = Object [(''op'', String ''replace''), (''path'', String path), (''value'', v)]"

text \<open>
  The elements of the array that is returned. The removals are inserted in front of each other, so the
  one with the largest index comes first.
\<close>

fun diff :: "json \<Rightarrow> json \<Rightarrow> string \<Rightarrow> json list"
  and diff_elems :: "nat \<Rightarrow> json list \<Rightarrow> json list \<Rightarrow> string \<Rightarrow> json list"
  and diff_members :: "(string \<times> json) list \<Rightarrow> (string \<times> json) list \<Rightarrow> string \<Rightarrow> json list" where
  "diff (Array a) target path =
     (if json_eq (Array a) target then []
      else case target of
        Array b \<Rightarrow>
          diff_elems 0 a b path @
          rev (map (\<lambda>i. remove_entry (path @ ''/'' @ show_nat i)) [length b..<length a]) @
          map (\<lambda>i. add_entry (path @ ''/'' @ show_nat i) (b ! i)) [length a..<length b]
      | _ \<Rightarrow> [replace_entry path target])"
| "diff (Object m) target path =
     (if json_eq (Object m) target then []
      else case target of
        Object n \<Rightarrow>
          diff_members m n path @
          map (\<lambda>(k, v). add_entry (path @ ''/'' @ escape k) v) (filter (\<lambda>(k, v). map_of m k = None) n)
      | _ \<Rightarrow> [replace_entry path target])"
| "diff source target path = (if json_eq source target then [] else [replace_entry path target])"
| "diff_elems i [] b path = []"
| "diff_elems i (v # a) b path =
     (case b of [] \<Rightarrow> [] | w # b' \<Rightarrow> diff v w (path @ ''/'' @ show_nat i) @ diff_elems (Suc i) a b' path)"
| "diff_members [] n path = []"
| "diff_members ((k, v) # m) n path =
     (case map_of n k of
        Some w \<Rightarrow> diff v w (path @ ''/'' @ escape k)
      | None \<Rightarrow> [remove_entry (path @ ''/'' @ escape k)]) @ diff_members m n path"

definition json_diff :: "json \<Rightarrow> json \<Rightarrow> json" where
  "json_diff source target = Array (diff source target [])"

section \<open>\<open>merge_patch\<close>\<close>

fun merge_patch :: "json \<Rightarrow> json \<Rightarrow> json"
  and merge_members :: "(string \<times> json) list \<Rightarrow> (string \<times> json) list \<Rightarrow> (string \<times> json) list" where
  "merge_patch (Object p) j = Object (merge_members p (case j of Object m \<Rightarrow> m | _ \<Rightarrow> []))"
| "merge_patch p j = p"
| "merge_members [] m = m"
| "merge_members ((k, v) # p) m =
     merge_members p
       (if json_type v = null_t then omap_erase k m
        else omap_update k (merge_patch v (case map_of m k of Some w \<Rightarrow> w | None \<Rightarrow> Null)) m)"

end
