(* ===== verification/Json_Pointer_Text.thy ===== *)
theory Json_Pointer_Text
  imports Json_Pointer
begin

text \<open>
  The textual form of a JSON pointer: \<open>split\<close> and \<open>to_string\<close> are inverse to each other, in both directions,
  and the text of an array index is read back as that index.
\<close>

section \<open>Escaping\<close>

lemma replace_single:
  "replace_substring s [c] t = concat (map (\<lambda>x. if x = c then t else [x]) s)"
  by (induction s) (simp_all add: replace_substring.simps)

definition esc_token :: "char \<Rightarrow> string" where
  "esc_token x = (if x = CHR ''~'' then ''~0'' else if x = CHR ''/'' then ''~1'' else [x])"

lemma escape_concat: "escape s = concat (map esc_token s)"
  unfolding escape_def replace_single
  by (induction s) (auto simp: esc_token_def)

lemma escape_simps [simp]: "escape [] = []" "escape (x # s) = esc_token x @ escape s"
  by (simp_all add: escape_concat)

lemma escape_no_slash: "CHR ''/'' \<notin> set (escape s)"
  by (induction s) (auto simp: esc_token_def)

lemma tildes_ok_escape: "tildes_ok (escape s)"
  by (induction s) (auto simp: esc_token_def)

lemma replace_two:
  "replace_substring [] [a, b] t = []"
  "replace_substring [x] [a, b] t = [x]"
  "replace_substring (x # y # s) [a, b] t =
     (if x = a \<and> y = b then t @ replace_substring s [a, b] t else x # replace_substring (y # s) [a, b] t)"
  by (simp_all add: replace_substring.simps)

lemma replace_two_other: "x \<noteq> a \<Longrightarrow> replace_substring (x # s) [a, b] t = x # replace_substring s [a, b] t"
  by (cases s) (simp_all add: replace_two)

lemma unescape_first:
  "replace_substring (escape s) ''~1'' ''/'' = concat (map (\<lambda>x. if x = CHR ''~'' then ''~0'' else [x]) s)"
  by (induction s) (simp_all add: esc_token_def replace_two replace_two_other)

lemma unescape_escape [simp]: "unescape (escape s) = s"
  unfolding unescape_def unescape_first
  by (induction s) (simp_all add: replace_two replace_two_other)

text \<open>The other direction, for a token that \<open>split\<close> accepts.\<close>

lemma replace_tail_no_slash:
  assumes "tildes_ok s" and "CHR ''/'' \<notin> set s"
  shows "escape (replace_substring (replace_substring s ''~1'' ''/'') ''~0'' ''~'') = s"
  using assms
proof (induction s rule: length_induct)
  case (1 s)
  show ?case
  proof (cases s)
    case (Cons x r)
    show ?thesis
    proof (cases "x = CHR ''~''")
      case True
      then obtain y q where r: "r = y # q" "y = CHR ''0'' \<or> y = CHR ''1''"
        using "1.prems"(1) Cons by (cases r) auto
      have "escape (replace_substring (replace_substring q ''~1'' ''/'') ''~0'' ''~'') = q"
        using 1 Cons r by auto
      with r True Cons show ?thesis
        by (auto simp: replace_two replace_two_other esc_token_def)
    next
      case False
      have "escape (replace_substring (replace_substring r ''~1'' ''/'') ''~0'' ''~'') = r"
        using 1 Cons by auto
      with False "1.prems"(2) Cons show ?thesis
        by (auto simp: replace_two_other esc_token_def)
    qed
  qed (simp add: replace_two)
qed

lemma escape_unescape: "tildes_ok s \<Longrightarrow> CHR ''/'' \<notin> set s \<Longrightarrow> escape (unescape s) = s"
  unfolding unescape_def by (rule replace_tail_no_slash)

section \<open>Splitting\<close>

lemma to_string_foldl: "foldl (\<lambda>a b. a @ ''/'' @ escape b) acc ts = acc @ to_string ts"
proof (induction ts arbitrary: acc)
  case (Cons t ts)
  show ?case
    using Cons [of "acc @ ''/'' @ escape t"] Cons [of "''/'' @ escape t"] by (simp add: to_string_def)
qed (simp add: to_string_def)

lemma to_string_simps [simp]:
  "to_string [] = []"
  "to_string (t # ts) = CHR ''/'' # escape t @ to_string ts"
  using to_string_foldl [of "''/'' @ escape t" ts] by (simp_all add: to_string_def)

lemma to_string_append [simp]: "to_string (ts @ us) = to_string ts @ to_string us"
  by (induction ts) simp_all

lemma hd_to_string: "ts \<noteq> [] \<Longrightarrow> hd (to_string ts) = CHR ''/''"
  by (cases ts) simp_all

lemma split_loop_token:
  assumes "CHR ''/'' \<notin> set u" and "r = [] \<or> hd r = CHR ''/''" and "tildes_ok u"
  shows "split_loop (u @ r) = (if r = [] then Inr [unescape u] else mapR ((#) (unescape u)) (split_loop (tl r)))"
proof -
  have "takeWhile (\<lambda>c. c \<noteq> CHR ''/'') (u @ r) = u" "dropWhile (\<lambda>c. c \<noteq> CHR ''/'') (u @ r) = r"
    using assms(1,2) by (induction u) (cases r; auto)+
  with assms(3) show ?thesis by (subst split_loop.simps) (simp add: Let_def)
qed

lemma split_loop_to_string: "split_loop (escape t @ to_string ts) = Inr (t # ts)"
proof (induction ts arbitrary: t)
  case Nil
  show ?case using split_loop_token [of "escape t" "[]"] escape_no_slash tildes_ok_escape by simp
next
  case (Cons u ts)
  then show ?case using split_loop_token [of "escape t" "to_string (u # ts)"] escape_no_slash tildes_ok_escape by simp
qed

lemma split_to_string [simp]: "split (to_string ts) = Inr ts"
  by (cases ts) (simp_all add: split_def split_loop_to_string)

lemma split_loop_error: "CHR ''/'' \<notin> set u \<Longrightarrow> r = [] \<or> hd r = CHR ''/'' \<Longrightarrow> split_loop (u @ r) = Inr ts \<Longrightarrow> tildes_ok u"
proof -
  assume u: "CHR ''/'' \<notin> set u" "r = [] \<or> hd r = CHR ''/''" and ts: "split_loop (u @ r) = Inr ts"
  have "takeWhile (\<lambda>c. c \<noteq> CHR ''/'') (u @ r) = u" using u by (induction u) (cases r; auto)+
  with ts show "tildes_ok u" by (subst (asm) split_loop.simps) (auto simp: Let_def split: if_splits)
qed

lemma to_string_split_loop: "split_loop s = Inr ts \<Longrightarrow> to_string ts = CHR ''/'' # s"
proof (induction "length s" arbitrary: s ts rule: less_induct)
  case less
  define u r where "u = takeWhile (\<lambda>c. c \<noteq> CHR ''/'') s" and "r = dropWhile (\<lambda>c. c \<noteq> CHR ''/'') s"
  have s: "s = u @ r" by (simp add: u_def r_def)
  have no: "CHR ''/'' \<notin> set u" by (auto simp: u_def dest: set_takeWhileD)
  have hd: "r = [] \<or> hd r = CHR ''/''" unfolding r_def using hd_dropWhile [of "\<lambda>c. c \<noteq> CHR ''/''" s] by blast
  have ok: "tildes_ok u" using split_loop_error [OF no hd] less.prems s by simp
  have esc: "escape (unescape u) = u" by (rule escape_unescape [OF ok no])
  show ?case
  proof (cases "r = []")
    case True
    then show ?thesis using less.prems split_loop_token [OF no hd ok] esc s by auto
  next
    case False
    then obtain vs where vs: "split_loop (tl r) = Inr vs" "ts = unescape u # vs"
      using less.prems split_loop_token [OF no hd ok] s by (auto simp: mapR_eq_Inr)
    have "length (tl r) < length s" using False by (simp add: s) (cases r; simp)
    then have "to_string vs = CHR ''/'' # tl r" using less.hyps vs(1) by blast
    then show ?thesis using vs(2) esc s hd False by (cases r) auto
  qed
qed

lemma to_string_split: "split s = Inr ts \<Longrightarrow> to_string ts = s"
  by (cases s) (auto simp: split_def dest: to_string_split_loop split: if_splits)

lemma to_string_inject: "to_string ts = to_string us \<Longrightarrow> ts = us"
  by (metis split_to_string Inr_inject)

section \<open>Array indices\<close>

lemma escape_digits: "\<forall>c \<in> set s. is_digit c \<Longrightarrow> escape s = s"
  by (induction s) (auto simp: esc_token_def is_digit_def)

lemma escape_show_nat [simp]: "escape (show_nat i) = show_nat i"
  by (rule escape_digits [OF show_nat_digits])

lemma show_nat_first: "\<exists>c cs. show_nat i = c # cs \<and> is_digit c"
  using show_nat_digits [of i] show_nat_nonempty [of i] by (cases "show_nat i") auto

lemma stoi_show_nat: "i < 2 ^ 31 \<Longrightarrow> stoi (show_nat i) = Inr (int i, length (show_nat i))"
proof -
  assume i: "i < 2 ^ 31"
  obtain c cs where c: "show_nat i = c # cs" "is_digit c" using show_nat_first by blast
  have ns: "dropWhile is_space (show_nat i) = show_nat i" using c by (simp add: digit_not_space)
  have "hd (show_nat i) \<noteq> CHR ''-''" "hd (show_nat i) \<noteq> CHR ''+''" using c by (auto simp: is_digit_def)
  moreover have "is_int32 (int i)" using i by (simp add: is_int32_def)
  ultimately show ?thesis
    unfolding stoi_def Let_def ns by (simp add: read_digits_show_nat)
qed

lemma array_index_show_nat [simp]: "i < 2 ^ 31 \<Longrightarrow> array_index (show_nat i) = Inr (int i)"
  by (simp add: array_index_def stoi_show_nat)

lemma to_size_int [simp]: "i < 2 ^ 31 \<Longrightarrow> to_size (int i) = i"
  by (simp add: to_size_def)

lemma caught_index_show_nat [simp]: "i < 2 ^ 31 \<Longrightarrow> caught_index (show_nat i) = Inr i"
  by (simp add: caught_index_def)

lemma token_index_show_nat [simp]: "i < 2 ^ 31 \<Longrightarrow> token_index (show_nat i) = Inr i"
proof -
  assume i: "i < 2 ^ 31"
  have "\<not> (1 < length (show_nat i) \<and> hd (show_nat i) = CHR ''0'')"
    using hd_show_nat_nonzero [of i] by (cases "i = 0") (auto simp: show_nat_0)
  then show ?thesis using i by (auto simp: token_index_def)
qed

lemma show_nat_not_dash [simp]: "show_nat i \<noteq> ''-''"
proof -
  obtain c cs where "show_nat i = c # cs" "is_digit c" using show_nat_first by blast
  then show ?thesis by (auto simp: is_digit_def)
qed

end
