(* ===== verification/Json_Patch_Laws.thy ===== *)
theory Json_Patch_Laws
  imports Json_Patch Json_Pointer_Text Json_Reparse
begin

text \<open>
  What the operations of a patch do at the place a pointer refers to, and that applying \<open>diff(source, target)\<close>
  to \<open>source\<close> gives a value equal to \<open>target\<close>; then the pointwise description of \<open>merge_patch\<close>.
\<close>

section \<open>Pointers that refer to a hole\<close>

text \<open>
  Whatever is in the hole, the tokens resolve to it, with \<open>at()\<close> and with \<open>operator[]\<close>, and nothing is created
  on the way.
\<close>

definition reaches :: "json_pointer \<Rightarrow> (json \<Rightarrow> json) \<Rightarrow> bool" where
  "reaches ts R \<longleftrightarrow> (\<exists>p. hole p R \<and> (\<forall>w. get_checked ts (R w) = Inr p \<and> get_unchecked ts (R w) = (Inr p, R w)))"

lemma via_run: "json_at p j = Some v \<Longrightarrow> via p m j = (fst (m v), json_put p (snd (m v)) j)"
  by (simp add: via_def)

lemma via_hole: "hole p R \<Longrightarrow> via p m (R w) = (fst (m w), R (snd (m w)))"
  by (simp add: via_def hole_def)

lemma json_put_same_hole: "hole p R \<Longrightarrow> json_put p u (R w) = R u"
  by (simp add: hole_def)

lemma json_at_step: "json_at [s] j = Some u \<Longrightarrow> json_at (s # q) (json_put [s] w j) = json_at q w"
  by (cases s) (auto split: json.splits option.splits if_splits)

lemma json_put_step: "json_at [s] j = Some u \<Longrightarrow> json_put (s # q) v (json_put [s] w j) = json_put [s] (json_put q v w) j"
  by (cases s) (auto simp: omap_update_twice split: json.splits option.splits if_splits)

lemma checked_step_at: "checked_step t j = Inr (s, v) \<Longrightarrow> json_at [s] j = Some v"
  by (auto simp: checked_step_def at_key_def at_index_def bindR_eq_Inr mapR_eq_Inr split: json.splits option.splits if_splits)

lemma get_checked_append:
  assumes "get_checked ts j = Inr p" and "json_at p j = Some v"
  shows "get_checked (ts @ us) j = mapR ((@) p) (get_checked us v)"
  using assms
proof (induction ts arbitrary: j p)
  case Nil
  then show ?case by (cases "get_checked us v") simp_all
next
  case (Cons t ts)
  from Cons.prems(1) obtain s w q where step: "checked_step t j = Inr (s, w)" and q: "get_checked ts w = Inr q" "p = s # q"
    by (auto simp: bindR_eq_Inr mapR_eq_Inr)
  have "json_at q w = Some v"
    using Cons.prems(2) checked_step_at [OF step] json_at_append [of "[s]" q j] by (simp add: q)
  with Cons.IH [OF q(1)] show ?case by (cases "get_checked us v") (simp_all add: step q)
qed

lemma get_checked_first: "get_checked (t # ts) j = Inr p \<Longrightarrow> \<exists>s. get_checked [t] j = Inr [s]"
  by (auto simp: bindR_eq_Inr mapR_eq_Inr)

lemma follow_append:
  assumes "follow step ts j = (Inr p, j')" and "json_at p j' = Some v"
  shows "follow step (ts @ us) j =
    (mapR ((@) p) (fst (follow step us v)), json_put p (snd (follow step us v)) j')"
  using assms
proof (induction ts arbitrary: j p j')
  case Nil
  then show ?case by (cases "follow step us v"; cases "fst (follow step us v)") (auto simp: bindC_run)
next
  case (Cons t ts)
  let ?j = "snd (step t j)"
  obtain s where s: "fst (step t j) = Inr s"
    using Cons.prems(1) by (cases "fst (step t j)") (simp_all add: bindC_run)
  obtain u where u: "json_at [s] ?j = Some u"
    using Cons.prems(1) by (cases "json_at [s] ?j") (simp_all add: bindC_run s via_def)
  obtain q where q: "fst (follow step ts u) = Inr q"
    using Cons.prems(1) by (cases "fst (follow step ts u)") (simp_all add: bindC_run s via_run [OF u])
  have p: "p = s # q" and j': "j' = json_put [s] (snd (follow step ts u)) ?j"
    using Cons.prems(1) by (simp_all add: bindC_run s via_run [OF u] q)
  have at: "json_at q (snd (follow step ts u)) = Some v"
    using Cons.prems(2) json_at_step [OF u] by (simp only: p j')
  have "follow step ts u = (Inr q, snd (follow step ts u))" by (simp add: prod_eq_iff q)
  from Cons.IH [OF this at]
  have IH: "follow step (ts @ us) u = (mapR ((@) q) (fst (follow step us v)),
      json_put q (snd (follow step us v)) (snd (follow step ts u)))" .
  show ?case
    by (cases "fst (follow step us v)")
      (simp_all add: bindC_run s via_run [OF u] IH p j' json_put_step [OF u])
qed

lemma reaches_root: "reaches [] (\<lambda>w. w)"
  by (auto simp: reaches_def hole_root get_unchecked_def)

lemma hole_at: "hole p R \<Longrightarrow> i < length a \<Longrightarrow> hole (p @ [Index i]) (\<lambda>w. R (Array (a[i := w])))"
  by (simp add: hole_def json_at_append json_put_append)

lemma reaches_index:
  assumes "reaches ts R" and "i < length a" and "i < 2 ^ 31"
  shows "reaches (ts @ [show_nat i]) (\<lambda>w. R (Array (a[i := w])))"
proof -
  obtain p where p: "hole p R" "\<And>w. get_checked ts (R w) = Inr p" "\<And>w. get_unchecked ts (R w) = (Inr p, R w)"
    using assms(1) by (auto simp: reaches_def)
  have at: "json_at p (R w) = Some w" for w using p(1) by (simp add: hole_def)
  have "get_checked (ts @ [show_nat i]) (R (Array (a[i := w]))) = Inr (p @ [Index i])" for w
    using get_checked_append [OF p(2) at] assms(2,3) by (simp add: checked_step_def at_index_def)
  moreover have "get_unchecked (ts @ [show_nat i]) (R (Array (a[i := w]))) = (Inr (p @ [Index i]), R (Array (a[i := w])))" for w
    using follow_append [OF p(3) [unfolded get_unchecked_def] at, of "[show_nat i]"] assms(2,3) p(1)
    by (simp add: get_unchecked_def bindC_run unchecked_step_def array_slot_def via_def hole_def)
  ultimately show ?thesis using hole_at [OF p(1) assms(2)] by (auto simp: reaches_def)
qed

lemma reaches_key:
  assumes "reaches ts R"
  shows "reaches (ts @ [k]) (\<lambda>w. R (Object (omap_update k w m)))"
proof -
  obtain p where p: "hole p R" "\<And>w. get_checked ts (R w) = Inr p" "\<And>w. get_unchecked ts (R w) = (Inr p, R w)"
    using assms(1) by (auto simp: reaches_def)
  have at: "json_at p (R w) = Some w" for w using p(1) by (simp add: hole_def)
  have "get_checked (ts @ [k]) (R (Object (omap_update k w m))) = Inr (p @ [Key k])" for w
    using get_checked_append [OF p(2) at] by (simp add: checked_step_def at_key_def)
  moreover have "get_unchecked (ts @ [k]) (R (Object (omap_update k w m))) = (Inr (p @ [Key k]), R (Object (omap_update k w m)))" for w
    using follow_append [OF p(3) [unfolded get_unchecked_def] at, of "[k]"] p(1)
    by (simp add: get_unchecked_def bindC_run unchecked_step_def key_slot_def via_def hole_def omap_update_twice)
  ultimately show ?thesis using hole_key [OF p(1)] by (auto simp: reaches_def)
qed

section \<open>Single operations\<close>

lemma patch_entry_members:
  "patch_string (add_entry path v) op ''path'' = Inr path" "patch_string (add_entry path v) ''op'' ''op'' = Inr ''add''"
  "patch_string (remove_entry path) op ''path'' = Inr path" "patch_string (remove_entry path) ''op'' ''op'' = Inr ''remove''"
  "patch_string (replace_entry path v) op ''path'' = Inr path" "patch_string (replace_entry path v) ''op'' ''op'' = Inr ''replace''"
  "patch_member (add_entry path v) ''add'' ''value'' False = Inr v"
  "patch_member (replace_entry path v) ''replace'' ''value'' False = Inr v"
  by (simp_all add: patch_string_def patch_member_def add_entry_def remove_entry_def replace_entry_def json_find_def get_string_def)

lemma entry_is_object: "is_object (add_entry path v)" "is_object (remove_entry path)" "is_object (replace_entry path v)"
  by (simp_all add: is_object_def add_entry_def remove_entry_def replace_entry_def)

lemma get_op_simps: "get_op ''add'' = op_add" "get_op ''remove'' = op_remove" "get_op ''replace'' = op_replace"
  by (simp_all add: get_op_def)

lemma apply_replace:
  assumes "reaches ts R"
  shows "apply_operation (replace_entry (to_string ts) v) (R w) = (Inr (), R v)"
proof -
  obtain p where "hole p R" "\<And>w. get_checked ts (R w) = Inr p"
    using assms by (auto simp: reaches_def)
  then show ?thesis
    by (simp add: apply_operation_def entry_is_object patch_entry_members get_op_simps bindC_run result_at_def hole_def)
qed

lemma apply_remove:
  assumes "reaches ts R"
  shows "apply_operation (remove_entry (to_string ts @ ''/'' @ escape t)) (R w) =
    (fst (remove_child t w), R (snd (remove_child t w)))"
proof -
  obtain p where p: "hole p R" "\<And>w. get_checked ts (R w) = Inr p"
    using assms by (auto simp: reaches_def)
  have "split (to_string ts @ CHR ''/'' # escape t) = Inr (ts @ [t])"
    using split_to_string [of "ts @ [t]"] by simp
  then show ?thesis
    by (simp add: apply_operation_def entry_is_object patch_entry_members get_op_simps bindC_run result_at_def
        operation_remove_def ptr_back_def ptr_pop_back_def p via_hole [OF p(1)])
qed

lemma apply_add:
  assumes "reaches ts R"
  shows "apply_operation (add_entry (to_string ts @ ''/'' @ escape t) v) (R w) =
    (fst (add_to_parent t v w), R (snd (add_to_parent t v w)))"
proof -
  obtain p where p: "hole p R" "\<And>w. get_checked ts (R w) = Inr p" "\<And>w. get_unchecked ts (R w) = (Inr p, R w)"
    using assms by (auto simp: reaches_def)
  have split: "split (to_string ts @ CHR ''/'' # escape t) = Inr (ts @ [t])"
    using split_to_string [of "ts @ [t]"] by simp
  have "\<exists>s. get_checked [hd ts] (R w) = Inr [s]" if "ts \<noteq> []"
    using get_checked_first [of "hd ts" "tl ts" "R w" p] p(2) [of w] that by simp
  then have "seqC (if [hd (ts @ [t])] \<noteq> ts @ [t] then seqC (result_at [hd (ts @ [t])]) (returnC ()) else returnC ()) m (R w) =
      m (R w)" for m :: "(json, exn, unit) cmd"
    by (cases "ts = []") (auto simp: seqC_run result_at_def)
  then show ?thesis
    by (simp add: apply_operation_def entry_is_object patch_entry_members get_op_simps bindC_run split
        operation_add_def ptr_top_def ptr_back_def ptr_pop_back_def p(3) via_hole [OF p(1)])
qed

lemma remove_child_key:
  "map_of m k \<noteq> None \<Longrightarrow> remove_child k (Object m) = (Inr (), Object (omap_erase k m))"
  by (simp add: remove_child_def is_object_def json_find_def seqC_run erase_key_def)

lemma remove_child_index:
  "i < length a \<Longrightarrow> i < 2 ^ 31 \<Longrightarrow> remove_child (show_nat i) (Array a) = (Inr (), Array (take i a @ drop (Suc i) a))"
  by (simp add: remove_child_def is_object_def is_array_def bindC_run erase_index_def)

lemma add_to_parent_key: "map_of m k = None \<Longrightarrow> add_to_parent k v (Object m) = (Inr (), Object (omap_update k v m))"
  by (simp add: add_to_parent_def bindC_run key_slot_def omap_update_twice)

lemma add_to_parent_end: "length a < 2 ^ 31 \<Longrightarrow> add_to_parent (show_nat (length a)) v (Array a) = (Inr (), Array (a @ [v]))"
  by (simp add: add_to_parent_def bindC_run insert_at_def)

section \<open>\<open>diff\<close> and \<open>patch\<close>\<close>

lemma forC_append: "forC xs body s = (Inr (), s') \<Longrightarrow> forC (xs @ ys) body s = forC ys body s'"
proof (induction xs arbitrary: s)
  case (Cons x xs)
  then show ?case by (cases "fst (body x s)") (auto simp: seqC_run)
qed simp

text \<open>An index must fit an \<open>int\<close>.\<close>

fun indexable :: "json \<Rightarrow> bool" and members_indexable :: "(string \<times> json) list \<Rightarrow> bool"
  and elems_indexable :: "json list \<Rightarrow> bool" where
  "indexable (Object m) \<longleftrightarrow> members_indexable m"
| "indexable (Array a) \<longleftrightarrow> length a \<le> 2 ^ 31 \<and> elems_indexable a"
| "indexable _ \<longleftrightarrow> True"
| "members_indexable [] \<longleftrightarrow> True"
| "members_indexable ((k, v) # m) \<longleftrightarrow> indexable v \<and> members_indexable m"
| "elems_indexable [] \<longleftrightarrow> True"
| "elems_indexable (v # a) \<longleftrightarrow> indexable v \<and> elems_indexable a"

lemma json_eq_refl:
  "comparable v \<Longrightarrow> json_eq v v" "members_comparable m \<Longrightarrow> members_eq m m" "elems_comparable a \<Longrightarrow> elems_eq a a"
  by (induction v and m and a rule: comparable_members_comparable_elems_comparable.induct)
    (auto simp: double_eq_refl)

lemma members_comparable_iff: "members_comparable m \<longleftrightarrow> (\<forall>(k, v) \<in> set m. comparable v)"
  by (induction m) auto

lemma elems_comparable_iff: "elems_comparable a \<longleftrightarrow> (\<forall>v \<in> set a. comparable v)"
  by (induction a) auto

lemma members_indexable_iff: "members_indexable m \<longleftrightarrow> (\<forall>(k, v) \<in> set m. indexable v)"
  by (induction m) auto

lemma elems_indexable_iff: "elems_indexable a \<longleftrightarrow> (\<forall>v \<in> set a. indexable v)"
  by (induction a) auto

lemma elems_eq_list_all2: "elems_eq a b \<longleftrightarrow> list_all2 json_eq a b"
  by (induction a arbitrary: b) (auto split: list.splits simp: list_all2_Cons1)

lemma members_eq_list_all2: "members_eq m n \<longleftrightarrow> list_all2 (\<lambda>x y. fst x = fst y \<and> json_eq (snd x) (snd y)) m n"
  by (induction m arbitrary: n) (auto split: list.splits simp: list_all2_Cons1)

lemma members_eqI:
  assumes "omap_ok m" and "omap_ok n" and "\<And>k. rel_option json_eq (map_of m k) (map_of n k)"
  shows "members_eq m n"
proof -
  have dom: "dom (map_of m) = dom (map_of n)"
    using assms(3) by (auto simp: dom_def) (metis option.rel_distinct(2) not_None_eq, metis option.rel_distinct(1) not_None_eq)
  let ?ks = "sorted_list_of_set (dom (map_of n))"
  have "json_eq (the (map_of m k)) (the (map_of n k))" if "k \<in> set ?ks" for k
    using that assms(3) [of k] dom by (auto simp: finite_dom_map_of option_rel_Some2)
  then have "members_eq (map (\<lambda>k. (k, the (map_of m k))) ?ks) (map (\<lambda>k. (k, the (map_of n k))) ?ks)"
    by (auto simp: members_eq_list_all2 list_all2_map1 list_all2_map2 intro: list.rel_refl_strong)
  then show ?thesis using omap_entries [OF assms(1)] omap_entries [OF assms(2)] dom by simp
qed

lemma run_removals:
  assumes "reaches ts R" and "l \<le> length a" and "length a \<le> 2 ^ 31"
  shows "forC (rev (map (\<lambda>i. remove_entry (to_string ts @ ''/'' @ show_nat i)) [l..<length a])) apply_operation (R (Array a)) =
    (Inr (), R (Array (take l a)))"
  using assms(2,3)
proof (induction "length a - l" arbitrary: a)
  case (Suc d)
  then obtain b x where a: "a = b @ [x]" by (cases a rule: rev_cases) auto
  with Suc.hyps(2) have le: "l \<le> length b" by simp
  have "apply_operation (remove_entry (to_string ts @ ''/'' @ show_nat (length b))) (R (Array a)) = (Inr (), R (Array b))"
    using apply_remove [OF assms(1), of "show_nat (length b)"] Suc.prems
    by (simp add: a remove_child_index)
  moreover have "forC (rev (map (\<lambda>i. remove_entry (to_string ts @ ''/'' @ show_nat i)) [l..<length b])) apply_operation (R (Array b)) =
      (Inr (), R (Array (take l b)))"
    using Suc by (simp add: a)
  ultimately show ?case using le by (simp add: a seqC_run)
qed simp

lemma run_additions:
  assumes "reaches ts R" and "length b \<le> 2 ^ 31"
  shows "length a \<le> length b \<Longrightarrow>
    forC (map (\<lambda>i. add_entry (to_string ts @ ''/'' @ show_nat i) (b ! i)) [length a..<length b]) apply_operation (R (Array a)) =
      (Inr (), R (Array (a @ drop (length a) b)))"
proof (induction "length b - length a" arbitrary: a)
  case (Suc d)
  let ?a = "a @ [b ! length a]"
  have "apply_operation (add_entry (to_string ts @ ''/'' @ show_nat (length a)) (b ! length a)) (R (Array a)) =
      (Inr (), R (Array ?a))"
    using apply_add [OF assms(1), of "show_nat (length a)"] Suc assms(2) by (simp add: add_to_parent_end)
  moreover have "forC (map (\<lambda>i. add_entry (to_string ts @ ''/'' @ show_nat i) (b ! i)) [length ?a..<length b]) apply_operation (R (Array ?a)) =
      (Inr (), R (Array (?a @ drop (length ?a) b)))"
    by (rule Suc.hyps(1)) (use Suc.hyps(2) in simp_all)
  ultimately show ?case
    using Suc.hyps(2) by (simp add: upt_conv_Cons seqC_run Cons_nth_drop_Suc)
qed simp

lemma run_new_members:
  assumes "reaches ts R"
  shows "distinct (map fst n) \<Longrightarrow> \<forall>k \<in> fst ` set n. map_of m k = None \<Longrightarrow>
    forC (map (\<lambda>(k, v). add_entry (to_string ts @ ''/'' @ escape k) v) n) apply_operation (R (Object m)) =
      (Inr (), R (Object (foldl (\<lambda>m (k, v). omap_update k v m) m n)))"
proof (induction n arbitrary: m)
  case (Cons e n)
  obtain k v where e: "e = (k, v)" by force
  have "apply_operation (add_entry (to_string ts @ ''/'' @ escape k) v) (R (Object m)) = (Inr (), R (Object (omap_update k v m)))"
    using apply_add [OF assms, of k] Cons.prems by (simp add: e add_to_parent_key)
  moreover have "\<forall>k' \<in> fst ` set n. map_of (omap_update k v m) k' = None" using Cons.prems by (auto simp: e)
  ultimately show ?case using Cons.IH [of "omap_update k v m"] Cons.prems(1) by (simp add: e seqC_run)
qed simp

lemma omap_ok_foldl: "omap_ok m \<Longrightarrow> omap_ok (foldl (\<lambda>m (k, v). omap_update k v m) m n)"
  by (induction n arbitrary: m) (auto simp: omap_ok_update)

lemma map_of_foldl_omap:
  "distinct (map fst n) \<Longrightarrow> map_of (foldl (\<lambda>m (k, v). omap_update k v m) m n) = map_of m ++ map_of n"
proof (induction n arbitrary: m)
  case (Cons e n)
  then have "fst e \<notin> dom (map_of n)" by (simp add: dom_map_of_conv_image_fst)
  with Cons show ?case by (auto simp: case_prod_beta fun_eq_iff map_add_def split: option.splits)
qed simp

text \<open>
  Running \<open>diff source target\<close> in a hole that contains \<open>source\<close> leaves there a value equal to \<open>target\<close>. For the
  elements of an array the elements before them stay; for members, those of other keys.
\<close>

definition patched :: "json \<Rightarrow> json \<Rightarrow> json list \<Rightarrow> (json \<Rightarrow> json) \<Rightarrow> bool" where
  "patched source target ops R \<longleftrightarrow> (\<exists>r. forC ops apply_operation (R source) = (Inr (), R r) \<and> json_eq r target)"

lemma patched_nothing: "json_eq source target \<Longrightarrow> patched source target [] R"
  by (auto simp: patched_def)

lemma patched_replace:
  "reaches ts R \<Longrightarrow> comparable target \<Longrightarrow> patched source target [replace_entry (to_string ts) target] R"
  using apply_replace [of ts R target source] json_eq_refl(1) [of target] by (auto simp: patched_def seqC_run)

lemma patched_diff:
  shows "reaches ts R \<Longrightarrow> path = to_string ts \<Longrightarrow> json_ok source \<Longrightarrow> json_ok target \<Longrightarrow> comparable target \<Longrightarrow>
      indexable source \<Longrightarrow> indexable target \<Longrightarrow> patched source target (diff source target path) R"
    and "reaches ts R \<Longrightarrow> path = to_string ts \<Longrightarrow> elems_ok a \<Longrightarrow> elems_ok b \<Longrightarrow> elems_comparable b \<Longrightarrow>
      elems_indexable a \<Longrightarrow> elems_indexable b \<Longrightarrow> length c = i \<Longrightarrow> i + length a \<le> 2 ^ 31 \<Longrightarrow>
      \<exists>r. forC (diff_elems i a b path) apply_operation (R (Array (c @ a))) = (Inr (), R (Array (c @ r @ drop (length b) a))) \<and>
        list_all2 json_eq r (take (length a) b)"
    and "reaches ts R \<Longrightarrow> path = to_string ts \<Longrightarrow> members_ok m \<Longrightarrow> members_ok n \<Longrightarrow> members_comparable n \<Longrightarrow>
      members_indexable m \<Longrightarrow> members_indexable n \<Longrightarrow> distinct (map fst m) \<Longrightarrow> omap_ok cur \<Longrightarrow>
      (\<forall>(k, v) \<in> set m. map_of cur k = Some v) \<Longrightarrow>
      \<exists>cur'. forC (diff_members m n path) apply_operation (R (Object cur)) = (Inr (), R (Object cur')) \<and> omap_ok cur' \<and>
        (\<forall>k. if map_of m k = None then map_of cur' k = map_of cur k else rel_option json_eq (map_of cur' k) (map_of n k))"
proof (induction source target path and i a b path and m n path
    arbitrary: ts R and ts R c and ts R cur rule: diff_diff_elems_diff_members.induct)
  case (1 a target path)
  show ?case
  proof (cases "json_eq (Array a) target")
    case True
    then show ?thesis by (simp add: patched_nothing)
  next
    case neq: False
    show ?thesis
    proof (cases "\<exists>b. target = Array b")
      case True
      then obtain b where b: "target = Array b" by blast
      have prems: "elems_ok a" "elems_ok b" "elems_comparable b" "elems_indexable a" "elems_indexable b"
        "length a \<le> 2 ^ 31" "length b \<le> 2 ^ 31"
        using "1.prems" b by simp_all
      from "1.IH" [OF neq b, of ts R "[]"] "1.prems"(1,2) prems
      obtain r where r: "forC (diff_elems 0 a b path) apply_operation (R (Array a)) = (Inr (), R (Array (r @ drop (length b) a)))"
        "list_all2 json_eq r (take (length a) b)" by auto
      have len: "length r = min (length a) (length b)" using list_all2_lengthD [OF r(2)] by simp
      let ?s = "r @ drop (length b) a"
      have removals: "forC (rev (map (\<lambda>i. remove_entry (path @ ''/'' @ show_nat i)) [length b..<length a])) apply_operation
          (R (Array ?s)) = (Inr (), R (Array r))"
      proof (cases "length b < length a")
        case True
        then show ?thesis
          using run_removals [OF "1.prems"(1), of "length b" ?s] len prems(6) by (simp add: "1.prems"(2))
      qed (use len in simp)
      have additions: "forC (map (\<lambda>i. add_entry (path @ ''/'' @ show_nat i) (b ! i)) [length a..<length b]) apply_operation
          (R (Array r)) = (Inr (), R (Array (r @ drop (length a) b)))"
      proof (cases "length a < length b")
        case True
        then show ?thesis
          using run_additions [OF "1.prems"(1) prems(7), of r] len by (simp add: "1.prems"(2))
      qed simp
      have "list_all2 json_eq (drop (length a) b) (drop (length a) b)"
        using prems(3) by (auto simp: elems_comparable_iff dest: in_set_dropD intro!: json_eq_refl list.rel_refl_strong)
      from list_all2_appendI [OF r(2) this] have "list_all2 json_eq (r @ drop (length a) b) b" by simp
      then have "json_eq (Array (r @ drop (length a) b)) target" by (simp add: b elems_eq_list_all2)
      with neq b show ?thesis
        using forC_append [OF r(1)] forC_append [OF removals] additions by (auto simp: patched_def)
    next
      case False
      with neq "1.prems" show ?thesis
        using patched_replace [OF "1.prems"(1,5)] by (cases target) auto
    qed
  qed
next
  case (2 m target path)
  show ?case
  proof (cases "json_eq (Object m) target")
    case True
    then show ?thesis by (simp add: patched_nothing)
  next
    case neq: False
    show ?thesis
    proof (cases "\<exists>n. target = Object n")
      case True
      then obtain n where n: "target = Object n" by blast
      have prems: "omap_ok m" "members_ok m" "omap_ok n" "members_ok n" "members_comparable n" "members_indexable m"
        "members_indexable n"
        using "2.prems" n by simp_all
      have dist: "distinct (map fst m)" "distinct (map fst n)" using prems omap_ok_distinct by blast+
      from "2.IH" [OF neq n, of ts R m] "2.prems"(1,2) prems dist
      obtain cur where cur: "forC (diff_members m n path) apply_operation (R (Object m)) = (Inr (), R (Object cur))" "omap_ok cur"
        and lookup: "\<And>k. if map_of m k = None then map_of cur k = map_of m k else rel_option json_eq (map_of cur k) (map_of n k)"
        by fastforce
      let ?new = "filter (\<lambda>(k, v). map_of m k = None) n"
      let ?fin = "foldl (\<lambda>m (k, v). omap_update k v m) cur ?new"
      have dnew: "distinct (map fst ?new)" using dist(2) by (simp add: distinct_map_filter)
      have "\<forall>k \<in> fst ` set ?new. map_of cur k = None" using lookup by (auto split: if_splits)
      then have adds: "forC (map (\<lambda>(k, v). add_entry (path @ ''/'' @ escape k) v) ?new) apply_operation (R (Object cur)) =
          (Inr (), R (Object ?fin))"
        using run_new_members [OF "2.prems"(1) dnew, of cur] by (simp add: "2.prems"(2))
      have new: "map_of ?new k = (if map_of m k = None then map_of n k else None)" for k
        by (induction n) auto
      have "rel_option json_eq (map_of ?fin k) (map_of n k)" for k
      proof (cases "map_of m k")
        case None
        then have "map_of ?fin k = map_of n k"
          using lookup [of k] by (simp add: map_of_foldl_omap [OF dnew] map_add_def new split: option.splits)
        then show ?thesis
          using prems(5) by (cases "map_of n k") (auto simp: members_comparable_iff dest!: map_of_SomeD intro!: json_eq_refl)
      next
        case (Some v)
        then show ?thesis using lookup [of k] by (simp add: map_of_foldl_omap [OF dnew] map_add_def new)
      qed
      then have "json_eq (Object ?fin) target"
        by (simp add: n members_eqI [OF omap_ok_foldl [OF cur(2)] prems(3)])
      with neq n show ?thesis
        using forC_append [OF cur(1)] adds by (auto simp: patched_def)
    next
      case False
      with neq "2.prems" show ?thesis
        using patched_replace [OF "2.prems"(1,5)] by (cases target) auto
    qed
  qed
next
  case (5 i v a b path)
  show ?case
  proof (cases b)
    case Nil
    then show ?thesis by simp
  next
    case (Cons w b')
    let ?l = "c @ v # a"
    have idx: "i < length ?l" "i < 2 ^ 31" using "5.prems"(8,9) by simp_all
    have upd: "?l[i := x] = c @ x # a" for x using "5.prems"(8) by (simp add: list_update_append)
    have prems: "json_ok v" "json_ok w" "comparable w" "indexable v" "indexable w" "elems_ok a" "elems_ok b'"
      "elems_comparable b'" "elems_indexable a" "elems_indexable b'"
      using "5.prems" Cons by simp_all
    have "patched v w (diff v w (path @ ''/'' @ show_nat i)) (\<lambda>x. R (Array (c @ x # a)))"
      using "5.IH"(1) [OF Cons, of "ts @ [show_nat i]"] reaches_index [OF "5.prems"(1) idx] prems(1-5)
      by (simp add: upd "5.prems"(2))
    then obtain x where x: "forC (diff v w (path @ ''/'' @ show_nat i)) apply_operation (R (Array (c @ v # a))) =
        (Inr (), R (Array (c @ x # a)))" "json_eq x w"
      by (auto simp: patched_def)
    from "5.IH"(2) [OF Cons, of ts R "c @ [x]"] "5.prems"(1,2,8,9) prems(6-10)
    obtain r where "forC (diff_elems (Suc i) a b' path) apply_operation (R (Array (c @ x # a))) =
        (Inr (), R (Array (c @ x # r @ drop (length b') a)))" "list_all2 json_eq r (take (length a) b')"
      by auto
    then show ?thesis using forC_append [OF x(1)] x(2) Cons by (intro exI [of _ "x # r"]) simp
  qed
next
  case (7 k v m n path)
  have prems: "json_ok v" "indexable v" "members_ok m" "members_indexable m" "distinct (map fst m)" "map_of cur k = Some v"
    "k \<notin> fst ` set m" "\<forall>(k, v) \<in> set m. map_of cur k = Some v"
    using "7.prems" by auto
  have "\<exists>cur1. forC (case map_of n k of Some w \<Rightarrow> diff v w (path @ ''/'' @ escape k)
        | None \<Rightarrow> [remove_entry (path @ ''/'' @ escape k)]) apply_operation (R (Object cur)) = (Inr (), R (Object cur1)) \<and>
      omap_ok cur1 \<and> rel_option json_eq (map_of cur1 k) (map_of n k) \<and> (\<forall>k'. k' \<noteq> k \<longrightarrow> map_of cur1 k' = map_of cur k')"
  proof (cases "map_of n k")
    case None
    then show ?thesis
      using apply_remove [OF "7.prems"(1), of k "Object cur"] prems(6) "7.prems"(9)
      by (intro exI [of _ "omap_erase k cur"]) (simp add: "7.prems"(2) remove_child_key seqC_run omap_ok_erase)
  next
    case (Some w)
    have w: "json_ok w" "comparable w" "indexable w"
      using map_of_SomeD [OF Some] "7.prems"(4,5,7) by (auto simp: members_ok_iff members_comparable_iff members_indexable_iff)
    have "patched v w (diff v w (path @ ''/'' @ escape k)) (\<lambda>x. R (Object (omap_update k x cur)))"
      using "7.IH"(1) [OF Some, of "ts @ [k]"] reaches_key [OF "7.prems"(1), of k cur] prems(1,2) w
      by (simp add: "7.prems"(2))
    then obtain x where "forC (diff v w (path @ ''/'' @ escape k)) apply_operation (R (Object cur)) =
        (Inr (), R (Object (omap_update k x cur)))" "json_eq x w"
      by (auto simp: patched_def omap_update_same [OF "7.prems"(9) prems(6)])
    then show ?thesis using Some "7.prems"(9) by (intro exI [of _ "omap_update k x cur"]) (simp add: omap_ok_update)
  qed
  then obtain cur1 where c1: "forC (case map_of n k of Some w \<Rightarrow> diff v w (path @ ''/'' @ escape k)
        | None \<Rightarrow> [remove_entry (path @ ''/'' @ escape k)]) apply_operation (R (Object cur)) = (Inr (), R (Object cur1))"
      "omap_ok cur1" "rel_option json_eq (map_of cur1 k) (map_of n k)" "\<forall>k'. k' \<noteq> k \<longrightarrow> map_of cur1 k' = map_of cur k'"
    by - (elim exE conjE, rule that)
  have rest: "\<forall>(k, v) \<in> set m. map_of cur1 k = Some v" 
  proof clarify
    fix k' v' assume e: "(k', v') \<in> set m"
    then have "k' \<in> fst ` set m" by force
    then have "k' \<noteq> k" using prems(7) by blast
    moreover have "map_of cur k' = Some v'" using bspec [OF prems(8) e] by simp
    ultimately show "map_of cur1 k' = Some v'" using c1(4) by simp
  qed
  from "7.IH"(2) [OF "7.prems"(1,2) prems(3) "7.prems"(4,5) prems(4) "7.prems"(7) prems(5) c1(2) rest]
  obtain cur2 where c2: "forC (diff_members m n path) apply_operation (R (Object cur1)) = (Inr (), R (Object cur2))" "omap_ok cur2"
      "\<forall>k. if map_of m k = None then map_of cur2 k = map_of cur1 k else rel_option json_eq (map_of cur2 k) (map_of n k)"
    by - (elim exE conjE, rule that)
  have "map_of m k = None" using prems(7) by (simp add: map_of_eq_None_iff)
  then have "\<forall>k'. if map_of ((k, v) # m) k' = None then map_of cur2 k' = map_of cur k'
      else rel_option json_eq (map_of cur2 k') (map_of n k')"
    using c1(3,4) c2(3) by (auto split: if_splits)
  then show ?case using forC_append [OF c1(1)] c2(1,2) by auto
qed (auto intro: patched_nothing patched_replace)

theorem patch_of_diff:
  assumes "json_ok source" and "json_ok target" and "comparable target" and "indexable source" and "indexable target"
  shows "\<exists>r. json_patch (json_diff source target) source = Inr r \<and> json_eq r target"
  using patched_diff(1) [OF reaches_root refl assms] by (auto simp: patched_def json_patch_def json_diff_def)

text \<open>
  An operation that adds below a value that is neither null nor a container reaches the assertion in
  \<open>operation_add\<close>.
\<close>

lemma add_below_scalar:
  assumes "reaches ts R" and "json_type w \<notin> {null_t, object_t, array_t}"
  shows "apply_operation (add_entry (to_string ts @ ''/'' @ escape t) v) (R w) = (Inl (Assertion_failed ''false''), R w)"
  using apply_add [OF assms(1)] assms(2) by (simp add: add_to_parent_def)

section \<open>\<open>merge_patch\<close>\<close>

text \<open>What RFC 7396 says of a member of the target.\<close>

definition merged :: "json option \<Rightarrow> json option \<Rightarrow> json option" where
  "merged p w =
     (case p of
        None \<Rightarrow> w
      | Some v \<Rightarrow> if v = Null then None else Some (merge_patch v (case w of Some u \<Rightarrow> u | None \<Rightarrow> Null)))"

lemma json_type_null [simp]: "json_type v = null_t \<longleftrightarrow> v = Null"
  by (cases v) simp_all

lemma map_of_merge_members:
  "distinct (map fst p) \<Longrightarrow> map_of (merge_members p m) k = merged (map_of p k) (map_of m k)"
proof (induction p arbitrary: m)
  case (Cons e p)
  obtain k' v where e: "e = (k', v)" by force
  have "map_of p k' = None" using Cons.prems by (simp add: e map_of_eq_None_iff)
  with Cons show ?case by (auto simp: e merged_def split: option.splits)
qed (simp add: merged_def)

lemma omap_ok_merge: "omap_ok m \<Longrightarrow> omap_ok (merge_members p m)"
proof (induction p arbitrary: m)
  case (Cons e p)
  then show ?case by (cases e) (simp add: omap_ok_update omap_ok_erase)
qed simp

lemma merge_patch_twice:
  "json_ok p \<Longrightarrow> json_ok j \<Longrightarrow> merge_patch p (merge_patch p j) = merge_patch p j"
proof (induction p arbitrary: j)
  case (Object p)
  let ?m = "case j of Object m \<Rightarrow> m | _ \<Rightarrow> []"
  have ok: "omap_ok p" "omap_ok ?m" "members_ok p" "members_ok ?m" using Object.prems by (auto split: json.splits)
  have d: "distinct (map fst p)" using omap_ok_distinct [OF ok(1)] .
  have "merge_members p (merge_members p ?m) = merge_members p ?m"
  proof (rule omap_ext)
    show "map_of (merge_members p (merge_members p ?m)) = map_of (merge_members p ?m)"
    proof
      fix k
      have "merge_patch v (merge_patch v u) = merge_patch v u" if "map_of p k = Some v" "json_ok u" for v u
        using Object.IH [of "(k, v)" v u] map_of_SomeD [OF that(1)] that(2) ok(3) by (auto simp: members_ok_iff)
      moreover have "json_ok u" if "map_of ?m k = Some u" for u
        using map_of_SomeD [OF that] ok(4) by (auto simp: members_ok_iff)
      ultimately show "map_of (merge_members p (merge_members p ?m)) k = map_of (merge_members p ?m) k"
        by (auto simp: map_of_merge_members [OF d] merged_def split: option.splits)
    qed
  qed (simp_all add: omap_ok_merge ok(2))
  then show ?case by simp
qed simp_all

end
