(* ===== verification/Json_Flatten.thy ===== *)
theory Json_Flatten
  imports Json_Pointer_Text
begin

text \<open>
  \<open>unflatten\<close> undoes \<open>flatten\<close>. The entries of the flattened object are the leaves of the value; \<open>unflatten\<close>
  stores them in the order of their pointer texts, which is not the order of the leaves: index 10 comes
  before index 2. What is built after some of them is described by the set of pointers that were stored.
\<close>

section \<open>Leaves\<close>

fun leaves :: "json \<Rightarrow> (json_pointer \<times> json) list"
  and leaves_elems :: "nat \<Rightarrow> json list \<Rightarrow> (json_pointer \<times> json) list"
  and leaves_members :: "(string \<times> json) list \<Rightarrow> (json_pointer \<times> json) list" where
  "leaves (Array a) = (if a = [] then [([], Null)] else leaves_elems 0 a)"
| "leaves (Object m) = (if m = [] then [([], Null)] else leaves_members m)"
| "leaves v = [([], v)]"
| "leaves_elems i [] = []"
| "leaves_elems i (v # a) = map (\<lambda>(ts, x). (show_nat i # ts, x)) (leaves v) @ leaves_elems (Suc i) a"
| "leaves_members [] = []"
| "leaves_members ((k, v) # m) = map (\<lambda>(ts, x). (k # ts, x)) (leaves v) @ leaves_members m"

lemma flatten_leaves:
  "flatten r v res = foldl (\<lambda>m (ts, x). omap_update (r @ to_string ts) x m) res (leaves v)"
  "flatten_elems r i a res = foldl (\<lambda>m (ts, x). omap_update (r @ to_string ts) x m) res (leaves_elems i a)"
  "flatten_members r m res = foldl (\<lambda>m (ts, x). omap_update (r @ to_string ts) x m) res (leaves_members m)"
  by (induction r v res and r i a res and r m res rule: flatten_flatten_elems_flatten_members.induct)
    (auto simp: foldl_map case_prod_beta)

lemma leaf_elems_iff:
  "(p, x) \<in> set (leaves_elems i a) \<longleftrightarrow>
     (\<exists>j < length a. \<exists>ts. p = show_nat (i + j) # ts \<and> (ts, x) \<in> set (leaves (a ! j)))"
proof (induction a arbitrary: i)
  case (Cons v a)
  have image: "(p, x) \<in> (\<lambda>(ts, y). (k # ts, y)) ` A \<longleftrightarrow> (\<exists>ts. p = k # ts \<and> (ts, x) \<in> A)" for k A
    by force
  show ?case by (simp add: Ex_less_Suc2 Cons image)
qed simp

lemma leaf_members_iff:
  "(p, x) \<in> set (leaves_members m) \<longleftrightarrow> (\<exists>k v ts. (k, v) \<in> set m \<and> p = k # ts \<and> (ts, x) \<in> set (leaves v))"
  by (induction m) force+

definition paths :: "json \<Rightarrow> json_pointer set" where
  "paths v = fst ` set (leaves v)"

lemma leaves_nonempty: "leaves v \<noteq> []"
proof (induction v)
  case (Object m)
  show ?case
  proof (cases m)
    case (Cons e m')
    with Object.IH [of e "snd e"] show ?thesis by (cases e) (auto simp: snds.simps)
  qed simp
next
  case (Array a)
  then show ?case by (cases a) auto
qed simp_all

lemma paths_nonempty: "paths v \<noteq> {}"
  by (simp add: paths_def leaves_nonempty)

text \<open>
  No empty container, no member with the key \<open>0\<close> and indices that fit an \<open>int\<close>: the values whose flattened
  form determines them.
\<close>

fun flattenable :: "json \<Rightarrow> bool" and members_flattenable :: "(string \<times> json) list \<Rightarrow> bool"
  and elems_flattenable :: "json list \<Rightarrow> bool" where
  "flattenable (Object m) \<longleftrightarrow> m \<noteq> [] \<and> members_flattenable m"
| "flattenable (Array a) \<longleftrightarrow> a \<noteq> [] \<and> length a \<le> 2 ^ 31 \<and> elems_flattenable a"
| "flattenable Discarded \<longleftrightarrow> False"
| "flattenable _ \<longleftrightarrow> True"
| "members_flattenable [] \<longleftrightarrow> True"
| "members_flattenable ((k, v) # m) \<longleftrightarrow> k \<noteq> ''0'' \<and> flattenable v \<and> members_flattenable m"
| "elems_flattenable [] \<longleftrightarrow> True"
| "elems_flattenable (v # a) \<longleftrightarrow> flattenable v \<and> elems_flattenable a"

lemma members_flattenable_iff: "members_flattenable m \<longleftrightarrow> (\<forall>(k, v) \<in> set m. k \<noteq> ''0'' \<and> flattenable v)"
  by (induction m) auto

lemma elems_flattenable_iff: "elems_flattenable a \<longleftrightarrow> (\<forall>v \<in> set a. flattenable v)"
  by (induction a) auto

lemma leaf_in_array:
  "flattenable (Array a) \<Longrightarrow> (ts, x) \<in> set (leaves (Array a)) \<longleftrightarrow>
     (\<exists>i < length a. \<exists>us. ts = show_nat i # us \<and> (us, x) \<in> set (leaves (a ! i)))"
  by (simp add: leaf_elems_iff)

lemma leaf_in_object:
  "flattenable (Object m) \<Longrightarrow> distinct (map fst m) \<Longrightarrow> (ts, x) \<in> set (leaves (Object m)) \<longleftrightarrow>
     (\<exists>k v us. map_of m k = Some v \<and> ts = k # us \<and> (us, x) \<in> set (leaves v))"
  by (simp add: leaf_members_iff map_of_eq_Some_iff)

lemma path_in_array:
  assumes "flattenable (Array a)"
  shows "ts \<in> paths (Array a) \<longleftrightarrow> (\<exists>i < length a. \<exists>us. ts = show_nat i # us \<and> us \<in> paths (a ! i))"
proof -
  have "ts \<in> paths (Array a) \<longleftrightarrow> (\<exists>x. (ts, x) \<in> set (leaves (Array a)))" by (force simp: paths_def)
  then show ?thesis unfolding leaf_in_array [OF assms] by (force simp: paths_def)
qed

lemma path_in_object:
  assumes "flattenable (Object m)" and "distinct (map fst m)"
  shows "ts \<in> paths (Object m) \<longleftrightarrow> (\<exists>k v us. map_of m k = Some v \<and> ts = k # us \<and> us \<in> paths v)"
proof -
  have "ts \<in> paths (Object m) \<longleftrightarrow> (\<exists>x. (ts, x) \<in> set (leaves (Object m)))" by (force simp: paths_def)
  then show ?thesis unfolding leaf_in_object [OF assms] by (force simp: paths_def)
qed

lemma leaf_primitive:
  assumes "flattenable v" and "([], x) \<in> set (leaves v)"
  shows "x = v \<and> is_primitive v \<and> leaves v = [([], v)]"
  using assms by (cases v) (auto simp: leaf_elems_iff leaf_members_iff is_primitive_def)

lemma leaf_is_primitive: "json_ok v \<Longrightarrow> flattenable v \<Longrightarrow> (ts, x) \<in> set (leaves v) \<Longrightarrow> is_primitive x"
proof (induction ts arbitrary: v)
  case Nil
  then show ?case using leaf_primitive by blast
next
  case (Cons t ts)
  show ?case
  proof (cases v)
    case (Array a)
    with Cons.prems obtain i where "i < length a" "(ts, x) \<in> set (leaves (a ! i))"
      by (auto simp: leaf_elems_iff)
    with Cons.IH [of "a ! i"] Cons.prems Array show ?thesis by (simp add: elems_ok_iff elems_flattenable_iff)
  next
    case (Object m)
    with Cons show ?thesis by (fastforce simp: leaf_members_iff members_ok_iff members_flattenable_iff)
  qed (use Cons.prems in auto)
qed

section \<open>Partly built values\<close>

definition below :: "json_pointer set \<Rightarrow> string \<Rightarrow> json_pointer set" where
  "below S t = {ts. t # ts \<in> S}"

inductive built :: "json_pointer set \<Rightarrow> json \<Rightarrow> json \<Rightarrow> bool" where
  built_none: "built {} v Null"
| built_leaf: "is_primitive v \<Longrightarrow> built {[]} v v"
| built_array: "S \<noteq> {} \<Longrightarrow> b \<noteq> [] \<Longrightarrow> length b \<le> length a \<Longrightarrow>
    (\<And>i. i < length b \<Longrightarrow> built (below S (show_nat i)) (a ! i) (b ! i)) \<Longrightarrow>
    (\<And>ts. ts \<in> S \<Longrightarrow> \<exists>i us. ts = show_nat i # us \<and> i < length b) \<Longrightarrow> built S (Array a) (Array b)"
| built_object: "S \<noteq> {} \<Longrightarrow> omap_ok n \<Longrightarrow>
    (\<And>k u'. map_of n k = Some u' \<Longrightarrow> \<exists>u. map_of m k = Some u \<and> built (below S k) u u') \<Longrightarrow>
    (\<And>ts. ts \<in> S \<Longrightarrow> \<exists>k us. ts = k # us \<and> map_of n k \<noteq> None) \<Longrightarrow>
    (\<And>k. map_of n k \<noteq> None \<Longrightarrow> below S k \<noteq> {}) \<Longrightarrow> built S (Object m) (Object n)"

inductive_cases built_emptyE: "built {} v w"
inductive_cases built_arrayE: "built S (Array a) w"
inductive_cases built_objectE: "built S (Object m) w"

lemma built_array_cases:
  assumes "built S (Array a) w"
  obtains (none) "S = {}" "w = Null"
  | (some) b where "w = Array b" "length b \<le> length a" "S \<noteq> {}"
      "\<And>i. i < length b \<Longrightarrow> built (below S (show_nat i)) (a ! i) (b ! i)"
      "\<And>ts. ts \<in> S \<Longrightarrow> \<exists>i us. ts = show_nat i # us \<and> i < length b"
  using assms by (rule built_arrayE) (auto simp: is_primitive_def)

lemma built_object_cases:
  assumes "built S (Object m) w"
  obtains (none) "S = {}" "w = Null"
  | (some) n where "w = Object n" "omap_ok n" "S \<noteq> {}"
      "\<And>k u'. map_of n k = Some u' \<Longrightarrow> \<exists>u. map_of m k = Some u \<and> built (below S k) u u'"
      "\<And>ts. ts \<in> S \<Longrightarrow> \<exists>k us. ts = k # us \<and> map_of n k \<noteq> None"
      "\<And>k. map_of n k \<noteq> None \<Longrightarrow> below S k \<noteq> {}"
  using assms by (rule built_objectE) (auto simp: is_primitive_def)

lemma built_empty: "built {} v w \<Longrightarrow> w = Null"
  by (erule built_emptyE) auto

text \<open>When every leaf has been stored, the value is complete.\<close>

lemma built_complete:
  "built (paths v) v w \<Longrightarrow> json_ok v \<Longrightarrow> flattenable v \<Longrightarrow> w = v"
proof (induction v arbitrary: w)
  case (Array a)
  let ?S = "paths (Array a)"
  have sub: "below ?S (show_nat i) = paths (a ! i)" if "i < length a" for i
    using that by (auto simp: below_def path_in_array [OF Array.prems(3)] dest: show_nat_inject)
  from Array.prems(1) obtain b where w: "w = Array b" and le: "length b \<le> length a"
    and b: "\<And>i. i < length b \<Longrightarrow> built (below ?S (show_nat i)) (a ! i) (b ! i)"
    and all: "\<And>ts. ts \<in> ?S \<Longrightarrow> \<exists>i us. ts = show_nat i # us \<and> i < length b"
    using paths_nonempty [of "Array a"] by (cases rule: built_array_cases) auto
  have "i < length b" if i: "i < length a" for i
  proof -
    obtain us where "us \<in> paths (a ! i)" using paths_nonempty [of "a ! i"] by blast
    with i have "show_nat i # us \<in> ?S" by (auto simp: path_in_array [OF Array.prems(3)])
    with all [of "show_nat i # us"] show ?thesis by (auto dest: show_nat_inject)
  qed
  with le have len: "length b = length a" by (metis le_antisym not_less order_refl)
  have "b ! i = a ! i" if "i < length a" for i
    using Array.IH [of "a ! i" "b ! i"] b [of i] sub [OF that] that len Array.prems(2,3)
    by (simp add: elems_ok_iff elems_flattenable_iff)
  then show ?case using w len by (simp add: list_eq_iff_nth_eq)
next
  case (Object m)
  let ?S = "paths (Object m)"
  have ok: "omap_ok m" "distinct (map fst m)" using Object.prems(2) omap_ok_distinct by auto
  have sub: "below ?S k = paths u" if "map_of m k = Some u" for k u
    using that by (auto simp: below_def path_in_object [OF Object.prems(3) ok(2)])
  from Object.prems(1) obtain n where w: "w = Object n" and n: "omap_ok n"
    and b: "\<And>k u'. map_of n k = Some u' \<Longrightarrow> \<exists>u. map_of m k = Some u \<and> built (below ?S k) u u'"
    and all: "\<And>ts. ts \<in> ?S \<Longrightarrow> \<exists>k us. ts = k # us \<and> map_of n k \<noteq> None"
    using paths_nonempty [of "Object m"] by (cases rule: built_object_cases) auto
  have "map_of n k = map_of m k" for k
  proof (cases "map_of m k")
    case None
    then show ?thesis using b [of k] by (cases "map_of n k") auto
  next
    case (Some u)
    obtain us where "us \<in> paths u" using paths_nonempty [of u] by blast
    then have "k # us \<in> ?S" using Some by (auto simp: path_in_object [OF Object.prems(3) ok(2)])
    with all [of "k # us"] obtain u' where u': "map_of n k = Some u'" by auto
    with b [OF u'] Some have "built (paths u) u u'" by (simp add: sub)
    moreover have "json_ok u" "flattenable u" "(k, u) \<in> set m"
      using map_of_SomeD [OF Some] Object.prems(2,3) by (auto simp: members_ok_iff members_flattenable_iff)
    ultimately show ?thesis using Object.IH [of "(k, u)" u u'] u' Some by (auto simp: snds.simps)
  qed
  then show ?case using w omap_ext [OF n ok(1)] by auto
qed (auto elim: built.cases simp: is_primitive_def paths_def)

section \<open>Storing one leaf\<close>

lemma less_same_prefix: "(us :: string) @ xs < us @ ys \<longleftrightarrow> xs < ys"
  by (induction us) simp_all

lemma to_string_less: "to_string us < to_string vs \<Longrightarrow> to_string (t # us) < to_string (t # vs)"
  by (simp add: less_same_prefix)

lemma to_string_index_less:
  assumes "0 < i"
  shows "to_string (show_nat 0 # us) < to_string (show_nat i # vs)"
proof -
  obtain c cs where c: "show_nat i = c # cs" "is_digit c" using show_nat_first by blast
  with hd_show_nat_nonzero [OF assms] have "c \<noteq> CHR ''0''" by simp
  moreover have "(48 :: nat) \<le> of_char c" using c(2) by (simp add: is_digit_def)
  moreover have "(of_char (CHR ''0'') :: nat) = 48" by simp
  ultimately have "(of_char (CHR ''0'') :: nat) < of_char c"
    by (metis of_char_eq_iff le_neq_implies_less)
  then have "CHR ''0'' < c" by (simp add: less_char_def)
  moreover have "to_string (show_nat 0 # us) = CHR ''/'' # CHR ''0'' # to_string us"
    using escape_show_nat [of 0] by (simp only: to_string_simps show_nat_0 append_Cons append_Nil)
  moreover have "to_string (show_nat i # vs) = CHR ''/'' # c # cs @ to_string vs"
    using escape_show_nat [of i] by (simp only: to_string_simps c(1) append_Cons)
  ultimately show ?thesis by (simp del: to_string_simps)
qed

lemma array_slot_run:
  assumes "i < 2 ^ 31" and "length b \<le> 2 ^ 31"
  shows "array_slot i (Array b) = (Inr (Index i), Array (b @ replicate (Suc i - length b) Null))"
proof -
  have "(i - length b + 1) mod 2 ^ 64 = i - length b + 1" using assms(1) by (intro mod_less) simp
  then show ?thesis using assms by (auto simp: array_slot_def Let_def json_max_size_def Suc_diff_le not_less)
qed

lemma array_slot_Null: "array_slot 0 Null = (Inr (Index 0), Array [Null])"
  by (simp add: array_slot_def json_max_size_def)

lemma key_slot_Null: "key_slot k Null = (Inr (Key k), Object [(k, Null)])"
  by (simp add: key_slot_def)

lemma get_and_create_step:
  assumes "create_step t w = (Inr s, w1)" and "json_at [s] w1 = Some u" and "get_and_create us u = (Inr q, u')"
  shows "get_and_create (t # us) w = (Inr (s # q), json_put [s] u' w1) \<and>
    json_put (s # q) x (json_put [s] u' w1) = json_put [s] (json_put q x u') w1"
proof -
  have "json_put (s # q) x (json_put [s] u' w1) = json_put [s] (json_put q x u') w1"
    using assms(2) by (cases s) (auto simp: omap_update_twice split: json.splits option.splits if_splits)
  moreover have "via [s] (follow create_step us) w1 = (Inr q, json_put [s] u' w1)"
    using assms(2,3) by (simp add: via_def get_and_create_def)
  ultimately show ?thesis using assms(1) by (simp add: get_and_create_def bindC_run)
qed

lemma below_insert: "below (insert (t # us) S) k = (if k = t then insert us (below S t) else below S k)"
  by (auto simp: below_def)

lemma store_leaf:
  "built S v w \<Longrightarrow> (ts, x) \<in> set (leaves v) \<Longrightarrow> ts \<notin> S \<Longrightarrow> S \<subseteq> paths v \<Longrightarrow> json_ok v \<Longrightarrow> flattenable v \<Longrightarrow>
     (\<And>us. us \<in> paths v \<Longrightarrow> to_string us < to_string ts \<Longrightarrow> us \<in> S) \<Longrightarrow>
     \<exists>p w'. get_and_create ts w = (Inr p, w') \<and> built (insert ts S) v (json_put p x w')"
proof (induction ts arbitrary: S v w)
  case Nil
  then have v: "x = v" "is_primitive v" "paths v = {[]}" using leaf_primitive [of v x] by (auto simp: paths_def)
  with Nil have "S = {}" by auto
  then show ?case
    by (intro exI [of _ "[]"] exI [of _ w]) (simp add: get_and_create_def returnC_def v built_leaf)
next
  case (Cons t ts)
  show ?case
  proof (cases v)
    case (Array a)
    have flat: "flattenable (Array a)" using Cons.prems(6) Array by simp
    obtain i where i: "i < length a" "t = show_nat i" "(ts, x) \<in> set (leaves (a ! i))"
      using Cons.prems(2) unfolding Array leaf_in_array [OF flat] by blast
    have i31: "i < 2 ^ 31" "length a \<le> 2 ^ 31" using i(1) flat by simp_all
    obtain b where b: "create_step t w = (Inr (Index i), Array (b @ replicate (Suc i - length b) Null))"
      and len: "length b \<le> length a" and blt: "\<And>j. j < length b \<Longrightarrow> built (below S (show_nat j)) (a ! j) (b ! j)"
      and all: "\<And>ts. ts \<in> S \<Longrightarrow> \<exists>j us. ts = show_nat j # us \<and> j < length b"
      using Cons.prems(1) unfolding Array
    proof (cases rule: built_array_cases)
      case none
      have "i = 0"
      proof (rule ccontr)
        assume "i \<noteq> 0"
        obtain us where "us \<in> paths (a ! 0)" using paths_nonempty [of "a ! 0"] by blast
        then have "show_nat 0 # us \<in> paths v"
          unfolding Array path_in_array [OF flat] using i(1) by (intro exI [of _ 0]) auto
        moreover have "to_string (show_nat 0 # us) < to_string (t # ts)"
          unfolding i(2) by (rule to_string_index_less) (use \<open>i \<noteq> 0\<close> in simp)
        ultimately have "show_nat 0 # us \<in> S" by (rule Cons.prems(7))
        with none show False by simp
      qed
      with none that [of "[]"] i(2) show ?thesis by (simp add: create_step_def show_nat_0 array_slot_Null)
    next
      case (some b)
      then show ?thesis
        using that [of b] i31 i(2) by (simp add: create_step_def array_slot_run)
    qed
    let ?b = "b @ replicate (Suc i - length b) Null"
    have ext: "built (below S (show_nat j)) (a ! j) (?b ! j)" if "j < length ?b" for j
    proof (cases "j < length b")
      case True
      then show ?thesis using blt by (simp add: nth_append)
    next
      case False
      then have "below S (show_nat j) = {}" using all by (fastforce simp: below_def dest: show_nat_inject)
      then show ?thesis using False that by (simp add: nth_append built_none)
    qed
    have lenb: "i < length ?b" "length ?b \<le> length a" using len i(1) by auto
    have sub: "ts \<notin> below S t" "below S t \<subseteq> paths (a ! i)"
      using Cons.prems(3,4) i(2) unfolding Array path_in_array [OF flat] subset_iff
      by (auto simp: below_def path_in_array [OF flat] dest!: show_nat_inject)
    have before: "us \<in> below S t" if "us \<in> paths (a ! i)" "to_string us < to_string ts" for us
      using Cons.prems(7) [of "t # us"] that i(1) to_string_less [OF that(2), of t]
      by (simp add: below_def Array path_in_array [OF flat] i(2)) blast
    have elem: "json_ok (a ! i)" "flattenable (a ! i)"
      using Cons.prems(5,6) i(1) by (simp_all add: Array elems_ok_iff elems_flattenable_iff)
    obtain q u' where q: "get_and_create ts (?b ! i) = (Inr q, u')" "built (insert ts (below S t)) (a ! i) (json_put q x u')"
      using Cons.IH [OF ext [OF lenb(1)] i(3)] sub before elem i(2) by blast
    have at: "json_at [Index i] (Array ?b) = Some (?b ! i)" using lenb(1) by simp
    have "built (insert (t # ts) S) (Array a) (Array (?b[i := json_put q x u']))"
    proof (rule built_array)
      fix j assume "j < length (?b[i := json_put q x u'])"
      then show "built (below (insert (t # ts) S) (show_nat j)) (a ! j) (?b[i := json_put q x u'] ! j)"
        using q(2) ext [of j] lenb(1) i(2) by (cases "j = i") (auto simp: below_insert dest: show_nat_inject)
    next
      fix us assume "us \<in> insert (t # ts) S"
      then show "\<exists>j vs. us = show_nat j # vs \<and> j < length (?b[i := json_put q x u'])"
        using all [of us] lenb(1) i(2) by fastforce
    qed (use lenb in auto)
    then show ?thesis using get_and_create_step [OF b at q(1), of x] lenb(1) by (auto simp: Array)
  next
    case (Object m)
    have flat: "flattenable (Object m)" and dist: "distinct (map fst m)"
      using Cons.prems(5,6) Object omap_ok_distinct by auto
    obtain v' where v': "map_of m t = Some v'" "(ts, x) \<in> set (leaves v')"
      using Cons.prems(2) unfolding Object leaf_in_object [OF flat dist] by blast
    then have mem: "json_ok v'" "flattenable v'" "t \<noteq> ''0''"
      using map_of_SomeD [OF v'(1)] Cons.prems(5,6) by (auto simp: Object members_ok_iff members_flattenable_iff)
    obtain n where n: "create_step t w = (Inr (Key t), Object (omap_insert t Null n))" "omap_ok n"
      and blt: "\<And>k u'. map_of n k = Some u' \<Longrightarrow> \<exists>u. map_of m k = Some u \<and> built (below S k) u u'"
      and all: "\<And>ts. ts \<in> S \<Longrightarrow> \<exists>k us. ts = k # us \<and> map_of n k \<noteq> None"
      and used: "\<And>k. map_of n k \<noteq> None \<Longrightarrow> below S k \<noteq> {}"
      using Cons.prems(1) unfolding Object
    proof (cases rule: built_object_cases)
      case none
      then show ?thesis
        using that [of "[]"] mem(3) by (simp add: create_step_def key_slot_Null omap_insert_def)
    next
      case (some n)
      then show ?thesis
        using that [of n] by (simp add: create_step_def key_slot_def omap_insert_def split: option.splits)
    qed
    let ?n = "omap_insert t Null n"
    obtain u where u: "map_of ?n t = Some u" "built (below S t) v' u"
    proof (cases "map_of n t")
      case None
      then have "below S t = {}" using all by (fastforce simp: below_def)
      then show ?thesis using that [of Null] None by (simp add: map_of_omap_insert domIff built_none)
    next
      case (Some u)
      then show ?thesis using that [of u] blt [OF Some] v'(1) by (simp add: map_of_omap_insert domIff)
    qed
    have sub: "ts \<notin> below S t" "below S t \<subseteq> paths v'"
      using Cons.prems(3,4) v'(1) by (auto simp: below_def Object path_in_object [OF flat dist] subset_iff)
    have before: "us \<in> below S t" if "us \<in> paths v'" "to_string us < to_string ts" for us
      using Cons.prems(7) [of "t # us"] that v'(1) to_string_less [OF that(2), of t]
      by (simp add: below_def Object path_in_object [OF flat dist])
    obtain q u' where q: "get_and_create ts u = (Inr q, u')" "built (insert ts (below S t)) v' (json_put q x u')"
      using Cons.IH [OF u(2) v'(2) sub mem(1,2) before] by blast
    have at: "json_at [Key t] (Object ?n) = Some u" using u(1) by simp
    let ?new = "omap_update t (json_put q x u') ?n"
    have "built (insert (t # ts) S) (Object m) (Object ?new)"
    proof (rule built_object)
      show "omap_ok ?new" using n(2) by (simp add: omap_ok_update omap_ok_insert)
    next
      fix k w' assume "map_of ?new k = Some w'"
      then show "\<exists>w. map_of m k = Some w \<and> built (below (insert (t # ts) S) k) w w'"
        using q(2) v'(1) blt [of k w'] by (auto simp: below_insert map_of_omap_insert split: if_splits)
    next
      fix us assume "us \<in> insert (t # ts) S"
      then show "\<exists>k vs. us = k # vs \<and> map_of ?new k \<noteq> None"
        using all [of us] by (auto simp: map_of_omap_insert)
    next
      fix k assume "map_of ?new k \<noteq> None"
      then show "below (insert (t # ts) S) k \<noteq> {}"
        using used [of k] by (auto simp: below_insert map_of_omap_insert split: if_splits)
    qed simp
    then show ?thesis using get_and_create_step [OF n(1) at q(1), of x] u(1) by (auto simp: Object)
  qed (use Cons.prems(2) in auto)
qed

section \<open>The round trip\<close>

lemma foldl_omap_pairs:
  "distinct (map f ts) \<Longrightarrow> omap_ok m \<Longrightarrow> \<forall>t \<in> set ts. map_of m (f t) = None \<Longrightarrow>
     omap_ok (foldl (\<lambda>m t. omap_update (f t) (g t) m) m ts) \<and>
     map_of (foldl (\<lambda>m t. omap_update (f t) (g t) m) m ts) = map_of m ++ map_of (map (\<lambda>t. (f t, g t)) ts)"
proof (induction ts arbitrary: m)
  case (Cons t ts)
  have "\<forall>t' \<in> set ts. map_of (omap_update (f t) (g t) m) (f t') = None"
    using Cons.prems(1,3) by (auto simp: image_iff)
  moreover have "map_of (map (\<lambda>t. (f t, g t)) ts) (f t) = None"
    using Cons.prems(1) by (auto simp: map_of_eq_None_iff)
  ultimately show ?case
    using Cons.IH [of "omap_update (f t) (g t) m"] Cons.prems(1,2)
    by (auto simp: omap_ok_update fun_eq_iff map_add_def split: option.splits)
qed simp

lemma show_nat_eq: "show_nat i = show_nat j \<longleftrightarrow> i = j"
  by (auto dest: show_nat_inject)

lemma map_fst_push: "map fst (map (\<lambda>(ts, x). (k # ts, x)) l) = map ((#) k) (map fst l)"
  by (induction l) auto

lemma distinct_push: "distinct ps \<Longrightarrow> distinct (map ((#) k) ps)"
  by (induction ps) auto

lemma distinct_leaves:
  "json_ok v \<Longrightarrow> distinct (map fst (leaves v))"
  "elems_ok a \<Longrightarrow> distinct (map fst (leaves_elems i a))"
  "omap_ok m \<Longrightarrow> members_ok m \<Longrightarrow> distinct (map fst (leaves_members m))"
proof (induction v and i a and m rule: leaves_leaves_elems_leaves_members.induct)
  case (5 i v a)
  have "distinct (map ((#) (show_nat i)) (map fst (leaves v)))" using 5 by (intro distinct_push) simp
  with 5 show ?case
    unfolding leaves_elems.simps map_append map_fst_push
    by (auto simp: leaf_elems_iff show_nat_eq)
next
  case (7 k v m)
  have "distinct (map ((#) k) (map fst (leaves v)))" using 7 by (intro distinct_push) simp
  with 7 show ?case
    unfolding leaves_members.simps map_append map_fst_push
    by (force simp: leaf_members_iff omap_ok_Cons)
qed auto

lemma flatten_entries:
  assumes "json_ok v"
  shows "omap_ok (flatten [] v [])"
    and "map_of (flatten [] v []) = map_of (map (\<lambda>(ts, x). (to_string ts, x)) (leaves v))"
proof -
  have "distinct (map to_string (map fst (leaves v)))"
    using distinct_leaves(1) [OF assms] by (simp only: distinct_map inj_on_def) (auto dest: to_string_inject)
  then have "distinct (map (\<lambda>t. to_string (fst t)) (leaves v))" by (simp add: comp_def)
  from foldl_omap_pairs [OF this, of "[]" snd] show "omap_ok (flatten [] v [])"
    "map_of (flatten [] v []) = map_of (map (\<lambda>(ts, x). (to_string ts, x)) (leaves v))"
    by (simp_all add: flatten_leaves case_prod_beta')
qed

lemma flatten_iff:
  assumes "json_ok v"
  shows "(s, x) \<in> set (flatten [] v []) \<longleftrightarrow> (\<exists>ts. s = to_string ts \<and> (ts, x) \<in> set (leaves v))"
proof -
  have "distinct (map fst (map (\<lambda>(ts, x). (to_string ts, x)) (leaves v)))"
    using distinct_leaves(1) [OF assms] by (auto simp: comp_def case_prod_beta distinct_map inj_on_def dest: to_string_inject)
  then have "(s, x) \<in> set (flatten [] v []) \<longleftrightarrow> (s, x) \<in> set (map (\<lambda>(ts, x). (to_string ts, x)) (leaves v))"
    using flatten_entries [OF assms] omap_ok_distinct by (metis map_of_eq_Some_iff)
  then show ?thesis by force
qed

lemma store_leaves:
  assumes "json_ok v" and "flattenable v"
  shows "flatten [] v [] = ds @ rest \<Longrightarrow> built {ts \<in> paths v. to_string ts \<in> fst ` set ds} v w \<Longrightarrow>
    \<exists>w'. forC rest unflatten_entry w = (Inr (), w') \<and> built (paths v) v w'"
proof (induction rest arbitrary: ds w)
  case Nil
  have "{ts \<in> paths v. to_string ts \<in> fst ` set ds} = paths v"
    using flatten_iff [OF assms(1)] Nil.prems(1) by (auto simp: paths_def image_iff) force
  with Nil.prems(2) show ?case by simp
next
  case (Cons e rest)
  let ?S = "{ts \<in> paths v. to_string ts \<in> fst ` set ds}"
  obtain s x where sx: "e = (s, x)" by force
  then have "(s, x) \<in> set (flatten [] v [])" using Cons.prems(1) by simp
  then obtain ts where e: "e = (to_string ts, x)" "(ts, x) \<in> set (leaves v)"
    unfolding flatten_iff [OF assms(1)] sx by blast
  have sorted: "sorted_wrt (<) (map fst (ds @ e # rest))"
    using flatten_entries(1) [OF assms(1)] Cons.prems(1) by (simp add: omap_ok_def)
  have new: "ts \<notin> ?S" using sorted by (auto simp: e(1) sorted_wrt_append)
  have before: "us \<in> ?S" if "us \<in> paths v" "to_string us < to_string ts" for us
  proof -
    from that(1) obtain y where "(us, y) \<in> set (leaves v)" by (auto simp: paths_def)
    then have "(to_string us, y) \<in> set (ds @ e # rest)"
      using flatten_iff [OF assms(1), of "to_string us" y] Cons.prems(1) by auto
    then have "to_string us \<in> fst ` set (ds @ e # rest)" by (metis fst_conv image_eqI)
    moreover have "\<forall>s \<in> fst ` set rest. to_string ts < s"
      using sorted by (simp add: e(1) sorted_wrt_append)
    ultimately have "to_string us \<in> fst ` set ds"
      using that(2) by (auto simp: e(1) dest: less_asym)
    with that(1) show ?thesis by simp
  qed
  obtain p w' where p: "get_and_create ts w = (Inr p, w')" "built (insert ts ?S) v (json_put p x w')"
    using store_leaf [OF Cons.prems(2) e(2) new _ assms before] by auto
  have "is_primitive x" using leaf_is_primitive [OF assms e(2)] .
  then have run: "unflatten_entry e w = (Inr (), json_put p x w')"
    by (simp add: unflatten_entry_def e(1) p(1) bindC_run)
  have "insert ts ?S = {us \<in> paths v. to_string us \<in> fst ` set (ds @ [e])}"
    using e by (force simp: paths_def dest: to_string_inject)
  with Cons.IH [of "ds @ [e]" "json_put p x w'"] Cons.prems(1) p(2)
  show ?case by (simp add: seqC_run run)
qed

theorem unflatten_flatten: "json_ok v \<Longrightarrow> flattenable v \<Longrightarrow> unflatten (json_flatten v) = Inr v"
  using store_leaves [of v "[]" "flatten [] v []" Null] built_complete [of v]
  by (auto simp: unflatten_def json_flatten_def built_none)

end
