(* ===== verification/Json_Sax.thy ===== *)
theory Json_Sax
  imports Json_Parser
begin

text \<open>
  Class \<open>parser\<close> with any SAX handler: the functions of the handler are the members of a record, and the
  state of the parser is the last token, the lexer and the state of the handler. \<open>Json_Parser\<close> is the
  instance for \<open>json_sax_dom_parser\<close>; here follow \<open>sax_parse\<close>, and \<open>accept\<close> with the \<open>json_sax_acceptor\<close>.
\<close>

section \<open>Handlers\<close>

text \<open>
  The interface \<open>json_sax\<close>. \<open>null\<close>, \<open>boolean\<close>, \<open>number_integer\<close>, \<open>number_unsigned\<close>, \<open>number_float\<close> and \<open>string\<close>
  are \<open>sx_value\<close>: the kind of value says which one is called. \<open>parse_error\<close> is \<open>sx_error\<close>; the handlers use
  none of its arguments but the exception.
\<close>

record 's sax =
  sx_value :: "json \<Rightarrow> 's \<Rightarrow> exn + (bool \<times> 's)"
  sx_start_object :: "'s \<Rightarrow> exn + (bool \<times> 's)"
  sx_key :: "string \<Rightarrow> 's \<Rightarrow> exn + (bool \<times> 's)"
  sx_end_object :: "'s \<Rightarrow> exn + (bool \<times> 's)"
  sx_start_array :: "'s \<Rightarrow> exn + (bool \<times> 's)"
  sx_end_array :: "'s \<Rightarrow> exn + (bool \<times> 's)"
  sx_error :: "exn \<Rightarrow> 's \<Rightarrow> exn + (bool \<times> 's)"

record 's machine =
  sax_state :: 's
  mc_token :: token_type
  mc_lexer :: lexer

definition next_token :: "'s machine \<Rightarrow> 's machine" where
  "next_token m = (let (t, lx) = scan (mc_lexer m) in m\<lparr>mc_token := t, mc_lexer := lx\<rparr>)"

text \<open>An event, and what follows if it returns true.\<close>

definition sax_event ::
  "('s \<Rightarrow> exn + (bool \<times> 's)) \<Rightarrow> 's machine \<Rightarrow> ('s machine \<Rightarrow> exn + 's machine outcome) \<Rightarrow> exn + 's machine outcome" where
  "sax_event f m k =
     bindR (f (sax_state m)) (\<lambda>(ok, s').
       if ok then k (m\<lparr>sax_state := s'\<rparr>) else Inr (Return False (m\<lparr>sax_state := s'\<rparr>)))"

definition error_event :: "'s sax \<Rightarrow> exn \<Rightarrow> 's machine \<Rightarrow> exn + 's machine outcome" where
  "error_event S e m = mapR (\<lambda>(b, s'). Return b (m\<lparr>sax_state := s'\<rparr>)) (sx_error S e (sax_state m))"

definition error_101_event :: "'s sax \<Rightarrow> token_type \<Rightarrow> string \<Rightarrow> 's machine \<Rightarrow> exn + 's machine outcome" where
  "error_101_event S expected context m =
     error_event S (syntax_error expected context (mc_token m) (mc_lexer m)) m"

section \<open>The parser\<close>

definition member_head_events :: "'s sax \<Rightarrow> bool list \<Rightarrow> 's machine \<Rightarrow> exn + 's machine outcome" where
  "member_head_events S states m =
     (if mc_token m \<noteq> value_string_tok then error_101_event S value_string_tok ''object key'' m
      else sax_event (sx_key S (token_buffer (mc_lexer m))) m (\<lambda>m1.
        let m2 = next_token m1 in
        if mc_token m2 \<noteq> name_separator then error_101_event S name_separator ''object separator'' m2
        else Inr (Continue states (next_token m2))))"

definition value_event :: "'s sax \<Rightarrow> bool list \<Rightarrow> 's machine \<Rightarrow> json \<Rightarrow> exn + 's machine outcome" where
  "value_event S states m v = sax_event (sx_value S v) m (\<lambda>m'. Inr (Break states m'))"

definition token_events :: "'s sax \<Rightarrow> bool list \<Rightarrow> 's machine \<Rightarrow> exn + 's machine outcome" where
  "token_events S states m =
     (case mc_token m of
        begin_object \<Rightarrow>
          sax_event (sx_start_object S) m (\<lambda>m1.
          let m2 = next_token m1 in
          if mc_token m2 = end_object then sax_event (sx_end_object S) m2 (\<lambda>m'. Inr (Break states m'))
          else member_head_events S (False # states) m2)
      | begin_array \<Rightarrow>
          sax_event (sx_start_array S) m (\<lambda>m1.
          let m2 = next_token m1 in
          if mc_token m2 = end_array then sax_event (sx_end_array S) m2 (\<lambda>m'. Inr (Break states m'))
          else Inr (Continue (True # states) m2))
      | value_float_tok \<Rightarrow>
          let res = value_float (mc_lexer m) in
          if \<not> is_finite res then error_event S (overflow_error (mc_lexer m)) m
          else value_event S states m (Number_float res)
      | literal_false \<Rightarrow> value_event S states m (Boolean False)
      | literal_null \<Rightarrow> value_event S states m Null
      | literal_true \<Rightarrow> value_event S states m (Boolean True)
      | value_integer_tok \<Rightarrow> value_event S states m (Number_integer (value_integer (mc_lexer m)))
      | value_string_tok \<Rightarrow> value_event S states m (String (token_buffer (mc_lexer m)))
      | value_unsigned_tok \<Rightarrow> value_event S states m (Number_unsigned (value_unsigned (mc_lexer m)))
      | parse_error_tok \<Rightarrow> error_101_event S uninitialized ''value'' m
      | _ \<Rightarrow> error_101_event S literal_or_value ''value'' m)"

definition state_events :: "'s sax \<Rightarrow> bool list \<Rightarrow> 's machine \<Rightarrow> exn + 's machine outcome" where
  "state_events S states m =
     (case states of
        [] \<Rightarrow> Inr (Return True m)
      | True # rest \<Rightarrow>
          let m1 = next_token m in
          if mc_token m1 = value_separator then Inr (Continue states (next_token m1))
          else if mc_token m1 = end_array then sax_event (sx_end_array S) m1 (\<lambda>m'. Inr (Skip rest m'))
          else error_101_event S end_array ''array'' m1
      | False # rest \<Rightarrow>
          let m1 = next_token m in
          if mc_token m1 = value_separator then member_head_events S states (next_token m1)
          else if mc_token m1 = end_object then sax_event (sx_end_object S) m1 (\<lambda>m'. Inr (Skip rest m'))
          else error_101_event S end_object ''object'' m1)"

section \<open>Termination\<close>

lemma next_token_simps [simp]:
  "mc_lexer (next_token m) = snd (scan (mc_lexer m))" "mc_token (next_token m) = fst (scan (mc_lexer m))"
  "sax_state (next_token m) = sax_state m"
  by (simp_all add: next_token_def split: prod.split)

definition mavail :: "'s machine \<Rightarrow> nat" where
  "mavail m = 2 * avail (mc_lexer m) + (if stuck (mc_token m) then 0 else 1)"

lemma mavail_less: "avail (mc_lexer m') < avail (mc_lexer m) \<Longrightarrow> mavail m' < mavail m"
  by (simp add: mavail_def)

lemma next_token_avail:
  "avail (mc_lexer (next_token m)) \<le> avail (mc_lexer m)"
  "\<not> stuck (mc_token (next_token m)) \<Longrightarrow> avail (mc_lexer (next_token m)) < avail (mc_lexer m)"
  using avail_scan [of "mc_lexer m"] by simp_all

lemma event_cases:
  assumes "sax_event f m k = Inr r"
  obtains (true) s' where "k (m\<lparr>sax_state := s'\<rparr>) = Inr r" | (false) m' where "r = Return False m'"
  using assms by (auto simp: sax_event_def bindR_eq_Inr split: if_splits)

lemma error_event_Return: "error_event S e m = Inr r \<Longrightarrow> \<exists>b m'. r = Return b m'"
  "error_101_event S t c m = Inr r \<Longrightarrow> \<exists>b m'. r = Return b m'"
  by (auto simp: error_event_def error_101_event_def mapR_eq_Inr split: prod.splits)

lemma member_head_Continue:
  assumes "member_head_events S st m = Inr r"
  shows "(\<exists>b m'. r = Return b m') \<or> (\<exists>m'. r = Continue st m' \<and> avail (mc_lexer m') < avail (mc_lexer m))"
proof (cases "mc_token m = value_string_tok")
  case True
  with assms have "sax_event (sx_key S (token_buffer (mc_lexer m))) m (\<lambda>m1. let m2 = next_token m1 in
      if mc_token m2 \<noteq> name_separator then error_101_event S name_separator ''object separator'' m2
      else Inr (Continue st (next_token m2))) = Inr r" by (simp add: member_head_events_def)
  then show ?thesis
  proof (cases rule: event_cases)
    case (true s')
    let ?m2 = "next_token (m\<lparr>sax_state := s'\<rparr>)"
    show ?thesis
    proof (cases "mc_token ?m2 = name_separator")
      case True
      then have "avail (mc_lexer ?m2) < avail (mc_lexer m)"
        using next_token_avail(2) [of "m\<lparr>sax_state := s'\<rparr>"] by (simp add: stuck_def)
      moreover have "r = Continue st (next_token ?m2)" using true True by (simp add: Let_def)
      ultimately show ?thesis using next_token_avail(1) [of ?m2] by auto
    next
      case False
      then show ?thesis using true by (auto simp: Let_def dest: error_event_Return)
    qed
  qed blast
next
  case False
  then show ?thesis using assms by (auto simp: member_head_events_def dest: error_event_Return)
qed

text \<open>How the parts of an iteration end, and that they consume input.\<close>

lemma state_events_outcome:
  assumes "state_events S st m = Inr r"
  shows "(\<exists>b m'. r = Return b m') \<or>
    (\<exists>st' m'. (r = Continue st' m' \<or> r = Skip st' m') \<and> avail (mc_lexer m') < avail (mc_lexer m))"
proof (cases st)
  case Nil
  then show ?thesis using assms by (auto simp: state_events_def)
next
  case (Cons b rest)
  let ?m1 = "next_token m"
  have less: "mc_token ?m1 \<in> {value_separator, end_array, end_object} \<Longrightarrow> avail (mc_lexer ?m1) < avail (mc_lexer m)"
    using next_token_avail(2) [of m] by (auto simp: stuck_def simp del: next_token_simps(1,2))
  note le = next_token_avail(1) [of ?m1]
  show ?thesis
  proof (cases b)
    case True
    then show ?thesis using assms Cons less le
      by (auto simp: state_events_def Let_def simp del: next_token_simps(1,2) split: if_splits
          dest: error_event_Return elim!: event_cases)
  next
    case False
    then show ?thesis using assms Cons less le member_head_Continue [of S st "next_token ?m1" r]
      by (auto simp: state_events_def Let_def simp del: next_token_simps(1,2) split: if_splits
          dest: error_event_Return elim!: event_cases)
  qed
qed

lemma token_events_outcome:
  assumes "token_events S st m = Inr r"
  shows "(\<exists>b m'. r = Return b m') \<or> (\<exists>st' m'. r = Continue st' m' \<and> mavail m' < mavail m) \<or>
    (\<exists>m'. r = Break st m' \<and> avail (mc_lexer m') \<le> avail (mc_lexer m))"
proof -
  have val: "(\<exists>b m'. r = Return b m') \<or> (\<exists>m'. r = Break st m' \<and> avail (mc_lexer m') \<le> avail (mc_lexer m))"
    if "value_event S st m v = Inr r" for v
    using that by (auto simp: value_event_def elim!: event_cases)
  have closing: "(\<exists>b m'. r = Return b m') \<or> (\<exists>m'. r = Break st m' \<and> avail (mc_lexer m') \<le> avail (mc_lexer m))"
    if "sax_event f (next_token (m\<lparr>sax_state := s'\<rparr>)) (\<lambda>m'. Inr (Break st m')) = Inr r" for f s'
    using that next_token_avail(1) [of "m\<lparr>sax_state := s'\<rparr>"] by (auto elim!: event_cases)
  show ?thesis
  proof (cases "mc_token m")
    case begin_object
    then have "sax_event (sx_start_object S) m (\<lambda>m1. let m2 = next_token m1 in
        if mc_token m2 = end_object then sax_event (sx_end_object S) m2 (\<lambda>m'. Inr (Break st m'))
        else member_head_events S (False # st) m2) = Inr r" using assms by (simp add: token_events_def)
    then show ?thesis
    proof (cases rule: event_cases)
      case (true s')
      let ?m2 = "next_token (m\<lparr>sax_state := s'\<rparr>)"
      have "\<forall>m'. avail (mc_lexer m') < avail (mc_lexer ?m2) \<longrightarrow> mavail m' < mavail m"
        using next_token_avail(1) [of "m\<lparr>sax_state := s'\<rparr>"] by (auto intro: mavail_less)
      then show ?thesis
        using true closing [of _ s'] member_head_Continue [of S "False # st" ?m2 r]
        by (cases "mc_token ?m2 = end_object") (fastforce simp: Let_def)+
    qed blast
  next
    case begin_array
    then have "sax_event (sx_start_array S) m (\<lambda>m1. let m2 = next_token m1 in
        if mc_token m2 = end_array then sax_event (sx_end_array S) m2 (\<lambda>m'. Inr (Break st m'))
        else Inr (Continue (True # st) m2)) = Inr r" using assms by (simp add: token_events_def)
    then show ?thesis
    proof (cases rule: event_cases)
      case (true s')
      have "mavail (next_token (m\<lparr>sax_state := s'\<rparr>)) < mavail m"
        using next_token_avail [of "m\<lparr>sax_state := s'\<rparr>"] begin_array
        by (cases "stuck (mc_token (next_token (m\<lparr>sax_state := s'\<rparr>)))") (auto simp: mavail_def stuck_def)
      then show ?thesis using true closing [of _ s'] by (auto simp: Let_def split: if_splits)
    qed blast
  qed (use assms val in \<open>auto simp: token_events_def Let_def dest: error_event_Return split: if_splits\<close>)
qed

section \<open>The loop\<close>

function sax_loop :: "'s sax \<Rightarrow> bool \<Rightarrow> bool list \<Rightarrow> 's machine \<Rightarrow> exn + (bool \<times> 's machine)" where
  "sax_loop S skip states m =
     bindR (if skip then Inr (Break states m) else token_events S states m) (\<lambda>r.
       case r of
         Return b m1 \<Rightarrow> Inr (b, m1)
       | Continue states1 m1 \<Rightarrow> sax_loop S False states1 m1
       | Skip states1 m1 \<Rightarrow> sax_loop S True states1 m1
       | Break states1 m1 \<Rightarrow>
           bindR (state_events S states1 m1) (\<lambda>r'.
             case r' of
               Return b m2 \<Rightarrow> Inr (b, m2)
             | Continue states2 m2 \<Rightarrow> sax_loop S False states2 m2
             | Skip states2 m2 \<Rightarrow> sax_loop S True states2 m2
             | Break states2 m2 \<Rightarrow> Inr (True, m2)))"
  by pat_completeness auto
termination
proof (relation "measure (\<lambda>(S, skip, states, m). mavail m)", goal_cases)
  case (2 S skip states m r states1 m1)
  then show ?case by (auto dest: token_events_outcome split: if_splits)
next
  case (3 S skip states m r states1 m1)
  then show ?case by (auto dest: token_events_outcome split: if_splits)
next
  case (4 S skip states m r states1 m1 r' states2 m2)
  then show ?case by (auto simp: mavail_def dest!: token_events_outcome state_events_outcome split: if_splits)
next
  case (5 S skip states m r states1 m1 r' states2 m2)
  then show ?case by (auto simp: mavail_def dest!: token_events_outcome state_events_outcome split: if_splits)
qed simp

declare sax_loop.simps [simp del]

definition machine_init :: "'s \<Rightarrow> string \<Rightarrow> 's machine" where
  "machine_init s adapter = next_token \<lparr>sax_state = s, mc_token = uninitialized, mc_lexer = lexer_init adapter\<rparr>"

definition sax_parse :: "'s sax \<Rightarrow> bool \<Rightarrow> 's machine \<Rightarrow> exn + (bool \<times> 's machine)" where
  "sax_parse S strict m =
     bindR (sax_loop S False [] m) (\<lambda>(result, m1).
       if result \<and> strict
       then let m2 = next_token m1 in
         if mc_token m2 \<noteq> end_of_input
         then mapR (\<lambda>(b, s'). (b, m2\<lparr>sax_state := s'\<rparr>))
                (sx_error S (syntax_error end_of_input ''value'' (mc_token m2) (mc_lexer m2)) (sax_state m2))
         else Inr (result, m2)
       else Inr (result, m1))"

section \<open>\<open>accept\<close>\<close>

definition json_sax_acceptor :: "unit sax" where
  "json_sax_acceptor =
     \<lparr>sx_value = (\<lambda>v s. Inr (True, s)), sx_start_object = (\<lambda>s. Inr (True, s)), sx_key = (\<lambda>k s. Inr (True, s)),
      sx_end_object = (\<lambda>s. Inr (True, s)), sx_start_array = (\<lambda>s. Inr (True, s)),
      sx_end_array = (\<lambda>s. Inr (True, s)), sx_error = (\<lambda>e s. Inr (False, s))\<rparr>"

definition parser_accept :: "bool \<Rightarrow> unit machine \<Rightarrow> exn + bool" where
  "parser_accept strict m = mapR fst (sax_parse json_sax_acceptor strict m)"

definition json_accept :: "string \<Rightarrow> exn + bool" where
  "json_accept i = parser_accept True (machine_init () i)"

end
