(* ===== verification/Json_Callback.thy ===== *)
theory Json_Callback
  imports Json_Sax
begin

text \<open>
  \<open>parse\<close> with a callback: class \<open>json_sax_dom_callback_parser\<close>, the handler that asks the callback which
  elements to keep, and the first branch of \<open>parser::parse\<close>.
\<close>

section \<open>State\<close>

datatype parse_event_t = Ev_object_start | Ev_object_end | Ev_array_start | Ev_array_end | Ev_key | Ev_value

text \<open>
  \<open>parser_callback_t\<close>: depth, event and the element, which the callback may change through its reference;
  \<open>'c\<close> is what the callback keeps between its calls. A callback that throws is not modelled.
\<close>

type_synonym 'c callback = "nat \<Rightarrow> parse_event_t \<Rightarrow> json \<Rightarrow> 'c \<Rightarrow> bool \<times> json \<times> 'c"

text \<open>The heads of the lists are the last elements of the vectors; \<open>nullptr\<close> is \<open>None\<close>.\<close>

record 'c cb_dom =
  cb_root :: json
  cb_ref_stack :: "pointer option list"
  keep_stack :: "bool list"
  key_keep_stack :: "bool list"
  cb_object_element :: "pointer option"
  cb_errored :: bool
  cb_allow_exceptions :: bool
  cb_discarded :: json
  cb_state :: 'c

definition cb_dom_init :: "bool \<Rightarrow> 'c \<Rightarrow> 'c cb_dom" where
  "cb_dom_init allow c =
     \<lparr>cb_root = Null, cb_ref_stack = [], keep_stack = [True], key_keep_stack = [], cb_object_element = None,
      cb_errored = False, cb_allow_exceptions = allow, cb_discarded = Discarded, cb_state = c\<rparr>"

definition ask :: "'c callback \<Rightarrow> nat \<Rightarrow> parse_event_t \<Rightarrow> json \<Rightarrow> 'c cb_dom \<Rightarrow> bool \<times> json \<times> 'c cb_dom" where
  "ask callback depth ev v d =
     (let (keep, v', c) = callback depth ev v (cb_state d) in (keep, v', d\<lparr>cb_state := c\<rparr>))"

section \<open>The handler\<close>

text \<open>The part of \<open>handle_value\<close> that stores the value.\<close>

definition cb_store :: "json \<Rightarrow> 'c cb_dom \<Rightarrow> exn + ((bool \<times> pointer option) \<times> 'c cb_dom)" where
  "cb_store v d =
     (case cb_ref_stack d of
        [] \<Rightarrow> Inr ((True, Some []), d\<lparr>cb_root := v\<rparr>)
      | None # _ \<Rightarrow> Inr ((False, None), d)
      | Some back # _ \<Rightarrow>
          (case json_at back (cb_root d) of
             Some (Array a) \<Rightarrow>
               Inr ((True, Some (back @ [Index (length a)])),
                    d\<lparr>cb_root := json_put back (Array (a @ [v])) (cb_root d)\<rparr>)
           | Some (Object m) \<Rightarrow>
               (case key_keep_stack d of
                  [] \<Rightarrow> Inl (Assertion_failed ''not key_keep_stack.empty()'')
                | store_element # rest \<Rightarrow>
                    let d1 = d\<lparr>key_keep_stack := rest\<rparr> in
                    if \<not> store_element then Inr ((False, None), d1)
                    else
                      (case cb_object_element d1 of
                         None \<Rightarrow> Inl (Assertion_failed ''object_element'')
                       | Some e \<Rightarrow> Inr ((True, Some e), d1\<lparr>cb_root := json_put e v (cb_root d1)\<rparr>)))
           | _ \<Rightarrow> Inl (Assertion_failed ''ref_stack.back()->is_array() or ref_stack.back()->is_object()'')))"

definition cb_handle_value ::
  "'c callback \<Rightarrow> json \<Rightarrow> bool \<Rightarrow> 'c cb_dom \<Rightarrow> exn + ((bool \<times> pointer option) \<times> 'c cb_dom)" where
  "cb_handle_value callback v skip_callback d =
     (case keep_stack d of
        [] \<Rightarrow> Inl (Assertion_failed ''not keep_stack.empty()'')
      | keeping # _ \<Rightarrow>
          if \<not> keeping then Inr ((False, None), d)
          else
            let (keep, v', d1) =
              (if skip_callback then (True, v, d) else ask callback (length (cb_ref_stack d)) Ev_value v d) in
            if \<not> keep then Inr ((False, None), d1) else cb_store v' d1)"

definition cb_value :: "'c callback \<Rightarrow> json \<Rightarrow> 'c cb_dom \<Rightarrow> exn + (bool \<times> 'c cb_dom)" where
  "cb_value callback v d = mapR (\<lambda>(_, d'). (True, d')) (cb_handle_value callback v False d)"

text \<open>\<open>start_object\<close> and \<open>start_array\<close>; the parser passes the length -1, which is no excessive size.\<close>

definition cb_start :: "'c callback \<Rightarrow> parse_event_t \<Rightarrow> value_t \<Rightarrow> 'c cb_dom \<Rightarrow> exn + (bool \<times> 'c cb_dom)" where
  "cb_start callback ev t d =
     (let (keep, disc, d1) = ask callback (length (cb_ref_stack d)) ev (cb_discarded d) d;
          d2 = d1\<lparr>cb_discarded := disc, keep_stack := keep # keep_stack d1\<rparr> in
      mapR (\<lambda>((_, val), d3). (True, d3\<lparr>cb_ref_stack := val # cb_ref_stack d3\<rparr>))
        (cb_handle_value callback (json_of_type t) True d2))"

definition cb_start_object :: "'c callback \<Rightarrow> 'c cb_dom \<Rightarrow> exn + (bool \<times> 'c cb_dom)" where
  "cb_start_object callback = cb_start callback Ev_object_start object_t"

definition cb_start_array :: "'c callback \<Rightarrow> 'c cb_dom \<Rightarrow> exn + (bool \<times> 'c cb_dom)" where
  "cb_start_array callback = cb_start callback Ev_array_start array_t"

definition cb_key :: "'c callback \<Rightarrow> string \<Rightarrow> 'c cb_dom \<Rightarrow> exn + (bool \<times> 'c cb_dom)" where
  "cb_key callback k d =
     (let (keep, _, d1) = ask callback (length (cb_ref_stack d)) Ev_key (String k) d;
          d2 = d1\<lparr>key_keep_stack := keep # key_keep_stack d1\<rparr> in
      if \<not> keep then Inr (True, d2)
      else
        (case cb_ref_stack d2 of
           [] \<Rightarrow> Inl (Undefined_behaviour ''back() of an empty ref_stack'')
         | None # _ \<Rightarrow> Inr (True, d2)
         | Some back # _ \<Rightarrow>
             (case json_at back (cb_root d2) of
                Some (Object m) \<Rightarrow>
                  Inr (True, d2\<lparr>cb_root := json_put back (Object (omap_update k (cb_discarded d2) m)) (cb_root d2),
                                cb_object_element := Some (back @ [Key k])\<rparr>)
              | _ \<Rightarrow> Inl (Undefined_behaviour ''m_value.object of a value that is no object''))))"

text \<open>The callback at the end of a container, which is replaced by \<open>discarded\<close> if it is not kept.\<close>

definition cb_finish ::
  "'c callback \<Rightarrow> parse_event_t \<Rightarrow> pointer option \<Rightarrow> 'c cb_dom \<Rightarrow> exn + (bool \<times> 'c cb_dom)" where
  "cb_finish callback ev back d =
     (case back of
        None \<Rightarrow> Inr (True, d)
      | Some q \<Rightarrow>
          (case json_at q (cb_root d) of
             None \<Rightarrow> Inl (Undefined_behaviour ''dangling element pointer'')
           | Some v \<Rightarrow>
               let (keep, v', d1) = ask callback (length (cb_ref_stack d) - 1) ev v d in
               Inr (keep, d1\<lparr>cb_root := json_put q (if keep then v' else cb_discarded d1) (cb_root d1)\<rparr>)))"

definition cb_pop :: "'c cb_dom \<Rightarrow> exn + 'c cb_dom" where
  "cb_pop d =
     (case keep_stack d of
        [] \<Rightarrow> Inl (Assertion_failed ''not keep_stack.empty()'')
      | _ # keeps \<Rightarrow> Inr (d\<lparr>cb_ref_stack := tl (cb_ref_stack d), keep_stack := keeps\<rparr>))"

text \<open>The loop that erases the first discarded member.\<close>

fun erase_discarded :: "(string \<times> json) list \<Rightarrow> (string \<times> json) list" where
  "erase_discarded [] = []"
| "erase_discarded ((k, v) # m) = (if v = Discarded then m else (k, v) # erase_discarded m)"

definition cb_end_object :: "'c callback \<Rightarrow> 'c cb_dom \<Rightarrow> exn + (bool \<times> 'c cb_dom)" where
  "cb_end_object callback d =
     (case cb_ref_stack d of
        [] \<Rightarrow> Inl (Undefined_behaviour ''back() of an empty ref_stack'')
      | back # _ \<Rightarrow>
          bindR (cb_finish callback Ev_object_end back d) (\<lambda>(_, d1).
          bindR (cb_pop d1) (\<lambda>d2.
          case cb_ref_stack d2 of
            Some q # _ \<Rightarrow>
              (case json_at q (cb_root d2) of
                 Some (Object m) \<Rightarrow>
                   Inr (True, d2\<lparr>cb_root := json_put q (Object (erase_discarded m)) (cb_root d2)\<rparr>)
               | Some _ \<Rightarrow> Inr (True, d2)
               | None \<Rightarrow> Inl (Undefined_behaviour ''dangling element pointer''))
          | _ \<Rightarrow> Inr (True, d2))))"

definition cb_end_array :: "'c callback \<Rightarrow> 'c cb_dom \<Rightarrow> exn + (bool \<times> 'c cb_dom)" where
  "cb_end_array callback d =
     (case cb_ref_stack d of
        [] \<Rightarrow> Inl (Undefined_behaviour ''back() of an empty ref_stack'')
      | back # _ \<Rightarrow>
          bindR (cb_finish callback Ev_array_end back d) (\<lambda>(keep, d1).
          bindR (cb_pop d1) (\<lambda>d2.
          if keep then Inr (True, d2)
          else
            (case cb_ref_stack d2 of
               [] \<Rightarrow> Inr (True, d2)
             | None # _ \<Rightarrow> Inl (Undefined_behaviour ''null element pointer'')
             | Some q # _ \<Rightarrow>
                 (case json_at q (cb_root d2) of
                    Some (Array a) \<Rightarrow>
                      if a = [] then Inl (Undefined_behaviour ''pop_back() on an empty array'')
                      else Inr (True, d2\<lparr>cb_root := json_put q (Array (butlast a)) (cb_root d2)\<rparr>)
                  | Some _ \<Rightarrow> Inr (True, d2)
                  | None \<Rightarrow> Inl (Undefined_behaviour ''dangling element pointer''))))))"

definition cb_parse_error :: "exn \<Rightarrow> 'c cb_dom \<Rightarrow> exn + (bool \<times> 'c cb_dom)" where
  "cb_parse_error ex d =
     (if cb_allow_exceptions d then Inl ex else Inr (False, d\<lparr>cb_errored := True\<rparr>))"

definition json_sax_dom_callback_parser :: "'c callback \<Rightarrow> 'c cb_dom sax" where
  "json_sax_dom_callback_parser callback =
     \<lparr>sx_value = cb_value callback, sx_start_object = cb_start_object callback, sx_key = cb_key callback,
      sx_end_object = cb_end_object callback, sx_start_array = cb_start_array callback,
      sx_end_array = cb_end_array callback, sx_error = cb_parse_error\<rparr>"

section \<open>\<open>parse\<close>\<close>

text \<open>The result comes with what the callback has kept.\<close>

definition parser_parse_callback :: "'c callback \<Rightarrow> bool \<Rightarrow> 'c cb_dom machine \<Rightarrow> exn + (json \<times> 'c)" where
  "parser_parse_callback callback strict m =
     bindR (sax_loop (json_sax_dom_callback_parser callback) False [] m) (\<lambda>(_, m1).
       let m2 = (if strict then next_token m1 else m1) in
       bindR (if strict \<and> mc_token m2 \<noteq> end_of_input
              then mapR snd (cb_parse_error (syntax_error end_of_input ''value'' (mc_token m2) (mc_lexer m2)) (sax_state m2))
              else Inr (sax_state m2)) (\<lambda>d.
       Inr (if cb_errored d then Discarded
            else if cb_root d = Discarded then Null
            else cb_root d, cb_state d)))"

text \<open>\<open>basic_json::parse\<close> with a callback.\<close>

definition json_parse_callback :: "'c callback \<Rightarrow> 'c \<Rightarrow> bool \<Rightarrow> string \<Rightarrow> exn + (json \<times> 'c)" where
  "json_parse_callback callback c allow s =
     parser_parse_callback callback True (machine_init (cb_dom_init allow c) s)"

end
