(* ===== verification/Json_Sax_Laws.thy ===== *)
theory Json_Sax_Laws
  imports Json_Sax Json_Safety
begin

text \<open>
  The parser with the handler \<open>json_sax_dom_parser\<close> is the one of \<open>Json_Parser\<close>, and when two handlers take
  the same decisions: locale \<open>sax_simulation\<close>. With it, \<open>accept\<close> is compared with \<open>parse\<close>.
\<close>

section \<open>The DOM builder as a handler\<close>

definition json_sax_dom_parser :: "sax_dom sax" where
  "json_sax_dom_parser =
     \<lparr>sx_value = (\<lambda>v. mapR (Pair True) \<circ> sax_value v), sx_start_object = mapR (Pair True) \<circ> start_object,
      sx_key = (\<lambda>k. mapR (Pair True) \<circ> sax_key k), sx_end_object = mapR (Pair True) \<circ> sax_end,
      sx_start_array = mapR (Pair True) \<circ> start_array, sx_end_array = mapR (Pair True) \<circ> sax_end,
      sx_error = sax_parse_error\<rparr>"

definition machine_of :: "parser \<Rightarrow> sax_dom machine" where
  "machine_of p = \<lparr>sax_state = sax_dom.truncate p, mc_token = last_token p, mc_lexer = m_lexer p\<rparr>"

lemma handle_value_truncate:
  "handle_value v (sax_dom.truncate p) = mapR (\<lambda>(q, p'). (q, sax_dom.truncate p')) (handle_value v p)"
  by (cases p) (auto simp: handle_value_def sax_dom.defs split: list.split option.split json.split)

lemma truncate_events:
  "sax_value v (sax_dom.truncate p) = mapR sax_dom.truncate (sax_value v p)"
  "start_object (sax_dom.truncate p) = mapR sax_dom.truncate (start_object p)"
  "start_array (sax_dom.truncate p) = mapR sax_dom.truncate (start_array p)"
  "sax_key k (sax_dom.truncate p) = mapR sax_dom.truncate (sax_key k p)"
  "sax_end (sax_dom.truncate p) = mapR sax_dom.truncate (sax_end p)"
  "sax_parse_error e (sax_dom.truncate p) = mapR (\<lambda>(b, p'). (b, sax_dom.truncate p')) (sax_parse_error e p)"
proof -
  have *: "mapR f (mapR g x) = mapR (\<lambda>y. f (g y)) x" for f g and x :: "exn + 'x" by (cases x) simp_all
  show "sax_value v (sax_dom.truncate p) = mapR sax_dom.truncate (sax_value v p)"
    by (simp add: sax_value_def handle_value_truncate * case_prod_beta)
  show "start_object (sax_dom.truncate p) = mapR sax_dom.truncate (start_object p)"
    "start_array (sax_dom.truncate p) = mapR sax_dom.truncate (start_array p)"
    unfolding start_object_def start_array_def handle_value_truncate
    by (cases "handle_value (json_of_type object_t) p"; cases "handle_value (json_of_type array_t) p";
        auto simp: sax_dom.defs)+
qed (cases p; auto simp: sax_key_def sax_end_def sax_parse_error_def sax_dom.defs Let_def
    split: list.split option.split json.split)+

lemma view_simps [simp]:
  "sax_state (machine_of p) = sax_dom.truncate p" "mc_token (machine_of p) = last_token p" "mc_lexer (machine_of p) = m_lexer p"
  by (simp_all add: machine_of_def)

lemma view_get_token: "machine_of (get_token p) = next_token (machine_of p)"
  by (simp add: machine_of_def get_token_def next_token_def sax_dom.defs split: prod.split)

lemma event_view:
  assumes "f' (sax_dom.truncate p) = mapR (\<lambda>p'. (True, sax_dom.truncate p')) (f p)"
    and "\<And>p'. f p = Inr p' \<Longrightarrow> m_lexer p' = m_lexer p \<and> last_token p' = last_token p"
    and "\<And>p'. f p = Inr p' \<Longrightarrow> mapR (map_outcome machine_of) (g p') = k (machine_of p')"
  shows "mapR (map_outcome machine_of) (bindR (f p) g) = sax_event f' (machine_of p) k"
proof (cases "f p")
  case (Inr p')
  then have "(machine_of p)\<lparr>sax_state := sax_dom.truncate p'\<rparr> = machine_of p'" using assms(2) by (simp add: machine_of_def)
  then show ?thesis using assms(1,3) Inr by (simp add: sax_event_def)
qed (use assms(1) in \<open>simp add: sax_event_def\<close>)

lemma sax_dom_events [simp]:
  "sx_value json_sax_dom_parser v (sax_dom.truncate p) = mapR (\<lambda>p'. (True, sax_dom.truncate p')) (sax_value v p)"
  "sx_start_object json_sax_dom_parser (sax_dom.truncate p) = mapR (\<lambda>p'. (True, sax_dom.truncate p')) (start_object p)"
  "sx_start_array json_sax_dom_parser (sax_dom.truncate p) = mapR (\<lambda>p'. (True, sax_dom.truncate p')) (start_array p)"
  "sx_key json_sax_dom_parser k (sax_dom.truncate p) = mapR (\<lambda>p'. (True, sax_dom.truncate p')) (sax_key k p)"
  "sx_end_object json_sax_dom_parser (sax_dom.truncate p) = mapR (\<lambda>p'. (True, sax_dom.truncate p')) (sax_end p)"
  "sx_end_array json_sax_dom_parser (sax_dom.truncate p) = mapR (\<lambda>p'. (True, sax_dom.truncate p')) (sax_end p)"
proof -
  have *: "mapR (Pair True) (mapR sax_dom.truncate x) = mapR (\<lambda>p'. (True, sax_dom.truncate p')) x" for x :: "exn + 'x sax_dom_scheme"
    by (cases x) simp_all
  show "sx_value json_sax_dom_parser v (sax_dom.truncate p) = mapR (\<lambda>p'. (True, sax_dom.truncate p')) (sax_value v p)"
    "sx_start_object json_sax_dom_parser (sax_dom.truncate p) = mapR (\<lambda>p'. (True, sax_dom.truncate p')) (start_object p)"
    "sx_start_array json_sax_dom_parser (sax_dom.truncate p) = mapR (\<lambda>p'. (True, sax_dom.truncate p')) (start_array p)"
    "sx_key json_sax_dom_parser k (sax_dom.truncate p) = mapR (\<lambda>p'. (True, sax_dom.truncate p')) (sax_key k p)"
    "sx_end_object json_sax_dom_parser (sax_dom.truncate p) = mapR (\<lambda>p'. (True, sax_dom.truncate p')) (sax_end p)"
    "sx_end_array json_sax_dom_parser (sax_dom.truncate p) = mapR (\<lambda>p'. (True, sax_dom.truncate p')) (sax_end p)"
    by (simp_all add: json_sax_dom_parser_def truncate_events *)
qed

lemma error_view:
  "mapR (map_outcome machine_of) (mapR (\<lambda>(b, p'). Return b p') (sax_parse_error e p)) = error_event json_sax_dom_parser e (machine_of p)"
  "mapR (map_outcome machine_of) (fail_101 t c p) = error_101_event json_sax_dom_parser t c (machine_of p)"
  by (auto simp: error_101_event_def error_event_def json_sax_dom_parser_def truncate_events fail_101_def
      sax_parse_error_def parser_error_101_def machine_of_def sax_dom.defs)

lemma member_head_view:
  "mapR (map_outcome machine_of) (parse_member_head st p) = member_head_events json_sax_dom_parser st (machine_of p)"
proof (cases "last_token p = value_string_tok")
  case True
  then have eq: "parse_member_head st p = bindR (sax_key (token_buffer (m_lexer p)) p) (\<lambda>p1. let p2 = get_token p1 in
      if last_token p2 \<noteq> name_separator then fail_101 name_separator ''object separator'' p2
      else Inr (Continue st (get_token p2)))" by (simp add: parse_member_head_def)
  have "mapR (map_outcome machine_of) (bindR (sax_key (token_buffer (m_lexer p)) p) (\<lambda>p1. let p2 = get_token p1 in
        if last_token p2 \<noteq> name_separator then fail_101 name_separator ''object separator'' p2
        else Inr (Continue st (get_token p2)))) =
      sax_event (sx_key json_sax_dom_parser (token_buffer (m_lexer p))) (machine_of p) (\<lambda>m1.
        let m2 = next_token m1 in
        if mc_token m2 \<noteq> name_separator then error_101_event json_sax_dom_parser name_separator ''object separator'' m2
        else Inr (Continue st (next_token m2)))"
    by (rule event_view) (simp_all add: sax_lexer Let_def error_view view_get_token)
  with True show ?thesis unfolding eq by (simp add: member_head_events_def)
qed (simp add: parse_member_head_def member_head_events_def error_view)

lemma mapR_Break: "mapR (Break st) x = bindR x (\<lambda>p'. Inr (Break st p'))" "mapR (Skip st) x = bindR x (\<lambda>p'. Inr (Skip st p'))"
  by (cases x; simp)+

lemma closing_view:
  "mapR (map_outcome machine_of) (mapR (Break st) (sax_end p)) = sax_event (sx_end_object json_sax_dom_parser) (machine_of p) (\<lambda>m. Inr (Break st m))"
  "mapR (map_outcome machine_of) (mapR (Break st) (sax_end p)) = sax_event (sx_end_array json_sax_dom_parser) (machine_of p) (\<lambda>m. Inr (Break st m))"
  "mapR (map_outcome machine_of) (mapR (Skip st) (sax_end p)) = sax_event (sx_end_object json_sax_dom_parser) (machine_of p) (\<lambda>m. Inr (Skip st m))"
  "mapR (map_outcome machine_of) (mapR (Skip st) (sax_end p)) = sax_event (sx_end_array json_sax_dom_parser) (machine_of p) (\<lambda>m. Inr (Skip st m))"
  unfolding mapR_Break by (rule event_view; simp add: sax_lexer)+

lemma value_view:
  "mapR (map_outcome machine_of) (mapR (Break st) (sax_value v p)) = value_event json_sax_dom_parser st (machine_of p) v"
  unfolding mapR_Break value_event_def by (rule event_view; simp add: sax_lexer)

lemma token_step_view: "mapR (map_outcome machine_of) (token_step st p) = token_events json_sax_dom_parser st (machine_of p)"
proof (cases "last_token p")
  case begin_object
  have "mapR (map_outcome machine_of) (bindR (start_object p) (\<lambda>p1. let p2 = get_token p1 in
      if last_token p2 = end_object then mapR (Break st) (sax_end p2) else parse_member_head (False # st) p2)) =
    sax_event (sx_start_object json_sax_dom_parser) (machine_of p) (\<lambda>m1. let m2 = next_token m1 in
      if mc_token m2 = end_object then sax_event (sx_end_object json_sax_dom_parser) m2 (\<lambda>m'. Inr (Break st m'))
      else member_head_events json_sax_dom_parser (False # st) m2)"
    by (rule event_view) (simp_all add: sax_lexer Let_def closing_view(1) member_head_view view_get_token)
  then show ?thesis using begin_object by (simp add: token_step_def token_events_def)
next
  case begin_array
  have "mapR (map_outcome machine_of) (bindR (start_array p) (\<lambda>p1. let p2 = get_token p1 in
      if last_token p2 = end_array then mapR (Break st) (sax_end p2) else Inr (Continue (True # st) p2))) =
    sax_event (sx_start_array json_sax_dom_parser) (machine_of p) (\<lambda>m1. let m2 = next_token m1 in
      if mc_token m2 = end_array then sax_event (sx_end_array json_sax_dom_parser) m2 (\<lambda>m'. Inr (Break st m'))
      else Inr (Continue (True # st) m2))"
    by (rule event_view) (simp_all add: sax_lexer Let_def closing_view(2) view_get_token)
  then show ?thesis using begin_array by (simp add: token_step_def token_events_def)
qed (simp_all add: token_step_def token_events_def Let_def error_view value_view)

lemma state_step_view: "mapR (map_outcome machine_of) (state_step st p) = state_events json_sax_dom_parser st (machine_of p)"
proof (cases st)
  case (Cons b rest)
  show ?thesis
  proof (cases b)
    case True
    then show ?thesis
      by (simp add: Cons state_step_def state_events_def Let_def view_get_token [symmetric] closing_view(4) error_view)
  next
    case False
    then show ?thesis
      by (simp add: Cons state_step_def state_events_def Let_def view_get_token [symmetric] closing_view(3) error_view
          member_head_view)
  qed
qed (simp add: state_step_def state_events_def)

theorem sax_loop_view:
  "mapR (\<lambda>(b, p'). (b, machine_of p')) (sax_parse_loop skip st p) = sax_loop json_sax_dom_parser skip st (machine_of p)"
proof (induction skip st p rule: sax_parse_loop.induct)
  case (1 skip st p)
  have tok: "(if skip then Inr (Break st (machine_of p)) else token_events json_sax_dom_parser st (machine_of p)) =
      mapR (map_outcome machine_of) (if skip then Inr (Break st p) else token_step st p)"
    by (simp add: token_step_view)
  show ?case
  proof (cases "if skip then Inr (Break st p) else token_step st p")
    case (Inl e)
    then show ?thesis by (subst sax_parse_loop.simps, subst sax_loop.simps, subst tok) simp
  next
    case (Inr out)
    show ?thesis
    proof (cases out)
      case (Break st1 p1)
      note IH = 1(3,4) [OF Inr Break]
      show ?thesis
      proof (cases "state_step st1 p1")
        case (Inl e)
        then show ?thesis using Inr Break state_step_view [of st1 p1, symmetric]
          by (subst sax_parse_loop.simps, subst sax_loop.simps, subst tok) simp
      next
        case (Inr out')
        then show ?thesis using \<open>(if skip then Inr (Break st p) else token_step st p) = Inr out\<close> Break
            state_step_view [of st1 p1, symmetric] IH [OF Inr]
          by (subst sax_parse_loop.simps, subst sax_loop.simps, subst tok) (cases out'; simp)
      qed
    qed (use Inr 1(1,2) [OF Inr] in \<open>subst sax_parse_loop.simps, subst sax_loop.simps, subst tok, simp\<close>)+
  qed
qed

section \<open>Two handlers that decide alike\<close>

text \<open>
  \<open>ready st\<close> relates the states of the handlers where a value may follow, \<open>closed st\<close> where one was completed
  or a container was opened; \<open>st\<close> is the stack of open containers. \<open>stop\<close> relates what \<open>parse_error\<close> returns. An
  exception of the first handler that \<open>parse\<close> never throws relates to anything.
\<close>

definition sim_steps :: "('a \<Rightarrow> 'b \<Rightarrow> bool) \<Rightarrow> exn + (bool \<times> 'a) \<Rightarrow> exn + (bool \<times> 'b) \<Rightarrow> bool" where
  "sim_steps R r r' \<longleftrightarrow> (\<exists>e. r = Inl e \<and> \<not> allowed e) \<or> (\<exists>a b. r = Inr (True, a) \<and> r' = Inr (True, b) \<and> R a b)"

definition same_lex :: "'a machine \<Rightarrow> 'b machine \<Rightarrow> bool" where
  "same_lex m m' \<longleftrightarrow> mc_token m' = mc_token m \<and> mc_lexer m' = mc_lexer m"

inductive sim_outcome ::
    "(bool list \<Rightarrow> 'a \<Rightarrow> 'b \<Rightarrow> bool) \<Rightarrow> (bool list \<Rightarrow> 'a \<Rightarrow> 'b \<Rightarrow> bool) \<Rightarrow> (exn + (bool \<times> 'a) \<Rightarrow> exn + (bool \<times> 'b) \<Rightarrow> bool) \<Rightarrow>
     exn + 'a machine outcome \<Rightarrow> exn + 'b machine outcome \<Rightarrow> bool"
  for ready closed stop where
  sim_escape: "\<not> allowed e \<Longrightarrow> sim_outcome ready closed stop (Inl e) r'"
| sim_stop: "stop x x' \<Longrightarrow> same_lex m m' \<Longrightarrow> sim_outcome ready closed stop
    (mapR (\<lambda>(b, s). Return b (m\<lparr>sax_state := s\<rparr>)) x) (mapR (\<lambda>(b, s). Return b (m'\<lparr>sax_state := s\<rparr>)) x')"
| sim_Continue: "same_lex m m' \<Longrightarrow> ready st (sax_state m) (sax_state m') \<Longrightarrow>
    sim_outcome ready closed stop (Inr (Continue st m)) (Inr (Continue st m'))"
| sim_Skip: "same_lex m m' \<Longrightarrow> closed st (sax_state m) (sax_state m') \<Longrightarrow>
    sim_outcome ready closed stop (Inr (Skip st m)) (Inr (Skip st m'))"
| sim_Break: "same_lex m m' \<Longrightarrow> closed st (sax_state m) (sax_state m') \<Longrightarrow>
    sim_outcome ready closed stop (Inr (Break st m)) (Inr (Break st m'))"
| sim_Return: "same_lex m m' \<Longrightarrow> closed [] (sax_state m) (sax_state m') \<Longrightarrow>
    sim_outcome ready closed stop (Inr (Return True m)) (Inr (Return True m'))"

inductive sim_run ::
    "(bool list \<Rightarrow> 'a \<Rightarrow> 'b \<Rightarrow> bool) \<Rightarrow> (exn + (bool \<times> 'a) \<Rightarrow> exn + (bool \<times> 'b) \<Rightarrow> bool) \<Rightarrow>
     exn + (bool \<times> 'a machine) \<Rightarrow> exn + (bool \<times> 'b machine) \<Rightarrow> bool"
  for closed stop where
  run_escape: "\<not> allowed e \<Longrightarrow> sim_run closed stop (Inl e) r'"
| run_stop: "stop x x' \<Longrightarrow> same_lex m m' \<Longrightarrow> sim_run closed stop
    (mapR (\<lambda>(b, s). (b, m\<lparr>sax_state := s\<rparr>)) x) (mapR (\<lambda>(b, s). (b, m'\<lparr>sax_state := s\<rparr>)) x')"
| run_end: "same_lex m m' \<Longrightarrow> closed [] (sax_state m) (sax_state m') \<Longrightarrow>
    sim_run closed stop (Inr (True, m)) (Inr (True, m'))"

lemma same_lex_next: "same_lex m m' \<Longrightarrow> same_lex (next_token m) (next_token m')"
  by (simp add: same_lex_def)

lemma same_lex_state: "same_lex m m' \<Longrightarrow> same_lex (m\<lparr>sax_state := a\<rparr>) (m'\<lparr>sax_state := b\<rparr>)"
  by (simp add: same_lex_def)

lemma allowed_errors: "allowed (syntax_error t c l lx)" "allowed (overflow_error lx)"
  by (auto simp: allowed_def syntax_error_def overflow_error_def)

lemma run_returns:
  "bindR (mapR (\<lambda>(b, s). Return b (f s)) x) g = bindR x (\<lambda>(b, s). g (Return b (f s)))"
  "bindR x (\<lambda>(b, s). Inr (b, f s)) = mapR (\<lambda>(b, s). (b, f s)) x"
  by (cases x; auto)+

definition scalar :: "json \<Rightarrow> bool" where
  "scalar v \<longleftrightarrow> (case v of Object _ \<Rightarrow> False | Array _ \<Rightarrow> False | Discarded \<Rightarrow> False | _ \<Rightarrow> True)"

locale sax_simulation =
  fixes A :: "'a sax" and B :: "'b sax"
    and ready closed :: "bool list \<Rightarrow> 'a \<Rightarrow> 'b \<Rightarrow> bool"
    and stop :: "exn + (bool \<times> 'a) \<Rightarrow> exn + (bool \<times> 'b) \<Rightarrow> bool"
  assumes on_value: "ready st a b \<Longrightarrow> scalar v \<Longrightarrow> sim_steps (closed st) (sx_value A v a) (sx_value B v b)"
    and on_start_object: "ready st a b \<Longrightarrow> sim_steps (closed (False # st)) (sx_start_object A a) (sx_start_object B b)"
    and on_key: "closed (False # st) a b \<Longrightarrow> sim_steps (ready (False # st)) (sx_key A k a) (sx_key B k b)"
    and on_end_object: "closed (False # st) a b \<Longrightarrow> sim_steps (closed st) (sx_end_object A a) (sx_end_object B b)"
    and on_start_array: "ready st a b \<Longrightarrow> sim_steps (closed (True # st)) (sx_start_array A a) (sx_start_array B b)"
    and on_end_array: "closed (True # st) a b \<Longrightarrow> sim_steps (closed st) (sx_end_array A a) (sx_end_array B b)"
    and on_element: "closed (True # st) a b \<Longrightarrow> ready (True # st) a b"
    and on_error: "ready st a b \<or> closed st a b \<Longrightarrow> allowed e \<Longrightarrow> stop (sx_error A e a) (sx_error B e b)"
begin

abbreviation "sim \<equiv> sim_outcome ready closed stop"

lemma event_sim:
  assumes "sim_steps R (f (sax_state m)) (f' (sax_state m'))" and "same_lex m m'"
    and "\<And>a b. R a b \<Longrightarrow> sim (k (m\<lparr>sax_state := a\<rparr>)) (k' (m'\<lparr>sax_state := b\<rparr>))"
  shows "sim (sax_event f m k) (sax_event f' m' k')"
  using assms(1,3) by (auto simp: sim_steps_def sax_event_def intro: sim_escape)

lemma error_sim:
  assumes "ready st (sax_state m) (sax_state m') \<or> closed st (sax_state m) (sax_state m')" and "same_lex m m'"
  shows "allowed e \<Longrightarrow> sim (error_event A e m) (error_event B e m')"
    and "sim (error_101_event A t c m) (error_101_event B t c m')"
proof -
  show err: "sim (error_event A e m) (error_event B e m')" if "allowed e" for e
    unfolding error_event_def by (rule sim_stop, rule on_error [OF assms(1) that], rule assms(2))
  have "mc_token m' = mc_token m" "mc_lexer m' = mc_lexer m" using assms(2) by (simp_all add: same_lex_def)
  then show "sim (error_101_event A t c m) (error_101_event B t c m')"
    unfolding error_101_event_def by (simp add: err allowed_errors)
qed

lemma member_head_sim:
  assumes "closed (False # st) (sax_state m) (sax_state m')" and lex: "same_lex m m'"
  shows "sim (member_head_events A (False # st) m) (member_head_events B (False # st) m')"
proof (cases "mc_token m = value_string_tok")
  case True
  have eq: "mc_token m' = mc_token m" "mc_lexer m' = mc_lexer m" using lex by (simp_all add: same_lex_def)
  show ?thesis
    unfolding member_head_events_def eq
  proof (simp add: True Let_def del: next_token_simps, rule event_sim, rule on_key [OF assms(1)], rule lex, goal_cases)
    case (1 a b)
    let ?m = "next_token (m\<lparr>sax_state := a\<rparr>)" and ?m' = "next_token (m'\<lparr>sax_state := b\<rparr>)"
    have "same_lex ?m ?m'" by (intro same_lex_next same_lex_state lex)
    moreover from this have "mc_token ?m' = mc_token ?m" by (simp add: same_lex_def del: next_token_simps)
    ultimately show ?case
      using 1 by (auto simp del: next_token_simps(1,2) intro!: error_sim(2) [of "False # st"] sim_Continue same_lex_next)
  qed
next
  case False
  then show ?thesis using error_sim(2) [of "False # st", OF _ lex] assms lex
    by (simp add: member_head_events_def same_lex_def)
qed

lemma value_sim:
  assumes "ready st (sax_state m) (sax_state m')" and "same_lex m m'" and "scalar v"
  shows "sim (value_event A st m v) (value_event B st m' v)"
  unfolding value_event_def
  by (rule event_sim, rule on_value [OF assms(1,3)], rule assms(2)) (auto intro!: sim_Break same_lex_state assms(2))

lemma closing_sim:
  assumes "closed (b # st) (sax_state m) (sax_state m')" and "same_lex m m'"
  shows "\<not> b \<Longrightarrow> sim (sax_event (sx_end_object A) m (\<lambda>m. Inr (Break st m))) (sax_event (sx_end_object B) m' (\<lambda>m. Inr (Break st m)))"
    and "b \<Longrightarrow> sim (sax_event (sx_end_array A) m (\<lambda>m. Inr (Break st m))) (sax_event (sx_end_array B) m' (\<lambda>m. Inr (Break st m)))"
    and "\<not> b \<Longrightarrow> sim (sax_event (sx_end_object A) m (\<lambda>m. Inr (Skip st m))) (sax_event (sx_end_object B) m' (\<lambda>m. Inr (Skip st m)))"
    and "b \<Longrightarrow> sim (sax_event (sx_end_array A) m (\<lambda>m. Inr (Skip st m))) (sax_event (sx_end_array B) m' (\<lambda>m. Inr (Skip st m)))"
  using assms(1)
  by (auto intro!: event_sim [where R = "closed st", OF _ assms(2)] on_end_object on_end_array sim_Break sim_Skip same_lex_state assms(2))

lemma token_sim:
  assumes ready: "ready st (sax_state m) (sax_state m')" and lex: "same_lex m m'"
  shows "sim (token_events A st m) (token_events B st m')"
proof -
  have eq: "mc_token m' = mc_token m" "mc_lexer m' = mc_lexer m" using lex by (simp_all add: same_lex_def)
  have next_lex: "same_lex (next_token (m\<lparr>sax_state := a\<rparr>)) (next_token (m'\<lparr>sax_state := b\<rparr>))" for a b
    by (intro same_lex_next same_lex_state lex)
  then have next_eq: "mc_token (next_token (m'\<lparr>sax_state := b\<rparr>)) = mc_token (next_token (m\<lparr>sax_state := a\<rparr>))" for a b
    by (simp add: same_lex_def)
  note err = error_sim [OF disjI1, OF ready lex]
  show ?thesis
  proof (cases "mc_token m")
    case begin_object
    show ?thesis unfolding token_events_def eq begin_object token_type.case
    proof (rule event_sim, rule on_start_object [OF ready], rule lex, goal_cases)
      case (1 a b)
      then show ?case
        unfolding Let_def next_eq [of b a]
        by (auto simp del: next_token_simps(1,2) intro!: closing_sim(1) [of False] member_head_sim next_lex)
    qed
  next
    case begin_array
    show ?thesis unfolding token_events_def eq begin_array token_type.case
    proof (rule event_sim, rule on_start_array [OF ready], rule lex, goal_cases)
      case (1 a b)
      then show ?case
        unfolding Let_def next_eq [of b a]
        by (auto simp del: next_token_simps(1,2) intro!: closing_sim(2) [of True] sim_Continue next_lex on_element)
    qed
  qed (auto simp: token_events_def eq Let_def scalar_def intro!: err value_sim ready lex allowed_errors)
qed

lemma state_sim:
  assumes closed: "closed st (sax_state m) (sax_state m')" and lex: "same_lex m m'"
  shows "sim (state_events A st m) (state_events B st m')"
proof (cases st)
  case Nil
  then show ?thesis using closed by (auto simp: state_events_def intro!: sim_Return lex)
next
  case (Cons b rest)
  let ?m = "next_token m" and ?m' = "next_token m'"
  have lex1: "same_lex ?m ?m'" by (rule same_lex_next [OF lex])
  then have eq: "mc_token ?m' = mc_token ?m" by (simp add: same_lex_def del: next_token_simps)
  have closed1: "closed (b # rest) (sax_state ?m) (sax_state ?m')" using closed Cons by simp
  note err = error_sim(2) [OF disjI2, OF closed1 lex1]
  show ?thesis
  proof (cases b)
    case True
    have "closed (True # rest) (sax_state ?m) (sax_state ?m')" using closed1 True by simp
    then show ?thesis using closing_sim(4) [OF closed1 lex1] err
      by (auto simp: Cons True state_events_def Let_def eq simp del: next_token_simps(1,2)
          intro!: sim_Continue same_lex_next lex on_element)
  next
    case False
    have "closed (False # rest) (sax_state (next_token ?m)) (sax_state (next_token ?m'))" using closed1 False by simp
    from member_head_sim [OF this same_lex_next [OF lex1]] show ?thesis
      using closing_sim(3) [OF closed1 lex1] err False
      by (auto simp: Cons state_events_def Let_def eq simp del: next_token_simps(1,2))
  qed
qed

lemma loop_sim:
  "S = A \<Longrightarrow> same_lex m m' \<Longrightarrow> (if skip then closed st else ready st) (sax_state m) (sax_state m') \<Longrightarrow>
     sim_run closed stop (sax_loop S skip st m) (sax_loop B skip st m')"
proof (induction S skip st m arbitrary: m' rule: sax_loop.induct)
  case (1 S skip st m)
  let ?x = "if skip then Inr (Break st m) else token_events S st m"
  let ?x' = "if skip then Inr (Break st m') else token_events B st m'"
  have "sim ?x ?x'"
    using 1(5-7) token_sim [of st m m'] by (auto intro: sim_Break)
  then show ?case
  proof cases
    case (sim_Break m1 m1' st1)
    have "sim (state_events S st1 m1) (state_events B st1 m1')"
      using state_sim [OF sim_Break(4,3)] 1(5) by simp
    then show ?thesis
    proof cases
      case (sim_Continue m2 m2' st2)
      have "sim_run closed stop (sax_loop S False st2 m2) (sax_loop B False st2 m2')"
        by (rule 1(3) [OF sim_Break(1) refl sim_Continue(1) refl 1(5) sim_Continue(3)]) (simp add: sim_Continue(4))
      then show ?thesis using sim_Break(1,2) sim_Continue(1,2)
        by (subst (1 2) sax_loop.simps) simp
    next
      case (sim_Skip m2 m2' st2)
      have "sim_run closed stop (sax_loop S True st2 m2) (sax_loop B True st2 m2')"
        by (rule 1(4) [OF sim_Break(1) refl sim_Skip(1) refl 1(5) sim_Skip(3)]) (simp add: sim_Skip(4))
      then show ?thesis using sim_Break(1,2) sim_Skip(1,2)
        by (subst (1 2) sax_loop.simps) simp
    next
      case (sim_Break m2 m2' st2)
      then show ?thesis using state_events_outcome [OF sim_Break(1)] by simp
    qed (use sim_Break(1,2) in \<open>(subst (1 2) sax_loop.simps, simp add: run_returns run_escape run_stop run_end)+\<close>)
  next
    case (sim_Continue m2 m2' st2)
    have "sim_run closed stop (sax_loop S False st2 m2) (sax_loop B False st2 m2')"
      by (rule 1(1) [OF sim_Continue(1) refl 1(5) sim_Continue(3)]) (simp add: sim_Continue(4))
    then show ?thesis using sim_Continue(1,2) by (subst (1 2) sax_loop.simps) simp
  next
    case (sim_Skip m2 m2' st2)
    have "sim_run closed stop (sax_loop S True st2 m2) (sax_loop B True st2 m2')"
      by (rule 1(2) [OF sim_Skip(1) refl 1(5) sim_Skip(3)]) (simp add: sim_Skip(4))
    then show ?thesis using sim_Skip(1,2) by (subst (1 2) sax_loop.simps) simp
  qed (subst (1 2) sax_loop.simps, simp add: run_returns run_escape run_stop run_end)+
qed

end

section \<open>\<open>parse\<close> and \<open>accept\<close>\<close>

text \<open>\<open>parser_parse\<close> on the machine with \<open>json_sax_dom_parser\<close>.\<close>

lemma view_parser_init:
  "machine_of (parser_init allow s) =
     machine_init \<lparr>root = Null, ref_stack = [], object_element = None, errored = False, allow_exceptions = allow\<rparr> s"
  by (simp add: parser_init_def machine_init_def view_get_token) (simp add: machine_of_def sax_dom.defs)

lemma parser_parse_view:
  "parser_parse True p = bindR (sax_loop json_sax_dom_parser False [] (machine_of p)) (\<lambda>(_, m).
     let m' = next_token m in
     if mc_token m' \<noteq> end_of_input
     then mapR (\<lambda>(_, s). if errored s then Discarded else root s)
            (sax_parse_error (syntax_error end_of_input ''value'' (mc_token m') (mc_lexer m')) (sax_state m'))
     else Inr (if errored (sax_state m') then Discarded else root (sax_state m')))"
proof (cases "sax_parse_loop False [] p")
  case (Inl e)
  then show ?thesis using sax_loop_view [of False "[]" p, symmetric]
    by (simp add: parser_parse_def sax_parse_internal_def)
next
  case (Inr r)
  obtain b p1 where r: "r = (b, p1)" by force
  have "root (get_token p1) = root p1" "errored (get_token p1) = errored p1" "allow_exceptions (get_token p1) = allow_exceptions p1"
    by (simp_all add: get_token_def split: prod.split)
  then show ?thesis using sax_loop_view [of False "[]" p, symmetric] Inr r
    by (auto simp: parser_parse_def sax_parse_internal_def Let_def sax_parse_error_def parser_error_101_def sax_dom.defs)
qed

text \<open>The builder does not fail with an exception of the parser, and leaves the flags alone.\<close>

definition dom_event :: "(sax_dom \<Rightarrow> exn + sax_dom) \<Rightarrow> bool" where
  "dom_event f \<longleftrightarrow> (\<forall>a. case f a of
     Inl e \<Rightarrow> \<not> allowed e
   | Inr a' \<Rightarrow> errored a' = errored a \<and> allow_exceptions a' = allow_exceptions a)"

lemma handle_value_event: "case handle_value v a of
     Inl e \<Rightarrow> \<not> allowed e
   | Inr (q, a') \<Rightarrow> errored a' = errored a \<and> allow_exceptions a' = allow_exceptions a"
  by (auto simp: handle_value_def allowed_def parse_error_create_def out_of_range_create_def
      split: list.split option.split json.split)

lemma dom_events: "dom_event (sax_value v)" "dom_event start_object" "dom_event start_array" "dom_event (sax_key k)"
    "dom_event sax_end"
proof -
  have *: "dom_event (\<lambda>a. mapR (\<lambda>(q, a'). f q a') (handle_value w a))"
    if "\<And>q a'. errored (f q a') = errored a' \<and> allow_exceptions (f q a') = allow_exceptions a'"
    for w and f :: "pointer \<Rightarrow> sax_dom \<Rightarrow> sax_dom"
    unfolding dom_event_def
  proof
    show "case mapR (\<lambda>(q, a'). f q a') (handle_value w a) of Inl e \<Rightarrow> \<not> allowed e
      | Inr a' \<Rightarrow> errored a' = errored a \<and> allow_exceptions a' = allow_exceptions a" for a
      using handle_value_event [where v = w and a = a] that by (cases "handle_value w a") auto
  qed
  have snd: "(snd :: pointer \<times> sax_dom \<Rightarrow> sax_dom) = (\<lambda>(q, a'). a')" by (auto simp: fun_eq_iff)
  show "dom_event (sax_value v)" "dom_event start_object" "dom_event start_array"
    using * [of "\<lambda>q a. a" v] * [of "\<lambda>q a. a\<lparr>ref_stack := q # ref_stack a\<rparr>" "json_of_type object_t"]
      * [of "\<lambda>q a. a\<lparr>ref_stack := q # ref_stack a\<rparr>" "json_of_type array_t"]
    by (simp_all add: dom_event_def sax_value_def start_object_def start_array_def snd)
qed (auto simp: dom_event_def sax_key_def sax_end_def allowed_def parse_error_create_def out_of_range_create_def
    Let_def split: list.split option.split json.split)

lemma dom_steps:
  assumes "dom_event f"
    and "\<And>a'. f a = Inr a' \<Longrightarrow> errored a' = errored a \<Longrightarrow> allow_exceptions a' = allow_exceptions a \<Longrightarrow>
      \<exists>b. r = Inr (True, b) \<and> R a' b"
  shows "sim_steps R (mapR (Pair True) (f a)) r"
  using assms by (cases "f a") (auto simp: sim_steps_def dom_event_def dest: spec [of _ a])

interpretation dom_acceptor: sax_simulation json_sax_dom_parser json_sax_acceptor
  "\<lambda>st a b. allow_exceptions a" "\<lambda>st a b. allow_exceptions a"
  "\<lambda>x x'. (\<exists>e. x = Inl e \<and> allowed e) \<and> (\<exists>s. x' = Inr (False, s))"
  by unfold_locales
    (auto simp: json_sax_acceptor_def json_sax_dom_parser_def sax_parse_error_def intro!: dom_steps dom_events)

lemma accept_iff_parse: "json_accept s = Inr (case json_parse s of Inl _ \<Rightarrow> False | Inr _ \<Rightarrow> True)"
proof -
  let ?a = "machine_of (parser_init True s)" and ?b = "machine_init () s"
  have lex: "same_lex ?a ?b" by (simp add: view_parser_init same_lex_def machine_init_def)
  have parse: "json_parse s = bindR (sax_loop json_sax_dom_parser False [] ?a) (\<lambda>(_, m).
      let m' = next_token m in
      if mc_token m' \<noteq> end_of_input
      then mapR (\<lambda>(_, s). if errored s then Discarded else root s)
            (sax_parse_error (syntax_error end_of_input ''value'' (mc_token m') (mc_lexer m')) (sax_state m'))
      else Inr (if errored (sax_state m') then Discarded else root (sax_state m')))"
    by (simp add: json_parse_def parser_parse_view)
  have "sim_run (\<lambda>st a b. allow_exceptions a) (\<lambda>x x'. (\<exists>e. x = Inl e \<and> allowed e) \<and> (\<exists>s. x' = Inr (False, s)))
      (sax_loop json_sax_dom_parser False [] ?a) (sax_loop json_sax_acceptor False [] ?b)"
    by (rule dom_acceptor.loop_sim [OF refl lex]) (simp add: view_parser_init machine_init_def)
  then show ?thesis
  proof cases
    case (run_escape e)
    then show ?thesis using json_parse_ok [of s] by (simp add: parse)
  next
    case (run_stop x x' m m')
    then show ?thesis by (auto simp: parse json_accept_def parser_accept_def sax_parse_def)
  next
    case (run_end m m')
    then have "mc_token (next_token m') = mc_token (next_token m)" "allow_exceptions (sax_state m)"
      by (simp_all add: same_lex_def)
    then show ?thesis using run_end(1,2)
      by (simp add: parse json_accept_def parser_accept_def sax_parse_def Let_def sax_parse_error_def json_sax_acceptor_def
          del: next_token_simps(1,2))
  qed
qed

end
