(* ===== verification/Json_Callback_Laws.thy ===== *)
theory Json_Callback_Laws
  imports Json_Callback Json_Sax_Laws
begin

text \<open>
  What a callback can do. Whatever it answers and however it changes the elements it is shown, the handler
  keeps its stacks in order, so that no assertion fails and no pointer dangles, and the parser accepts the
  same texts with the same exceptions. A callback that keeps everything has no effect.
\<close>

section \<open>The stacks\<close>

text \<open>\<open>path_to bs rs q R\<close>: the open containers \<open>bs\<close>, whose pointers are \<open>rs\<close>, lead to the place \<open>q\<close>.\<close>

inductive path_to :: "bool list \<Rightarrow> pointer option list \<Rightarrow> pointer \<Rightarrow> (json \<Rightarrow> json) \<Rightarrow> bool" where
  path_root: "path_to [] [] [] (\<lambda>w. w)"
| path_array: "path_to bs rs q R \<Longrightarrow>
    path_to (True # bs) (Some q # rs) (q @ [Index (length a)]) (\<lambda>w. R (Array (a @ [w])))"
| path_object: "path_to bs rs q R \<Longrightarrow>
    path_to (False # bs) (Some q # rs) (q @ [Key k]) (\<lambda>w. R (Object (omap_update k w m)))"

inductive_cases path_ConsE: "path_to (b # bs) rs q R"
inductive_cases path_NilE: "path_to [] rs q R"

lemma path_hole: "path_to bs rs q R \<Longrightarrow> hole q R"
  by (induction rule: path_to.induct) (simp_all add: hole_root hole_index hole_key)

text \<open>Every pointer of the stack is null below a container that is not kept, or points to its container.\<close>

definition container :: "bool \<Rightarrow> json \<Rightarrow> bool" where
  "container b w \<longleftrightarrow> json_type w = (if b then array_t else object_t)"

fun stack_ok :: "bool list \<Rightarrow> pointer option list \<Rightarrow> json \<Rightarrow> bool" where
  "stack_ok [] [] j \<longleftrightarrow> True"
| "stack_ok (b # bs) (Some q # rs) j \<longleftrightarrow> (\<exists>R w. path_to bs rs q R \<and> j = R w \<and> container b w)"
| "stack_ok (b # bs) (None # rs) j \<longleftrightarrow> stack_ok bs rs j"
| "stack_ok _ _ _ \<longleftrightarrow> False"

lemma container_cases:
  "container True w \<Longrightarrow> \<exists>a. w = Array a" "container False w \<Longrightarrow> \<exists>m. w = Object m"
  by (cases w; simp add: container_def)+

lemma container_simps [simp]: "container b (Array a) \<longleftrightarrow> b" "container b (Object m) \<longleftrightarrow> \<not> b"
  by (simp_all add: container_def)

lemma path_stack_ok: "path_to bs rs q R \<Longrightarrow> stack_ok bs rs (R w)"
  by (erule path_to.cases; simp; metis container_simps)

lemma path_not_null: "\<not> path_to bs (None # rs) q R"
  by (auto elim: path_to.cases)

text \<open>The innermost container, when its pointer is not null.\<close>

lemma stack_ok_top:
  assumes "stack_ok (b # bs) (Some q # rs) j"
  obtains w where "json_at q j = Some w" and "container b w"
    and "\<And>u. stack_ok bs rs (json_put q u j)"
    and "\<And>u. container b u \<Longrightarrow> stack_ok (b # bs) (Some q # rs) (json_put q u j)"
proof -
  obtain R w where *: "path_to bs rs q R" "j = R w" "container b w" using assms by auto
  have hole: "json_at q j = Some w" "\<And>u. json_put q u j = R u"
    using path_hole [OF *(1)] *(2) by (simp_all add: hole_def)
  show ?thesis
  proof (rule that)
    show "json_at q j = Some w" by (rule hole)
    show "container b w" by (rule *(3))
    show "stack_ok bs rs (json_put q u j)" for u using path_stack_ok [OF *(1)] by (simp add: hole)
    show "container b u \<Longrightarrow> stack_ok (b # bs) (Some q # rs) (json_put q u j)" for u using *(1) by (auto simp: hole)
  qed
qed

lemma stack_ok_length: "stack_ok bs rs j \<Longrightarrow> length rs = length bs"
proof (induction bs rs j rule: stack_ok.induct)
  case (2 b bs q rs j)
  have "path_to bs rs q R \<Longrightarrow> length rs = length bs" for R
    by (induction rule: path_to.induct) simp_all
  then show ?case using 2 by auto
qed auto

section \<open>Ready and closed\<close>

definition cb_closed :: "bool list \<Rightarrow> 'c cb_dom \<Rightarrow> bool" where
  "cb_closed st d \<longleftrightarrow> stack_ok st (cb_ref_stack d) (cb_root d) \<and> length (keep_stack d) = Suc (length st)"

text \<open>In an object, there is an answer for the current key, and if it is kept, an element for the value.\<close>

definition element_ok :: "'c cb_dom \<Rightarrow> bool" where
  "element_ok d \<longleftrightarrow>
     (case cb_ref_stack d of
        Some q # _ \<Rightarrow>
          (case key_keep_stack d of
             [] \<Rightarrow> False
           | store # _ \<Rightarrow> store \<longrightarrow>
               (\<exists>k m. cb_object_element d = Some (q @ [Key k]) \<and> json_at q (cb_root d) = Some (Object m) \<and> map_of m k \<noteq> None))
      | _ \<Rightarrow> True)"

lemma element_ok_cong:
  "cb_ref_stack d' = cb_ref_stack d \<Longrightarrow> key_keep_stack d' = key_keep_stack d \<Longrightarrow>
     cb_object_element d' = cb_object_element d \<Longrightarrow> cb_root d' = cb_root d \<Longrightarrow> element_ok d' = element_ok d"
  by (simp add: element_ok_def split: list.split option.split)

definition cb_ready :: "bool list \<Rightarrow> 'c cb_dom \<Rightarrow> bool" where
  "cb_ready st d \<longleftrightarrow> cb_closed st d \<and> (case st of False # _ \<Rightarrow> element_ok d | _ \<Rightarrow> True)"

definition same_cb :: "'c cb_dom \<Rightarrow> 'c cb_dom \<Rightarrow> bool" where
  "same_cb d d' \<longleftrightarrow> cb_errored d' = cb_errored d \<and> cb_allow_exceptions d' = cb_allow_exceptions d"

lemma call_simps:
  "ask f n ev v d = (keep, v', d') \<Longrightarrow> \<exists>c. d' = d\<lparr>cb_state := c\<rparr>"
  by (auto simp: ask_def split: prod.splits)

text \<open>Where a value is left.\<close>

definition placed :: "bool list \<Rightarrow> json \<Rightarrow> 'c cb_dom \<Rightarrow> pointer option \<Rightarrow> 'c cb_dom \<Rightarrow> bool" where
  "placed st v d place d' \<longleftrightarrow>
     cb_ref_stack d' = cb_ref_stack d \<and> keep_stack d' = keep_stack d \<and> same_cb d d' \<and>
     (case place of
        None \<Rightarrow> stack_ok st (cb_ref_stack d) (cb_root d')
      | Some q \<Rightarrow> \<exists>R. path_to st (cb_ref_stack d) q R \<and> cb_root d' = R v)"

lemma callback_state [simp]:
  "element_ok (d\<lparr>cb_state := c\<rparr>) = element_ok d" "placed st v (d\<lparr>cb_state := c\<rparr>) = placed st v d"
  by (simp_all add: element_ok_def placed_def same_cb_def fun_eq_iff split: list.split option.split)

lemma cb_store_ok:
  assumes ok: "stack_ok st (cb_ref_stack d) (cb_root d)"
    and elem: "case st of False # _ \<Rightarrow> element_ok d | _ \<Rightarrow> True"
  shows "\<exists>b place d'. cb_store v d = Inr ((b, place), d') \<and> placed st v d place d'"
proof (cases "cb_ref_stack d")
  case Nil
  then have "st = []" using stack_ok_length [OF ok] by simp
  then have "placed st v d (Some []) (d\<lparr>cb_root := v\<rparr>)"
    using path_root Nil by (auto simp: placed_def same_cb_def)
  then show ?thesis using Nil by (auto simp add: cb_store_def)
next
  case (Cons r rs)
  show ?thesis
  proof (cases r)
    case None
    then have "placed st v d None d" using ok by (simp add: placed_def same_cb_def)
    then show ?thesis using Cons None by (auto simp add: cb_store_def)
  next
    case (Some q)
    obtain b bs where st: "st = b # bs" using stack_ok_length [OF ok] Cons by (cases st) auto
    then obtain R w where path: "path_to bs rs q R" "cb_root d = R w" "container b w" using ok Cons Some by auto
    have at: "json_at q (cb_root d) = Some w" and put: "\<And>u. json_put q u (cb_root d) = R u"
      using path_hole [OF path(1)] path(2) by (simp_all add: hole_def)
    show ?thesis
    proof (cases b)
      case True
      then obtain a where w: "w = Array a" using path(3) container_cases [of w] by auto
      have "placed st v d (Some (q @ [Index (length a)])) (d\<lparr>cb_root := R (Array (a @ [v]))\<rparr>)"
        using path_array [OF path(1), of a] Cons Some st True by (auto simp: placed_def same_cb_def)
      then show ?thesis using Cons Some at put w by (auto simp add: cb_store_def)
    next
      case False
      then obtain m where w: "w = Object m" using path(3) container_cases [of w] by auto
      have "element_ok d" using elem st False by simp
      then obtain store kk where kk: "key_keep_stack d = store # kk"
        and el: "store \<Longrightarrow> \<exists>k. cb_object_element d = Some (q @ [Key k]) \<and> map_of m k \<noteq> None"
        using Cons Some at w by (auto simp: element_ok_def split: list.splits)
      show ?thesis
      proof (cases store)
        case False
        have "placed st v d None (d\<lparr>key_keep_stack := kk\<rparr>)" using ok by (simp add: placed_def same_cb_def)
        then show ?thesis using Cons Some at w kk False by (auto simp add: cb_store_def Let_def)
      next
        case True
        with el obtain k where k: "cb_object_element d = Some (q @ [Key k])" "map_of m k \<noteq> None" by blast
        have put': "json_put (q @ [Key k]) v (cb_root d) = R (Object (omap_update k v m))"
          using k(2) at w by (auto simp: json_put_append put)
        have "placed st v d (Some (q @ [Key k])) (d\<lparr>key_keep_stack := kk, cb_root := R (Object (omap_update k v m))\<rparr>)"
          using path_object [OF path(1), of k m] Cons Some st \<open>\<not> b\<close> by (auto simp: placed_def same_cb_def)
        then show ?thesis using Cons Some at w kk True k(1) put' by (auto simp add: cb_store_def Let_def)
      qed
    qed
  qed
qed

lemma cb_handle_value_ok:
  assumes ok: "stack_ok st (cb_ref_stack d) (cb_root d)" and keeps: "keep_stack d \<noteq> []"
    and elem: "case st of False # _ \<Rightarrow> element_ok d | _ \<Rightarrow> True"
  shows "\<exists>b place d' v'. cb_handle_value f v skip d = Inr ((b, place), d') \<and> placed st v' d place d' \<and> (skip \<longrightarrow> v' = v)"
proof -
  obtain top ks where ks: "keep_stack d = top # ks" using keeps by (cases "keep_stack d") auto
  have store: "\<exists>b place d'. cb_store v' (d\<lparr>cb_state := c\<rparr>) = Inr ((b, place), d') \<and> placed st v' d place d'" for v' c
    using cb_store_ok [of st "d\<lparr>cb_state := c\<rparr>" v'] ok elem
    by (simp split: list.splits bool.splits)
  have none: "placed st v' d None (d\<lparr>cb_state := c\<rparr>)" for v' c using ok by (simp add: placed_def same_cb_def)
  show ?thesis
  proof (cases skip)
    case True
    then show ?thesis using ks store [of v "cb_state d"] none [of v "cb_state d"] by (auto simp: cb_handle_value_def)
  next
    case False
    obtain keep v' c where c: "ask f (length (cb_ref_stack d)) Ev_value v d = (keep, v', d\<lparr>cb_state := c\<rparr>)"
      using call_simps by (metis prod_cases3)
    show ?thesis using ks False store [of v' c] none [of v' c] none [of v "cb_state d"]
      by (cases top; cases keep) (auto simp: cb_handle_value_def c)
  qed
qed

section \<open>The events\<close>

lemma callE:
  obtains keep v' c where "ask f n ev v d = (keep, v', d\<lparr>cb_state := c\<rparr>)"
  using call_simps by (metis prod_cases3)

lemma same_cb_trans: "same_cb d d' \<Longrightarrow> same_cb d' d'' \<Longrightarrow> same_cb d d''"
  by (simp add: same_cb_def)

lemma cb_value_ok: "cb_ready st d \<Longrightarrow> \<exists>d'. cb_value f v d = Inr (True, d') \<and> cb_closed st d' \<and> same_cb d d'"
proof -
  assume ready: "cb_ready st d"
  then have "keep_stack d \<noteq> []" "stack_ok st (cb_ref_stack d) (cb_root d)" "case st of False # _ \<Rightarrow> element_ok d | _ \<Rightarrow> True"
    by (auto simp: cb_ready_def cb_closed_def)
  from cb_handle_value_ok [OF this(2,1,3), of f v False]
  obtain b place d' v' where *: "cb_handle_value f v False d = Inr ((b, place), d')" "placed st v' d place d'" by blast
  have "stack_ok st (cb_ref_stack d') (cb_root d')"
    using *(2) path_stack_ok by (cases place) (auto simp: placed_def)
  then show ?thesis using * ready by (auto simp: cb_value_def cb_closed_def cb_ready_def placed_def)
qed

lemma cb_start_ok:
  assumes ready: "cb_ready st d"
  shows "\<exists>d'. cb_start f ev (if b then array_t else object_t) d = Inr (True, d') \<and> cb_closed (b # st) d' \<and> same_cb d d'"
proof -
  obtain keep disc c where c: "ask f (length (cb_ref_stack d)) ev (cb_discarded d) d = (keep, disc, d\<lparr>cb_state := c\<rparr>)"
    by (rule callE)
  let ?d = "d\<lparr>cb_state := c, cb_discarded := disc, keep_stack := keep # keep_stack d\<rparr>"
  let ?v = "json_of_type (if b then array_t else object_t)"
  have "element_ok ?d = element_ok d" by (rule element_ok_cong) simp_all
  then have "stack_ok st (cb_ref_stack ?d) (cb_root ?d)" "case st of False # _ \<Rightarrow> element_ok ?d | _ \<Rightarrow> True"
    using ready by (auto simp: cb_ready_def cb_closed_def split: list.splits bool.splits)
  then obtain b' place d' where *: "cb_handle_value f ?v True ?d = Inr ((b', place), d')" "placed st ?v ?d place d'"
    using cb_handle_value_ok [of st ?d f ?v True] by auto
  have "container b ?v" by (simp add: container_def)
  then have "cb_closed (b # st) (d'\<lparr>cb_ref_stack := place # cb_ref_stack d'\<rparr>)"
    using *(2) ready by (cases place) (auto simp: placed_def cb_closed_def cb_ready_def)
  then show ?thesis using * by (auto simp: cb_start_def c placed_def same_cb_def)
qed

lemma cb_key_ok:
  assumes closed: "cb_closed (False # st) d"
  shows "\<exists>d'. cb_key f k d = Inr (True, d') \<and> cb_ready (False # st) d' \<and> same_cb d d'"
proof -
  obtain keep v' c where c: "ask f (length (cb_ref_stack d)) Ev_key (String k) d = (keep, v', d\<lparr>cb_state := c\<rparr>)"
    by (rule callE)
  obtain r rs where rs: "cb_ref_stack d = r # rs"
    using closed stack_ok_length [of "False # st" "cb_ref_stack d"] by (cases "cb_ref_stack d") (auto simp: cb_closed_def)
  show ?thesis
  proof (cases "keep \<and> r \<noteq> None")
    case False
    let ?d = "d\<lparr>cb_state := c, key_keep_stack := keep # key_keep_stack d\<rparr>"
    have "cb_key f k d = Inr (True, ?d)" unfolding cb_key_def c using False rs by (cases r) (auto simp: Let_def)
    moreover have "element_ok ?d" using False rs by (auto simp: element_ok_def split: option.split)
    ultimately show ?thesis using closed by (auto simp: cb_ready_def cb_closed_def same_cb_def)
  next
    case True
    then obtain q where q: "r = Some q" by auto
    obtain w where top: "json_at q (cb_root d) = Some w" "container False w"
      and put: "\<And>u. container False u \<Longrightarrow> stack_ok (False # st) (Some q # rs) (json_put q u (cb_root d))"
      using closed rs q stack_ok_top [of False st q rs "cb_root d"] by (metis cb_closed_def)
    obtain m where m: "w = Object m" using container_cases(2) [OF top(2)] by auto
    let ?u = "Object (omap_update k (cb_discarded d) m)"
    have "json_at q (json_put q ?u (cb_root d)) = Some ?u"
      using closed rs q path_hole by (fastforce simp: cb_closed_def hole_def)
    then have "element_ok (d\<lparr>cb_state := c, key_keep_stack := True # key_keep_stack d,
        cb_root := json_put q ?u (cb_root d), cb_object_element := Some (q @ [Key k])\<rparr>)"
      using rs q by (simp add: element_ok_def map_of_omap_update)
    then show ?thesis
      unfolding cb_key_def c using put [of ?u] closed rs q top m True
      by (simp add: same_cb_def cb_ready_def cb_closed_def)
  qed
qed

text \<open>The end of a container: the callback has answered, and the stacks are popped.\<close>

lemma cb_finish_ok:
  assumes closed: "cb_closed (b # st) d" and rs: "cb_ref_stack d = ptr # rs"
  shows "\<exists>keep d1 d2. cb_finish f ev ptr d = Inr (keep, d1) \<and> cb_pop d1 = Inr d2 \<and> cb_closed st d2 \<and> same_cb d d2 \<and>
    cb_ref_stack d2 = rs \<and> (case ptr of None \<Rightarrow> keep | Some p \<Rightarrow> \<exists>u. cb_root d2 = json_put p u (cb_root d))"
proof -
  obtain kp ks where ks: "keep_stack d = kp # ks" "length ks = Suc (length st)"
    using closed by (cases "keep_stack d") (auto simp: cb_closed_def)
  show ?thesis
  proof (cases ptr)
    case None
    then show ?thesis using closed rs ks by (auto simp: cb_finish_def cb_pop_def cb_closed_def same_cb_def)
  next
    case (Some q)
    obtain w where top: "json_at q (cb_root d) = Some w" and put: "\<And>u. stack_ok st rs (json_put q u (cb_root d))"
      using closed rs Some stack_ok_top [of b st q rs "cb_root d"] by (metis cb_closed_def)
    obtain keep v' c where c: "ask f (length rs) ev w d = (keep, v', d\<lparr>cb_state := c\<rparr>)" by (rule callE)
    show ?thesis using Some top put rs ks by (auto simp: cb_finish_def cb_pop_def cb_closed_def same_cb_def c)
  qed
qed

lemma closed_top:
  assumes "cb_closed st d" and "cb_ref_stack d = Some q # rs"
  obtains b bs w where "st = b # bs" and "json_at q (cb_root d) = Some w" and "container b w"
    and "\<And>u. container b u \<Longrightarrow> cb_closed st (d\<lparr>cb_root := json_put q u (cb_root d)\<rparr>)"
proof -
  have "length (cb_ref_stack d) = length st" using assms(1) stack_ok_length by (auto simp: cb_closed_def)
  then obtain b bs where st: "st = b # bs" using assms(2) by (cases st) auto
  have "stack_ok (b # bs) (Some q # rs) (cb_root d)" using assms st by (simp add: cb_closed_def)
  then show ?thesis
  proof (rule stack_ok_top)
    fix w
    assume w: "json_at q (cb_root d) = Some w" "container b w"
      and put: "\<And>u. container b u \<Longrightarrow> stack_ok (b # bs) (Some q # rs) (json_put q u (cb_root d))"
    show ?thesis using assms st put by (intro that [OF st w]) (simp add: cb_closed_def)
  qed
qed

lemma cb_end_object_ok:
  assumes closed: "cb_closed (b # st) d"
  shows "\<exists>d'. cb_end_object f d = Inr (True, d') \<and> cb_closed st d' \<and> same_cb d d'"
proof -
  obtain ptr rs where rs: "cb_ref_stack d = ptr # rs"
    using closed stack_ok_length [of "b # st" "cb_ref_stack d"] by (cases "cb_ref_stack d") (auto simp: cb_closed_def)
  obtain keep d1 d2 where fin: "cb_finish f Ev_object_end ptr d = Inr (keep, d1)" "cb_pop d1 = Inr d2" "cb_closed st d2"
      "same_cb d d2" "cb_ref_stack d2 = rs"
    using cb_finish_ok [OF closed rs, of f Ev_object_end] by blast
  show ?thesis
  proof (cases "\<exists>q rest. rs = Some q # rest")
    case False
    then show ?thesis using fin rs
      by (auto simp: cb_end_object_def split: list.split option.split)
  next
    case True
    then obtain q rest where rest: "cb_ref_stack d2 = Some q # rest" using fin(5) by auto
    obtain b' bs w where top: "json_at q (cb_root d2) = Some w" "container b' w"
      and put: "\<And>u. container b' u \<Longrightarrow> cb_closed st (d2\<lparr>cb_root := json_put q u (cb_root d2)\<rparr>)"
      using closed_top [OF fin(3) rest] by metis
    show ?thesis
    proof (cases w)
      case (Object m)
      then show ?thesis using fin(1,2,4,5) rs rest top put [of "Object (erase_discarded m)"]
        by (auto simp: cb_end_object_def same_cb_def)
    qed (use fin rs rest top in \<open>auto simp: cb_end_object_def\<close>)
  qed
qed

lemma cb_end_array_ok:
  assumes closed: "cb_closed (b # st) d"
  shows "\<exists>d'. cb_end_array f d = Inr (True, d') \<and> cb_closed st d' \<and> same_cb d d'"
proof -
  obtain ptr rs where rs: "cb_ref_stack d = ptr # rs"
    using closed stack_ok_length [of "b # st" "cb_ref_stack d"] by (cases "cb_ref_stack d") (auto simp: cb_closed_def)
  obtain keep d1 d2 where fin: "cb_finish f Ev_array_end ptr d = Inr (keep, d1)" "cb_pop d1 = Inr d2" "cb_closed st d2"
      "same_cb d d2" "cb_ref_stack d2 = rs" "case ptr of None \<Rightarrow> keep | Some p \<Rightarrow> \<exists>u. cb_root d2 = json_put p u (cb_root d)"
    using cb_finish_ok [OF closed rs, of f Ev_array_end] by blast
  show ?thesis
  proof (cases "keep \<or> rs = []")
    case True
    then show ?thesis using fin rs by (auto simp: cb_end_array_def)
  next
    case False
    then obtain p u where ptr: "ptr = Some p" "cb_root d2 = json_put p u (cb_root d)" using fin(6) by (auto split: option.splits)
    then obtain R w0 where p: "path_to st rs p R" "cb_root d = R w0" using closed rs by (auto simp: cb_closed_def)
    have root: "cb_root d2 = R u" using ptr(2) path_hole [OF p(1)] p(2) by (simp add: hole_def)
    obtain r rest where rs': "rs = r # rest" using False by (cases rs) auto
    then obtain q where "r = Some q" using p(1) path_not_null by (cases r) auto
    then have rest: "cb_ref_stack d2 = Some q # rest" using fin(5) rs' by simp
    obtain b' bs w where st: "st = b' # bs" and top: "json_at q (cb_root d2) = Some w" "container b' w"
      and put: "\<And>u. container b' u \<Longrightarrow> cb_closed st (d2\<lparr>cb_root := json_put q u (cb_root d2)\<rparr>)"
      using closed_top [OF fin(3) rest] by metis
    show ?thesis
    proof (cases w)
      case (Array a)
      have "b'" using top(2) Array by simp
      then obtain R' a0 where "path_to bs rest q R'" "R = (\<lambda>w. R' (Array (a0 @ [w])))"
        using p(1) st rest fin(5) by (auto elim: path_ConsE)
      then have "a \<noteq> []" using top(1) root Array path_hole by (auto simp: hole_def)
      then show ?thesis using fin(1,2,4,5) rs rest top put [of "Array (butlast a)"] False Array
        by (auto simp: cb_end_array_def same_cb_def)
    qed (use fin rs rest top False in \<open>auto simp: cb_end_array_def\<close>)
  qed
qed

section \<open>No callback changes which texts are accepted\<close>

definition cb_flags :: "sax_dom \<Rightarrow> 'c cb_dom \<Rightarrow> bool" where
  "cb_flags a d \<longleftrightarrow> \<not> errored a \<and> \<not> cb_errored d \<and> cb_allow_exceptions d = allow_exceptions a"

definition both_stop :: "exn + (bool \<times> sax_dom) \<Rightarrow> exn + (bool \<times> 'c cb_dom) \<Rightarrow> bool" where
  "both_stop x x' \<longleftrightarrow>
     (\<exists>e. x = Inl e \<and> x' = Inl e \<and> allowed e) \<or>
     (\<exists>a d. x = Inr (False, a) \<and> x' = Inr (False, d) \<and> errored a \<and> cb_errored d \<and>
        \<not> allow_exceptions a \<and> \<not> cb_allow_exceptions d)"

lemma both_stop_error: "cb_flags a d \<Longrightarrow> allowed e \<Longrightarrow> both_stop (sax_parse_error e a) (cb_parse_error e d)"
  by (simp add: cb_flags_def both_stop_def sax_parse_error_def cb_parse_error_def)

lemma flags_step:
  "cb_flags a d \<Longrightarrow> errored a' = errored a \<Longrightarrow> allow_exceptions a' = allow_exceptions a \<Longrightarrow> same_cb d d' \<Longrightarrow> cb_flags a' d'"
  by (simp add: cb_flags_def same_cb_def)

interpretation dom_callback: sax_simulation json_sax_dom_parser "json_sax_dom_callback_parser f"
  "\<lambda>st a d. cb_ready st d \<and> cb_flags a d" "\<lambda>st a d. cb_closed st d \<and> cb_flags a d" both_stop for f :: "'c callback"
proof unfold_locales
  fix st a v and d :: "'c cb_dom"
  assume "cb_ready st d \<and> cb_flags a d"
  then show "sim_steps (\<lambda>a d. cb_closed st d \<and> cb_flags a d) (sx_value json_sax_dom_parser v a)
      (sx_value (json_sax_dom_callback_parser f) v d)"
    using cb_value_ok [of st d f v]
    by (auto simp: json_sax_dom_parser_def json_sax_dom_callback_parser_def intro!: dom_steps dom_events flags_step)
next
  fix st a and d :: "'c cb_dom"
  assume ready: "cb_ready st d \<and> cb_flags a d"
  show "sim_steps (\<lambda>a d. cb_closed (False # st) d \<and> cb_flags a d) (sx_start_object json_sax_dom_parser a)
      (sx_start_object (json_sax_dom_callback_parser f) d)"
    using ready cb_start_ok [of st d f Ev_object_start False]
    by (auto simp: json_sax_dom_parser_def json_sax_dom_callback_parser_def cb_start_object_def
        intro!: dom_steps dom_events flags_step)
  show "sim_steps (\<lambda>a d. cb_closed (True # st) d \<and> cb_flags a d) (sx_start_array json_sax_dom_parser a)
      (sx_start_array (json_sax_dom_callback_parser f) d)"
    using ready cb_start_ok [of st d f Ev_array_start True]
    by (auto simp: json_sax_dom_parser_def json_sax_dom_callback_parser_def cb_start_array_def
        intro!: dom_steps dom_events flags_step)
next
  fix st a k and d :: "'c cb_dom"
  assume "cb_closed (False # st) d \<and> cb_flags a d"
  then show "sim_steps (\<lambda>a d. cb_ready (False # st) d \<and> cb_flags a d) (sx_key json_sax_dom_parser k a)
      (sx_key (json_sax_dom_callback_parser f) k d)"
    using cb_key_ok [of st d f k]
    by (auto simp: json_sax_dom_parser_def json_sax_dom_callback_parser_def intro!: dom_steps dom_events flags_step)
next
  fix st a and d :: "'c cb_dom"
  assume "cb_closed (False # st) d \<and> cb_flags a d"
  then show "sim_steps (\<lambda>a d. cb_closed st d \<and> cb_flags a d) (sx_end_object json_sax_dom_parser a)
      (sx_end_object (json_sax_dom_callback_parser f) d)"
    using cb_end_object_ok [of False st d f]
    by (auto simp: json_sax_dom_parser_def json_sax_dom_callback_parser_def intro!: dom_steps dom_events flags_step)
next
  fix st a and d :: "'c cb_dom"
  assume "cb_closed (True # st) d \<and> cb_flags a d"
  then show "sim_steps (\<lambda>a d. cb_closed st d \<and> cb_flags a d) (sx_end_array json_sax_dom_parser a)
      (sx_end_array (json_sax_dom_callback_parser f) d)"
    using cb_end_array_ok [of True st d f]
    by (auto simp: json_sax_dom_parser_def json_sax_dom_callback_parser_def intro!: dom_steps dom_events flags_step)
qed (auto simp: cb_ready_def json_sax_dom_parser_def json_sax_dom_callback_parser_def both_stop_error)

text \<open>\<open>parse\<close>, with or without exceptions.\<close>

definition json_parse_with :: "bool \<Rightarrow> string \<Rightarrow> exn + json" where
  "json_parse_with allow s = (if allow then json_parse s else json_parse_noexcept s)"

definition dom_result :: "sax_dom \<Rightarrow> json" where
  "dom_result a = (if errored a then Discarded else root a)"

definition cb_result :: "'c cb_dom \<Rightarrow> json" where
  "cb_result d = (if cb_errored d then Discarded else if cb_root d = Discarded then Null else cb_root d)"

lemma parse_with_view:
  "json_parse_with allow s = bindR (sax_loop json_sax_dom_parser False [] (machine_of (parser_init allow s))) (\<lambda>(_, m).
     let m' = next_token m in
     if mc_token m' \<noteq> end_of_input
     then mapR (\<lambda>(_, s). dom_result s) (sax_parse_error (syntax_error end_of_input ''value'' (mc_token m') (mc_lexer m')) (sax_state m'))
     else Inr (dom_result (sax_state m')))"
  by (cases allow)
     (simp_all only: json_parse_with_def json_parse_def json_parse_noexcept_def parser_parse_view dom_result_def [abs_def] if_True if_False)

lemma callback_view:
  "json_parse_callback f c allow s = bindR (sax_loop (json_sax_dom_callback_parser f) False [] (machine_init (cb_dom_init allow c) s)) (\<lambda>(_, m).
     let m' = next_token m in
     if mc_token m' \<noteq> end_of_input
     then mapR (\<lambda>(_, d). (cb_result d, cb_state d))
       (cb_parse_error (syntax_error end_of_input ''value'' (mc_token m') (mc_lexer m')) (sax_state m'))
     else Inr (cb_result (sax_state m'), cb_state (sax_state m')))"
  unfolding json_parse_callback_def parser_parse_callback_def cb_result_def [abs_def]
  by (auto simp: Let_def fun_eq_iff cb_parse_error_def simp del: next_token_simps intro!: arg_cong [where f = "bindR _"])

text \<open>A value that the builder completes is not \<open>discarded\<close>.\<close>

lemma sax_loop_root:
  assumes "sax_loop json_sax_dom_parser False [] (machine_of (parser_init allow s)) = Inr (True, m)"
  shows "root (sax_state m) \<noteq> Discarded"
proof -
  obtain p where p: "sax_parse_loop False [] (parser_init allow s) = Inr (True, p)" "m = machine_of p"
    using assms sax_loop_view [of False "[]" "parser_init allow s", symmetric]
    by (auto simp: mapR_eq_Inr)
  have "json_wf (root p)"
    using sax_parse_loop_ok [of False "[]" "parser_init allow s"] parser_init_ok [of allow s] p(1)
    by (auto simp: loop_ok_def Json_Safety.closed_def)
  then show ?thesis using p(2) by (auto simp: sax_dom.defs)
qed

lemma same_errors_run:
  assumes "sim_run R both_stop (sax_loop json_sax_dom_parser False [] (machine_of (parser_init allow s)))
      (sax_loop (json_sax_dom_callback_parser f) False [] (machine_init (cb_dom_init allow c) s))"
    and "\<forall>a d. R [] a d \<longrightarrow> cb_flags a d"
  shows "case json_parse_with allow s of
      Inl e \<Rightarrow> json_parse_callback f c allow s = Inl e
    | Inr j \<Rightarrow> \<exists>j' c'. json_parse_callback f c allow s = Inr (j', c') \<and> (j' = Discarded \<longleftrightarrow> j = Discarded) \<and>
        (j \<noteq> Discarded \<longrightarrow> (\<exists>a d. R [] a d \<and> j = root a \<and> j' = (if cb_root d = Discarded then Null else cb_root d)))"
  using assms(1)
proof cases
  case (run_escape e)
  then have "json_parse_with allow s = Inl e" by (simp add: parse_with_view)
  then show ?thesis using json_parse_ok [of s] json_parse_noexcept_ok [of s] run_escape(2)
    by (auto simp: json_parse_with_def split: if_splits)
next
  case (run_stop x x' m m')
  then show ?thesis
    by (auto simp: both_stop_def parse_with_view callback_view Let_def dom_result_def cb_result_def sax_parse_error_def
        cb_parse_error_def same_lex_def)
next
  case (run_end m m')
  then have "mc_token (next_token m') = mc_token (next_token m)" "mc_lexer (next_token m') = mc_lexer (next_token m)"
    by (simp_all add: same_lex_def)
  then show ?thesis using run_end(1,2,4) assms(2) sax_loop_root [OF run_end(1)]
    by (auto simp: parse_with_view callback_view Let_def dom_result_def cb_result_def sax_parse_error_def
        cb_parse_error_def cb_flags_def simp del: next_token_simps(1,2))
qed

lemma machine_inits:
  "same_lex (machine_of (parser_init allow s)) (machine_init (cb_dom_init allow c) s)"
  "sax_state (machine_of (parser_init allow s)) =
     \<lparr>root = Null, ref_stack = [], object_element = None, errored = False, allow_exceptions = allow\<rparr>"
  "sax_state (machine_init (cb_dom_init allow c) s) = cb_dom_init allow c"
  by (simp_all add: view_parser_init same_lex_def machine_init_def)

lemma callback_same_errors:
  "case json_parse_with allow s of
     Inl e \<Rightarrow> json_parse_callback f c allow s = Inl e
   | Inr j \<Rightarrow> \<exists>j' c'. json_parse_callback f c allow s = Inr (j', c') \<and> (j' = Discarded \<longleftrightarrow> j = Discarded)"
proof -
  have "sim_run (\<lambda>st a d. cb_closed st d \<and> cb_flags a d) both_stop (sax_loop json_sax_dom_parser False [] (machine_of (parser_init allow s)))
      (sax_loop (json_sax_dom_callback_parser f) False [] (machine_init (cb_dom_init allow c) s))"
    by (rule dom_callback.loop_sim [OF refl machine_inits(1)])
       (simp only: machine_inits, simp add: cb_ready_def cb_closed_def cb_dom_init_def cb_flags_def)
  from same_errors_run [OF this] show ?thesis by (auto split: sum.splits)
qed

section \<open>A callback that keeps everything\<close>

definition keeping :: "'c callback \<Rightarrow> bool" where
  "keeping f \<longleftrightarrow> (\<forall>n ev v c. \<exists>c'. f n ev v c = (True, v, c'))"

lemma keeping_call: "keeping f \<Longrightarrow> \<exists>c'. ask f n ev v d = (True, v, d\<lparr>cb_state := c'\<rparr>)"
  by (simp add: keeping_def ask_def split: prod.split) (metis prod.inject)

text \<open>\<open>kept j\<close>: nothing in \<open>j\<close> is discarded.\<close>

fun kept :: "json \<Rightarrow> bool" and members_kept :: "(string \<times> json) list \<Rightarrow> bool" and elems_kept :: "json list \<Rightarrow> bool" where
  "kept (Object m) \<longleftrightarrow> members_kept m"
| "kept (Array a) \<longleftrightarrow> elems_kept a"
| "kept Discarded \<longleftrightarrow> False"
| "kept _ \<longleftrightarrow> True"
| "members_kept [] \<longleftrightarrow> True"
| "members_kept ((k, v) # m) \<longleftrightarrow> kept v \<and> members_kept m"
| "elems_kept [] \<longleftrightarrow> True"
| "elems_kept (v # a) \<longleftrightarrow> kept v \<and> elems_kept a"

lemma members_kept_iff: "members_kept m \<longleftrightarrow> (\<forall>(k, v) \<in> set m. kept v)"
  by (induction m) auto

lemma elems_kept_iff: "elems_kept a \<longleftrightarrow> (\<forall>v \<in> set a. kept v)"
  by (induction a) auto

lemma kept_map_of: "members_kept m \<Longrightarrow> map_of m k = Some v \<Longrightarrow> kept v"
  by (auto simp: members_kept_iff dest: map_of_SomeD)

lemma kept_update: "members_kept m \<Longrightarrow> kept v \<Longrightarrow> members_kept (omap_update k v m)"
  by (auto simp: members_kept_iff dest!: set_omap_update)

lemma kept_at: "kept j \<Longrightarrow> json_at p j = Some w \<Longrightarrow> kept w"
proof (induction p j rule: json_at.induct)
  case (2 k p j)
  then show ?case by (cases j) (auto simp: kept_map_of split: option.splits)
next
  case (3 i p j)
  then show ?case by (cases j) (auto simp: elems_kept_iff split: if_splits)
qed simp

lemma kept_put: "kept j \<Longrightarrow> kept v \<Longrightarrow> kept (json_put q v j)"
proof (induction q v j rule: json_put.induct)
  case (2 k p v j)
  then show ?case by (cases j) (auto simp: kept_map_of kept_update split: option.splits)
next
  case (3 i p v j)
  then show ?case by (cases j) (auto simp: elems_kept_iff dest!: set_update_subset_insert [THEN subsetD])
qed simp

lemma kept_handle_value:
  assumes "kept (root a)" and "kept v" and "handle_value v a = Inr (q, a')"
  shows "kept (root a')"
proof -
  have "kept (Array (x @ [v]))" if "json_at p (root a) = Some (Array x)" for p x
    using kept_at [OF assms(1) that] assms(2) by (simp add: elems_kept_iff)
  then show ?thesis using assms
    by (auto simp: handle_value_def kept_put simp del: kept.simps split: list.splits option.splits json.splits)
qed

lemma kept_sax_key:
  assumes "kept (root a)" and "sax_key k a = Inr a'"
  shows "kept (root a')"
proof -
  obtain p ps m m' where at: "json_at p (root a) = Some (Object m)"
    and m': "m' = (case map_of m k of Some _ \<Rightarrow> m | None \<Rightarrow> omap_update k Null m)"
    and a': "root a' = json_put p (Object m') (root a)"
    using assms(2) by (auto simp: sax_key_def Let_def split: list.splits option.splits json.splits)
  have "kept (Object m')"
    using kept_at [OF assms(1) at] by (simp add: m' kept_update split: option.split)
  then show ?thesis unfolding a' by (rule kept_put [OF assms(1)])
qed

lemma erase_kept: "members_kept m \<Longrightarrow> erase_discarded m = m"
  by (induction m rule: erase_discarded.induct) auto

text \<open>
  The two builders hold the same tree, except that the member whose value comes next is already discarded in
  one of them.
\<close>

definition same_tree :: "sax_dom \<Rightarrow> 'c cb_dom \<Rightarrow> bool" where
  "same_tree a d \<longleftrightarrow> cb_ref_stack d = map Some (ref_stack a) \<and> (\<forall>b \<in> set (keep_stack d). b) \<and> cb_discarded d = Discarded \<and>
     kept (root a)"

definition same_place :: "bool list \<Rightarrow> sax_dom \<Rightarrow> 'c cb_dom \<Rightarrow> bool" where
  "same_place st a d \<longleftrightarrow>
     (case st of
        False # bs \<Rightarrow>
          \<exists>q rs R m k ks. ref_stack a = q # rs \<and> path_to bs (map Some rs) q R \<and> root a = R (Object m) \<and> map_of m k \<noteq> None \<and>
            cb_root d = R (Object (omap_update k Discarded m)) \<and> object_element a = Some (q @ [Key k]) \<and>
            cb_object_element d = Some (q @ [Key k]) \<and> key_keep_stack d = True # ks
      | _ \<Rightarrow> cb_root d = root a)"

definition same_effect :: "pointer \<Rightarrow> sax_dom \<Rightarrow> 'c cb_dom \<Rightarrow> exn + ((bool \<times> pointer option) \<times> 'c cb_dom) \<Rightarrow> bool" where
  "same_effect q a' d r \<longleftrightarrow>
     (\<exists>d'. r = Inr ((True, Some q), d') \<and> cb_root d' = root a' \<and> cb_ref_stack d' = cb_ref_stack d \<and>
        keep_stack d' = keep_stack d \<and> cb_discarded d' = cb_discarded d)"

lemma handle_value_refs: "handle_value v a = Inr (q, a') \<Longrightarrow> ref_stack a' = ref_stack a"
  by (auto simp: handle_value_def split: list.splits option.splits json.splits)

lemma keep_store:
  assumes ok: "stack_ok st (cb_ref_stack d) (cb_root d)" and refs: "cb_ref_stack d = map Some (ref_stack a)"
    and place: "same_place st a d" and run: "handle_value v a = Inr (q, a')"
  shows "same_effect q a' d (cb_store v d)"
proof (cases st)
  case Nil
  then have "ref_stack a = []" using stack_ok_length [OF ok] refs by simp
  then show ?thesis using run refs by (auto simp: handle_value_def cb_store_def same_effect_def)
next
  case (Cons b bs)
  then obtain p rs where rs: "ref_stack a = p # rs" using stack_ok_length [OF ok] refs by (cases "ref_stack a") auto
  show ?thesis
  proof (cases b)
    case True
    then have root: "cb_root d = root a" using place Cons by (simp add: same_place_def)
    have "stack_ok (True # bs) (Some p # map Some rs) (root a)" using ok Cons True refs rs root by simp
    from stack_ok_top [OF this] obtain w where "json_at p (root a) = Some w" "container True w" by metis
    then show ?thesis using run rs refs root container_cases(1) [of w]
      by (auto simp: handle_value_def cb_store_def same_effect_def)
  next
    case False
    then have "same_place (False # bs) a d" using place Cons by simp
    then obtain R m k ks where *: "path_to bs (map Some rs) p R" "root a = R (Object m)" "map_of m k \<noteq> None"
        "cb_root d = R (Object (omap_update k Discarded m))" "object_element a = Some (p @ [Key k])"
        "cb_object_element d = Some (p @ [Key k])" "key_keep_stack d = True # ks"
      unfolding same_place_def list.case bool.case rs list.inject by blast
    note hole = path_hole [OF *(1), unfolded hole_def]
    have put: "json_put (p @ [Key k]) v (R (Object m)) = R (Object (omap_update k v m))"
        "json_put (p @ [Key k]) v (R (Object (omap_update k Discarded m))) = R (Object (omap_update k v m))"
      using hole *(3) by (auto simp: json_put_append map_of_omap_update omap_update_twice)
    show ?thesis using run rs refs hole *(5,6,7)
      by (auto simp: handle_value_def cb_store_def same_effect_def *(2,4) put Let_def)
  qed
qed

lemma keep_handle_value:
  assumes "keeping f" and ok: "stack_ok st (cb_ref_stack d) (cb_root d)" and refs: "cb_ref_stack d = map Some (ref_stack a)"
    and place: "same_place st a d" and run: "handle_value v a = Inr (q, a')" and keeps: "keep_stack d = True # ks"
  shows "same_effect q a' d (cb_handle_value f v skip d)"
proof -
  obtain c where c: "(if skip then (True, v, d) else ask f (length (cb_ref_stack d)) Ev_value v d) = (True, v, d\<lparr>cb_state := c\<rparr>)"
    using keeping_call [OF assms(1)] by (cases skip) (fastforce intro: that [of "cb_state d"])+
  have "same_place st a (d\<lparr>cb_state := c\<rparr>)" using place by (simp add: same_place_def split: list.splits bool.splits)
  then have "same_effect q a' (d\<lparr>cb_state := c\<rparr>) (cb_store v (d\<lparr>cb_state := c\<rparr>))"
    using ok refs run by (intro keep_store) simp_all
  then show ?thesis unfolding cb_handle_value_def c by (simp add: keeps same_effect_def)
qed

definition keep_closed :: "bool list \<Rightarrow> sax_dom \<Rightarrow> 'c cb_dom \<Rightarrow> bool" where
  "keep_closed st a d \<longleftrightarrow> cb_closed st d \<and> cb_flags a d \<and> same_tree a d \<and> cb_root d = root a"

definition keep_ready :: "bool list \<Rightarrow> sax_dom \<Rightarrow> 'c cb_dom \<Rightarrow> bool" where
  "keep_ready st a d \<longleftrightarrow> cb_ready st d \<and> cb_flags a d \<and> same_tree a d \<and> same_place st a d"

lemma closed_keep_stack: "cb_closed st d \<Longrightarrow> same_tree a d \<Longrightarrow> \<exists>ks. keep_stack d = True # ks"
  by (cases "keep_stack d") (auto simp: cb_closed_def same_tree_def)

lemma scalar_kept: "scalar v \<Longrightarrow> kept v"
  by (cases v) (simp_all add: scalar_def)

lemma keep_value:
  assumes "keeping f" and ready: "keep_ready st a d" and "scalar v" and run: "sax_value v a = Inr a'"
    and same: "errored a' = errored a" "allow_exceptions a' = allow_exceptions a"
  shows "\<exists>d'. cb_value f v d = Inr (True, d') \<and> keep_closed st a' d'"
proof -
  obtain q where q: "handle_value v a = Inr (q, a')" using run by (auto simp: sax_value_def mapR_eq_Inr)
  obtain ks where ks: "keep_stack d = True # ks"
    using ready closed_keep_stack [of st d a] by (auto simp: keep_ready_def cb_ready_def)
  have "same_effect q a' d (cb_handle_value f v False d)"
    using ready by (intro keep_handle_value [OF assms(1) _ _ _ q ks])
      (auto simp: keep_ready_def cb_ready_def cb_closed_def same_tree_def)
  then obtain d' where d': "cb_value f v d = Inr (True, d')" "cb_root d' = root a'" "cb_ref_stack d' = cb_ref_stack d"
      "keep_stack d' = keep_stack d" "cb_discarded d' = cb_discarded d"
    by (auto simp: same_effect_def cb_value_def)
  then have "cb_closed st d'" "same_cb d d'" using cb_value_ok [of st d f v] ready by (auto simp: keep_ready_def)
  then show ?thesis
    using d' ready kept_handle_value [OF _ scalar_kept q] handle_value_refs [OF q] assms(3) flags_step [OF _ same]
    by (auto simp: keep_closed_def keep_ready_def same_tree_def)
qed

lemma keep_start:
  assumes "keeping f" and ready: "keep_ready st a d"
    and run: "handle_value (json_of_type (if b then array_t else object_t)) a = Inr (q, a1)"
    and same: "errored a1 = errored a" "allow_exceptions a1 = allow_exceptions a"
  shows "\<exists>d'. cb_start f ev (if b then array_t else object_t) d = Inr (True, d') \<and>
    keep_closed (b # st) (a1\<lparr>ref_stack := q # ref_stack a1\<rparr>) d'"
proof -
  obtain c where c: "ask f (length (cb_ref_stack d)) ev (cb_discarded d) d = (True, cb_discarded d, d\<lparr>cb_state := c\<rparr>)"
    using keeping_call [OF assms(1)] by blast
  let ?d = "d\<lparr>cb_state := c, cb_discarded := cb_discarded d, keep_stack := True # keep_stack d\<rparr>"
  let ?v = "json_of_type (if b then array_t else object_t)"
  have place: "same_place st a ?d" using ready by (simp add: keep_ready_def same_place_def split: list.splits bool.splits)
  have "same_effect q a1 ?d (cb_handle_value f ?v True ?d)"
    using ready by (intro keep_handle_value [OF assms(1) _ _ place run])
      (auto simp: keep_ready_def cb_ready_def cb_closed_def same_tree_def)
  then obtain d' where d': "cb_start f ev (if b then array_t else object_t) d = Inr (True, d'\<lparr>cb_ref_stack := Some q # cb_ref_stack d'\<rparr>)"
      "cb_root d' = root a1" "cb_ref_stack d' = cb_ref_stack d"
      "keep_stack d' = True # keep_stack d" "cb_discarded d' = cb_discarded d"
    unfolding same_effect_def cb_start_def c by (elim exE conjE) (simp add: Let_def)
  moreover have "kept ?v" by simp
  moreover have "cb_closed (b # st) (d'\<lparr>cb_ref_stack := Some q # cb_ref_stack d'\<rparr>)"
      "same_cb d (d'\<lparr>cb_ref_stack := Some q # cb_ref_stack d'\<rparr>)"
    using cb_start_ok [of st d f ev b] ready d'(1) by (auto simp: keep_ready_def)
  ultimately show ?thesis
    using ready kept_handle_value [OF _ _ run] handle_value_refs [OF run] same
    by (auto simp: keep_closed_def keep_ready_def same_tree_def cb_flags_def same_cb_def)
qed

lemma keep_key:
  assumes "keeping f" and closed: "keep_closed (False # st) a d" and run: "sax_key k a = Inr a'"
    and same: "errored a' = errored a" "allow_exceptions a' = allow_exceptions a"
  shows "\<exists>d'. cb_key f k d = Inr (True, d') \<and> keep_ready (False # st) a' d'"
proof -
  obtain c where c: "ask f (length (cb_ref_stack d)) Ev_key (String k) d = (True, String k, d\<lparr>cb_state := c\<rparr>)"
    using keeping_call [OF assms(1)] by blast
  have ok: "stack_ok (False # st) (map Some (ref_stack a)) (root a)" and refs: "cb_ref_stack d = map Some (ref_stack a)"
    and root: "cb_root d = root a" and disc: "cb_discarded d = Discarded"
    using closed by (auto simp: keep_closed_def cb_closed_def same_tree_def simp del: stack_ok.simps)
  obtain q rs where rs: "ref_stack a = q # rs" using stack_ok_length [OF ok] by (cases "ref_stack a") auto
  obtain R w where path: "path_to st (map Some rs) q R" "root a = R w" "container False w" using ok rs by auto
  obtain m where w: "w = Object m" using container_cases(2) [OF path(3)] by auto
  note hole = path_hole [OF path(1), unfolded hole_def]
  obtain m' where a': "a' = a\<lparr>root := R (Object m'), object_element := Some (q @ [Key k])\<rparr>"
    and m': "map_of m' k \<noteq> None" "\<And>w. omap_update k w m' = omap_update k w m"
    using sax_key_run [OF rs path_hole [OF path(1)]] path(2) w run by (metis sum.inject(2))
  obtain d' where d': "cb_key f k d = Inr (True, d')" "cb_ready (False # st) d'" "same_cb d d'"
    using cb_key_ok [of st d f k] closed by (auto simp: keep_closed_def)
  have "d' = d\<lparr>cb_state := c, key_keep_stack := True # key_keep_stack d, cb_root := R (Object (omap_update k Discarded m)),
      cb_object_element := Some (q @ [Key k])\<rparr>"
    using d'(1) unfolding cb_key_def c using refs rs root path(2) w hole disc by simp
  note eq = this
  have "same_place (False # st) a' d'"
    unfolding same_place_def list.case bool.case
    using path(1) rs m' by (intro exI [of _ q] exI [of _ rs] exI [of _ R] exI [of _ m'] exI [of _ k]) (simp add: a' eq)
  moreover have "same_tree a' d'"
    using kept_sax_key [OF _ run] closed by (simp add: same_tree_def keep_closed_def eq) (auto simp: a')
  ultimately show ?thesis using d'(1,2) flags_step [OF _ same d'(3)] closed by (simp add: keep_ready_def keep_closed_def)
qed

lemma keep_end:
  assumes "keeping f" and closed: "keep_closed (b # st) a d" and run: "sax_end a = Inr a'"
    and same: "errored a' = errored a" "allow_exceptions a' = allow_exceptions a"
  shows "\<exists>d'. cb_end_object f d = Inr (True, d') \<and> keep_closed st a' d'"
    and "\<exists>d'. cb_end_array f d = Inr (True, d') \<and> keep_closed st a' d'"
proof -
  obtain q rs where rs: "ref_stack a = q # rs" "a' = a\<lparr>ref_stack := rs\<rparr>"
    using run by (auto simp: sax_end_def split: list.splits)
  have ok: "stack_ok (b # st) (Some q # map Some rs) (root a)" and refs: "cb_ref_stack d = Some q # map Some rs"
    and root: "cb_root d = root a"
    using closed rs by (auto simp: keep_closed_def cb_closed_def same_tree_def simp del: stack_ok.simps)
  obtain ks where ks: "keep_stack d = True # ks"
    using closed closed_keep_stack [of "b # st" d a] by (auto simp: keep_closed_def)
  obtain R w where path: "path_to st (map Some rs) q R" "root a = R w" using ok by auto
  have at: "json_at q (root a) = Some w" and put: "json_put q w (root a) = root a"
    using path_hole [OF path(1)] path(2) by (simp_all add: hole_def)
  define c where "c n ev = snd (snd (f n ev w (cb_state d)))" for n ev
  have c: "ask f n ev w d = (True, w, d\<lparr>cb_state := c n ev\<rparr>)" for n ev
  proof -
    obtain c' where "f n ev w (cb_state d) = (True, w, c')" using assms(1) unfolding keeping_def by blast
    then show ?thesis by (simp add: ask_def c_def)
  qed
  let ?d = "\<lambda>ev. d\<lparr>cb_state := c (length rs) ev, cb_ref_stack := map Some rs, keep_stack := ks\<rparr>"
  have fin: "cb_finish f ev (Some q) d = Inr (True, d\<lparr>cb_state := c (length rs) ev\<rparr>)"
      "cb_pop (d\<lparr>cb_state := c (length rs) ev\<rparr>) = Inr (?d ev)" for ev
    using refs root at put ks by (simp_all add: cb_finish_def c cb_pop_def)
  have tree: "keep_closed st a' (?d ev)" if "cb_closed st (?d ev)" for ev
    using that closed rs ks by (auto simp: keep_closed_def same_tree_def cb_flags_def)
  obtain d1 where d1: "cb_end_array f d = Inr (True, d1)" "cb_closed st d1" using cb_end_array_ok closed by (metis keep_closed_def)
  have arr: "cb_end_array f d = Inr (True, ?d Ev_array_end)" using refs fin by (simp add: cb_end_array_def)
  then show "\<exists>d'. cb_end_array f d = Inr (True, d') \<and> keep_closed st a' d'" using d1 tree by auto
  obtain d2 where d2: "cb_end_object f d = Inr (True, d2)" "cb_closed st d2" using cb_end_object_ok closed by (metis keep_closed_def)
  have "cb_end_object f d = Inr (True, ?d Ev_object_end)"
  proof (cases rs)
    case Nil
    then show ?thesis using refs fin by (simp add: cb_end_object_def)
  next
    case (Cons p ps)
    have closed': "cb_closed st (?d Ev_array_end)" using arr d1 by simp
    then have "stack_ok st (Some p # map Some ps) (root a)" using root Cons by (simp add: cb_closed_def)
    moreover from this obtain b' bs where "st = b' # bs" by (cases st) auto
    ultimately obtain R' u where "path_to bs (map Some ps) p R'" "root a = R' u" by auto
    then have top: "json_at p (root a) = Some u" and put': "json_put p u (root a) = root a"
      using path_hole [of bs "map Some ps" p R'] by (simp_all add: hole_def)
    have "kept u" using closed kept_at [OF _ top] by (auto simp: keep_closed_def same_tree_def)
    then show ?thesis using refs fin Cons root top put'
      by (cases u) (auto simp: cb_end_object_def erase_kept)
  qed
  then show "\<exists>d'. cb_end_object f d = Inr (True, d') \<and> keep_closed st a' d'" using d2 tree by auto
qed

text \<open>A callback that keeps everything gives an instance of the simulation, with the same trees.\<close>

lemma start_runs:
  "start_object a = Inr a' \<Longrightarrow> \<exists>q a1. handle_value (json_of_type object_t) a = Inr (q, a1) \<and> a' = a1\<lparr>ref_stack := q # ref_stack a1\<rparr>"
  "start_array a = Inr a' \<Longrightarrow> \<exists>q a1. handle_value (json_of_type array_t) a = Inr (q, a1) \<and> a' = a1\<lparr>ref_stack := q # ref_stack a1\<rparr>"
  by (auto simp: start_object_def start_array_def mapR_eq_Inr split: prod.splits)

lemma keep_starts:
  assumes "keeping f" and "keep_ready st a d" and "errored a' = errored a" "allow_exceptions a' = allow_exceptions a"
  shows "start_object a = Inr a' \<Longrightarrow> \<exists>d'. cb_start_object f d = Inr (True, d') \<and> keep_closed (False # st) a' d'"
    and "start_array a = Inr a' \<Longrightarrow> \<exists>d'. cb_start_array f d = Inr (True, d') \<and> keep_closed (True # st) a' d'"
  using keep_start [OF assms(1,2), of False _ _ Ev_object_start] keep_start [OF assms(1,2), of True _ _ Ev_array_start] assms(3,4)
  by (fastforce simp: cb_start_object_def cb_start_array_def dest: start_runs)+

lemma keeping_simulation:
  assumes "keeping f"
  shows "sax_simulation json_sax_dom_parser (json_sax_dom_callback_parser f) keep_ready keep_closed both_stop"
proof unfold_locales
  note sx = json_sax_dom_parser_def json_sax_dom_callback_parser_def
  fix st a and d :: "'a cb_dom"
  show "keep_ready st a d \<Longrightarrow> scalar v \<Longrightarrow>
      sim_steps (keep_closed st) (sx_value json_sax_dom_parser v a) (sx_value (json_sax_dom_callback_parser f) v d)" for v
    by (auto simp: sx intro!: dom_steps dom_events keep_value [OF assms])
  show "keep_ready st a d \<Longrightarrow>
      sim_steps (keep_closed (False # st)) (sx_start_object json_sax_dom_parser a) (sx_start_object (json_sax_dom_callback_parser f) d)"
    by (auto simp: sx intro!: dom_steps dom_events keep_starts [OF assms])
  show "keep_ready st a d \<Longrightarrow>
      sim_steps (keep_closed (True # st)) (sx_start_array json_sax_dom_parser a) (sx_start_array (json_sax_dom_callback_parser f) d)"
    by (auto simp: sx intro!: dom_steps dom_events keep_starts [OF assms])
  show "keep_closed (False # st) a d \<Longrightarrow>
      sim_steps (keep_ready (False # st)) (sx_key json_sax_dom_parser k a) (sx_key (json_sax_dom_callback_parser f) k d)" for k
    by (auto simp: sx intro!: dom_steps dom_events keep_key [OF assms])
  show "keep_closed (False # st) a d \<Longrightarrow>
      sim_steps (keep_closed st) (sx_end_object json_sax_dom_parser a) (sx_end_object (json_sax_dom_callback_parser f) d)"
    by (auto simp: sx intro!: dom_steps dom_events keep_end [OF assms])
  show "keep_closed (True # st) a d \<Longrightarrow>
      sim_steps (keep_closed st) (sx_end_array json_sax_dom_parser a) (sx_end_array (json_sax_dom_callback_parser f) d)"
    by (auto simp: sx intro!: dom_steps dom_events keep_end [OF assms])
  show "keep_closed (True # st) a d \<Longrightarrow> keep_ready (True # st) a d"
    by (simp add: keep_closed_def keep_ready_def cb_ready_def same_place_def)
  show "keep_ready st a d \<or> keep_closed st a d \<Longrightarrow> allowed e \<Longrightarrow>
      both_stop (sx_error json_sax_dom_parser e a) (sx_error (json_sax_dom_callback_parser f) e d)" for e
    by (auto simp: sx keep_ready_def keep_closed_def both_stop_error)
qed

lemma keeping_callback_result:
  assumes "keeping f"
  shows "mapR fst (json_parse_callback f c allow s) = json_parse_with allow s"
proof -
  have "sim_run keep_closed both_stop (sax_loop json_sax_dom_parser False [] (machine_of (parser_init allow s)))
      (sax_loop (json_sax_dom_callback_parser f) False [] (machine_init (cb_dom_init allow c) s))"
    by (rule sax_simulation.loop_sim [OF keeping_simulation [OF assms] refl machine_inits(1)])
       (simp only: machine_inits, simp add: keep_ready_def same_place_def cb_ready_def cb_closed_def cb_dom_init_def
         cb_flags_def same_tree_def)
  moreover have "\<forall>a (d :: 'a cb_dom). keep_closed [] a d \<longrightarrow> cb_flags a d" by (simp add: keep_closed_def)
  ultimately have run: "case json_parse_with allow s of
      Inl e \<Rightarrow> json_parse_callback f c allow s = Inl e
    | Inr j \<Rightarrow> \<exists>j' c'. json_parse_callback f c allow s = Inr (j', c') \<and> (j' = Discarded \<longleftrightarrow> j = Discarded) \<and>
        (j \<noteq> Discarded \<longrightarrow> (\<exists>a (d :: 'a cb_dom). keep_closed [] a d \<and> j = root a \<and>
          j' = (if cb_root d = Discarded then Null else cb_root d)))"
    by (rule same_errors_run)
  show ?thesis
  proof (cases "json_parse_with allow s")
    case (Inl e)
    then show ?thesis using run by simp
  next
    case (Inr j)
    then obtain j' c' where cb: "json_parse_callback f c allow s = Inr (j', c')" "j' = Discarded \<longleftrightarrow> j = Discarded"
      and kept: "j \<noteq> Discarded \<longrightarrow> (\<exists>a (d :: 'a cb_dom). keep_closed [] a d \<and> j = root a \<and> j' = (if cb_root d = Discarded then Null else cb_root d))"
      using run unfolding Inr sum.case by blast
    have "j' = j"
    proof (cases "j = Discarded")
      case False
      with kept obtain a and d :: "'a cb_dom" where "keep_closed [] a d" "j = root a"
        "j' = (if cb_root d = Discarded then Null else cb_root d)" by blast
      then show ?thesis using False by (simp add: keep_closed_def)
    qed (use cb(2) in simp)
    then show ?thesis using cb(1) Inr by simp
  qed
qed

end
