(* ===== verification/Json_Wide.thy ===== *)
theory Json_Wide
  imports Json_Token_Inv
begin

text \<open>
  The adapters of \<open>include/common/json.hpp\<close> that a reader takes its characters from: \<open>input_buffer_adapter\<close>, and
  \<open>wide_string_input_adapter\<close> for strings of 16-bit and of 32-bit units, which are converted to UTF-8. Locale
  \<open>input_adapter_protocol\<close> says what a reader relies on; the adapters are its instances.
\<close>

section \<open>State\<close>

text \<open>A character is an \<open>int\<close>: a byte, or -1 for \<open>eof()\<close>. The units are of type \<open>unsigned int\<close> once they are read.\<close>

record wide_string_input_adapter =
  wide_str :: "nat list"
  current_wchar :: nat
  utf8_bytes :: "int list"
  utf8_bytes_index :: nat
  utf8_bytes_filled :: nat

definition wide_init :: "nat list \<Rightarrow> wide_string_input_adapter" where
  "wide_init s = \<lparr>wide_str = s, current_wchar = 0, utf8_bytes = [0, 0, 0, 0], utf8_bytes_index = 0, utf8_bytes_filled = 0\<rparr>"

definition store_bytes :: "int list \<Rightarrow> wide_string_input_adapter \<Rightarrow> wide_string_input_adapter" where
  "store_bytes bs w = w\<lparr>utf8_bytes := bs @ drop (length bs) (utf8_bytes w), utf8_bytes_filled := length bs\<rparr>"

definition read_unit :: "wide_string_input_adapter \<Rightarrow> exn + (nat \<times> wide_string_input_adapter)" where
  "read_unit w =
     (if current_wchar w < length (wide_str w)
      then Inr (wide_str w ! current_wchar w, w\<lparr>current_wchar := current_wchar w + 1\<rparr>)
      else Inl (Undefined_behaviour ''str[current_wchar] past the end''))"

section \<open>Conversion\<close>

definition utf32_bytes :: "nat \<Rightarrow> int list" where
  "utf32_bytes wc =
     (if wc < 0x80 then [int wc]
      else if wc \<le> 0x7FF then [int (0xC0 OR (drop_bit 6 wc AND 0x1F)), int (0x80 OR (wc AND 0x3F))]
      else if wc \<le> 0xFFFF then
        [int (0xE0 OR (drop_bit 12 wc AND 0x0F)), int (0x80 OR (drop_bit 6 wc AND 0x3F)), int (0x80 OR (wc AND 0x3F))]
      else if wc \<le> 0x10FFFF then
        [int (0xF0 OR (drop_bit 18 wc AND 0x07)), int (0x80 OR (drop_bit 12 wc AND 0x3F)),
         int (0x80 OR (drop_bit 6 wc AND 0x3F)), int (0x80 OR (wc AND 0x3F))]
      else [to_int32 (int wc)])"

definition fill_buffer_32 :: "wide_string_input_adapter \<Rightarrow> exn + wide_string_input_adapter" where
  "fill_buffer_32 w =
     (let w0 = w\<lparr>utf8_bytes_index := 0\<rparr> in
      if current_wchar w0 = length (wide_str w0) then Inr (store_bytes [-1] w0)
      else mapR (\<lambda>(wc, w1). store_bytes (utf32_bytes wc) w1) (read_unit w0))"

definition pair_bytes :: "nat \<Rightarrow> nat \<Rightarrow> int list" where
  "pair_bytes wc wc2 =
     (let charcode = 0x10000 + (push_bit 10 (wc AND 0x3FF) OR (wc2 AND 0x3FF)) in
      [int (0xF0 OR drop_bit 18 charcode), int (0x80 OR (drop_bit 12 charcode AND 0x3F)),
       int (0x80 OR (drop_bit 6 charcode AND 0x3F)), int (0x80 OR (charcode AND 0x3F))])"

definition fill_buffer_16 :: "wide_string_input_adapter \<Rightarrow> exn + wide_string_input_adapter" where
  "fill_buffer_16 w =
     (let w0 = w\<lparr>utf8_bytes_index := 0\<rparr> in
      if current_wchar w0 = length (wide_str w0) then Inr (store_bytes [-1] w0)
      else
        bindR (read_unit w0) (\<lambda>(wc, w1).
        if wc < 0x80 then Inr (store_bytes [int wc] w1)
        else if wc \<le> 0x7FF then
          Inr (store_bytes [int (0xC0 OR drop_bit 6 wc), int (0x80 OR (wc AND 0x3F))] w1)
        else if 0xD800 > wc \<or> wc \<ge> 0xE000 then
          Inr (store_bytes [int (0xE0 OR drop_bit 12 wc), int (0x80 OR (drop_bit 6 wc AND 0x3F)), int (0x80 OR (wc AND 0x3F))] w1)
        else if current_wchar w1 < length (wide_str w1) then
          mapR (\<lambda>(wc2, w2). store_bytes (pair_bytes wc wc2) w2) (read_unit w1)
        else Inr (store_bytes [int wc] (w1\<lparr>current_wchar := current_wchar w1 + 1\<rparr>))))"

text \<open>\<open>get_character\<close>; the size of the units selects the conversion.\<close>

definition wide_get_character ::
  "(wide_string_input_adapter \<Rightarrow> exn + wide_string_input_adapter) \<Rightarrow>
   wide_string_input_adapter \<Rightarrow> exn + (int \<times> wide_string_input_adapter)" where
  "wide_get_character fill_buffer w =
     bindR (if utf8_bytes_index w = utf8_bytes_filled w then fill_buffer w else Inr w) (\<lambda>w1.
     if utf8_bytes_index w1 < utf8_bytes_filled w1
     then Inr (utf8_bytes w1 ! utf8_bytes_index w1, w1\<lparr>utf8_bytes_index := utf8_bytes_index w1 + 1\<rparr>)
     else Inl (Assertion_failed ''utf8_bytes_index < utf8_bytes_filled''))"

definition buffer_get_character :: "string \<Rightarrow> exn + (int \<times> string)" where
  "buffer_get_character b =
     (let (c, b') = get_character b in Inr (case c of None \<Rightarrow> -1 | Some ch \<Rightarrow> of_char ch, b'))"

section \<open>What a reader relies on\<close>

text \<open>The first \<open>n\<close> characters.\<close>

primrec read_characters :: "('a \<Rightarrow> exn + (int \<times> 'a)) \<Rightarrow> nat \<Rightarrow> 'a \<Rightarrow> exn + int list" where
  "read_characters get 0 a = Inr []"
| "read_characters get (Suc n) a = bindR (get a) (\<lambda>(c, a'). mapR ((#) c) (read_characters get n a'))"

locale input_adapter_protocol =
  fixes get :: "'a \<Rightarrow> exn + (int \<times> 'a)" and delivers :: "'a \<Rightarrow> string \<Rightarrow> bool"
  assumes get_next: "delivers a (c # cs) \<Longrightarrow> \<exists>a'. get a = Inr (of_char c, a') \<and> delivers a' cs"
    and get_eof: "delivers a [] \<Longrightarrow> \<exists>a'. get a = Inr (-1, a') \<and> delivers a' []"
begin

lemma characters:
  "delivers a cs \<Longrightarrow> read_characters get n a = Inr (map of_char (take n cs) @ replicate (n - length cs) (-1))"
proof (induction n arbitrary: a cs)
  case (Suc n)
  show ?case
  proof (cases cs)
    case Nil
    then obtain a' where "get a = Inr (-1, a')" "delivers a' []" using get_eof Suc.prems by blast
    then show ?thesis using Suc.IH [of a' "[]"] Nil by simp
  next
    case (Cons c cs')
    then obtain a' where "get a = Inr (of_char c, a')" "delivers a' cs'" using get_next Suc.prems by blast
    then show ?thesis using Suc.IH [of a' cs'] Cons by simp
  qed
qed simp

end

interpretation buffer_adapter: input_adapter_protocol buffer_get_character "(=)"
  by unfold_locales (auto simp: buffer_get_character_def get_character_def)

section \<open>Wide strings\<close>

text \<open>The Unicode scalar values, and their units in UTF-16.\<close>

definition scalar_value :: "nat \<Rightarrow> bool" where
  "scalar_value cp \<longleftrightarrow> cp \<le> 0x10FFFF \<and> \<not> (0xD800 \<le> cp \<and> cp \<le> 0xDFFF)"

definition utf16 :: "nat \<Rightarrow> nat list" where
  "utf16 cp =
     (if cp < 0x10000 then [cp] else [0xD800 + (cp - 0x10000) div 0x400, 0xDC00 + (cp - 0x10000) mod 0x400])"

definition utf8_text :: "nat list \<Rightarrow> string" where
  "utf8_text cps = concat (map codepoint_bytes cps)"

lemma and_masks: "(x AND 0x1F :: nat) = x mod 0x20" "(x AND 0x0F :: nat) = x mod 0x10" "(x AND 0x07 :: nat) = x mod 0x08"
    "(x AND 0x3FF :: nat) = x mod 0x400"
  using take_bit_eq_mask [of 5 x] take_bit_eq_mask [of 4 x] take_bit_eq_mask [of 3 x] take_bit_eq_mask [of 10 x]
  by (simp_all add: take_bit_eq_mod mask_eq_exp_minus_1)

lemma int_of_byte: "n < 0x100 \<Longrightarrow> of_char (char_of n :: char) = int n"
  using of_nat_of_char [of "char_of n :: char", where 'a = int] of_char_byte [of n] by simp

lemma codepoint_bytes_ints:
  assumes "cp \<le> 0x10FFFF"
  shows "map of_char (codepoint_bytes cp) =
    (if cp < 0x80 then [int cp]
     else if cp \<le> 0x7FF then [int (0xC0 OR drop_bit 6 cp), int (0x80 OR (cp AND 0x3F))]
     else if cp \<le> 0xFFFF then
       [int (0xE0 OR drop_bit 12 cp), int (0x80 OR (drop_bit 6 cp AND 0x3F)), int (0x80 OR (cp AND 0x3F))]
     else
       [int (0xF0 OR drop_bit 18 cp), int (0x80 OR (drop_bit 12 cp AND 0x3F)),
        int (0x80 OR (drop_bit 6 cp AND 0x3F)), int (0x80 OR (cp AND 0x3F))])"
proof -
  have low: "(0x80 OR (x AND 0x3F :: nat)) < 0x100" for x
    using byte_or(1) [of "x mod 0x40"] by (simp add: and_3F)
  have "cp \<le> 0x7FF \<Longrightarrow> (0xC0 OR drop_bit 6 cp) < 0x100"
    using byte_or(2) [of "drop_bit 6 cp"] by (simp add: drop_bit_eq_div)
  moreover have "cp \<le> 0xFFFF \<Longrightarrow> (0xE0 OR drop_bit 12 cp) < 0x100"
    using byte_or(3) [of "drop_bit 12 cp"] by (simp add: drop_bit_eq_div)
  moreover have "(0xF0 OR drop_bit 18 cp) < 0x100"
    using byte_or(4) [of "drop_bit 18 cp"] assms by (simp add: drop_bit_eq_div)
  ultimately show ?thesis using low by (simp add: codepoint_bytes_def int_of_byte)
qed

lemma utf32_codepoint: "cp \<le> 0x10FFFF \<Longrightarrow> utf32_bytes cp = map of_char (codepoint_bytes cp)"
  by (simp add: codepoint_bytes_ints utf32_bytes_def and_masks drop_bit_eq_div)

lemma pair_codepoint:
  assumes "0x10000 \<le> cp" and "cp \<le> 0x10FFFF"
  shows "pair_bytes (0xD800 + (cp - 0x10000) div 0x400) (0xDC00 + (cp - 0x10000) mod 0x400) = map of_char (codepoint_bytes cp)"
proof -
  let ?x = "cp - 0x10000"
  have hi: "(0xD800 + ?x div 0x400) AND 0x3FF = ?x div 0x400"
  proof -
    have "?x div 0x400 < 0x400" using assms by simp
    moreover have "(0xD800 + ?x div 0x400) mod 0x400 = ?x div 0x400 mod 0x400"
      using mod_mult_self3 [of 54 "0x400" "?x div 0x400"] by simp
    ultimately show ?thesis by (simp add: and_masks)
  qed
  have lo: "(0xDC00 + ?x mod 0x400) AND 0x3FF = ?x mod 0x400"
    using mod_mult_self3 [of 55 "0x400" "?x mod 0x400"] by (simp add: and_masks)
  have "push_bit 10 (?x div 0x400) OR ?x mod 0x400 = ?x"
  proof -
    have "push_bit 10 (drop_bit 10 ?x) OR take_bit 10 ?x = ?x" by (rule bit_eqI) (auto simp: bit_simps)
    then show ?thesis by (simp add: drop_bit_eq_div take_bit_eq_mod)
  qed
  then have "0x10000 + (push_bit 10 (?x div 0x400) OR ?x mod 0x400) = cp" using assms by simp
  then show ?thesis using assms by (simp add: pair_bytes_def hi lo codepoint_bytes_ints Let_def)
qed

text \<open>
  What the adapter will deliver: the rest of its buffer, and the encoding of the code points whose units it has not
  read.
\<close>

definition wide_delivers :: "(nat \<Rightarrow> nat list) \<Rightarrow> wide_string_input_adapter \<Rightarrow> string \<Rightarrow> bool" where
  "wide_delivers units w cs \<longleftrightarrow>
     (\<exists>pre cps. cs = pre @ utf8_text cps \<and> (\<forall>cp \<in> set cps. scalar_value cp) \<and>
        current_wchar w \<le> length (wide_str w) \<and> drop (current_wchar w) (wide_str w) = concat (map units cps) \<and>
        length (utf8_bytes w) = 4 \<and> utf8_bytes_filled w \<le> 4 \<and> utf8_bytes_index w \<le> utf8_bytes_filled w \<and>
        map of_char pre = drop (utf8_bytes_index w) (take (utf8_bytes_filled w) (utf8_bytes w)))"

text \<open>What filling the buffer does, for either size of the units.\<close>

definition fills :: "(wide_string_input_adapter \<Rightarrow> exn + wide_string_input_adapter) \<Rightarrow> (nat \<Rightarrow> nat list) \<Rightarrow> bool" where
  "fills fill units \<longleftrightarrow>
     (\<forall>w. current_wchar w = length (wide_str w) \<longrightarrow> fill w = Inr (store_bytes [-1] (w\<lparr>utf8_bytes_index := 0\<rparr>))) \<and>
     (\<forall>w cp rest. scalar_value cp \<longrightarrow> drop (current_wchar w) (wide_str w) = units cp @ rest \<longrightarrow>
        fill w = Inr (store_bytes (map of_char (codepoint_bytes cp))
          (w\<lparr>utf8_bytes_index := 0, current_wchar := current_wchar w + length (units cp)\<rparr>)))"

lemma drop_Cons_nth: "drop n xs = x # ys \<Longrightarrow> n < length xs \<and> xs ! n = x \<and> drop (Suc n) xs = ys"
  by (metis drop_eq_Nil2 linorder_not_le list.distinct(1) nth_via_drop Cons_nth_drop_Suc list.inject)

lemma fills_32: "fills fill_buffer_32 (\<lambda>cp. [cp])"
  by (auto simp: fills_def fill_buffer_32_def read_unit_def Let_def scalar_value_def utf32_codepoint dest!: drop_Cons_nth)

lemma fills_16: "fills fill_buffer_16 utf16"
proof -
  have "fill_buffer_16 w = Inr (store_bytes (map of_char (codepoint_bytes cp))
      (w\<lparr>utf8_bytes_index := 0, current_wchar := current_wchar w + length (utf16 cp)\<rparr>))"
    if cp: "scalar_value cp" and rest: "drop (current_wchar w) (wide_str w) = utf16 cp @ rest" for w cp rest
  proof (cases "cp < 0x10000")
    case True
    then have "current_wchar w < length (wide_str w)" "wide_str w ! current_wchar w = cp"
      using rest by (auto simp: utf16_def dest!: drop_Cons_nth)
    then show ?thesis using True cp
      by (auto simp: fill_buffer_16_def read_unit_def Let_def codepoint_bytes_ints utf16_def scalar_value_def)
  next
    case False
    let ?hi = "0xD800 + (cp - 0x10000) div 0x400" and ?lo = "0xDC00 + (cp - 0x10000) mod 0x400"
    have "current_wchar w < length (wide_str w)" "wide_str w ! current_wchar w = ?hi"
      "Suc (current_wchar w) < length (wide_str w)" "wide_str w ! Suc (current_wchar w) = ?lo"
      using rest False by (auto simp: utf16_def dest!: drop_Cons_nth)
    moreover have "?hi < 0xE000"
    proof -
      have "cp - 0x10000 < 0x100000" using cp unfolding scalar_value_def by linarith
      then show ?thesis by linarith
    qed
    ultimately show ?thesis using False cp pair_codepoint [of cp]
      by (simp add: fill_buffer_16_def read_unit_def Let_def utf16_def scalar_value_def)
  qed
  then show ?thesis by (auto simp: fills_def fill_buffer_16_def Let_def)
qed

lemma codepoint_bytes_length: "codepoint_bytes cp \<noteq> [] \<and> length (codepoint_bytes cp) \<le> 4"
  by (simp add: codepoint_bytes_def)

text \<open>An adapter whose buffer is not used up, or was just filled.\<close>

lemma wide_get_buffered:
  assumes "wide_delivers units w cs" and "utf8_bytes_index w < utf8_bytes_filled w"
  shows "\<exists>c cs'. cs = c # cs' \<and> utf8_bytes w ! utf8_bytes_index w = of_char c \<and>
    wide_delivers units (w\<lparr>utf8_bytes_index := utf8_bytes_index w + 1\<rparr>) cs'"
proof -
  obtain pre cps where *: "cs = pre @ utf8_text cps" "\<forall>cp \<in> set cps. scalar_value cp"
      "current_wchar w \<le> length (wide_str w)" "drop (current_wchar w) (wide_str w) = concat (map units cps)"
      "length (utf8_bytes w) = 4" "utf8_bytes_filled w \<le> 4" "utf8_bytes_index w \<le> utf8_bytes_filled w"
      "map of_char pre = drop (utf8_bytes_index w) (take (utf8_bytes_filled w) (utf8_bytes w))"
    using assms(1) unfolding wide_delivers_def by blast
  have "drop (utf8_bytes_index w) (take (utf8_bytes_filled w) (utf8_bytes w)) =
      utf8_bytes w ! utf8_bytes_index w # drop (Suc (utf8_bytes_index w)) (take (utf8_bytes_filled w) (utf8_bytes w))"
    using *(5,6) assms(2) by (subst Cons_nth_drop_Suc [symmetric]) auto
  then obtain c pre' where c: "pre = c # pre'" "of_char c = utf8_bytes w ! utf8_bytes_index w"
      "map of_char pre' = drop (Suc (utf8_bytes_index w)) (take (utf8_bytes_filled w) (utf8_bytes w))"
    using *(8) by (cases pre) auto
  have "wide_delivers units (w\<lparr>utf8_bytes_index := utf8_bytes_index w + 1\<rparr>) (pre' @ utf8_text cps)"
    unfolding wide_delivers_def using *(2-6) assms(2) c(3) by (intro exI [of _ pre'] exI [of _ cps]) simp
  then show ?thesis using *(1) c by auto
qed

lemma wide_fill:
  assumes "fills fill units" and "wide_delivers units w (c # cs)" and "utf8_bytes_index w = utf8_bytes_filled w"
  shows "\<exists>w'. fill w = Inr w' \<and> wide_delivers units w' (c # cs) \<and> utf8_bytes_index w' < utf8_bytes_filled w'"
proof -
  obtain pre cps where *: "c # cs = pre @ utf8_text cps" "\<forall>cp \<in> set cps. scalar_value cp"
      "current_wchar w \<le> length (wide_str w)" "drop (current_wchar w) (wide_str w) = concat (map units cps)"
      "length (utf8_bytes w) = 4"
      "map of_char pre = drop (utf8_bytes_index w) (take (utf8_bytes_filled w) (utf8_bytes w))"
    using assms(2) unfolding wide_delivers_def by blast
  then have "pre = []" using assms(3) by simp
  then obtain cp rest where cps: "cps = cp # rest" using *(1) by (cases cps) (auto simp: utf8_text_def)
  let ?bs = "map of_char (codepoint_bytes cp) :: int list"
  let ?w = "store_bytes ?bs (w\<lparr>utf8_bytes_index := 0, current_wchar := current_wchar w + length (units cp)\<rparr>)"
  have fill: "fill w = Inr ?w" using assms(1) *(2,4) cps unfolding fills_def by simp
  have rest: "drop (current_wchar w + length (units cp)) (wide_str w) = concat (map units rest)"
  proof -
    have "drop (length (units cp)) (drop (current_wchar w) (wide_str w)) = concat (map units rest)" using *(4) cps by simp
    then show ?thesis by (simp add: add.commute)
  qed
  have len: "current_wchar w + length (units cp) \<le> length (wide_str w)"
    using arg_cong [OF *(4), of length] *(3) cps by simp
  have "wide_delivers units ?w (c # cs)"
    unfolding wide_delivers_def
    using *(1,2,5) rest len cps \<open>pre = []\<close> codepoint_bytes_length [of cp]
    by (intro exI [of _ "codepoint_bytes cp"] exI [of _ rest]) (simp add: store_bytes_def utf8_text_def)
  then show ?thesis using fill codepoint_bytes_length [of cp] by (simp add: store_bytes_def)
qed

lemma wide_eof:
  assumes "fills fill units" and "wide_delivers units w []" and units: "\<And>cp. units cp \<noteq> []"
  shows "\<exists>w'. wide_get_character fill w = Inr (-1, w') \<and> wide_delivers units w' []"
proof -
  obtain cps where *: "utf8_text cps = []" "current_wchar w \<le> length (wide_str w)" "drop (current_wchar w) (wide_str w) = concat (map units cps)"
      "length (utf8_bytes w) = 4" "utf8_bytes_filled w \<le> 4" "utf8_bytes_index w \<le> utf8_bytes_filled w"
      "drop (utf8_bytes_index w) (take (utf8_bytes_filled w) (utf8_bytes w)) = []"
    using assms(2) unfolding wide_delivers_def by auto
  have "cps = []" using *(1) codepoint_bytes_length by (cases cps) (auto simp: utf8_text_def)
  then have "current_wchar w = length (wide_str w)" using *(2,3) by simp
  moreover from this have "fill w = Inr (store_bytes [-1] (w\<lparr>utf8_bytes_index := 0\<rparr>))" using assms(1) by (simp add: fills_def)
  moreover have "utf8_bytes_index w = utf8_bytes_filled w" using *(4-7) by simp
  ultimately show ?thesis using *(4)
    by (auto simp: wide_get_character_def store_bytes_def wide_delivers_def utf8_text_def intro!: exI [of _ "[]"])
qed

lemma wide_adapter:
  assumes "fills fill units" and "\<And>cp. units cp \<noteq> []"
  shows "input_adapter_protocol (wide_get_character fill) (wide_delivers units)"
proof
  fix w c cs
  assume del: "wide_delivers units w (c # cs)"
  show "\<exists>w'. wide_get_character fill w = Inr (of_char c, w') \<and> wide_delivers units w' cs"
  proof (cases "utf8_bytes_index w = utf8_bytes_filled w")
    case True
    with wide_fill [OF assms(1) del] obtain w' where
      "fill w = Inr w'" "wide_delivers units w' (c # cs)" "utf8_bytes_index w' < utf8_bytes_filled w'" by blast
    then show ?thesis using True wide_get_buffered [of units w' "c # cs"] by (auto simp: wide_get_character_def)
  next
    case False
    then have "utf8_bytes_index w < utf8_bytes_filled w" using del by (auto simp: wide_delivers_def)
    then show ?thesis using False wide_get_buffered [OF del] by (auto simp: wide_get_character_def)
  qed
qed (rule wide_eof [OF assms(1) _ assms(2)])

interpretation utf32_adapter: input_adapter_protocol "wide_get_character fill_buffer_32" "wide_delivers (\<lambda>cp. [cp])"
  by (rule wide_adapter [OF fills_32]) simp

interpretation utf16_adapter: input_adapter_protocol "wide_get_character fill_buffer_16" "wide_delivers utf16"
  by (rule wide_adapter [OF fills_16]) (simp add: utf16_def)

lemma wide_init_delivers:
  "\<forall>cp \<in> set cps. scalar_value cp \<Longrightarrow> wide_delivers units (wide_init (concat (map units cps))) (utf8_text cps)"
  unfolding wide_delivers_def by (intro exI [of _ "[]"] exI [of _ cps]) (simp add: wide_init_def)

text \<open>The characters of a wide string are those of the buffer with its UTF-8 encoding, which is valid.\<close>

lemma wide_characters:
  assumes "\<forall>cp \<in> set cps. scalar_value cp"
  shows "read_characters (wide_get_character fill_buffer_16) n (wide_init (concat (map utf16 cps))) =
      read_characters buffer_get_character n (utf8_text cps)"
    and "read_characters (wide_get_character fill_buffer_32) n (wide_init cps) = read_characters buffer_get_character n (utf8_text cps)"
    and "utf8_valid (utf8_text cps)"
proof -
  note delivers = wide_init_delivers [OF assms]
  show "read_characters (wide_get_character fill_buffer_16) n (wide_init (concat (map utf16 cps))) =
      read_characters buffer_get_character n (utf8_text cps)"
    using utf16_adapter.characters [OF delivers] buffer_adapter.characters [OF refl] by metis
  show "read_characters (wide_get_character fill_buffer_32) n (wide_init cps) = read_characters buffer_get_character n (utf8_text cps)"
    using utf32_adapter.characters [OF delivers [of "\<lambda>cp. [cp]"]] buffer_adapter.characters [OF refl] by simp
  show "utf8_valid (utf8_text cps)"
    using assms
  proof (induction cps)
    case (Cons cp cps)
    then show ?case by (simp add: utf8_text_def utf8_valid_append utf8_valid_codepoint scalar_value_def)
  qed (simp add: utf8_text_def utf8_valid_def)
qed

section \<open>Ill-formed strings\<close>

text \<open>A surrogate at the end leaves the index past the end, and the character after it is read outside the string.\<close>

lemma surrogate_at_end:
  assumes "0xD800 \<le> wc" and "wc < 0xE000"
  shows "\<exists>w. wide_get_character fill_buffer_16 (wide_init [wc]) = Inr (int wc, w) \<and>
    wide_get_character fill_buffer_16 w = Inl (Undefined_behaviour ''str[current_wchar] past the end'')"
  using assms by (simp add: wide_get_character_def fill_buffer_16_def wide_init_def read_unit_def store_bytes_def Let_def)

text \<open>Any unit after a surrogate is taken for the second half of a pair.\<close>

lemma surrogate_pairs_with_anything:
  assumes "0xD800 \<le> wc" and "wc < 0xE000"
  shows "read_characters (wide_get_character fill_buffer_16) 4 (wide_init (wc # wc2 # rest)) = Inr (pair_bytes wc wc2)"
proof -
  obtain a b c d where bs: "pair_bytes wc wc2 = [a, b, c, d]" by (simp add: pair_bytes_def Let_def)
  have four: "(4 :: nat) = Suc (Suc (Suc (Suc 0)))" by simp
  show ?thesis
    unfolding four using assms
    by (simp add: wide_get_character_def fill_buffer_16_def wide_init_def read_unit_def store_bytes_def Let_def bs)
qed

text \<open>The unit \<open>0xFFFFFFFF\<close> becomes -1, which is \<open>eof()\<close>: the rest of the string is not read.\<close>

lemma utf32_eof_unit:
  "\<exists>w. wide_get_character fill_buffer_32 (wide_init (0xFFFFFFFF # rest)) = Inr (-1, w) \<and> current_wchar w = 1"
  by (simp add: wide_get_character_def fill_buffer_32_def wide_init_def read_unit_def store_bytes_def Let_def utf32_bytes_def
      to_int32_def)

end
