(* ===== verification/Spec2Isabelle.thy ===== *)
theory Spec2Isabelle
  imports Chat_System_Example Json_Number Json_Msgpack Json_Cbor Json_Bson Json_Ubjson_Laws Json_Patch_Laws Json_Flatten Json_Callback_Laws Json_Wide
begin

text \<open>
  A verification development for the cluster chat program in this repository: the server
  (\<open>src/server\<close>, \<open>include/server\<close>), the client (\<open>src/client\<close>, \<open>include/client\<close>) and the part of the
  in-tree JSON library (\<open>include/common/json.hpp\<close>, nlohmann::json 3.6.1) that they reach through
  \<open>json::parse\<close>, \<open>operator[]\<close>, \<open>get<T>()\<close> and \<open>dump()\<close>, with its binary formats.

  The program. A muduo TCP server calls \<open>ChatServer::OnMessage\<close> with the bytes that arrived on a connection.
  They are parsed as one JSON object, its \<open>msgid\<close> selects a handler of \<open>MsgIDHandler\<close>, and the
  handler talks to the MySQL tables through the classes of \<open>model/\<close>, to redis (messages between the
  servers of a cluster) and to the connections of other users. A closed connection, a redis notification
  and SIGINT are the other events. The client has a main thread that reads the console and sends requests, and
  a reader thread that handles what the server sends; they meet at a semaphore.

  Theories, in dependency order.

  \<^item> \<open>Prelude\<close>: results with exceptions (\<open>exn + 'a\<close>), state-and-exception commands (\<open>cmd\<close>) and
    the rules for invariants over them, conversions between integer types, decimal printing and
    \<open>strtol\<close>/\<open>atoi\<close>, \<open>std::map\<close> as a sorted association list (locale \<open>ordered_map\<close>) and the
    operations of \<open>std::unordered_map\<close>.
  \<^item> \<open>Cxx_Double\<close>: IEEE doubles as 64-bit words, as far as reading and printing numbers needs them.
  \<^item> \<open>Json_Value\<close>: exceptions, values, \<open>operator[]\<close>, conversions, comparison.
  \<^item> \<open>Json_Dtoa\<close>: the Grisu2 number printer (\<open>detail::dtoa_impl\<close>).
  \<^item> \<open>Json_Serializer\<close>: class \<open>serializer\<close>. \<open>Json_Utf8\<close> relates its DFA to a specification of UTF-8,
    \<open>Json_Escape\<close> proves \<open>dump_escaped\<close> and \<open>dump_integer\<close>, \<open>Json_Print\<close> proves \<open>dump()\<close> against a
    reference printer \<open>json_text\<close>.
  \<^item> \<open>Json_Dom\<close>: class \<open>json_sax_dom_parser\<close>, which builds a value from events. It addresses elements
    through pointers into the value that is built; a pointer is the path to its element.
  \<^item> \<open>Json_Lexer\<close> and \<open>Json_Parser\<close>: classes \<open>lexer\<close> and \<open>parser\<close>.
    Both theories prove termination by the number of characters left. \<open>Json_Lexer_Spec\<close> says which
    token a text starts with, \<open>Json_Slot\<close> says what the parser does with a token, \<open>Json_Reparse\<close> says how a value differs that was written
    and read back, \<open>Json_Roundtrip\<close> proves that \<open>json::parse\<close> reads back what \<open>dump()\<close> wrote, \<open>Json_Token_Inv\<close> and \<open>Json_Number\<close> prove what every
    token satisfies, \<open>Json_Safety\<close> proves that \<open>json::parse\<close> is safe on every input, and \<open>Json_Wire\<close> collects
    what programs rely on that exchange such texts.
  \<^item> \<open>Json_Access\<close>: element access and modifiers of \<open>basic_json\<close>. \<open>Json_Pointer\<close>: class \<open>json_pointer\<close>, with
    \<open>flatten\<close> and \<open>unflatten\<close>; \<open>Json_Pointer_Text\<close>: its text form; \<open>Json_Flatten\<close>: \<open>unflatten\<close> undoes \<open>flatten\<close>, by
    an invariant on what is built after some of the leaves are stored. \<open>Json_Patch\<close>: \<open>patch\<close>, \<open>diff\<close> and
    \<open>merge_patch\<close>; \<open>Json_Patch_Laws\<close>: what an operation does at the place its pointer refers to, \<open>patch\<close> of
    \<open>diff\<close>, and the members of a merged object.
  \<^item> \<open>Json_Sax\<close>: the parser over any event handler, \<open>sax_parse\<close> and \<open>accept\<close>; \<open>Json_Sax_Laws\<close>: with
    \<open>json_sax_dom_parser\<close> it is the parser of \<open>Json_Parser\<close>, and the locale \<open>sax_simulation\<close> compares two handlers
    on the same text. \<open>Json_Callback\<close>: \<open>parse\<close> with a callback; \<open>Json_Callback_Laws\<close>: the invariant of its stacks,
    and the two instances of the simulation: for every callback, and for one that keeps everything.
  \<^item> \<open>Json_Wide\<close>: the adapters for UTF-16 and UTF-32 strings, as instances of locale \<open>input_adapter_protocol\<close>.
  \<^item> \<open>Json_Binary\<close>: what the binary formats share of classes \<open>binary_reader\<close> and \<open>binary_writer\<close>, and the
    recursion \<open>fixC\<close> of the readers. \<open>Json_Binary_Laws\<close>: how a reader builds a value from what a writer wrote
    (locales \<open>tagged_reader\<close> and \<open>counted_format\<close>). \<open>Json_Msgpack\<close>, \<open>Json_Cbor\<close>, \<open>Json_Bson\<close>: writer and reader of
    each format, with the round trip. \<open>Json_Ubjson\<close>: the same for UBJSON, whose loops end at a byte that was read
    already; \<open>Json_Ubjson_Laws\<close>: its round trip, for the three ways to write containers.
  \<^item> \<open>Chat_Database\<close>, \<open>Chat_Dao\<close>: \<open>MySQLConn\<close>, the entity classes and the data access objects. The MySQL
    client library is a parameter (a record of functions over a state type).
  \<^item> \<open>Chat_Sql\<close>: what a MySQL server answers to the statements this program sends (hypothesis
    \<open>sql_server\<close>, which says what MySQL documents for them), and the contract of each data access
    object under it, in the locale \<open>chat_database\<close>. \<open>Chat_Sql_Ref\<close> interprets the locale with an
    in-memory database, so the hypothesis can hold.
  \<^item> \<open>Chat_Redis\<close>: class \<open>RedisConn\<close>; hiredis is a parameter.
  \<^item> \<open>Chat_Handler\<close>: class \<open>MsgIDHandler\<close>, every handler with its state: connection table, mutex,
    messages sent, database, redis connection. \<open>Chat_Server\<close>: \<open>ChatServer\<close>, \<open>SignalHandler\<close>, \<open>main\<close>, and
    the process as a step relation over events, with an exception in a callback ending the process.
  \<^item> \<open>Chat_Run\<close>: the connection table (locale \<open>connection_table\<close>, interpreted on the model) and its
    invariant; \<open>Chat_Lock\<close>: the mutex discipline; \<open>Chat_Behaviour\<close>: what each handler does, branch by
    branch; \<open>Chat_Example\<close>: a concrete server for the witnesses.
  \<^item> \<open>Chat_Console\<close>: \<open>std::cin\<close> with its error state. \<open>Chat_Client\<close>: class \<open>ChatClient\<close>, the commands, the
    handlers of the answers and the reader thread of the client; the socket functions are a parameter.
    \<open>Chat_Client_Main\<close>: the main thread, cut at \<open>sem_wait\<close> and at the heads of its loops, and both threads as a
    step relation. \<open>Chat_Client_Run\<close> and \<open>Chat_Client_Session\<close>: the bytes of every request, what is shown for
    every answer, the invariant of the menus, the console after an error.
  \<^item> \<open>Chat_System\<close>: client and server composed over the bytes they exchange; \<open>Chat_System_Example\<close>: concrete
    clients for the witnesses.

  Bounds. Every loop of the program is a recursive function whose termination is
  proved. The loop of \<open>RedisConn::StartObserving\<close>, which runs for the life of the process, is modelled
  by its iteration (\<open>observe_once\<close>); each reply is an event of the process. The loops of the client's
  threads are modelled by their iterations in the same way. The readers of the binary formats are
  mutually recursive through state; \<open>fixC\<close> unfolds such a recursion once more than there are bytes left. Each
  round reads a byte, and \<open>fixC_unfold\<close> proves from that (\<open>guarded\<close>) that the bound makes no difference: the
  recursive equation of the code holds.

  Assumptions. Callbacks are atomic steps; the only shared state between the event-loop thread and the redis
  thread that the source protects is the connection table, under \<open>conn_mtx_\<close>. Memory allocation does not fail.
  The locale is the C locale (the program never calls \<open>setlocale\<close>). Outside input is a byte string.

  Not modelled. Muduo, hiredis and the MySQL client library themselves, the log output of the server, and the
  remaining parts of \<open>json.hpp\<close>, which the program does not reach: iterators, and the adapters that read a \<open>FILE\<close> or an \<open>istream\<close>.
\<close>

section \<open>Properties of the chat server\<close>

text \<open>C1: a login with the right password of a user who is not online is answered on the same connection
with the user's data, friends and stored messages; the user is entered in the connection table, is online
in the database afterwards, and the stored messages are cleared.\<close>

theorem login_success:
  assumes "sql_server api view" and "login_request js i pwd" and "is_int32 i"
    and "tables_ok (view (db s))" and "\<not> conn_mtx s"
    and "user_id (find_user i (view (db s))) = i" and "user_password (find_user i (view (db s))) = pwd"
    and "user_state (find_user i (view (db s))) \<noteq> ''online''"
    and "texts_ok i (stmt_update (Update_state ''online'' i) (view (db s)))"
  shows "fst (HandlerLogin api rapi conn js s) = Inr () \<and>
    sends (snd (HandlerLogin api rapi conn js s)) =
      sends s @ [(conn, json_text (login_response i (stmt_update (Update_state ''online'' i) (view (db s)))))] \<and>
    user_conn_map (snd (HandlerLogin api rapi conn js s)) = umap_insert i conn (user_conn_map s) \<and>
    view (db (snd (HandlerLogin api rapi conn js s))) = login_tables i (view (db s))"
  by (rule chat_database.login_success_run [OF chat_database.intro [OF assms(1)] assms(2-9)])

theorem login_success_witness:
  "sends (snd (HandlerLogin ref_api log_redis 11 (login_js 1 ''pa'') ex_state)) =
     [(11, json_text (login_response 1 (stmt_update (Update_state ''online'' 1) ex_tables)))]"
  using login_success [OF ref_server login_request_ex [of 1 "''pa''"], of ex_state log_redis 11] texts_ok_ex
  by simp

text \<open>A login with a wrong password or for an unknown user is answered with error 1 and changes neither
the connection table nor the database nor the subscriptions.\<close>

theorem login_wrong_password:
  assumes "sql_server api view" and "login_request js i pwd" and "is_int32 i" and "tables_ok (view (db s))"
    and "\<not> (user_id (find_user i (view (db s))) = i \<and> user_password (find_user i (view (db s))) = pwd)"
  shows "fst (HandlerLogin api rapi conn js s) = Inr () \<and>
    sends (snd (HandlerLogin api rapi conn js s)) =
      sends s @ [(conn, json_text (login_failure 1 errmsg_wrong_password))] \<and>
    user_conn_map (snd (HandlerLogin api rapi conn js s)) = user_conn_map s \<and>
    view (db (snd (HandlerLogin api rapi conn js s))) = view (db s) \<and>
    redis (snd (HandlerLogin api rapi conn js s)) = redis s"
  by (rule chat_database.login_reject_run [OF chat_database.intro [OF assms(1)] assms(2-5)])

theorem login_wrong_password_witness:
  "user_conn_map (snd (HandlerLogin ref_api log_redis 11 (login_js 1 ''guess'') ex_state)) = [(2, 12)]"
  using login_wrong_password [OF ref_server login_request_ex [of 1 "''guess''"], of ex_state log_redis 11] by simp

text \<open>C2: a second login of a user who is online is refused with error 2 and changes nothing.\<close>

theorem login_already_online:
  assumes "sql_server api view" and "login_request js i pwd" and "is_int32 i" and "tables_ok (view (db s))"
    and "user_id (find_user i (view (db s))) = i" and "user_password (find_user i (view (db s))) = pwd"
    and "user_state (find_user i (view (db s))) = ''online''"
  shows "fst (HandlerLogin api rapi conn js s) = Inr () \<and>
    sends (snd (HandlerLogin api rapi conn js s)) =
      sends s @ [(conn, json_text (login_failure 2 errmsg_already_online))] \<and>
    user_conn_map (snd (HandlerLogin api rapi conn js s)) = user_conn_map s \<and>
    view (db (snd (HandlerLogin api rapi conn js s))) = view (db s) \<and>
    redis (snd (HandlerLogin api rapi conn js s)) = redis s"
  by (rule chat_database.login_twice_run [OF chat_database.intro [OF assms(1)] assms(2-7)])

theorem login_already_online_witness:
  "sends (snd (HandlerLogin ref_api log_redis 11 (login_js 2 ''pb'') ex_state)) =
     [(11, json_text (login_failure 2 errmsg_already_online))]"
  using login_already_online [OF ref_server login_request_ex [of 2 "''pb''"], of ex_state log_redis 11] by simp

text \<open>C3: a direct message to a user who is connected to this server is forwarded unchanged to the
connection of that user, and nothing else happens.\<close>

theorem direct_chat_to_local_user:
  assumes "field_int ''toid'' js = Inr (j, js')" and "printable js'" and "\<not> conn_mtx s"
    and "map_of (user_conn_map s) j = Some to_conn"
  shows "HandlerDirectChat api rapi conn js s = (Inr (), s\<lparr>sends := sends s @ [(to_conn, json_text js')]\<rparr>)"
  using assms by (rule direct_chat_local)

theorem direct_chat_to_local_user_witness:
  "HandlerDirectChat ref_api log_redis 11 (chat_js 2) ex_state =
     (Inr (), ex_state\<lparr>sends := [(12, json_text (chat_js 2))]\<rparr>)"
  using direct_chat_to_local_user [of "chat_js 2" 2 "chat_js 2" ex_state 12 ref_api log_redis 11] by simp





section \<open>Properties of client and server together\<close>

text \<open>C6: a line \<open>chat:j:text\<close> in the chat menu of one client is sent to the server, forwarded unchanged to the
connection of user \<open>j\<close>, and shown by the client there as one line with the time, id and name of the sender.\<close>

theorem chat_message_shown:
  fixes a :: "'n client_state" and b :: "'m client_state" and s :: "('d, 'r) server_state"
  assumes "menus_ok a" and "main_at a = Chat_menu" and "user_ok (g_current_user a)"
    and "cin a = istream_of (''chat:'' @ show_int j @ CHR '':'' # msg @ lf # rest)"
    and "line_ok 1024 (''chat:'' @ show_int j @ CHR '':'' # msg)" and "is_int32 j" and "utf8_valid msg"
    and "GetCurrentTime t = Inr time"
    and "sent_ok api (clientfd a) (message_bytes (chat_of (g_current_user a) j msg time)) (net a)"
    and "\<not> conn_mtx s" and "map_of (user_conn_map s) j = Some to_conn"
    and "delivers bapi b (json_text (chat_of (g_current_user a) j msg time)) n"
  shows "main_step api t a =
      (Inr (), (with_net api (clientfd a) (chat_of (g_current_user a) j msg time) a)\<lparr>cin := istream_of rest\<rparr>) \<and>
    OnMessage sapi rapi conn (message_bytes (chat_of (g_current_user a) j msg time)) s =
      (Inr (), s\<lparr>sends := sends s @ [(to_conn, json_text (chat_of (g_current_user a) j msg time))]\<rparr>) \<and>
    ReadTaskHandler_once bapi b = (Inr (), b\<lparr>net := n,
      cout := cout b @ shown_chat (user_id (g_current_user a)) (user_name (g_current_user a)) msg time\<rparr>)"
  by (rule chat_end_to_end [OF assms])

theorem chat_message_shown_witness:
  "sent (net (snd (main_step ex_sockets ex_tm (ex_client (''chat:'' @ show_int 2 @ '':hi'' @ [lf]) [])))) =
     [(3, message_bytes (chat_of ex_user 2 ''hi'' ex_time))]"
proof -
  let ?b = "ex_client [] [json_text (chat_of ex_user 2 ''hi'' ex_time)]"
  have short: "length (json_text (chat_of ex_user 2 ''hi'' ex_time)) \<le> 1023" by code_simp
  have nonempty: "0 < length (json_text (chat_of ex_user 2 ''hi'' ex_time))" by code_simp
  have "delivers ex_sockets ?b (json_text (chat_of ex_user 2 ''hi'' ex_time)) ((net ?b)\<lparr>incoming := []\<rparr>)"
    by (rule ex_delivers) (use short nonempty in simp_all)
  moreover have "line_ok 1024 (''chat:'' @ show_int 2 @ CHR '':'' # ''hi'')" by code_simp
  ultimately show ?thesis
    using chat_message_shown [where a = "ex_client (''chat:'' @ show_int 2 @ '':hi'' @ [lf]) []" and b = ?b and
        s = ex_state and j = 2 and msg = "''hi''" and rest = "[]" and t = ex_tm and time = ex_time and api = ex_sockets and
        bapi = ex_sockets and to_conn = 12 and n = "(net ?b)\<lparr>incoming := []\<rparr>"] ex_time
    by (simp add: utf8_valid_ascii with_net_def) (simp add: ex_client_def client_init_def)
qed

text \<open>C7: a login at the start menu with the right id and password ends in the chat menu as that user: the client
sends the request and waits, the server answers on that connection and enters it in its table, the reader
thread takes the answer over and posts, and the main thread goes on. The friend list is not updated.\<close>

theorem login_reaches_chat_menu:
  fixes c :: "'n client_state" and s :: "('d, 'r) server_state"
  assumes "sql_server api view" "tables_ok (view (db s))" "\<not> conn_mtx s"
    and "user_id (find_user i (view (db s))) = i" "user_password (find_user i (view (db s))) = pwd"
      "user_state (find_user i (view (db s))) \<noteq> ''online''"
    and "texts_ok i (stmt_update (Update_state ''online'' i) (view (db s)))"
    and "offline_of i (view (db s)) = map (\<lambda>c. json_text (chat_json c)) cs" "\<forall>c \<in> set cs. chat_ok c"
    and "main_at c = Start_menu" "cin c = istream_of (show_int 1 @ lf # show_int i @ lf # pwd @ lf # rest)"
      "is_int32 i" "line_ok 50 pwd" "utf8_valid pwd"
      "sent_ok capi (clientfd c) (message_bytes (login_message i pwd)) (net c)"
    and "delivers capi (with_net capi (clientfd c) (login_message i pwd) c)
      (json_text (login_response i (stmt_update (Update_state ''online'' i) (view (db s))))) n"
  shows "\<exists>c1 s1 c2 c3. main_step capi t c = (Inr (), c1) \<and>
    net c1 = snd (sock_send capi (clientfd c) (message_bytes (login_message i pwd)) (net c)) \<and>
    OnMessage api rapi conn (message_bytes (login_message i pwd)) s = (Inr (), s1) \<and>
    sends s1 = sends s @ [(conn, json_text (login_response i (stmt_update (Update_state ''online'' i) (view (db s)))))] \<and>
    user_conn_map s1 = umap_insert i conn (user_conn_map s) \<and>
    ReadTaskHandler_once capi c1 = (Inr (), c2) \<and> main_at c2 = Wait_login \<and> g_read_write_mutex c2 = Suc (g_read_write_mutex c) \<and>
    main_step capi t c2 = (Inr (), c3) \<and>
    main_at c3 = Chat_menu \<and> user_id (g_current_user c3) = i \<and>
    user_name (g_current_user c3) = user_name (find_user i (stmt_update (Update_state ''online'' i) (view (db s)))) \<and>
    g_read_write_mutex c3 = g_read_write_mutex c \<and>
    g_current_user_friend_list c3 = g_current_user_friend_list c \<and> cin c3 = istream_of rest"
  by (rule login_end_to_end [OF assms])

theorem login_reaches_chat_menu_witness:
  "\<exists>c1. main_step ex_sockets ex_tm ex_login = (Inr (), c1) \<and>
    net c1 = \<lparr>sent = [(3, message_bytes (login_message 4 ''pd''))], incoming = [ex_answer]\<rparr>"
proof -
  have "net ex_login = \<lparr>sent = [], incoming = [ex_answer]\<rparr>" "clientfd ex_login = 3" by (simp_all add: ex_login_def)
  with login_reaches_chat_menu [OF ref_server ex_login_premises ex_login_deliver, of ex_tm log_redis 0]
  show ?thesis by (elim exE conjE) (rule exI, rule conjI, assumption, simp)
qed

text \<open>C8: a logout takes the user out of the connection table, so that no later message goes to the old
connection, and marks the user as offline in the database; nothing is answered.\<close>

theorem logout_frees_user:
  assumes "sql_server api view" and "field_int ''id'' js = Inr (i, js')" and "\<not> conn_mtx s"
    and "subscribe_context (redis s)"
  shows "fst (HandlerLogout api rapi conn js s) = Inr () \<and>
    sends (snd (HandlerLogout api rapi conn js s)) = sends s \<and>
    map_of (user_conn_map (snd (HandlerLogout api rapi conn js s))) i = None \<and>
    (\<forall>j. j \<noteq> i \<longrightarrow> map_of (user_conn_map (snd (HandlerLogout api rapi conn js s))) j = map_of (user_conn_map s) j) \<and>
    view (db (snd (HandlerLogout api rapi conn js s))) = stmt_update (Update_state ''offline'' i) (view (db s))"
  using chat_database.HandlerLogout_run [OF chat_database.intro [OF assms(1)] assms(2-4), of rapi conn]
  by (simp add: map_of_umap_erase)

theorem logout_frees_user_witness:
  "map_of (user_conn_map (snd (HandlerLogout ref_api log_redis 12 (login_js 2 ''pb'') ex_state))) 2 = None"
  using logout_frees_user [OF ref_server field_id_ex [of 2 "''pb''"], of ex_state log_redis 12] by simp

text \<open>C9: when a connection with one entry in the table is closed, no entry of the connection stays, every
other entry stays as it was, and its user is marked as offline.\<close>

theorem close_frees_user:
  assumes "sql_server api view" and "\<not> conn_mtx s" and "subscribe_context (redis s)"
    and "conn_ok (user_conn_map s)" and "map_of (user_conn_map s) i = Some conn" and "is_int32 i" and "i \<noteq> - 1"
    and "\<forall>j. map_of (user_conn_map s) j = Some conn \<longrightarrow> j = i"
  shows "fst (ClientCloseException api rapi conn s) = Inr () \<and>
    sends (snd (ClientCloseException api rapi conn s)) = sends s \<and>
    conn \<notin> snd ` set (user_conn_map (snd (ClientCloseException api rapi conn s))) \<and>
    (\<forall>j. j \<noteq> i \<longrightarrow> map_of (user_conn_map (snd (ClientCloseException api rapi conn s))) j = map_of (user_conn_map s) j) \<and>
    view (db (snd (ClientCloseException api rapi conn s))) = stmt_update (Update_state ''offline'' i) (view (db s))"
proof -
  have found: "fst (erase_first_conn conn (user_conn_map s)) = Some i"
    by (rule erase_first_conn_unique [OF assms(4,5,8)])
  show ?thesis
    using chat_database.ClientCloseException_run [OF chat_database.intro [OF assms(1)] assms(2,3) found assms(6,7), of rapi]
      erase_first_conn_removes [OF assms(4) found assms(8)] erase_first_conn_Some [OF found assms(4)]
    by (simp add: ClientCloseException_conn_map [OF assms(2)])
qed

theorem close_frees_user_witness:
  "12 \<notin> snd ` set (user_conn_map (snd (ClientCloseException ref_api log_redis 12 ex_state)))"
  by (rule close_frees_user [OF ref_server, of ex_state 2 12 log_redis, THEN conjunct2, THEN conjunct2, THEN conjunct1])
     (simp_all add: conn_ok_def)

text \<open>C10: a login on a connection, while a stale entry for the user is in the table, leaves the stale entry in
place (\<open>unordered_map::insert\<close> does not overwrite): a message for the user then goes to the old connection.\<close>

theorem stale_connection_gets_messages:
  assumes "sql_server api view" and "login_request lg i pwd" and "is_int32 i"
    and "tables_ok (view (db s))" and "\<not> conn_mtx s"
    and "user_id (find_user i (view (db s))) = i" and "user_password (find_user i (view (db s))) = pwd"
    and "user_state (find_user i (view (db s))) \<noteq> ''online''"
    and "texts_ok i (stmt_update (Update_state ''online'' i) (view (db s)))"
    and "map_of (user_conn_map s) i = Some old"
    and "field_int ''toid'' js = Inr (i, js')" and "printable js'"
  shows "let s1 = snd (HandlerLogin api rapi new lg s); s2 = snd (HandlerDirectChat api rapi conn js s1) in
    map_of (user_conn_map s1) i = Some old \<and> sends s2 = sends s1 @ [(old, json_text js')]"
proof -
  let ?s1 = "snd (HandlerLogin api rapi new lg s)"
  note login = chat_database.login_success_run [OF chat_database.intro [OF assms(1)] assms(2-9), of rapi new]
  have map: "map_of (user_conn_map ?s1) i = Some old"
    using login assms(10) by (simp add: map_of_umap_insert dom_def)
  have free: "\<not> conn_mtx ?s1"
    by (rule lock_safe_unlocked [OF lock_safe_handlers(1) assms(5)])
  show ?thesis
    unfolding Let_def using direct_chat_local [OF assms(11,12) free map, of api rapi conn] map by simp
qed

theorem stale_connection_gets_messages_witness:
  "sends (snd (HandlerDirectChat ref_api log_redis 12 (chat_js 1) (snd (HandlerLogin ref_api log_redis 11
      (login_js 1 ''pa'') (ex_state\<lparr>user_conn_map := [(1, 10)]\<rparr>))))) =
   sends (snd (HandlerLogin ref_api log_redis 11 (login_js 1 ''pa'') (ex_state\<lparr>user_conn_map := [(1, 10)]\<rparr>)))
     @ [(10, json_text (chat_js 1))]"
  using stale_connection_gets_messages [OF ref_server login_request_ex [of 1 "''pa''"],
      of "ex_state\<lparr>user_conn_map := [(1, 10)]\<rparr>" 10 "chat_js 1" "chat_js 1" log_redis 11 12] texts_ok_ex
  by (simp add: Let_def)





text \<open>C13: no sequence of events makes a thread lock \<open>conn_mtx_\<close> while it holds it, and the mutex is free
between any two callbacks, also after a callback that threw.\<close>

theorem mutex_discipline:
  assumes "reachable api rapi s0 p" and "\<not> conn_mtx s0"
  shows "\<not> conn_mtx (state_of_process p) \<and> (\<forall>s. p \<noteq> Terminated Mutex_relocked s)"
  by (rule reachable_unlocked [OF assms])

theorem mutex_discipline_witness:
  "\<not> conn_mtx (snd (run_event ref_api log_redis (Message 12 ''{}'') ex_state))"
  using mutex_discipline [OF reachable_one [of ref_api log_redis ex_state "Message 12 ''{}''"]]
  by (simp add: state_of_process_one)



text \<open>C15: a registration whose statement has 1024 characters or more writes past the end of the buffer
\<open>sql\<close>: undefined behaviour, triggered by any client.\<close>

theorem registration_overflow:
  assumes "field_string ''name'' js = Inr (name, js1)" and "field_string ''password'' js1 = Inr (pwd, js2)"
    and "1024 \<le> length (insert_user_text name pwd)"
  shows "HandlerRegister api conn js s = (Inl (Undefined_behaviour ''sprintf past the end of sql''), s)"
  by (rule HandlerRegister_overflow [OF assms])

theorem registration_overflow_witness:
  "fst (HandlerRegister ref_api 11 (register_js (replicate 1024 CHR ''a'') ''pd'') ex_state) =
     Inl (Undefined_behaviour ''sprintf past the end of sql'')"
  using registration_overflow [OF field_register_ex, of "replicate 1024 CHR ''a''" "''pd''" ref_api 11 ex_state]
  by (simp add: insert_user_text_def c_str_replicate)

text \<open>C16: a group message reaches nobody: \<open>GetOtherGroupMembers\<close> sends a misspelt query, gets an empty
list, and the handler sends, publishes and stores nothing.\<close>

theorem group_chat_reaches_nobody:
  assumes "sql_server api view" and "field_int ''id'' js = Inr (i, js1)"
    and "field_int ''groupid'' js1 = Inr (g, js2)" and "\<not> conn_mtx s"
  shows "fst (HandlerGroupChat api rapi conn js s) = Inr () \<and>
    sends (snd (HandlerGroupChat api rapi conn js s)) = sends s \<and>
    redis (snd (HandlerGroupChat api rapi conn js s)) = redis s \<and>
    view (db (snd (HandlerGroupChat api rapi conn js s))) = view (db s)"
  by (rule chat_database.group_chat_run [OF chat_database.intro [OF assms(1)] assms(2-4)])

theorem group_chat_reaches_nobody_witness:
  "sends (snd (HandlerGroupChat ref_api log_redis 12 (group_js 2 1) ex_state)) = []"
  using group_chat_reaches_nobody [OF ref_server field_group_ex, of 2 1 ex_state log_redis 12] by simp

text \<open>C17: a login with id -1 and an empty password succeeds without any account, since \<open>UserDAO::Query\<close>
returns the default entity for an unknown id.\<close>

theorem default_user_logs_in:
  assumes "sql_server api view" and "login_request js (- 1) []" and "tables_ok (view (db s))" and "\<not> conn_mtx s"
    and "map_of (t_user (view (db s))) (- 1) = None"
    and "texts_ok (- 1) (stmt_update (Update_state ''online'' (- 1)) (view (db s)))"
  shows "fst (HandlerLogin api rapi conn js s) = Inr () \<and>
    sends (snd (HandlerLogin api rapi conn js s)) =
      sends s @ [(conn, json_text (login_response (- 1) (stmt_update (Update_state ''online'' (- 1)) (view (db s)))))] \<and>
    user_conn_map (snd (HandlerLogin api rapi conn js s)) = umap_insert (- 1) conn (user_conn_map s)"
proof -
  have "find_user (- 1) (view (db s)) = UserEntity_default"
    using assms(5) by (simp add: find_user_def)
  then show ?thesis
    using chat_database.login_success_run [OF chat_database.intro [OF assms(1)] assms(2) _ assms(3,4) _ _ _ assms(6)]
    by (simp add: UserEntity_default_def)
qed

theorem default_user_logs_in_witness:
  "user_conn_map (snd (HandlerLogin ref_api log_redis 11 (login_js (- 1) []) ex_state)) = umap_insert (- 1) 11 [(2, 12)]"
  using default_user_logs_in [OF ref_server login_request_ex [of "- 1" "[]"], of ex_state log_redis 11] texts_ok_default
  by simp

text \<open>The friend list sent at a login contains a friend added before, with the state of that user.\<close>

theorem added_friend_listed:
  assumes "sql_server api view" and "field_int ''userid'' js = Inr (i, js1)"
    and "field_int ''friendid'' js1 = Inr (f, js2)" and "map_of (t_user (view (db s))) f = Some (n, p, st)"
  shows "let s1 = snd (HandlerAddFriend api conn js s) in
    fst (HandlerAddFriend api conn js s) = Inr () \<and> sends s1 = sends s \<and>
    UserEntity_default\<lparr>user_id := f, user_name := n, user_state := st\<rparr> \<in> set (friends_of i (view (db s1)))"
  using chat_database.add_friend_run [OF chat_database.intro [OF assms(1)] assms(2,3), of conn s]
    friends_of_insert [OF assms(4)]
  by (simp add: Let_def)

theorem added_friend_listed_witness:
  "UserEntity_default\<lparr>user_id := 3, user_name := ''eve'', user_state := ''online''\<rparr>
     \<in> set (friends_of 2 (rd_tables (db (snd (HandlerAddFriend ref_api 12 (friend_js 2 3) ex_state)))))"
  using added_friend_listed [OF ref_server field_friend_ex, of 2 3 ex_state "''eve''" "''pe''" "''online''" 12]
  by (simp add: Let_def)

lemma OnMessage_unknown:
  assumes "json_parse buff = Inr js" and "field_int ''msgid'' js = Inr (m, js1)"
    and "m \<notin> {1, 3, 4, 6, 7, 8, 9, 10}"
  shows "OnMessage api rapi conn buff s = (Inr (), s)"
  using assms
  by (simp add: OnMessage_def bindC_run liftR_def Dispatch_def msg_handler_map_def returnC_def)



section \<open>Properties of the client\<close>

text \<open>C19: the flag of the chat menu is set exactly when the main thread is in the chat menu, in every state that a
started client reaches, whatever arrives and whatever is typed.\<close>

theorem menu_flag_invariant:
  assumes "client_started api s0" and "client_reachable api s0 p"
  shows "menus_ok (client_state_of p)"
  by (rule menus_ok_reachable [OF assms])

theorem menu_flag_invariant_witness:
  "menus_ok (client_state_of (Client_running (ex_start [] [])))"
  by (rule menu_flag_invariant [OF ex_started client_reach_init])

text \<open>C20: the main thread enters the chat menu only after waiting for a login answer, when the reader thread has
posted and the login has succeeded.\<close>

theorem chat_menu_needs_login:
  assumes "client_started api s0" and "client_reachable api s0 (Client_running s)"
    and "client_step api (Client_running s) ev p"
    and "main_at (client_state_of p) = Chat_menu" and "main_at s \<noteq> Chat_menu"
  shows "main_at s = Wait_login \<and> g_is_login_success s \<and> 0 < g_read_write_mutex s"
  using chat_menu_entry [OF _ assms(3-5)] menus_ok_reachable [OF assms(1,2)] by (simp add: client_state_of_def)

theorem chat_menu_needs_login_witness:
  "\<exists>s. client_reachable ex_sockets ex_login (Client_running s) \<and> main_at s = Wait_login \<and> g_is_login_success s"
proof -
  obtain c1 c2 c3 where run: "main_step ex_sockets ex_tm ex_login = (Inr (), c1)"
    "ReadTaskHandler_once ex_sockets c1 = (Inr (), c2)" "main_step ex_sockets ex_tm c2 = (Inr (), c3)"
    "main_at c3 = Chat_menu" "main_at c2 = Wait_login" "0 < g_read_write_mutex c2"
    by (rule ex_login_run)
  have start: "client_enabled (Main_step ex_tm) ex_login" "client_enabled (Main_step ex_tm) c2"
    using run(6) ex_login_premises(9) by (simp_all add: main_blocked_def)
  have "client_step ex_sockets (Client_running ex_login) (Main_step ex_tm) (Client_running c1)"
    by (rule client_ok [OF start(1)]) (simp add: run)
  moreover have "client_step ex_sockets (Client_running c1) Reader_step (Client_running c2)"
    by (rule client_ok) (simp_all add: run)
  ultimately have reach: "client_reachable ex_sockets ex_login (Client_running c2)"
    using client_reach_init client_reach_step by metis
  have "client_step ex_sockets (Client_running c2) (Main_step ex_tm) (Client_running c3)"
    by (rule client_ok [OF start(2)]) (simp add: run)
  moreover have "client_started ex_sockets ex_login" unfolding ex_login_def by (rule ex_started)
  ultimately have "main_at c2 = Wait_login \<and> g_is_login_success c2 \<and> 0 < g_read_write_mutex c2"
    using chat_menu_needs_login [OF _ reach] run(4,5) by (simp add: client_state_of_def)
  with reach show ?thesis by blast
qed

text \<open>C21: the commands \<open>addfriend\<close> and \<open>joingroup\<close> of a logged-in client send messages that end the server process:
the server reads fields that the client does not send, and the exception is not caught.\<close>

theorem client_command_ends_server:
  fixes c :: "'n client_state" and s :: "('d, 'r) server_state"
  defines "friend \<equiv> \<lambda>c str. add_friend_message (user_id (g_current_user c)) (atoi str)"
    and "grp \<equiv> \<lambda>c str. join_group_message (user_id (g_current_user c)) (atoi str)"
    and "crash \<equiv> type_error_create 302 ''type must be number, but is null''"
  assumes "user_ok (g_current_user c)"
    and "sent_ok api fd (message_bytes (friend c str)) (net c)" and "sent_ok api fd (message_bytes (grp c str)) (net c)"
  shows "AddFriend api t fd str c = (Inr (), with_net api fd (friend c str) c) \<and>
    server_step sapi rapi (Running s) (Message conn (message_bytes (friend c str))) (Terminated crash s) \<and>
    JoinGroup api t fd str c = (Inr (), with_net api fd (grp c str) c) \<and>
    server_step sapi rapi (Running s) (Message conn (message_bytes (grp c str))) (Terminated crash s)"
  using AddFriend_run [OF assms(4)] JoinGroup_run [OF assms(4)] assms(4-6)
    add_friend_throws [of _ "atoi str" sapi rapi conn s] join_group_throws [of _ "atoi str" sapi rapi conn s]
  by (auto simp: friend_def grp_def crash_def user_ok_def server_step_Terminated_iff run_event_def)

theorem client_command_ends_server_witness:
  "server_step ref_api log_redis (Running ex_state) (Message 12 (message_bytes (add_friend_message 1 2)))
     (Terminated (type_error_create 302 ''type must be number, but is null'') ex_state)"
proof -
  have "atoi ''2'' = 2" by code_simp
  moreover have "user_id ex_user = 1" by (simp add: ex_user_def)
  ultimately show ?thesis
    using client_command_ends_server [of "ex_client [] []" ex_sockets 3 "''2''" ex_tm ref_api log_redis ex_state 12]
    by simp
qed

text \<open>Of the messages that arrive in one buffer of the server only the first is handled: the null character
that the client sends after each message ends the input of the parser, and the rest is dropped.\<close>

theorem server_handles_first_message:
  assumes "printable j" and "float_free j"
  shows "OnMessage api rapi conn (message_bytes j @ rest) s = OnMessage api rapi conn (message_bytes j) s"
  by (rule OnMessage_first_only [OF assms])

theorem server_handles_first_message_witness:
  "OnMessage ref_api log_redis 11 (message_bytes (chat_js 2) @ message_bytes (chat_js 3)) ex_state =
     OnMessage ref_api log_redis 11 (message_bytes (chat_js 2)) ex_state"
  by (rule server_handles_first_message) (simp, simp add: chat_js_def)

text \<open>Two messages of the server that arrive in one \<open>recv\<close> end the client with a parse error; the server sends
no separator between messages.\<close>

theorem client_two_messages:
  assumes "printable j" and "float_free j"
  shows "\<exists>pos w. handle_received (json_text j @ json_text (Object m)) s = (Inl (parse_error_create 101 pos w), s)"
  by (rule two_messages_end_client [OF assms refl])

theorem client_two_messages_witness:
  "\<exists>pos w. handle_received (json_text (chat_js 1) @ json_text (Object [])) (ex_client [] []) =
     (Inl (parse_error_create 101 pos w), ex_client [] [])"
  by (rule client_two_messages) (simp, simp add: chat_js_def)



text \<open>A group message that reaches a client is not shown: the reader thread has no branch for it.\<close>

theorem group_message_not_shown:
  assumes "is_int32 i" and "is_int32 g" and "utf8_valid name" and "utf8_valid msg" and "utf8_valid time"
  shows "handle_received (json_text (group_chat_message i name g msg time)) s = (Inr (), s)"
  using assms by (intro received_group_chat printable_messages)

theorem group_message_not_shown_witness:
  "handle_received (json_text (group_chat_message 2 ''bob'' 7 ''hi'' ex_time)) (ex_client [] []) = (Inr (), ex_client [] [])"
  by (rule group_message_not_shown) (simp_all add: utf8_valid_ascii)

section \<open>Properties of the JSON library\<close>

text \<open>C23: \<open>dump_escaped\<close> without \<open>ensure_ascii\<close> writes the reference escaping of every valid UTF-8 string,
for each error handler: flushing the 512-byte buffer loses and repeats nothing.\<close>

theorem dump_escaped_reference:
  assumes "utf8_valid s"
  shows "dump_escaped eh False s = Inr (escape_string s)"
  by (rule dump_escaped_valid [OF assms])

theorem dump_escaped_reference_witness:
  "dump_escaped strict False [CHR ''a'', CHR 0x0A, CHR 0xC3, CHR 0xA4] =
     Inr (escape_string [CHR ''a'', CHR 0x0A, CHR 0xC3, CHR 0xA4])"
  by (rule dump_escaped_reference) code_simp

text \<open>The strict error handler accepts exactly the valid UTF-8 strings and reports all others as
\<open>type_error.316\<close>; the other two handlers accept every string. In no case is the buffer overrun.\<close>

theorem dump_escaped_strict_iff:
  "(if utf8_valid s then \<exists>t. dump_escaped eh ascii s = Inr t
    else if eh = strict then \<exists>w. dump_escaped eh ascii s = Inl (type_error_create 316 w)
    else \<exists>t. dump_escaped eh ascii s = Inr t)"
  using dump_escaped_valid_any [of s eh ascii] dump_escaped_strict_invalid [of s ascii]
    dump_escaped_lenient [of eh ascii s]
  by simp

text \<open>\<open>dump_integer\<close> writes the decimal representation of every 64-bit integer but the smallest one, into
the 64-byte buffer without leaving it.\<close>

theorem dump_integer_decimal:
  assumes "length buffer = 64" and "- (2 ^ 63) < x" and "x < 2 ^ 64"
  shows "dump_integer buffer x = Inr (show_int x)"
  by (rule dump_integer_show [OF assms])

theorem dump_integer_decimal_witness:
  "dump_integer (replicate 64 CHR 0x00) (- 12345) = Inr (show_int (- 12345))"
  by (rule dump_integer_decimal) simp_all

text \<open>C24: \<open>dump()\<close> with its default arguments writes the reference text of every printable value.\<close>

theorem dump_reference:
  assumes "printable v"
  shows "dump_default v = Inr (json_text v)"
  by (rule dump_default_text [OF assms])

theorem dump_reference_witness:
  "dump_default (chat_js 1) = Inr (json_text (chat_js 1))"
  by (rule dump_reference) simp

text \<open>C25: \<open>json::parse(v.dump()) == v\<close> for every well-formed value without floats whose strings are UTF-8.\<close>

theorem dump_parse_round_trip:
  assumes "printable v" and "float_free v" and "json_ok v"
  shows "\<exists>t w. dump_default v = Inr t \<and> json_parse t = Inr w \<and> json_eq v w"
  using dump_default_text [OF assms(1)] json_parse_text [OF assms(1,2)] json_eq_reparse(1) [OF float_free_comparable(1) [OF assms(2)] assms(3)] by blast

theorem dump_parse_round_trip_witness:
  "\<exists>t w. dump_default (chat_js 1) = Inr t \<and> json_parse t = Inr w \<and> json_eq (chat_js 1) w"
  by (rule dump_parse_round_trip) (simp, simp add: chat_js_def, simp add: chat_js_def omap_ok_def is_uint64_def)


text \<open>A value that was parsed and has neither floats nor the smallest 64-bit integer can be written, and the text
parses to an equal value: forwarding a message does not change it.\<close>

theorem parsed_value_forwarded:
  assumes "json_parse s = Inr v" and "float_free v" and "no_int_min v"
  shows "\<exists>w. dump_default v = Inr (json_text v) \<and> json_parse (json_text v) = Inr w \<and> json_eq v w \<and>
    json_text w = json_text v"
  using forward_parsed [OF assms] by blast

theorem parsed_value_forwarded_witness:
  "\<exists>w. json_parse (json_text (Object [(''msgid'', Number_unsigned 2)])) = Inr w \<and>
     json_eq (Object [(''msgid'', Number_unsigned 2)]) w"
  using parsed_value_forwarded [OF parse_ack] by auto

text \<open>C27: an integer token of the lexer is exact and in the range of its type: the text it has collected is the decimal
representation of its value, and the text of a string token is UTF-8.\<close>

theorem tokens_exact:
  "number_exact (fst (scan lx)) (snd (scan lx)) \<and> token_ok (fst (scan lx)) (snd (scan lx))"
  by (simp add: number_exact_scan [OF prod.collapse [symmetric]] token_ok_scan [OF prod.collapse [symmetric]])

text \<open>C28: every call of \<open>scan\<close> leaves fewer characters than before, unless it reports the end of the input or an error;
it never gives characters back beyond the one it looked ahead.\<close>

theorem scan_progress:
  "if stuck (fst (scan lx)) then avail (snd (scan lx)) \<le> avail lx else avail (snd (scan lx)) < avail lx"
  using avail_scan [of lx] by simp

text \<open>C29: \<open>from_msgpack(to_msgpack(v))\<close> gives \<open>v\<close> back, floats included (NaN with its bits), for every value
  whose strings, arrays and objects have lengths below \<open>2 ^ 32\<close>. A non-negative \<open>number_integer\<close> comes back as
  \<open>number_unsigned\<close>; without NaN the result compares equal to \<open>v\<close>.\<close>

theorem msgpack_round_trip:
  assumes "json_ok v" and "sized (2 ^ 32 - 1) v"
  shows "from_msgpack only allow (to_msgpack v) = Inr (reparse v) \<and> (comparable v \<longrightarrow> json_eq v (reparse v))"
  using from_to_msgpack [OF assms] json_eq_reparse(1) assms(1) by blast

theorem msgpack_round_trip_witness:
  "from_msgpack True True (to_msgpack (Object [(''a'', Array [Number_integer (- 33), Number_unsigned 300, Number_float 1, Null])])) =
     Inr (Object [(''a'', Array [Number_integer (- 33), Number_unsigned 300, Number_float 1, Null])]) \<and>
   to_msgpack (Number_integer (- 33)) = bytes [0xD0, 0xDF]"
proof -
  have "to_msgpack (Number_integer (- 33)) = bytes [0xD0, 0xDF]" by code_simp
  then show ?thesis
    using msgpack_round_trip [of "Object [(''a'', Array [Number_integer (- 33), Number_unsigned 300, Number_float 1, Null])]" True True]
    by (simp add: omap_ok_Cons is_int64_def is_uint64_def)
qed

text \<open>C30: \<open>from_cbor(to_cbor(v))\<close> gives \<open>v\<close> back, floats included, for every value whose containers respect
  \<open>max_size()\<close>, up to the kind of a non-negative integer.\<close>

theorem cbor_round_trip:
  assumes "json_ok v" and "sized (json_max_size object_t) v"
  shows "from_cbor only allow (to_cbor v) = Inr (reparse v) \<and> (comparable v \<longrightarrow> json_eq v (reparse v))"
  using from_to_cbor [OF assms] json_eq_reparse(1) assms(1) by blast

theorem cbor_round_trip_witness:
  "from_cbor True True (to_cbor (Array [String ''ab'', Object [(''k'', Boolean True)], Number_integer (- 500)])) =
     Inr (Array [String ''ab'', Object [(''k'', Boolean True)], Number_integer (- 500)]) \<and>
   to_cbor (Number_integer (- 500)) = bytes [0x39, 0x01, 0xF3]"
proof -
  have "to_cbor (Number_integer (- 500)) = bytes [0x39, 0x01, 0xF3]" by code_simp
  then show ?thesis
    using cbor_round_trip [of "Array [String ''ab'', Object [(''k'', Boolean True)], Number_integer (- 500)]" True True]
    by (simp add: omap_ok_Cons is_int64_def json_max_size_def)
qed

text \<open>A CBOR negative integer below the range of \<open>int64_t\<close> is not rejected: the initial byte \<open>0x3B\<close> and a
  number \<open>n\<close> with \<open>2 ^ 63 \<le> n\<close> stand for \<open>- 1 - n\<close> and are read as the non-negative \<open>2 ^ 64 - 1 - n\<close>.\<close>

theorem cbor_large_negative_wraps:
  assumes "2 ^ 63 \<le> n" and "n < 2 ^ 64"
  shows "from_cbor only allow (to_char_type 0x3B # write_number 8 False n) = Inr (Number_integer (2 ^ 64 - 1 - n)) \<and>
    0 \<le> 2 ^ 64 - 1 - n"
  using reads_document [OF read_cbor_large_negative [OF assms]] assms(2) by (simp add: from_cbor_def)

theorem cbor_large_negative_wraps_witness:
  "from_cbor True True (to_char_type 0x3B # write_number 8 False (2 ^ 64 - 1)) = Inr (Number_integer 0)"
  using cbor_large_negative_wraps [of "2 ^ 64 - 1" True True] by simp

text \<open>C31: \<open>to_bson\<close> writes an object whose keys contain no NUL character, whose strings are shorter than
  \<open>2 ^ 31 - 1\<close> and whose unsigned numbers fit \<open>int64_t\<close>; the size that \<open>calc_bson_object_size\<close> computes before
  is the number of bytes written, and \<open>from_bson\<close> gives the object back with signed integers, equal to the
  original for \<open>operator==\<close>.\<close>

theorem bson_round_trip:
  assumes "json_ok (Object m)" and "bson_fits (Object m)"
  shows "\<exists>out. to_bson (Object m) = Inr out \<and> calc_bson_object_size m = Inr (length out) \<and>
    from_bson only allow out = Inr (bson_form (Object m)) \<and>
    (comparable (Object m) \<longrightarrow> json_eq (Object m) (bson_form (Object m)))"
  using to_bson_written [OF assms] json_eq_bson_form(1) [OF _ assms] by blast

theorem bson_round_trip_witness:
  "\<exists>out. to_bson (Object [(''n'', Number_unsigned 7), (''s'', String ''x'')]) = Inr out \<and>
     calc_bson_object_size [(''n'', Number_unsigned 7), (''s'', String ''x'')] = Inr (length out) \<and>
     from_bson True True out = Inr (Object [(''n'', Number_integer 7), (''s'', String ''x'')])"
proof -
  have "json_ok (Object [(''n'', Number_unsigned 7), (''s'', String ''x'')])"
    "bson_fits (Object [(''n'', Number_unsigned 7), (''s'', String ''x'')])"
    by code_simp+
  from bson_round_trip [OF this, of True True] show ?thesis by auto
qed

text \<open>C32: \<open>to_ubjson\<close>, in each of its three ways to write containers, writes a value whose unsigned numbers fit
\<open>int64_t\<close> and whose containers respect \<open>max_size()\<close>, and \<open>from_ubjson\<close> gives it back with the integer type that
belongs to the number; the result is equal to the original for \<open>operator==\<close>.\<close>

theorem ubjson_round_trip:
  assumes "json_ok v" and "ubjson_fits v" and "use_type \<longrightarrow> use_size"
  shows "\<exists>out. to_ubjson v use_size use_type = Inr out \<and> from_ubjson only allow out = Inr (ubjson_form v) \<and>
    (comparable v \<longrightarrow> json_eq v (ubjson_form v))"
  using from_to_ubjson [OF assms, of only allow] json_eq_ubjson_form(1) [OF _ assms(1,2)] by auto

theorem ubjson_round_trip_witness:
  "\<exists>out. to_ubjson (Array [Object [(''k'', Number_unsigned 200)], Object [(''k'', Number_integer (- 1))]]) True True = Inr out \<and>
     out = ''[${#'' @ bytes [0x69, 2, 0x24, 0x55, 0x23, 0x69, 1, 0x69, 1, 0x6B, 200, 0x24, 0x69, 0x23, 0x69, 1, 0x69, 1, 0x6B, 0xFF] \<and>
     from_ubjson True True out = Inr (Array [Object [(''k'', Number_unsigned 200)], Object [(''k'', Number_integer (- 1))]])"
proof -
  let ?v = "Array [Object [(''k'', Number_unsigned 200)], Object [(''k'', Number_integer (- 1))]]"
  have "json_ok ?v" by code_simp
  moreover have "ubjson_fits ?v" by (simp add: json_max_size_def)
  moreover have "to_ubjson ?v True True = Inr (''[${#'' @ bytes [0x69, 2, 0x24, 0x55, 0x23, 0x69, 1, 0x69, 1, 0x6B, 200, 0x24, 0x69, 0x23, 0x69, 1, 0x69, 1, 0x6B, 0xFF])"
    by code_simp
  moreover have "ubjson_form ?v = ?v" by code_simp
  ultimately show ?thesis using ubjson_round_trip [of ?v True True True True] by auto
qed

section \<open>JSON pointer, flatten, patch and merge patch\<close>

text \<open>C33: parsing the text of a pointer gives its tokens back, whatever characters they contain, and a text that
\<open>split\<close> accepts is the text of the tokens it gives: \<open>to_string\<close> and \<open>split\<close> are inverse to each other.\<close>

theorem pointer_round_trip:
  "split (to_string ts) = Inr ts \<and> (split s = Inr us \<longrightarrow> to_string us = s)"
  by (simp add: to_string_split)

theorem pointer_round_trip_witness:
  "split ''/a~1b/~01/'' = Inr [''a/b'', ''~1'', []] \<and> to_string [''a/b'', ''~1'', []] = ''/a~1b/~01/''"
proof -
  have "to_string [''a/b'', ''~1'', []] = ''/a~1b/~01/''" by code_simp
  then show ?thesis
    using pointer_round_trip [of "[''a/b'', ''~1'', []]" "''/a~1b/~01/''" "[''a/b'', ''~1'', []]"] by metis
qed

text \<open>C34: \<open>unflatten\<close> gives back a value that was flattened, for every value without empty containers and without a
member \<open>0\<close>. The second condition is needed, though no comment mentions it: \<open>{"0": 1}\<close> comes back as \<open>[1]\<close>.\<close>

theorem flatten_round_trip:
  assumes "json_ok v" and "flattenable v"
  shows "unflatten (json_flatten v) = Inr v \<and>
    unflatten (json_flatten (Object [(''0'', Number_unsigned 1)])) = Inr (Array [Number_unsigned 1])"
proof -
  have "unflatten (json_flatten (Object [(''0'', Number_unsigned 1)])) = Inr (Array [Number_unsigned 1])"
    by code_simp
  with unflatten_flatten [OF assms] show ?thesis by simp
qed

theorem flatten_round_trip_witness:
  "unflatten (json_flatten (Object [(''a/b'', Array [Null, Object [([], Boolean True)]]), (''c'', String ''x'')])) =
     Inr (Object [(''a/b'', Array [Null, Object [([], Boolean True)]]), (''c'', String ''x'')]) \<and>
   json_flatten (Object [(''a/b'', Array [Null, Object [([], Boolean True)]]), (''c'', String ''x'')]) =
     Object [(''/a~1b/0'', Null), (''/a~1b/1/'', Boolean True), (''/c'', String ''x'')]"
proof -
  have "json_flatten (Object [(''a/b'', Array [Null, Object [([], Boolean True)]]), (''c'', String ''x'')]) =
      Object [(''/a~1b/0'', Null), (''/a~1b/1/'', Boolean True), (''/c'', String ''x'')]"
    by code_simp
  moreover have "json_ok (Object [(''a/b'', Array [Null, Object [([], Boolean True)]]), (''c'', String ''x'')])"
    "flattenable (Object [(''a/b'', Array [Null, Object [([], Boolean True)]]), (''c'', String ''x'')])"
    by code_simp+
  ultimately show ?thesis using flatten_round_trip by blast
qed

text \<open>C35: applying \<open>diff(source, target)\<close> as a patch to \<open>source\<close> succeeds and gives a value equal to \<open>target\<close> for
\<open>operator==\<close>, for every \<open>source\<close> and every \<open>target\<close> without a NaN or a discarded value.\<close>

theorem diff_patch_round_trip:
  assumes "json_ok source" and "json_ok target" and "comparable target" and "indexable source" and "indexable target"
  shows "\<exists>r. json_patch (json_diff source target) source = Inr r \<and> json_eq r target"
  by (rule patch_of_diff [OF assms])

theorem diff_patch_round_trip_witness:
  "\<exists>r. json_patch (json_diff (Object [(''a'', Array [Null, Boolean True, String ''x'']), (''b'', Null)])
       (Object [(''a'', Array [Boolean True]), (''c'', Number_integer 1)]))
       (Object [(''a'', Array [Null, Boolean True, String ''x'']), (''b'', Null)]) = Inr r \<and>
     json_eq r (Object [(''a'', Array [Boolean True]), (''c'', Number_integer 1)]) \<and>
   json_diff (Object [(''a'', Array [Null, Boolean True, String ''x'']), (''b'', Null)])
       (Object [(''a'', Array [Boolean True]), (''c'', Number_integer 1)]) =
     Array [replace_entry ''/a/0'' (Boolean True), remove_entry ''/a/2'', remove_entry ''/a/1'', remove_entry ''/b'',
       add_entry ''/c'' (Number_integer 1)]"
proof -
  let ?s = "Object [(''a'', Array [Null, Boolean True, String ''x'']), (''b'', Null)]"
  let ?t = "Object [(''a'', Array [Boolean True]), (''c'', Number_integer 1)]"
  have "json_ok ?s" "json_ok ?t" "comparable ?t" "indexable ?s" "indexable ?t" by code_simp+
  moreover have "json_diff ?s ?t = Array [replace_entry ''/a/0'' (Boolean True), remove_entry ''/a/2'',
      remove_entry ''/a/1'', remove_entry ''/b'', add_entry ''/c'' (Number_integer 1)]"
    by code_simp
  ultimately show ?thesis using diff_patch_round_trip by blast
qed

text \<open>A patch that adds an element below a boolean, a number or a string reaches the \<open>assert(false)\<close> of
\<open>operation_add\<close>, whose comment says that this cannot happen.\<close>

theorem patch_add_below_scalar:
  assumes "reaches ts R" and "json_type w \<notin> {null_t, object_t, array_t}"
  shows "json_patch (Array [add_entry (to_string ts @ ''/'' @ escape t) v]) (R w) = Inl (Assertion_failed ''false'')"
  using add_below_scalar [OF assms] by (simp add: json_patch_def seqC_def bindC_run)

theorem patch_add_below_scalar_witness:
  "json_patch (Array [add_entry ''/a/b'' Null]) (Object [(''a'', Boolean True)]) = Inl (Assertion_failed ''false'')"
proof -
  have "reaches [''a''] (\<lambda>w. Object [(''a'', w)])"
    using reaches_key [OF reaches_root, of "''a''" "[(''a'', Null)]"] by simp
  moreover have "to_string [''a''] @ ''/'' @ escape ''b'' = ''/a/b''" by code_simp
  ultimately show ?thesis
    using patch_add_below_scalar [of "[''a'']" "\<lambda>w. Object [(''a'', w)]" "Boolean True" "''b''" Null] by simp
qed

text \<open>C36: \<open>merge_patch\<close> with an object does what RFC 7396 says of each member: a member of the patch that is null
removes the member of the target, any other is merged into it, and the members that the patch does not name stay; a
target that is no object counts as an empty one. Applying the same patch again changes nothing.\<close>

theorem merge_patch_rfc:
  assumes "json_ok (Object p)" and "json_ok j"
  shows "\<exists>m. merge_patch (Object p) j = Object m \<and> omap_ok m \<and>
    (\<forall>k. map_of m k =
       (let old = json_find k j in
        case map_of p k of
          None \<Rightarrow> old
        | Some v \<Rightarrow> if v = Null then None else Some (merge_patch v (case old of Some u \<Rightarrow> u | None \<Rightarrow> Null)))) \<and>
    merge_patch (Object p) (merge_patch (Object p) j) = merge_patch (Object p) j"
proof -
  let ?m = "case j of Object m \<Rightarrow> m | _ \<Rightarrow> []"
  have "omap_ok p" "omap_ok ?m" using assms by (auto split: json.splits)
  moreover have "map_of ?m = (\<lambda>k. json_find k j)" by (cases j) (simp_all add: json_find_def)
  ultimately have "merge_patch (Object p) j = Object (merge_members p ?m)" "omap_ok (merge_members p ?m)"
    "\<forall>k. map_of (merge_members p ?m) k = merged (map_of p k) (json_find k j)"
    by (simp_all add: omap_ok_merge map_of_merge_members omap_ok_distinct)
  then show ?thesis using merge_patch_twice [OF assms] by (auto simp: merged_def Let_def)
qed

theorem merge_patch_rfc_witness:
  "merge_patch (Object [(''a'', Null), (''b'', Object [(''c'', Boolean True)])]) (Object [(''a'', String ''x''), (''d'', Null)]) =
     Object [(''b'', Object [(''c'', Boolean True)]), (''d'', Null)] \<and>
   merge_patch (Object [(''a'', Null), (''b'', Object [(''c'', Boolean True)])])
       (Object [(''b'', Object [(''c'', Boolean True)]), (''d'', Null)]) =
     Object [(''b'', Object [(''c'', Boolean True)]), (''d'', Null)]"
proof -
  let ?p = "[(''a'', Null), (''b'', Object [(''c'', Boolean True)])]" and ?j = "Object [(''a'', String ''x''), (''d'', Null)]"
  have "json_ok (Object ?p)" "json_ok ?j" by code_simp+
  then have "merge_patch (Object ?p) (merge_patch (Object ?p) ?j) = merge_patch (Object ?p) ?j"
    using merge_patch_rfc by blast
  moreover have "merge_patch (Object ?p) ?j = Object [(''b'', Object [(''c'', Boolean True)]), (''d'', Null)]" by code_simp
  ultimately show ?thesis by simp
qed

section \<open>Parser events: \<open>accept\<close> and callbacks\<close>

text \<open>C37: \<open>accept\<close> never throws, and it returns true for exactly the texts that \<open>parse\<close> reads without an
  exception, numbers out of range and invalid UTF-8 included.\<close>

theorem accept_agrees_with_parse: "json_accept s = Inr (case json_parse s of Inl _ \<Rightarrow> False | Inr _ \<Rightarrow> True)"
  by (rule accept_iff_parse)

text \<open>C38: no callback, whatever it answers and however it changes the elements it is shown, decides which
  texts are accepted: \<open>parse\<close> with a callback throws exactly when \<open>parse\<close> does, and the same exception. So no
  assertion of \<open>json_sax_dom_callback_parser\<close> fails and no element pointer dangles. Without exceptions, the
  result is \<open>discarded\<close> for the same texts.\<close>

theorem callback_errors_of_parse:
  "case json_parse_with allow s of
     Inl e \<Rightarrow> json_parse_callback f c allow s = Inl e
   | Inr j \<Rightarrow> \<exists>j' c'. json_parse_callback f c allow s = Inr (j', c') \<and> (j' = Discarded \<longleftrightarrow> j = Discarded)"
  by (rule callback_same_errors)

text \<open>C39: with a callback that keeps every element and changes none, \<open>parse\<close> returns the same value, or throws
  the same exception, as without a callback, whatever the callback records.\<close>

theorem keeping_callback_parses:
  assumes "keeping f"
  shows "mapR fst (json_parse_callback f c allow s) = json_parse_with allow s"
  by (rule keeping_callback_result [OF assms])

text \<open>The callback of the witness counts the elements.\<close>

theorem keeping_callback_parses_witness:
  "keeping (\<lambda>_ _ v n. (True, v, Suc n)) \<and>
   json_parse_callback (\<lambda>_ _ v n. (True, v, Suc n)) 0 True ''[1,{}]'' = Inr (Array [Number_unsigned 1, Object []], 5) \<and>
   json_parse ''[1,{}]'' = Inr (Array [Number_unsigned 1, Object []])"
proof -
  let ?f = "\<lambda>_ _ v n. (True, v, Suc n)"
  have keep: "keeping ?f" by (simp add: keeping_def)
  have run: "json_parse_callback ?f 0 True ''[1,{}]'' = Inr (Array [Number_unsigned 1, Object []], 5)" by code_simp
  have "json_parse_with True ''[1,{}]'' = Inr (Array [Number_unsigned 1, Object []])"
    using keeping_callback_parses [OF keep, of 0 True "''[1,{}]''"] unfolding run by simp
  then show ?thesis using keep run by (simp add: json_parse_with_def)
qed

text \<open>A member whose value the callback rejects stays in the object as \<open>discarded\<close>, which \<open>dump\<close> writes as
  \<open><discarded>\<close>; it is erased only when a later member of the same object is an object itself.\<close>

theorem rejected_member_stays:
  "json_parse_callback (\<lambda>_ ev v c. (\<not> (ev = Ev_value \<and> v = Null), v, c)) () True
     (''{\"a\":null}'') = Inr (Object [(''a'', Discarded)], ())"
  "json_parse_callback (\<lambda>_ ev v c. (\<not> (ev = Ev_value \<and> v = Null), v, c)) () True
     (''{\"a\":null,\"b\":{}}'') = Inr (Object [(''b'', Object [])], ())"
  by code_simp+

section \<open>Wide strings\<close>

text \<open>C40: a string of Unicode scalar values is read alike in UTF-16, in UTF-32 and as a buffer with its UTF-8
  encoding, character by character and for any number of characters, the end of the input included; the encoding
  is valid UTF-8.\<close>

theorem wide_strings_are_utf8:
  assumes "\<forall>cp \<in> set cps. scalar_value cp"
  shows "read_characters (wide_get_character fill_buffer_16) n (wide_init (concat (map utf16 cps))) =
      read_characters buffer_get_character n (utf8_text cps) \<and>
    read_characters (wide_get_character fill_buffer_32) n (wide_init cps) =
      read_characters buffer_get_character n (utf8_text cps) \<and>
    utf8_valid (utf8_text cps)"
  using wide_characters [OF assms] by blast

theorem wide_strings_are_utf8_witness:
  "read_characters (wide_get_character fill_buffer_16) 9 (wide_init [0x24, 0x20AC, 0xD83D, 0xDE00]) =
     Inr [0x24, 0xE2, 0x82, 0xAC, 0xF0, 0x9F, 0x98, 0x80, -1] \<and>
   utf8_valid (utf8_text [0x24, 0x20AC, 0x1F600])"
proof -
  have "\<forall>cp \<in> set [0x24, 0x20AC, 0x1F600]. scalar_value cp" by (simp add: scalar_value_def)
  note wide = wide_strings_are_utf8 [OF this]
  have "concat (map utf16 [0x24, 0x20AC, 0x1F600]) = [0x24, 0x20AC, 0xD83D, 0xDE00]" by code_simp
  moreover have "read_characters buffer_get_character 9 (utf8_text [0x24, 0x20AC, 0x1F600]) =
      Inr [0x24, 0xE2, 0x82, 0xAC, 0xF0, 0x9F, 0x98, 0x80, -1]" by code_simp
  ultimately show ?thesis using wide [of 9] by metis
qed

end
